(* ===== verification/Prelude.thy ===== *)
theory Prelude
  imports Complex_Main "HOL-Library.AList" "HOL-Library.Char_ord" "HOL-Library.List_Lexorder"
    "HOL-Library.Product_Lexorder"
begin

text \<open>
  What every component shares: the reading of Python values as HOL types, association lists as
  insertion-ordered dictionaries, the string operations the parsers use, and the sliding-window
  interface of the rate limiters.

  Conventions. A Python \<^verbatim>\<open>str\<close> that is an identifier or a configuration text is a
  \<open>string\<close> whose characters are the code points 0 to 255; message texts, where the code looks at
  larger code points, are lists of code points (\<open>utext\<close>). Python's unbounded integers are \<open>int\<close>,
  clock readings and amounts (Python floats) are exact rationals, \<^verbatim>\<open>None\<close> is \<open>None\<close>, a
  raised exception is the left side of a sum.
\<close>

named_theorems dict_simps \<open>lookups in insertion-ordered dictionaries\<close>
named_theorems bool_guards \<open>guards of the components, unfolded\<close>

type_synonym cred_id = string
type_synonym provider_id = string
type_synonym model_name = string
type_synonym seconds = rat
type_synonym epoch = int
type_synonym utext = "nat list"

section \<open>Insertion-ordered dictionaries\<close>

text \<open>
  A Python dictionary whose order matters is an association list with distinct keys. Assignment
  replaces in place or appends (\<open>AList.update\<close>); deletion keeps the order of the rest.
\<close>

type_synonym ('k, 'v) odict = "('k \<times> 'v) list"

abbreviation od_get :: "('k, 'v) odict \<Rightarrow> 'k \<Rightarrow> 'v option" where
  "od_get d k \<equiv> map_of d k"

definition od_keys :: "('k, 'v) odict \<Rightarrow> 'k list" where
  "od_keys d = map fst d"

definition od_wf :: "('k, 'v) odict \<Rightarrow> bool" where
  "od_wf d \<longleftrightarrow> distinct (od_keys d)"

definition od_set :: "'k \<Rightarrow> 'v \<Rightarrow> ('k, 'v) odict \<Rightarrow> ('k, 'v) odict" where
  "od_set k v d = AList.update k v d"

definition od_del :: "'k \<Rightarrow> ('k, 'v) odict \<Rightarrow> ('k, 'v) odict" where
  "od_del k d = filter (\<lambda>p. fst p \<noteq> k) d"

text \<open>\<^verbatim>\<open>d.pop(k, None); d[k] = v\<close>: the entry moves to the end.\<close>

definition od_touch :: "'k \<Rightarrow> 'v \<Rightarrow> ('k, 'v) odict \<Rightarrow> ('k, 'v) odict" where
  "od_touch k v d = od_del k d @ [(k, v)]"

lemma od_get_set [dict_simps, simp]: "od_get (od_set k v d) k' = (if k = k' then Some v else od_get d k')"
  by (simp add: od_set_def update_conv')

lemma od_get_del [dict_simps, simp]: "od_get (od_del k d) k' = (if k = k' then None else od_get d k')"
  by (induction d) (auto simp: od_del_def)

lemma od_get_touch [dict_simps, simp]:
  "od_get (od_touch k v d) k' = (if k = k' then Some v else od_get d k')"
  by (auto simp: od_touch_def map_add_def split: option.splits)

lemma od_wf_Nil [simp]: "od_wf []"
  by (simp add: od_wf_def od_keys_def)

lemma od_wf_set [simp, intro]: "od_wf d \<Longrightarrow> od_wf (od_set k v d)"
  by (simp add: od_wf_def od_keys_def od_set_def distinct_update)

lemma od_wf_del [simp, intro]: "od_wf d \<Longrightarrow> od_wf (od_del k d)"
  by (auto simp: od_wf_def od_keys_def od_del_def distinct_map_filter)

lemma od_keys_del: "od_keys (od_del k d) = filter (\<lambda>x. x \<noteq> k) (od_keys d)"
  by (induction d) (auto simp: od_keys_def od_del_def)

lemma od_wf_touch [simp, intro]: "od_wf d \<Longrightarrow> od_wf (od_touch k v d)"
proof -
  assume "od_wf d"
  then have "distinct (od_keys (od_del k d))"
    using od_wf_del[of d k] by (simp add: od_wf_def)
  moreover have "od_keys (od_touch k v d) = od_keys (od_del k d) @ [k]"
    by (simp add: od_touch_def od_keys_def)
  ultimately show ?thesis
    by (simp add: od_wf_def od_keys_del)
qed

lemma od_get_None_iff: "od_get d k = None \<longleftrightarrow> k \<notin> set (od_keys d)"
  by (force simp: od_keys_def map_of_eq_None_iff)

lemma od_del_absent: "od_get d k = None \<Longrightarrow> od_del k d = d"
  by (induction d) (auto simp: od_del_def split: if_splits)

lemma length_od_del_le: "length (od_del k d) \<le> length d"
  by (simp add: od_del_def)

lemma length_od_touch_le: "length (od_touch k v d) \<le> Suc (length d)"
  using length_od_del_le[of k d] by (simp add: od_touch_def)

lemma length_od_del_present:
  "od_wf d \<Longrightarrow> od_get d k = Some v \<Longrightarrow> Suc (length (od_del k d)) = length d"
proof (induction d)
  case Nil
  then show ?case by simp
next
  case (Cons p d)
  show ?case
  proof (cases "fst p = k")
    case True
    then have "od_get d k = None"
      using Cons.prems(1) by (cases p) (auto simp: od_wf_def od_keys_def map_of_eq_None_iff)
    then have "od_del k d = d" by (rule od_del_absent)
    with True show ?thesis by (simp add: od_del_def)
  next
    case False
    then have "od_get d k = Some v" "od_wf d"
      using Cons.prems by (cases p; auto simp: od_wf_def od_keys_def)+
    with Cons.IH False show ?thesis by (simp add: od_del_def)
  qed
qed

section \<open>Python strings\<close>

text \<open>The code points of a literal.\<close>

definition codes :: "string \<Rightarrow> utext" where
  "codes s = map of_char s"

text \<open>\<^verbatim>\<open>str.isspace\<close> and \<^verbatim>\<open>str.lower\<close> on the code points 0 to 255.\<close>

definition is_space_code :: "nat \<Rightarrow> bool" where
  "is_space_code n \<longleftrightarrow> (9 \<le> n \<and> n \<le> 13) \<or> (28 \<le> n \<and> n \<le> 32) \<or> n = 133 \<or> n = 160"

definition is_space :: "char \<Rightarrow> bool" where
  "is_space c = is_space_code (of_char c)"

definition lower_char :: "char \<Rightarrow> char" where
  "lower_char c =
     (let n = (of_char c :: nat)
      in if (65 \<le> n \<and> n \<le> 90) \<or> (192 \<le> n \<and> n \<le> 222 \<and> n \<noteq> 215) then char_of (n + 32) else c)"

definition py_lower :: "string \<Rightarrow> string" where
  "py_lower s = map lower_char s"

definition py_lstrip :: "string \<Rightarrow> string" where
  "py_lstrip s = dropWhile is_space s"

definition py_rstrip :: "string \<Rightarrow> string" where
  "py_rstrip s = rev (dropWhile is_space (rev s))"

definition py_strip :: "string \<Rightarrow> string" where
  "py_strip s = py_rstrip (py_lstrip s)"

text \<open>\<^verbatim>\<open>s.split(c)\<close> for one separator character: always at least one piece.\<close>

fun py_split :: "'a \<Rightarrow> 'a list \<Rightarrow> 'a list list" where
  "py_split c [] = [[]]"
| "py_split c (x # xs) =
     (if x = c then [] # py_split c xs
      else (case py_split c xs of [] \<Rightarrow> [[x]] | w # ws \<Rightarrow> (x # w) # ws))"

text \<open>\<^verbatim>\<open>c.join(words)\<close> for one separator character.\<close>

fun join_sep :: "'a \<Rightarrow> 'a list list \<Rightarrow> 'a list" where
  "join_sep c [] = []"
| "join_sep c [w] = w"
| "join_sep c (w # v # ws) = w @ c # join_sep c (v # ws)"

text \<open>\<^verbatim>\<open>s.partition(c)\<close>: the part before the first separator, whether it occurs, the rest.\<close>

definition py_partition :: "'a \<Rightarrow> 'a list \<Rightarrow> 'a list \<times> bool \<times> 'a list" where
  "py_partition c s =
     (takeWhile (\<lambda>x. x \<noteq> c) s, c \<in> set s, tl (dropWhile (\<lambda>x. x \<noteq> c) s))"

text \<open>\<^verbatim>\<open>s.rpartition(c)\<close> when the separator occurs: the parts around its last occurrence.\<close>

definition py_rpartition :: "'a \<Rightarrow> 'a list \<Rightarrow> 'a list \<times> 'a list" where
  "py_rpartition c s =
     (rev (tl (dropWhile (\<lambda>x. x \<noteq> c) (rev s))), rev (takeWhile (\<lambda>x. x \<noteq> c) (rev s)))"

text \<open>\<^verbatim>\<open>str(n)\<close>.\<close>

fun dec_nat :: "nat \<Rightarrow> string" where
  "dec_nat n = (if n < 10 then [char_of (48 + n)] else dec_nat (n div 10) @ [char_of (48 + n mod 10)])"

declare dec_nat.simps [simp del]

definition py_str :: "int \<Rightarrow> string" where
  "py_str n = (if n < 0 then ''-'' @ dec_nat (nat (- n)) else dec_nat (nat n))"

lemma dec_nat_value: "foldl (\<lambda>a c. 10 * a + (of_char c - 48)) 0 (dec_nat n) = n"
proof (induction n rule: dec_nat.induct)
  case (1 n)
  show ?case
  proof (cases "n < 10")
    case True
    then show ?thesis by (subst dec_nat.simps) simp
  next
    case False
    have "48 + n mod 10 < 256" using mod_less_divisor[of 10 n] by linarith
    then have "of_char (char_of (48 + n mod 10) :: char) = 48 + n mod 10"
      by (simp only: of_char_of mod_less)
    moreover have "dec_nat n = dec_nat (n div 10) @ [char_of (48 + n mod 10)]"
      using False by (subst dec_nat.simps) simp
    ultimately have "foldl (\<lambda>a c. 10 * a + (of_char c - 48)) 0 (dec_nat n) = 10 * (n div 10) + (48 + n mod 10 - 48)"
      using 1[OF False] by (simp only: foldl_append foldl.simps)
    then show ?thesis by simp
  qed
qed

lemma dec_nat_inj: "dec_nat m = dec_nat n \<longleftrightarrow> m = n"
  by (metis dec_nat_value)

lemma dec_nat_digits: "c \<in> set (dec_nat n) \<Longrightarrow> 48 \<le> (of_char c :: nat) \<and> (of_char c :: nat) \<le> 57"
proof (induction n rule: dec_nat.induct)
  case (1 n)
  then show ?case by (subst (asm) (2) dec_nat.simps) (auto simp: of_char_of split: if_splits)
qed

lemma dec_nat_nonempty: "dec_nat n \<noteq> []"
  by (subst dec_nat.simps) simp

lemma dec_nat_length: "n < 10 ^ k \<Longrightarrow> 0 < k \<Longrightarrow> length (dec_nat n) \<le> k"
proof (induction k arbitrary: n)
  case (Suc k)
  show ?case
  proof (cases "n < 10")
    case True
    then show ?thesis by (subst dec_nat.simps) simp
  next
    case False
    then have "k \<noteq> 0" using Suc.prems(1) by (cases k) simp_all
    moreover have "n div 10 < 10 ^ k" using Suc.prems(1) by (simp add: less_mult_imp_div_less mult.commute)
    ultimately show ?thesis using Suc.IH[of "n div 10"] False by (subst dec_nat.simps) simp
  qed
qed simp

text \<open>\<^verbatim>\<open>needle in haystack\<close> on strings.\<close>

fun py_contains :: "'a list \<Rightarrow> 'a list \<Rightarrow> bool" where
  "py_contains needle [] = (needle = [])"
| "py_contains needle (x # xs) =
     (take (length needle) (x # xs) = needle \<or> py_contains needle xs)"

definition py_startswith :: "'a list \<Rightarrow> 'a list \<Rightarrow> bool" where
  "py_startswith s p \<longleftrightarrow> take (length p) s = p"

text \<open>\<^verbatim>\<open>t.replace(m, r)\<close> for a text \<open>m\<close> that is not empty: the leftmost occurrence first.\<close>

function py_replace :: "'a list \<Rightarrow> 'a list \<Rightarrow> 'a list \<Rightarrow> 'a list" where
  "py_replace m r [] = []"
| "py_replace m r (c # t) =
     (if m \<noteq> [] \<and> py_startswith (c # t) m then r @ py_replace m r (drop (length m) (c # t)) else c # py_replace m r t)"
  by pat_completeness auto

termination by (relation "measure (\<lambda>(m, r, t). length t)") auto

lemma py_contains_iff: "py_contains m t \<longleftrightarrow> (\<exists>a b. t = a @ m @ b)"
proof (induction t)
  case (Cons c t)
  have "take (length m) (c # t) = m \<longleftrightarrow> (\<exists>b. c # t = m @ b)" by (metis append_eq_conv_conj append_take_drop_id)
  then show ?case using Cons by (auto simp: Cons_eq_append_conv)
qed auto

text \<open>Texts around a character that is not in the marker cannot make up a marker.\<close>

lemma contains_empty [simp]: "py_contains [] t"
  by (cases t) auto

lemma starts_iff: "py_startswith t m \<longleftrightarrow> (\<exists>v. t = m @ v)"
proof
  assume "py_startswith t m"
  then have "t = m @ drop (length m) t" unfolding py_startswith_def by (metis append_take_drop_id)
  then show "\<exists>v. t = m @ v" ..
qed (auto simp: py_startswith_def)

lemma contains_around: "x \<notin> set m \<Longrightarrow> py_contains m (a @ x # b) \<longleftrightarrow> m = [] \<or> py_contains m a \<or> py_contains m b"
proof (induction a)
  case Nil
  then show ?case by (cases m) auto
next
  case (Cons c a)
  have "take (length m) (c # a @ x # b) = m \<longleftrightarrow> take (length m) (c # a) = m"
  proof (cases "length m \<le> length (c # a)")
    case True
    then have "take (length m) ((c # a) @ x # b) = take (length m) (c # a)" unfolding take_append by simp
    then show ?thesis by simp
  next
    case False
    then obtain k where "length m - length (c # a) = Suc k" by (metis Suc_diff_Suc not_le)
    then have "x \<in> set (take (length m) ((c # a) @ x # b))" unfolding take_append by simp
    moreover have "length (take (length m) (c # a)) < length m" using False by auto
    ultimately show ?thesis using Cons.prems by (metis append_Cons less_irrefl)
  qed
  with Cons show ?case by auto
qed

text \<open>What a replaced text starts with, up to the first character of the stand-in, the text started with.\<close>

lemma replaced_prefix: "py_replace m (x # r) t = q @ w \<Longrightarrow> x \<notin> set q \<Longrightarrow> \<exists>v. t = q @ v"
proof (induction m "x # r" t arbitrary: q rule: py_replace.induct)
  case (2 m c t)
  then show ?case by (cases q) (auto split: if_splits)
qed auto

lemma contains_drop: "py_contains m (drop n t) \<Longrightarrow> py_contains m t"
  unfolding py_contains_iff by (metis append_assoc append_take_drop_id)

text \<open>A stand-in whose ends are not in the text \<open>n\<close> makes up none of its occurrences, and of the replaced text none is left.\<close>

lemma replaced_free:
  assumes "x \<notin> set n" "y \<notin> set n" "n \<noteq> []" "\<not> py_contains n (x # r)" "n = m \<or> \<not> py_contains n t"
  shows "\<not> py_contains n (py_replace m (x # r @ [y]) t)"
  using assms
proof (induction m "x # r @ [y]" t rule: py_replace.induct)
  case (2 m c t)
  show ?case
  proof (cases "m \<noteq> [] \<and> py_startswith (c # t) m")
    case True
    let ?rest = "drop (length m) (c # t)"
    have "\<not> py_contains n (py_replace m (x # r @ [y]) ?rest)"
      using True 2(3-7) contains_drop [of n "length m" "c # t"] by (intro 2(1)) auto
    moreover have "py_contains n ((x # r) @ y # py_replace m (x # r @ [y]) ?rest) \<longleftrightarrow>
        n = [] \<or> py_contains n (x # r) \<or> py_contains n (py_replace m (x # r @ [y]) ?rest)"
      using "2.prems"(2) by (rule contains_around)
    moreover have "py_replace m (x # r @ [y]) (c # t) = (x # r) @ y # py_replace m (x # r @ [y]) ?rest"
      using True by simp
    ultimately show ?thesis using "2.prems" by metis
  next
    case False
    then have eq: "py_replace m (x # r @ [y]) (c # t) = c # py_replace m (x # r @ [y]) t" by auto
    have "\<not> py_contains n (py_replace m (x # r @ [y]) t)"
      using False 2(3-7) by (intro 2(2)) auto
    moreover have "\<not> py_startswith (c # py_replace m (x # r @ [y]) t) n"
    proof
      assume "py_startswith (c # py_replace m (x # r @ [y]) t) n"
      then obtain w where "py_replace m (x # r @ [y]) (c # t) = n @ w" using eq by (auto simp: starts_iff)
      then obtain v where v: "c # t = n @ v" using replaced_prefix 2(3) by metis
      then have "py_contains n (c # t)" by (metis append_Nil py_contains_iff)
      moreover have "py_startswith (c # t) n" using v by (auto simp: starts_iff)
      ultimately show False using False 2(5,7) by auto
    qed
    ultimately show ?thesis unfolding eq by (simp add: py_startswith_def)
  qed
qed auto

lemma py_split_not_Nil [simp]: "py_split c s \<noteq> []"
  by (induction s) (auto split: list.splits)

lemma py_partition_join:
  "c \<in> set s \<Longrightarrow> fst (py_partition c s) @ c # snd (snd (py_partition c s)) = s"
  by (induction s) (auto simp: py_partition_def)

lemma py_rpartition_join:
  assumes "c \<in> set s"
  shows "fst (py_rpartition c s) @ c # snd (py_rpartition c s) = s"
proof -
  let ?r = "rev s"
  have "c \<in> set ?r" using assms by simp
  then have "takeWhile (\<lambda>x. x \<noteq> c) ?r @ c # tl (dropWhile (\<lambda>x. x \<noteq> c) ?r) = ?r"
    using py_partition_join[of c ?r] by (simp add: py_partition_def)
  then have "rev (takeWhile (\<lambda>x. x \<noteq> c) ?r @ c # tl (dropWhile (\<lambda>x. x \<noteq> c) ?r)) = rev ?r"
    by (rule arg_cong)
  then show ?thesis by (simp add: py_rpartition_def)
qed

lemma py_rpartition_snd_free: "c \<notin> set (snd (py_rpartition c s))"
  by (auto simp: py_rpartition_def dest: set_takeWhileD)

lemma dropWhile_idem_pred: "dropWhile P (dropWhile P xs) = dropWhile P xs"
  by (induction xs) auto

section \<open>Sliding windows\<close>

text \<open>
  The rate limiters keep a queue of event times in ascending order and drop from its head what has
  left the window (\<^verbatim>\<open>while q and q[0] <= cutoff: q.popleft()\<close>).
\<close>

definition drop_expired :: "('e \<Rightarrow> rat) \<Rightarrow> rat \<Rightarrow> 'e list \<Rightarrow> 'e list" where
  "drop_expired tm cutoff q = dropWhile (\<lambda>e. tm e \<le> cutoff) q"

lemma drop_expired_sorted:
  "sorted (map tm q) \<Longrightarrow> drop_expired tm cutoff q = filter (\<lambda>e. cutoff < tm e) q"
proof (induction q)
  case Nil
  then show ?case by (simp add: drop_expired_def)
next
  case (Cons e q)
  show ?case
  proof (cases "tm e \<le> cutoff")
    case True
    with Cons show ?thesis by (auto simp: drop_expired_def)
  next
    case False
    then have "\<forall>x\<in>set q. cutoff < tm x" using Cons.prems by fastforce
    then have "filter (\<lambda>e. cutoff < tm e) q = q" by simp
    with False show ?thesis by (simp add: drop_expired_def)
  qed
qed

lemma sorted_drop_expired: "sorted (map tm q) \<Longrightarrow> sorted (map tm (drop_expired tm cutoff q))"
  by (simp add: drop_expired_sorted sorted_filter)

text \<open>
  The interface the limiters implement: a queue of timed events and an operation that forgets
  what is older than a cutoff. What a client may rely on is stated by the two laws; the client
  lemmas about counting are proved from them once.
\<close>

locale sliding_window =
  fixes tm :: "'e \<Rightarrow> rat"
    and prune :: "rat \<Rightarrow> 'e list \<Rightarrow> 'e list"
  assumes prune_exact: "sorted (map tm q) \<Longrightarrow> prune cutoff q = filter (\<lambda>e. cutoff < tm e) q"
    and prune_Nil: "prune cutoff [] = []"
begin

lemma prune_sorted: "sorted (map tm q) \<Longrightarrow> sorted (map tm (prune cutoff q))"
  by (simp add: prune_exact sorted_filter)

lemma prune_keeps_recent: "sorted (map tm q) \<Longrightarrow> e \<in> set (prune cutoff q) \<longleftrightarrow> e \<in> set q \<and> cutoff < tm e"
  by (simp add: prune_exact)

lemma prune_mono:
  "sorted (map tm q) \<Longrightarrow> c1 \<le> c2 \<Longrightarrow> length (prune c2 q) \<le> length (prune c1 q)"
proof -
  assume "sorted (map tm q)" "c1 \<le> c2"
  moreover have "length (filter (\<lambda>e. c2 < tm e) q) \<le> length (filter (\<lambda>e. c1 < tm e) q)"
    using \<open>c1 \<le> c2\<close> by (induction q) auto
  ultimately show ?thesis by (simp add: prune_exact)
qed

lemma prune_prune:
  assumes "sorted (map tm q)" "c1 \<le> c2"
  shows "prune c2 (prune c1 q) = prune c2 q"
proof -
  have "filter (\<lambda>e. c2 < tm e) (filter (\<lambda>e. c1 < tm e) q) = filter (\<lambda>e. c2 < tm e) q"
    using assms(2) by (induction q) auto
  moreover have "sorted (map tm (prune c1 q))" using assms(1) by (rule prune_sorted)
  ultimately show ?thesis using assms(1) by (simp add: prune_exact)
qed

text \<open>An event is appended only at or after the newest one, so the queue stays sorted.\<close>

lemma push_sorted:
  "sorted (map tm q) \<Longrightarrow> (\<And>x. x \<in> set q \<Longrightarrow> tm x \<le> tm e) \<Longrightarrow> sorted (map tm (prune c q @ [e]))"
  by (auto simp: prune_exact sorted_append sorted_filter)

end

interpretation drop_window: sliding_window tm "drop_expired tm" for tm :: "'e \<Rightarrow> rat"
  by unfold_locales (rule drop_expired_sorted, assumption, simp add: drop_expired_def)

section \<open>Bounded caches\<close>

text \<open>
  The in-memory tables keyed by conversation or session forget entries (by age or by count), and
  must never return anything but what was last stored under the key. The interface has a store
  and a read; the laws are about one step, the client lemmas about any sequence of stores.
\<close>

locale bounded_cache =
  fixes put :: "'k \<Rightarrow> 'v \<Rightarrow> 's \<Rightarrow> 's"
    and get :: "'s \<Rightarrow> 'k \<Rightarrow> 'v option"
    and size_of :: "'s \<Rightarrow> nat"
    and cap :: nat
    and inv :: "'s \<Rightarrow> bool"
  assumes put_inv: "inv s \<Longrightarrow> inv (put k v s)"
    and put_get: "inv s \<Longrightarrow> get (put k v s) k = Some v"
    and put_forgets: "inv s \<Longrightarrow> k' \<noteq> k \<Longrightarrow> get (put k v s) k' = None \<or> get (put k v s) k' = get s k'"
    and put_cap: "inv s \<Longrightarrow> size_of s \<le> cap \<Longrightarrow> size_of (put k v s) \<le> cap"
begin

definition puts :: "('k \<times> 'v) list \<Rightarrow> 's \<Rightarrow> 's" where
  "puts ps s = fold (\<lambda>(k, v). put k v) ps s"

lemma puts_inv: "inv s \<Longrightarrow> inv (puts ps s)"
  unfolding puts_def by (induction ps arbitrary: s) (auto intro: put_inv)

lemma puts_cap: "inv s \<Longrightarrow> size_of s \<le> cap \<Longrightarrow> size_of (puts ps s) \<le> cap"
  unfolding puts_def by (induction ps arbitrary: s) (auto intro: put_inv put_cap)

text \<open>A read returns the last value stored under the key, or what was there before, or nothing.\<close>

lemma puts_get:
  "inv s \<Longrightarrow> get (puts ps s) k = Some v \<Longrightarrow>
     (case od_get (rev ps) k of Some w \<Rightarrow> v = w | None \<Rightarrow> get s k = Some v)"
proof (induction ps arbitrary: s)
  case Nil
  then show ?case by (simp add: puts_def)
next
  case (Cons p ps)
  obtain a b where p: "p = (a, b)" by (cases p)
  have "inv (put a b s)" using Cons.prems(1) by (rule put_inv)
  moreover have "get (puts ps (put a b s)) k = Some v"
    using Cons.prems(2) by (simp add: puts_def p)
  ultimately have "case od_get (rev ps) k of Some w \<Rightarrow> v = w | None \<Rightarrow> get (put a b s) k = Some v"
    by (rule Cons.IH)
  then show ?case
    using put_get[OF Cons.prems(1), of a b] put_forgets[OF Cons.prems(1), of k a b]
    by (cases "a = k") (auto simp: p map_add_def split: option.splits)
qed

end

end
