(* ===== verification/Inflight.thy ===== *)
theory Inflight
  imports Prelude
begin

text \<open>
  \<^verbatim>\<open>src/engine/inflight.py\<close>: the in-process lease counter (\<open>tracker\<close>, class
  \<^verbatim>\<open>InflightTracker\<close>) and the guard the executor asks before it selects a credential
  (\<^verbatim>\<open>InflightGuard\<close>). Reading a count prunes expired leases, so the operations return the
  new tracker. The locale \<open>lease_pool\<close> states what the executor relies on; the bound on the
  number of live leases is proved from it for every interleaving of requests.
\<close>

section \<open>State and operations\<close>

definition LEASE_TTL_SECONDS :: seconds where
  "LEASE_TTL_SECONDS = 600"

record tracker =
  tr_ttl :: seconds
  tr_leases :: "cred_id \<rightharpoonup> seconds list"

definition new_tracker :: "seconds \<Rightarrow> tracker" where
  "new_tracker ttl = \<lparr>tr_ttl = ttl, tr_leases = Map.empty\<rparr>"

text \<open>\<^verbatim>\<open>_live\<close>: the live leases, with the expired ones removed in place.\<close>

definition tr_live :: "cred_id \<Rightarrow> seconds \<Rightarrow> tracker \<Rightarrow> seconds list \<times> tracker" where
  "tr_live c now s =
     (case tr_leases s c of
        None \<Rightarrow> ([], s)
      | Some [] \<Rightarrow> ([], s)
      | Some leases \<Rightarrow>
          (let live = filter (\<lambda>started. now - started < tr_ttl s) leases
           in if live \<noteq> [] then (live, s\<lparr>tr_leases := (tr_leases s)(c \<mapsto> live)\<rparr>)
              else (live, s\<lparr>tr_leases := (tr_leases s)(c := None)\<rparr>)))"

definition tr_count :: "cred_id \<Rightarrow> seconds \<Rightarrow> tracker \<Rightarrow> nat \<times> tracker" where
  "tr_count c now s = (let (live, s') = tr_live c now s in (length live, s'))"

definition tr_acquire :: "cred_id \<Rightarrow> seconds \<Rightarrow> tracker \<Rightarrow> tracker" where
  "tr_acquire c now s =
     (let (live, s') = tr_live c now s
      in s'\<lparr>tr_leases := (tr_leases s')(c \<mapsto> live @ [now])\<rparr>)"

text \<open>\<^verbatim>\<open>leases.pop()\<close> removes the last element of the list, the newest lease.\<close>

definition tr_release :: "cred_id \<Rightarrow> tracker \<Rightarrow> tracker" where
  "tr_release c s =
     (case tr_leases s c of
        None \<Rightarrow> s
      | Some [] \<Rightarrow> s
      | Some leases \<Rightarrow>
          (let rest = butlast leases
           in if rest = [] then s\<lparr>tr_leases := (tr_leases s)(c := None)\<rparr>
              else s\<lparr>tr_leases := (tr_leases s)(c \<mapsto> rest)\<rparr>))"

text \<open>
  The guard: its limit is read from a hot-reloadable source at every call, so it is an argument.
\<close>

definition ig_limit :: "int \<Rightarrow> int" where
  "ig_limit value = (if value > 0 then value else 0)"

definition ig_blocked :: "int \<Rightarrow> cred_id \<Rightarrow> seconds \<Rightarrow> tracker \<Rightarrow> bool \<times> tracker" where
  "ig_blocked src c now s =
     (let limit = ig_limit src
      in if limit \<le> 0 then (False, s)
         else (let (n, s') = tr_count c now s in (int n \<ge> limit, s')))"

definition ig_acquire :: "cred_id \<Rightarrow> seconds \<Rightarrow> tracker \<Rightarrow> tracker" where
  "ig_acquire = tr_acquire"

definition ig_release :: "cred_id \<Rightarrow> tracker \<Rightarrow> tracker" where
  "ig_release = tr_release"

section \<open>Well-formedness\<close>

text \<open>No key holds an empty list: the dictionary does not grow with idle credentials.\<close>

definition tr_ok :: "tracker \<Rightarrow> bool" where
  "tr_ok s \<longleftrightarrow> 0 < tr_ttl s \<and> (\<forall>c. tr_leases s c \<noteq> Some [])"

definition live_at :: "tracker \<Rightarrow> seconds \<Rightarrow> cred_id \<Rightarrow> seconds list" where
  "live_at s now c =
     filter (\<lambda>started. now - started < tr_ttl s) (case tr_leases s c of None \<Rightarrow> [] | Some l \<Rightarrow> l)"

lemma tr_ok_new: "0 < ttl \<Longrightarrow> tr_ok (new_tracker ttl)"
  by (simp add: tr_ok_def new_tracker_def)

lemma fst_tr_live: "fst (tr_live c now s) = live_at s now c"
  by (auto simp: tr_live_def live_at_def Let_def split: option.splits list.splits)

lemma tr_ttl_live [simp]: "tr_ttl (snd (tr_live c now s)) = tr_ttl s"
  by (auto simp: tr_live_def Let_def split: option.splits list.splits)

lemma tr_leases_live:
  "tr_ok s \<Longrightarrow> tr_leases (snd (tr_live c now s)) =
     (tr_leases s)(c := (if live_at s now c = [] then None else Some (live_at s now c)))"
  by (auto simp: tr_live_def live_at_def tr_ok_def Let_def fun_eq_iff
      split: option.splits list.splits)

lemma tr_ok_live: "tr_ok s \<Longrightarrow> tr_ok (snd (tr_live c now s))"
  using tr_leases_live[of s c now] by (simp add: tr_ok_def)

lemma tr_count_eq: "fst (tr_count c now s) = length (live_at s now c)"
  by (simp add: tr_count_def split_beta fst_tr_live)

lemma snd_tr_count: "snd (tr_count c now s) = snd (tr_live c now s)"
  by (simp add: tr_count_def split_beta)

lemma tr_ttl_acquire [simp]: "tr_ttl (tr_acquire c now s) = tr_ttl s"
  by (simp add: tr_acquire_def split_beta)

lemma tr_ttl_release [simp]: "tr_ttl (tr_release c s) = tr_ttl s"
  by (auto simp: tr_release_def Let_def split: option.splits list.splits)

lemma tr_leases_acquire:
  "tr_ok s \<Longrightarrow> tr_leases (tr_acquire c now s) = (tr_leases s)(c \<mapsto> live_at s now c @ [now])"
  by (simp add: tr_acquire_def split_beta tr_leases_live fst_tr_live)

lemma tr_ok_acquire: "tr_ok s \<Longrightarrow> tr_ok (tr_acquire c now s)"
  using tr_leases_acquire[of s c now] by (simp add: tr_ok_def)

lemma tr_ok_release: "tr_ok s \<Longrightarrow> tr_ok (tr_release c s)"
  by (auto simp: tr_ok_def tr_release_def Let_def split: option.splits list.splits)

lemma live_at_prune:
  "tr_ok s \<Longrightarrow> t \<le> t' \<Longrightarrow> live_at (snd (tr_live c t s)) t' c' = live_at s t' c'"
proof -
  assume s: "tr_ok s" and t: "t \<le> t'"
  have "filter (\<lambda>x. t' - x < tr_ttl s) (filter (\<lambda>x. t - x < tr_ttl s) l)
      = filter (\<lambda>x. t' - x < tr_ttl s) l" for l
    using t by (induction l) auto
  note ff = this
  show ?thesis
  proof (cases "live_at s t c = []")
    case True
    then have "live_at s t' c = []"
      using ff[of "case tr_leases s c of None \<Rightarrow> [] | Some l \<Rightarrow> l"] by (simp add: live_at_def)
    with True s show ?thesis by (auto simp: live_at_def tr_leases_live)
  next
    case False
    then show ?thesis
      using s ff[of "case tr_leases s c of None \<Rightarrow> [] | Some l \<Rightarrow> l"]
      by (auto simp: live_at_def tr_leases_live simp del: filter_filter)
  qed
qed

lemma live_at_acquire:
  "tr_ok s \<Longrightarrow> live_at (tr_acquire c t s) t c' = (if c' = c then live_at s t c @ [t] else live_at s t c')"
  by (auto simp: live_at_def tr_leases_acquire tr_ok_def split: option.splits)

lemma filter_butlast_le: "length (filter P (butlast xs)) \<le> length (filter P xs)"
  by (induction xs) auto

lemma live_at_release_le: "length (live_at (tr_release c s) t c') \<le> length (live_at s t c')"
  by (auto simp: live_at_def tr_release_def Let_def filter_butlast_le
      split: option.splits list.splits)

lemma live_at_later: "t \<le> t' \<Longrightarrow> length (live_at s t' c) \<le> length (live_at s t c)"
proof -
  assume "t \<le> t'"
  then have "length (filter (\<lambda>x. t' - x < k) l) \<le> length (filter (\<lambda>x. t - x < k) l)" for k l
    by (induction l) auto
  then show ?thesis by (simp add: live_at_def)
qed

section \<open>The interface the executor uses\<close>

locale lease_pool =
  fixes inv :: "'s \<Rightarrow> bool"
    and held :: "'s \<Rightarrow> seconds \<Rightarrow> cred_id \<Rightarrow> nat"
    and acq :: "cred_id \<Rightarrow> seconds \<Rightarrow> 's \<Rightarrow> 's"
    and rel :: "cred_id \<Rightarrow> 's \<Rightarrow> 's"
  assumes inv_acq: "inv s \<Longrightarrow> inv (acq c t s)"
    and inv_rel: "inv s \<Longrightarrow> inv (rel c s)"
    and held_acq: "inv s \<Longrightarrow> held (acq c t s) t c' = held s t c' + (if c' = c then 1 else 0)"
    and held_rel: "inv s \<Longrightarrow> held (rel c s) t c' \<le> held s t c'"
    and held_later: "inv s \<Longrightarrow> t \<le> t' \<Longrightarrow> held s t' c \<le> held s t c"
begin

definition bounded :: "nat \<Rightarrow> seconds \<Rightarrow> 's \<Rightarrow> bool" where
  "bounded n t s \<longleftrightarrow> inv s \<and> (\<forall>t' \<ge> t. \<forall>c. held s t' c \<le> n)"

lemma boundedI: "inv s \<Longrightarrow> (\<And>c. held s t c \<le> n) \<Longrightarrow> bounded n t s"
  unfolding bounded_def using held_later le_trans by blast

lemma bounded_acq:
  assumes "bounded n t s" "t \<le> t'" "held s t' c < n"
  shows "bounded n t' (acq c t' s)"
proof (rule boundedI)
  show "inv (acq c t' s)" using assms by (simp add: bounded_def inv_acq)
  show "held (acq c t' s) t' c' \<le> n" for c'
    using assms by (auto simp: bounded_def held_acq)
qed

lemma bounded_rel:
  assumes "bounded n t s" "t \<le> t'"
  shows "bounded n t' (rel c s)"
proof (rule boundedI)
  show "inv (rel c s)" using assms by (simp add: bounded_def inv_rel)
  show "held (rel c s) t' c' \<le> n" for c'
    using assms le_trans[OF held_rel[of s c t' c']] by (simp add: bounded_def)
qed

end

interpretation lease: lease_pool tr_ok "\<lambda>s t c. length (live_at s t c)" tr_acquire tr_release
  by unfold_locales
    (auto simp: tr_ok_acquire tr_ok_release live_at_acquire live_at_release_le live_at_later)

lemma lease_bounded_prune:
  "lease.bounded n t s \<Longrightarrow> t \<le> t' \<Longrightarrow> lease.bounded n t' (snd (tr_live c t' s))"
  by (auto simp: lease.bounded_def tr_ok_live live_at_prune)

section \<open>Every interleaving of requests\<close>

text \<open>
  The executor checks the guard and registers the lease without an intervening
  \<^verbatim>\<open>await\<close>, so admission is one step. Steps happen at non-decreasing clock readings;
  releases may be missing, repeated or spurious.
\<close>

inductive lease_run :: "int \<Rightarrow> seconds \<Rightarrow> seconds \<Rightarrow> tracker \<Rightarrow> bool" for src ttl where
  start: "lease_run src ttl t (new_tracker ttl)"
| admit: "lease_run src ttl t s \<Longrightarrow> t \<le> t' \<Longrightarrow> ig_blocked src c t' s = (False, s') \<Longrightarrow>
    lease_run src ttl t' (ig_acquire c t' s')"
| refuse: "lease_run src ttl t s \<Longrightarrow> t \<le> t' \<Longrightarrow> ig_blocked src c t' s = (True, s') \<Longrightarrow>
    lease_run src ttl t' s'"
| finish: "lease_run src ttl t s \<Longrightarrow> t \<le> t' \<Longrightarrow> lease_run src ttl t' (ig_release c s)"

lemma lease_run_bounded:
  assumes "lease_run src ttl t s" "0 < src" "0 < ttl"
  shows "lease.bounded (nat src) t s"
  using assms
proof (induction rule: lease_run.induct)
  case (start t)
  then show ?case
    by (auto intro!: lease.boundedI simp: tr_ok_new) (simp add: live_at_def new_tracker_def)
next
  case (admit t s t' c s')
  then have b: "lease.bounded (nat src) t s" by simp
  from admit have s': "s' = snd (tr_live c t' s)" and lt: "int (length (live_at s t' c)) < src"
    by (auto simp: ig_blocked_def ig_limit_def Let_def split_beta tr_count_eq snd_tr_count)
  have "tr_ok s" using b by (simp add: lease.bounded_def)
  then have "length (live_at s' t' c) < nat src"
    using lt by (simp add: s' live_at_prune zless_nat_eq_int_zless)
  with lease.bounded_acq[OF lease_bounded_prune[OF b admit.hyps(2)] order_refl]
  show ?case by (simp add: s' ig_acquire_def)
next
  case (refuse t s t' c s')
  then have "s' = snd (tr_live c t' s)"
    by (auto simp: ig_blocked_def ig_limit_def Let_def split_beta tr_count_eq snd_tr_count
        split: if_splits)
  with refuse show ?case by (simp add: lease_bounded_prune)
next
  case (finish t s t' c)
  then show ?case by (simp add: ig_release_def lease.bounded_rel)
qed

text \<open>C12. With a positive limit, no interleaving of admissions, refusals and releases ever leaves
  a credential with more live leases than the limit, now or later.\<close>

theorem inflight_limit_respected:
  assumes "lease_run src ttl t s" and "0 < src" and "0 < ttl" and "t \<le> t'"
  shows "int (fst (tr_count c t' s)) \<le> src"
proof -
  have "length (live_at s t' c) \<le> nat src"
    using lease_run_bounded[OF assms(1-3)] assms(4) by (simp add: lease.bounded_def)
  with assms(2) show ?thesis by (simp add: tr_count_eq)
qed

theorem inflight_limit_respected_witness:
  "int (fst (tr_count ''a'' 5 (ig_acquire ''a'' 0 (new_tracker 600)))) \<le> 1"
proof -
  have "ig_blocked 1 ''a'' 0 (new_tracker 600) = (False, new_tracker 600)"
    by (simp add: ig_blocked_def ig_limit_def tr_count_def tr_live_def new_tracker_def)
  then have "lease_run 1 600 0 (ig_acquire ''a'' 0 (new_tracker 600))"
    using lease_run.admit[OF lease_run.start[of 1 600 0]] by blast
  from inflight_limit_respected[OF this, of 5 "''a''"] show ?thesis by simp
qed

text \<open>A release gives back the newest lease of the credential (last in, first out): the leases
  acquired before it keep their start times, and no other credential is touched.\<close>

theorem release_returns_newest_lease:
  assumes "tr_ok s"
  shows "tr_leases (tr_release c (tr_acquire c now s)) =
      (tr_leases s)(c := (if live_at s now c = [] then None else Some (live_at s now c)))"
  using assms
  by (auto simp: tr_release_def tr_leases_acquire fun_eq_iff Let_def butlast_append
      split: option.splits list.splits dest: arg_cong[of _ _ butlast])

theorem release_returns_newest_lease_witness:
  "tr_leases (tr_release ''a'' (tr_acquire ''a'' 7 (tr_acquire ''a'' 3 (new_tracker 600)))) ''a''
     = Some [3]"
proof -
  have ok: "tr_ok (tr_acquire ''a'' 3 (new_tracker 600))"
    by (simp add: tr_ok_acquire tr_ok_new)
  have "live_at (tr_acquire ''a'' 3 (new_tracker 600)) 7 ''a'' = [3]"
    by (simp add: live_at_def tr_acquire_def tr_live_def new_tracker_def)
  then show ?thesis
    using release_returns_newest_lease[OF ok, of "''a''" 7] by simp
qed

end
