(* ===== verification/HalfOpen.thy ===== *)
theory HalfOpen
  imports Prelude
begin

text \<open>
  \<^verbatim>\<open>src/engine/half_open.py\<close>: after a cooldown expires one request probes the credential
  before the others may use it. The state is the two dictionaries of \<^verbatim>\<open>HalfOpenGuard\<close>;
  each operation gets the clock readings it makes, in the order it makes them.
\<close>

section \<open>State and operations\<close>

type_synonym probe_key = "cred_id \<times> model_name"

definition PROBE_TTL_SECONDS :: seconds where
  "PROBE_TTL_SECONDS = 600"

definition RECOVERED_TTL_SECONDS :: seconds where
  "RECOVERED_TTL_SECONDS = 120"

record half_open =
  ho_ttl :: seconds
  ho_recovered_ttl :: seconds
  ho_probing :: "probe_key \<rightharpoonup> seconds"
  ho_recovered :: "probe_key \<rightharpoonup> seconds"

definition new_half_open :: "seconds \<Rightarrow> seconds \<Rightarrow> half_open" where
  "new_half_open ttl rttl =
     \<lparr>ho_ttl = ttl, ho_recovered_ttl = rttl, ho_probing = Map.empty, ho_recovered = Map.empty\<rparr>"

definition ho_live :: "seconds \<Rightarrow> probe_key \<Rightarrow> half_open \<Rightarrow> bool \<times> half_open" where
  "ho_live now key g =
     (case ho_probing g key of
        None \<Rightarrow> (False, g)
      | Some started \<Rightarrow>
          if now - started \<ge> ho_ttl g
          then (False, g\<lparr>ho_probing := (ho_probing g)(key := None)\<rparr>)
          else (True, g))"

definition ho_acquired :: "seconds \<Rightarrow> probe_key \<Rightarrow> half_open \<Rightarrow> bool \<times> half_open" where
  "ho_acquired = ho_live"

definition ho_is_recovered :: "seconds \<Rightarrow> probe_key \<Rightarrow> half_open \<Rightarrow> bool \<times> half_open" where
  "ho_is_recovered now key g =
     (case ho_recovered g key of
        None \<Rightarrow> (False, g)
      | Some since \<Rightarrow>
          if now - since \<ge> ho_recovered_ttl g
          then (False, g\<lparr>ho_recovered := (ho_recovered g)(key := None)\<rparr>)
          else (True, g))"

definition ho_acquire :: "seconds \<Rightarrow> seconds \<Rightarrow> probe_key \<Rightarrow> half_open \<Rightarrow> bool \<times> half_open" where
  "ho_acquire now1 now2 key g =
     (let (busy, g') = ho_live now1 key g
      in if busy then (False, g')
         else (True, g'\<lparr>ho_probing := (ho_probing g')(key \<mapsto> now2)\<rparr>))"

definition ho_confirm :: "seconds \<Rightarrow> probe_key \<Rightarrow> half_open \<Rightarrow> half_open" where
  "ho_confirm now key g =
     g\<lparr>ho_probing := (ho_probing g)(key := None), ho_recovered := (ho_recovered g)(key \<mapsto> now)\<rparr>"

definition ho_release :: "probe_key \<Rightarrow> half_open \<Rightarrow> half_open" where
  "ho_release key g = g\<lparr>ho_probing := (ho_probing g)(key := None)\<rparr>"

definition ho_reset :: "cred_id \<Rightarrow> model_name \<Rightarrow> half_open \<Rightarrow> half_open" where
  "ho_reset c scope g = g\<lparr>ho_recovered := (ho_recovered g)((c, scope) := None)\<rparr>"

section \<open>Each operation on each branch\<close>

lemma ho_acquire_iff:
  "fst (ho_acquire now1 now2 key g) \<longleftrightarrow>
     (case ho_probing g key of None \<Rightarrow> True | Some started \<Rightarrow> now1 - started \<ge> ho_ttl g)"
  by (auto simp: ho_acquire_def ho_live_def split: option.splits)

lemma ho_acquire_state:
  "ho_probing (snd (ho_acquire now1 now2 key g)) =
     (if fst (ho_acquire now1 now2 key g) then (ho_probing g)(key \<mapsto> now2) else ho_probing g)"
  by (auto simp: ho_acquire_def ho_live_def split: option.splits)

lemma ho_live_probing:
  "ho_probing (snd (ho_live now k g)) k' =
     (if k' = k \<and> \<not> fst (ho_live now k g) then None else ho_probing g k')"
  by (auto simp: ho_live_def split: option.splits)

lemma ho_ttl_simps [simp]:
  "ho_ttl (snd (ho_live now k g)) = ho_ttl g"
  "ho_ttl (snd (ho_is_recovered now k g)) = ho_ttl g"
  "ho_ttl (snd (ho_acquire now1 now2 k g)) = ho_ttl g"
  "ho_ttl (ho_confirm now k g) = ho_ttl g"
  "ho_ttl (ho_release k g) = ho_ttl g"
  "ho_ttl (ho_reset c sc g) = ho_ttl g"
  by (auto simp: ho_live_def ho_is_recovered_def ho_acquire_def ho_confirm_def ho_release_def
      ho_reset_def split_beta split: option.splits)

lemma ho_probing_frame [simp]:
  "ho_probing (snd (ho_is_recovered now k g)) = ho_probing g"
  "ho_probing (ho_reset c sc g) = ho_probing g"
  "ho_probing (ho_confirm now k g) = (ho_probing g)(k := None)"
  "ho_probing (ho_release k g) = (ho_probing g)(k := None)"
  by (auto simp: ho_is_recovered_def ho_reset_def ho_confirm_def ho_release_def
      split: option.splits)

section \<open>The interface the executor uses\<close>

text \<open>
  A probe slot per key: taking it succeeds exactly when it is free, a taken slot stays taken for
  \<open>lifetime\<close> unless it is given back, and the operations on one key leave the others alone.
\<close>

locale probe_slots =
  fixes holder :: "'s \<Rightarrow> 'k \<Rightarrow> seconds option"
    and lifetime :: "'s \<Rightarrow> seconds"
    and take_slot :: "seconds \<Rightarrow> seconds \<Rightarrow> 'k \<Rightarrow> 's \<Rightarrow> bool \<times> 's"
  assumes take_iff: "fst (take_slot t t' k s) \<longleftrightarrow>
      (case holder s k of None \<Rightarrow> True | Some t0 \<Rightarrow> t - t0 \<ge> lifetime s)"
    and take_effect: "holder (snd (take_slot t t' k s)) k' =
      (if k' = k \<and> fst (take_slot t t' k s) then Some t' else holder s k')"
    and take_lifetime: "lifetime (snd (take_slot t t' k s)) = lifetime s"
begin

lemma second_taker_refused:
  assumes "fst (take_slot t t0 k s)" "u - t0 < lifetime s"
  shows "\<not> fst (take_slot u u' k (snd (take_slot t t0 k s)))"
  using assms by (simp add: take_iff[of u] take_effect take_lifetime)

lemma leaked_slot_freed:
  assumes "fst (take_slot t t0 k s)" "lifetime s \<le> u - t0"
  shows "fst (take_slot u u' k (snd (take_slot t t0 k s)))"
  using assms by (simp add: take_iff[of u] take_effect take_lifetime)

lemma other_key_independent:
  assumes "k' \<noteq> k"
  shows "fst (take_slot u u' k' (snd (take_slot t t0 k s))) = fst (take_slot u u' k' s)"
  using assms by (simp add: take_iff[of u] take_effect take_lifetime split: option.split)

end

interpretation probes: probe_slots ho_probing ho_ttl ho_acquire
  by unfold_locales (auto simp: ho_acquire_iff ho_acquire_state)

section \<open>Runs of the guard\<close>

datatype ho_op =
    Acquired probe_key
  | Recovered probe_key
  | Acquire probe_key
  | Confirm probe_key
  | Release probe_key
  | Reset cred_id model_name

fun ho_step :: "seconds \<times> seconds \<Rightarrow> ho_op \<Rightarrow> half_open \<Rightarrow> half_open" where
  "ho_step (t, t') (Acquired k) g = snd (ho_acquired t k g)"
| "ho_step (t, t') (Recovered k) g = snd (ho_is_recovered t k g)"
| "ho_step (t, t') (Acquire k) g = snd (ho_acquire t t' k g)"
| "ho_step (t, t') (Confirm k) g = ho_confirm t k g"
| "ho_step (t, t') (Release k) g = ho_release k g"
| "ho_step (t, t') (Reset c sc) g = ho_reset c sc g"

fun ho_run :: "((seconds \<times> seconds) \<times> ho_op) list \<Rightarrow> half_open \<Rightarrow> half_open" where
  "ho_run [] g = g"
| "ho_run ((ts, x) # xs) g = ho_run xs (ho_step ts x g)"

lemma ho_step_keeps_holder:
  assumes "ho_probing g key = Some t0" and "t - t0 < ho_ttl g"
    and "x \<noteq> Confirm key" and "x \<noteq> Release key"
  shows "ho_probing (ho_step (t, t') x g) key = Some t0 \<and> ho_ttl (ho_step (t, t') x g) = ho_ttl g"
  using assms
  by (cases x) (auto simp: ho_acquired_def ho_live_def ho_acquire_state ho_acquire_iff
      split: option.splits)

lemma ho_run_keeps_holder:
  assumes "ho_probing g key = Some t0"
    and "\<forall>((t, t'), x) \<in> set xs. t - t0 < ho_ttl g \<and> x \<noteq> Confirm key \<and> x \<noteq> Release key"
  shows "ho_probing (ho_run xs g) key = Some t0 \<and> ho_ttl (ho_run xs g) = ho_ttl g"
  using assms
proof (induction xs arbitrary: g)
  case Nil
  then show ?case by simp
next
  case (Cons p xs)
  obtain t t' x where p: "p = ((t, t'), x)" by (metis surj_pair)
  have "ho_probing (ho_step (t, t') x g) key = Some t0 \<and> ho_ttl (ho_step (t, t') x g) = ho_ttl g"
    using Cons.prems by (intro ho_step_keeps_holder) (auto simp: p)
  with Cons.IH[of "ho_step (t, t') x g"] Cons.prems(2) show ?case by (simp add: p)
qed

text \<open>C13. One probe per cooldown scope: once a request has taken the probe of a key, no other
  request takes it before the probe's time to live, whatever operations on any key run in
  between, unless the holder confirms or releases it.\<close>

theorem single_probe_in_flight:
  assumes "ho_acquire t t0 key g = (True, g1)"
    and "\<forall>((u, u'), x) \<in> set xs. u - t0 < ho_ttl g \<and> x \<noteq> Confirm key \<and> x \<noteq> Release key"
    and "u - t0 < ho_ttl g"
  shows "fst (ho_acquire u u' key (ho_run xs g1)) = False"
proof -
  have g1: "ho_probing g1 key = Some t0" "ho_ttl g1 = ho_ttl g"
    using assms(1) probes.take_effect[of t t0 key g key] probes.take_lifetime[of t t0 key g] by auto
  have "ho_probing (ho_run xs g1) key = Some t0 \<and> ho_ttl (ho_run xs g1) = ho_ttl g"
    using ho_run_keeps_holder[of g1 key t0 xs] assms(2) g1 by simp
  with assms(3) show ?thesis by (simp add: ho_acquire_iff)
qed

theorem single_probe_in_flight_witness:
  "fst (ho_acquire 9 9 (''a'', []) (ho_run [((2, 2), Acquire (''b'', [])), ((3, 3), Reset ''a'' [])]
     (snd (ho_acquire 1 1 (''a'', []) (new_half_open 600 120))))) = False"
proof -
  have a: "ho_acquire 1 1 (''a'', []) (new_half_open 600 120)
      = (True, snd (ho_acquire 1 1 (''a'', []) (new_half_open 600 120)))"
    by (simp add: ho_acquire_def ho_live_def new_half_open_def)
  show ?thesis
    by (rule single_probe_in_flight[OF a]) (auto simp: new_half_open_def)
qed

text \<open>A confirmed probe lets the key pass without probing for exactly the recovery time to
  live, and a recorded error of that scope withdraws the verdict at once.\<close>

theorem recovered_window:
  "fst (ho_is_recovered u key (ho_confirm t key g)) = (u - t < ho_recovered_ttl g)
   \<and> fst (ho_is_recovered u key (ho_reset (fst key) (snd key) (ho_confirm t key g))) = False
   \<and> fst (ho_acquire u u key (ho_confirm t key g))"
  by (auto simp: ho_is_recovered_def ho_confirm_def ho_reset_def ho_acquire_iff)

end
