(* ===== verification/LimitGuard.thy ===== *)
theory LimitGuard
  imports Prelude
begin

text \<open>
  \<^verbatim>\<open>src/engine/limits.py\<close>: the quota limits of a credential, the pure verdict
  (\<open>evaluate\<close>) and the cached guard (\<open>limit_guard\<close>, class \<^verbatim>\<open>LimitGuard\<close>).
  Beijing time is UTC+8 without daylight saving, as the zone data of
  \<^verbatim>\<open>Asia/Shanghai\<close> say for every moment since 1991-09-15. The two data sources of the
  guard are arguments: the limit table, and the usage table as a function of the start of the day.
\<close>

section \<open>Days\<close>

definition CN_OFFSET :: int where
  "CN_OFFSET = 8 * 3600"

definition day_start :: "epoch \<Rightarrow> epoch" where
  "day_start now = (now + CN_OFFSET) div 86400 * 86400 - CN_OFFSET"

lemma day_start_bounds: "day_start now \<le> now \<and> now < day_start now + 86400"
proof -
  have "(now + CN_OFFSET) div 86400 * 86400 + (now + CN_OFFSET) mod 86400 = now + CN_OFFSET"
    by (rule div_mult_mod_eq)
  moreover have "0 \<le> (now + CN_OFFSET) mod 86400" "(now + CN_OFFSET) mod 86400 < 86400" by simp_all
  ultimately show ?thesis unfolding day_start_def by linarith
qed

lemma day_start_idem: "day_start (day_start now) = day_start now"
  by (simp add: day_start_def)

section \<open>Limits and usage\<close>

record credential_limits =
  cl_credential_id :: cred_id
  cl_keep_credits :: "rat option"
  cl_daily_tokens :: "int option"
  cl_daily_credits :: "rat option"
  cl_per_model_tokens :: "(model_name, int) odict"
  cl_updated_at :: epoch
  cl_updated_by :: "string option"

definition lim_enabled :: "'a::linordered_idom option \<Rightarrow> bool" where
  "lim_enabled value = (case value of None \<Rightarrow> False | Some v \<Rightarrow> v > 0)"

definition lim_is_empty :: "credential_limits \<Rightarrow> bool" where
  "lim_is_empty l =
     (let active_models = list_ex (\<lambda>(m, cap). lim_enabled (Some cap)) (cl_per_model_tokens l)
      in \<not> (lim_enabled (cl_keep_credits l) \<or> lim_enabled (cl_daily_tokens l)
            \<or> lim_enabled (cl_daily_credits l) \<or> active_models))"

record day_usage =
  us_tokens :: int
  us_credits :: rat
  us_per_model :: "model_name \<rightharpoonup> int"

definition no_usage :: day_usage where
  "no_usage = \<lparr>us_tokens = 0, us_credits = 0, us_per_model = Map.empty\<rparr>"

record limit_state =
  ls_blocked :: bool
  ls_blocked_models :: "model_name set"

definition usage_of_model :: "day_usage \<Rightarrow> model_name \<Rightarrow> int" where
  "usage_of_model u m = (case us_per_model u m of None \<Rightarrow> 0 | Some n \<Rightarrow> n)"

definition evaluate :: "credential_limits option \<Rightarrow> day_usage \<Rightarrow> rat option \<Rightarrow> limit_state" where
  "evaluate limits usage quota_remaining =
     (case limits of
        None \<Rightarrow> \<lparr>ls_blocked = False, ls_blocked_models = {}\<rparr>
      | Some l \<Rightarrow>
          \<lparr>ls_blocked =
             ((lim_enabled (cl_keep_credits l) \<and> quota_remaining \<noteq> None
                 \<and> the quota_remaining \<le> the (cl_keep_credits l))
              \<or> (lim_enabled (cl_daily_tokens l) \<and> us_tokens usage \<ge> the (cl_daily_tokens l))
              \<or> (lim_enabled (cl_daily_credits l) \<and> us_credits usage \<ge> the (cl_daily_credits l))),
           ls_blocked_models =
             set (map fst (filter (\<lambda>(m, cap). lim_enabled (Some cap) \<and> usage_of_model usage m \<ge> cap)
                                  (cl_per_model_tokens l)))\<rparr>)"

section \<open>The guard\<close>

definition SNAPSHOT_TTL_SECONDS :: seconds where
  "SNAPSHOT_TTL_SECONDS = 15"

type_synonym limit_table = "(cred_id, credential_limits) odict"
type_synonym usage_table = "(cred_id, day_usage) odict"

record limit_guard =
  lg_ttl :: seconds
  lg_snapshot :: "(seconds \<times> limit_table \<times> usage_table) option"

definition lg_invalidate :: "limit_guard \<Rightarrow> limit_guard" where
  "lg_invalidate g = g\<lparr>lg_snapshot := None\<rparr>"

definition lg_load :: "limit_table \<Rightarrow> (epoch \<Rightarrow> usage_table) \<Rightarrow> seconds \<Rightarrow> limit_guard
    \<Rightarrow> (limit_table \<times> usage_table) \<times> limit_guard" where
  "lg_load limits_source usage_source now g =
     (let reload =
        (let limits_map = limits_source;
             usage_map = (if limits_map \<noteq> [] then usage_source (day_start \<lfloor>now\<rfloor>) else [])
         in ((limits_map, usage_map), g\<lparr>lg_snapshot := Some (now, limits_map, usage_map)\<rparr>))
      in case lg_snapshot g of
           Some (t, limits_map, usage_map) \<Rightarrow>
             if now - t < lg_ttl g then ((limits_map, usage_map), g) else reload
         | None \<Rightarrow> reload)"

definition lg_verdict :: "limit_table \<Rightarrow> usage_table \<Rightarrow> cred_id \<Rightarrow> rat option \<Rightarrow> model_name \<Rightarrow> bool" where
  "lg_verdict limits_map usage_map c quota_remaining model =
     (case od_get limits_map c of
        None \<Rightarrow> False
      | Some l \<Rightarrow>
          (let u = (case od_get usage_map c of None \<Rightarrow> no_usage | Some u \<Rightarrow> u);
               st = evaluate (Some l) u quota_remaining
           in ls_blocked st \<or> model \<in> ls_blocked_models st))"

definition lg_blocked :: "limit_table \<Rightarrow> (epoch \<Rightarrow> usage_table) \<Rightarrow> seconds \<Rightarrow> cred_id \<Rightarrow> rat option
    \<Rightarrow> model_name \<Rightarrow> limit_guard \<Rightarrow> bool \<times> limit_guard" where
  "lg_blocked limits_source usage_source now c quota_remaining model g =
     (let ((limits_map, usage_map), g') = lg_load limits_source usage_source now g
      in (lg_verdict limits_map usage_map c quota_remaining model, g'))"

section \<open>Correctness\<close>

lemma blocked_models_iff:
  "m \<in> ls_blocked_models (evaluate l u q) \<longleftrightarrow>
     (\<exists>l' cap. l = Some l' \<and> (m, cap) \<in> set (cl_per_model_tokens l') \<and> 0 < cap \<and> cap \<le> usage_of_model u m)"
  by (cases l) (force simp: evaluate_def lim_enabled_def)+

lemma blocked_iff:
  "ls_blocked (evaluate l u q) \<longleftrightarrow> (\<exists>l'. l = Some l' \<and>
     ((\<exists>k r. cl_keep_credits l' = Some k \<and> 0 < k \<and> q = Some r \<and> r \<le> k)
      \<or> (\<exists>n. cl_daily_tokens l' = Some n \<and> 0 < n \<and> n \<le> us_tokens u)
      \<or> (\<exists>n. cl_daily_credits l' = Some n \<and> 0 < n \<and> n \<le> us_credits u)))"
  by (auto simp: evaluate_def lim_enabled_def split: option.splits)

lemma evaluate_empty_limits:
  "lim_is_empty l \<Longrightarrow> evaluate (Some l) u q = \<lparr>ls_blocked = False, ls_blocked_models = {}\<rparr>"
  by (auto simp: lim_is_empty_def evaluate_def list_ex_iff Let_def filter_empty_conv)

text \<open>A credential is stopped as a whole exactly when an enabled guard is hit (remaining
  credits at or below the reserve and known, or the day's tokens or credits at the cap), and a
  single model exactly when it has a positive cap that its usage of the day has reached. A limit
  that is absent, zero or negative, and an unknown balance, never stop anything.\<close>

theorem evaluate_spec:
  "(ls_blocked (evaluate (Some l) u q) =
     ((\<exists>k r. cl_keep_credits l = Some k \<and> 0 < k \<and> q = Some r \<and> r \<le> k)
      \<or> (\<exists>n. cl_daily_tokens l = Some n \<and> 0 < n \<and> n \<le> us_tokens u)
      \<or> (\<exists>n. cl_daily_credits l = Some n \<and> 0 < n \<and> n \<le> us_credits u)))
   \<and> (m \<in> ls_blocked_models (evaluate (Some l) u q)) =
       (\<exists>cap. (m, cap) \<in> set (cl_per_model_tokens l) \<and> 0 < cap \<and> cap \<le> usage_of_model u m)
   \<and> evaluate None u q = \<lparr>ls_blocked = False, ls_blocked_models = {}\<rparr>"
  unfolding blocked_iff blocked_models_iff by (simp add: evaluate_def)

text \<open>A verdict is monotone in the day's usage: once stopped for the day, more usage keeps it.\<close>

lemma evaluate_mono:
  assumes "us_tokens u \<le> us_tokens v" "us_credits u \<le> us_credits v"
    and "\<And>m. usage_of_model u m \<le> usage_of_model v m"
  shows "ls_blocked (evaluate l u q) \<Longrightarrow> ls_blocked (evaluate l v q)"
    and "ls_blocked_models (evaluate l u q) \<subseteq> ls_blocked_models (evaluate l v q)"
  using assms by (auto simp: blocked_iff blocked_models_iff) (meson order.trans)+

lemma lg_load_fresh: "lg_snapshot g = None \<Longrightarrow>
   lg_load ls us now g =
     ((ls, if ls \<noteq> [] then us (day_start \<lfloor>now\<rfloor>) else []),
      g\<lparr>lg_snapshot := Some (now, ls, if ls \<noteq> [] then us (day_start \<lfloor>now\<rfloor>) else [])\<rparr>)"
  by (simp add: lg_load_def Let_def)

lemma lg_verdict_no_limits [simp]: "lg_verdict [] u c q m = False"
  by (simp add: lg_verdict_def)

text \<open>The guard's cache: after an invalidation the next verdict is that of the current limit
  and usage tables; within the time to live the verdict stays that of the tables loaded then,
  whatever the sources say meanwhile; and once the time to live is over it is current again.\<close>

theorem guard_staleness:
  assumes "g1 = snd (lg_blocked ls us t c0 q0 m0 (lg_invalidate g))"
  shows "fst (lg_blocked ls us t c q m (lg_invalidate g)) = lg_verdict ls (us (day_start \<lfloor>t\<rfloor>)) c q m
    \<and> fst (lg_blocked ls' us' t' c q m g1) =
        (if t' - t < lg_ttl g then lg_verdict ls (us (day_start \<lfloor>t\<rfloor>)) c q m
         else lg_verdict ls' (us' (day_start \<lfloor>t'\<rfloor>)) c q m)"
proof -
  have n: "lg_snapshot (lg_invalidate g) = None" by (simp add: lg_invalidate_def)
  have g1: "g1 = (lg_invalidate g)\<lparr>lg_snapshot := Some (t, ls, if ls \<noteq> [] then us (day_start \<lfloor>t\<rfloor>) else [])\<rparr>"
    by (simp add: assms lg_blocked_def lg_load_fresh[OF n])
  have "fst (lg_blocked ls us t c q m (lg_invalidate g)) = lg_verdict ls (us (day_start \<lfloor>t\<rfloor>)) c q m"
    by (simp add: lg_blocked_def lg_load_fresh[OF n])
  moreover have "fst (lg_blocked ls' us' t' c q m g1) =
      (if t' - t < lg_ttl g then lg_verdict ls (us (day_start \<lfloor>t\<rfloor>)) c q m
       else lg_verdict ls' (us' (day_start \<lfloor>t'\<rfloor>)) c q m)"
    by (simp add: g1 lg_blocked_def lg_load_def lg_invalidate_def Let_def)
  ultimately show ?thesis by simp
qed

definition sample_limits :: limit_table where
  "sample_limits = [(''a'', \<lparr>cl_credential_id = ''a'', cl_keep_credits = Some 5, cl_daily_tokens = None,
     cl_daily_credits = None, cl_per_model_tokens = [], cl_updated_at = 0, cl_updated_by = None\<rparr>)]"

theorem guard_staleness_witness:
  "fst (lg_blocked [] (\<lambda>_. []) 9 ''a'' (Some 3) ''m''
     (snd (lg_blocked sample_limits (\<lambda>_. []) 1 ''a'' (Some 3) ''m''
       (lg_invalidate \<lparr>lg_ttl = 15, lg_snapshot = None\<rparr>)))) = True"
  using guard_staleness[OF refl, where ls = sample_limits and us = "\<lambda>_. []" and t = 1 and c = "''a''"
      and q = "Some 3" and m = "''m''" and g = "\<lparr>lg_ttl = 15, lg_snapshot = None\<rparr>"
      and ls' = "[]" and us' = "\<lambda>_. []" and t' = 9 and ?c0.0 = "''a''" and ?q0.0 = "Some 3"
      and ?m0.0 = "''m''"]
  by (simp add: lg_verdict_def sample_limits_def evaluate_def lim_enabled_def lg_invalidate_def)

end
