(* ===== verification/ProviderBase.thy ===== *)
theory ProviderBase
  imports Prelude
begin

text \<open>
  The neutral types of \<^verbatim>\<open>src/provider/base.py\<close>: parsed JSON values, the error
  classes and the three sets the engine branches on, the event stream, the quota and its
  three-valued health score, and the controlled mapping of in-stream errors.
\<close>

section \<open>JSON values\<close>

text \<open>
  A value as \<^verbatim>\<open>json.loads\<close> returns it. Objects are insertion-ordered dictionaries;
  \<open>JNonFinite\<close> is a NaN or an infinity.
\<close>

datatype json =
    JNull
  | JBool bool
  | JInt int
  | JFloat rat
  | JNonFinite
  | JStr string
  | JList "json list"
  | JObj "(string \<times> json) list"

type_synonym jobject = "(string \<times> json) list"

definition jget :: "(string \<times> json) list \<Rightarrow> string \<Rightarrow> json" where
  "jget d k = (case od_get d k of None \<Rightarrow> JNull | Some v \<Rightarrow> v)"

text \<open>\<^verbatim>\<open>isinstance(v, str) and v.strip()\<close>, and other readings the code repeats.\<close>

definition j_nonempty_str :: "json \<Rightarrow> string option" where
  "j_nonempty_str v =
     (case v of JStr s \<Rightarrow> (if py_strip s \<noteq> [] then Some (py_strip s) else None) | _ \<Rightarrow> None)"

definition j_int :: "json \<Rightarrow> int option" where
  "j_int v = (case v of JInt n \<Rightarrow> Some n | _ \<Rightarrow> None)"

section \<open>Error classes\<close>

datatype err_kind =
    PLAN | CREDIT | SOFT | DEAD | RESTRICTED | OTHER | INVALID | MODEL | CONCURRENCY
  | BLOCKED | REQUEST | CONTEXT | CAPABILITY | QUEUE | NETWORK

fun err_value :: "err_kind \<Rightarrow> string" where
  "err_value PLAN = ''plan''"
| "err_value CREDIT = ''credit''"
| "err_value SOFT = ''soft''"
| "err_value DEAD = ''dead''"
| "err_value RESTRICTED = ''restricted''"
| "err_value OTHER = ''other''"
| "err_value INVALID = ''invalid''"
| "err_value MODEL = ''model''"
| "err_value CONCURRENCY = ''concurrency''"
| "err_value BLOCKED = ''blocked''"
| "err_value REQUEST = ''request''"
| "err_value CONTEXT = ''context''"
| "err_value CAPABILITY = ''capability''"
| "err_value QUEUE = ''queue''"
| "err_value NETWORK = ''network''"

definition MODEL_SCOPED_KINDS :: "err_kind list" where
  "MODEL_SCOPED_KINDS = [MODEL, BLOCKED, CONCURRENCY]"

definition NO_PENALTY_KINDS :: "err_kind list" where
  "NO_PENALTY_KINDS = [REQUEST, CONTEXT, NETWORK]"

definition REJECT_KINDS :: "err_kind list" where
  "REJECT_KINDS = [INVALID, CAPABILITY]"

definition QUEUE_DEFAULT_WAIT_SECONDS :: rat where "QUEUE_DEFAULT_WAIT_SECONDS = 5"

lemmas kind_sets = MODEL_SCOPED_KINDS_def NO_PENALTY_KINDS_def REJECT_KINDS_def

lemma err_value_inj: "err_value a = err_value b \<longleftrightarrow> a = b"
  by (cases a; cases b) simp_all

lemma err_value_nonempty [simp]: "err_value k \<noteq> []"
  by (cases k) simp_all

section \<open>The event stream\<close>

datatype event_kind = EvContent | EvReasoning | EvToolCalls | EvUsage | EvFinish | EvError

record usage =
  u_input :: "int option"
  u_output :: "int option"
  u_reasoning :: "int option"
  u_cached :: "int option"
  u_credit :: "rat option"
  u_estimated :: bool

definition empty_usage :: usage where
  "empty_usage = \<lparr>u_input = None, u_output = None, u_reasoning = None, u_cached = None,
                  u_credit = None, u_estimated = False\<rparr>"

record event =
  ev_kind :: event_kind
  ev_content :: "utext option"
  ev_tool_calls :: "json list option"
  ev_usage :: "usage option"
  ev_finish_reason :: "string option"
  ev_error_code :: "int option"
  ev_error_message :: "string option"
  ev_error_kind :: "err_kind option"
  ev_retry_after :: "rat option"
  ev_model :: "string option"

definition mk_event :: "event_kind \<Rightarrow> event" where
  "mk_event k = \<lparr>ev_kind = k, ev_content = None, ev_tool_calls = None, ev_usage = None,
     ev_finish_reason = None, ev_error_code = None, ev_error_message = None,
     ev_error_kind = None, ev_retry_after = None, ev_model = None\<rparr>"

definition event_error_kind :: "event \<Rightarrow> err_kind" where
  "event_error_kind e = (case ev_error_kind e of Some k \<Rightarrow> k | None \<Rightarrow> OTHER)"

section \<open>Quota and health\<close>

record quota =
  q_remaining :: "rat option"
  q_total :: "rat option"
  q_cycle_end :: "epoch option"
  q_expiry_ladder :: "(epoch \<times> rat) list option"
  q_probed_at :: "epoch option"
  q_probe_failed :: bool

definition EXHAUSTED :: int where
  "EXHAUSTED = -1"

text \<open>Python's \<^verbatim>\<open>round\<close>: to the nearest integer, ties to the even one.\<close>

definition py_round :: "rat \<Rightarrow> int" where
  "py_round x =
     (let f = \<lfloor>x\<rfloor>; d = x - of_int f
      in if d < 1/2 then f else if d > 1/2 then f + 1 else if even f then f else f + 1)"

definition ratio_health :: "rat option \<Rightarrow> rat option \<Rightarrow> int" where
  "ratio_health remaining tot =
     (case tot of
        None \<Rightarrow> EXHAUSTED
      | Some t \<Rightarrow>
          if t \<le> 0 then EXHAUSTED
          else max 0 (min 100 (py_round ((case remaining of None \<Rightarrow> 0 | Some r \<Rightarrow> r) / t * 100))))"

definition health_score :: "quota option \<Rightarrow> int option" where
  "health_score q =
     (case q of
        None \<Rightarrow> None
      | Some q \<Rightarrow> if q_probe_failed q then None else Some (ratio_health (q_remaining q) (q_total q)))"

lemma ratio_health_range: "ratio_health r t = EXHAUSTED \<or> (0 \<le> ratio_health r t \<and> ratio_health r t \<le> 100)"
  by (auto simp: ratio_health_def split: option.splits)

lemma py_round_mono: "x \<le> y \<Longrightarrow> py_round x \<le> py_round y"
proof -
  assume xy: "x \<le> y"
  then have fl: "\<lfloor>x\<rfloor> \<le> \<lfloor>y\<rfloor>" by (rule floor_mono)
  show ?thesis
  proof (cases "\<lfloor>x\<rfloor> = \<lfloor>y\<rfloor>")
    case True
    then show ?thesis using xy by (auto simp: py_round_def Let_def)
  next
    case False
    with fl show ?thesis by (auto simp: py_round_def Let_def)
  qed
qed

text \<open>The health score is three-valued: unknown exactly when the probe failed or never ran,
  exhausted (-1) exactly when the total is missing or not positive, and otherwise a percentage
  between 0 and 100 that grows with the remaining credits.\<close>

theorem health_score_three_valued:
  "(health_score q = None \<longleftrightarrow> q = None \<or> (\<exists>x. q = Some x \<and> q_probe_failed x))
   \<and> (health_score q = Some EXHAUSTED \<longleftrightarrow>
       (\<exists>x. q = Some x \<and> \<not> q_probe_failed x \<and> (q_total x = None \<or> the (q_total x) \<le> 0)))
   \<and> (\<forall>h. health_score q = Some h \<longrightarrow> h = EXHAUSTED \<or> (0 \<le> h \<and> h \<le> 100))
   \<and> (0 < t \<longrightarrow> r \<le> r' \<longrightarrow> ratio_health (Some r) (Some t) \<le> ratio_health (Some r') (Some t))"
proof -
  have "ratio_health r' t' \<noteq> EXHAUSTED" if "t' = Some x" "0 < x" for r' t' x
    using that by (auto simp: ratio_health_def EXHAUSTED_def)
  then have e: "ratio_health r' t' = EXHAUSTED \<longleftrightarrow> t' = None \<or> the t' \<le> 0" for r' t'
    by (cases t') (force simp: ratio_health_def not_le)+
  have m: "ratio_health (Some r) (Some t) \<le> ratio_health (Some r') (Some t)" if "0 < t" "r \<le> r'"
  proof -
    have "py_round (r / t * 100) \<le> py_round (r' / t * 100)"
      using that by (intro py_round_mono) (simp add: divide_right_mono)
    with that show ?thesis by (auto simp: ratio_health_def)
  qed
  show ?thesis
    using m e ratio_health_range by (auto simp: health_score_def split: option.splits)
qed

theorem health_score_three_valued_witness:
  "ratio_health (Some 1) (Some 4) \<le> ratio_health (Some 3) (Some (4::rat))"
  using health_score_three_valued[of None "4::rat" 1 3] by simp

end
