(* ===== verification/Scheduler.thy ===== *)
theory Scheduler
  imports ProviderBase LimitGuard
begin

text \<open>
  \<^verbatim>\<open>src/engine/scheduler.py\<close>: which credential serves a request (\<open>select\<close>), and what
  an upstream error does to it (\<open>note_error\<close>). Both are pure: a \<open>candidate\<close> is a snapshot of a
  credential, an \<open>error_outcome\<close> is what the repository has to store (theory CredStore).
  Logging is left out.
\<close>

section \<open>Constants\<close>

definition PLAN_COOLDOWN_SECONDS :: int where "PLAN_COOLDOWN_SECONDS = 12 * 3600"
definition SOFT_COOLDOWN_SECONDS :: int where "SOFT_COOLDOWN_SECONDS = 60"
definition OTHER_COOLDOWN_SECONDS :: int where "OTHER_COOLDOWN_SECONDS = 10 * 60"
definition RESTRICTED_COOLDOWN_SECONDS :: int where "RESTRICTED_COOLDOWN_SECONDS = 2 * 3600"
definition RESTRICTED_COOLDOWN_MAX_SECONDS :: int where "RESTRICTED_COOLDOWN_MAX_SECONDS = 7 * 86400"
definition ERR_THRESHOLD :: int where "ERR_THRESHOLD = 3"
definition MAX_ROTATE :: int where "MAX_ROTATE = 3"
definition UPSTREAM_COOLDOWN_KINDS :: "string list" where
  "UPSTREAM_COOLDOWN_KINDS = [err_value SOFT, err_value CREDIT, err_value PLAN, err_value RESTRICTED]"
definition MODEL_COOLDOWN_SECONDS :: int where "MODEL_COOLDOWN_SECONDS = 600"
definition MODEL_COOLDOWN_MAX_SECONDS :: int where "MODEL_COOLDOWN_MAX_SECONDS = 2 * 3600"
definition CONCURRENCY_COOLDOWN_SECONDS :: int where "CONCURRENCY_COOLDOWN_SECONDS = 60"
definition BLOCKED_BASE_SECONDS :: int where "BLOCKED_BASE_SECONDS = 6 * 3600"
definition BLOCKED_MAX_SECONDS :: int where "BLOCKED_MAX_SECONDS = 24 * 3600"
definition BLOCKED_SHIFT_MAX :: int where "BLOCKED_SHIFT_MAX = 2"
definition CREDIT_RESET_HOUR :: int where "CREDIT_RESET_HOUR = 4"
definition EXPIRY_WINDOW_SECONDS :: int where "EXPIRY_WINDOW_SECONDS = 36 * 3600"
definition SECONDARY_EXPIRY_WINDOW_SECONDS :: int where "SECONDARY_EXPIRY_WINDOW_SECONDS = 7 * 86400"
definition RETRY_AT_MAX_SECONDS :: int where "RETRY_AT_MAX_SECONDS = 24 * 3600"

lemmas sched_consts = PLAN_COOLDOWN_SECONDS_def SOFT_COOLDOWN_SECONDS_def OTHER_COOLDOWN_SECONDS_def
  RESTRICTED_COOLDOWN_SECONDS_def RESTRICTED_COOLDOWN_MAX_SECONDS_def ERR_THRESHOLD_def
  MAX_ROTATE_def MODEL_COOLDOWN_SECONDS_def MODEL_COOLDOWN_MAX_SECONDS_def
  CONCURRENCY_COOLDOWN_SECONDS_def BLOCKED_BASE_SECONDS_def BLOCKED_MAX_SECONDS_def
  BLOCKED_SHIFT_MAX_def CREDIT_RESET_HOUR_def EXPIRY_WINDOW_SECONDS_def
  SECONDARY_EXPIRY_WINDOW_SECONDS_def RETRY_AT_MAX_SECONDS_def

section \<open>Expiring credits\<close>

definition expiring_credits :: "(epoch \<times> rat) list option \<Rightarrow> int \<Rightarrow> epoch \<Rightarrow> rat" where
  "expiring_credits ladder window_seconds now =
     (case ladder of
        None \<Rightarrow> 0
      | Some l \<Rightarrow>
          if l = [] \<or> window_seconds \<le> 0 then 0
          else sum_list (map snd (filter (\<lambda>(e, a). now < e \<and> e \<le> now + window_seconds) l)))"

definition expiry_windows :: "int \<Rightarrow> int \<Rightarrow> int \<times> int" where
  "expiry_windows primary secondary = (if primary \<le> 0 then (0, 0) else (primary, secondary))"

section \<open>Cooldown durations\<close>

record model_cooldown =
  mc_until :: epoch
  mc_hits :: int
  mc_reason :: string

text \<open>The next 04:00 Beijing time strictly after now.\<close>

definition next_credit_reset :: "epoch \<Rightarrow> epoch" where
  "next_credit_reset now =
     (let midnight = day_start now;
          reset = midnight + CREDIT_RESET_HOUR * 3600;
          hour = (now - midnight) div 3600
      in if hour \<ge> CREDIT_RESET_HOUR then reset + 86400 else reset)"

definition model_cooldown_duration :: "int \<Rightarrow> int" where
  "model_cooldown_duration hits =
     (if hits \<le> 1 then MODEL_COOLDOWN_SECONDS
      else min (MODEL_COOLDOWN_SECONDS * 2 ^ nat (hits - 1)) MODEL_COOLDOWN_MAX_SECONDS)"

definition blocked_backoff_duration :: "int \<Rightarrow> int" where
  "blocked_backoff_duration hits =
     (let shift = min (max (hits - 1) 0) BLOCKED_SHIFT_MAX
      in min (BLOCKED_BASE_SECONDS * 2 ^ nat shift) BLOCKED_MAX_SECONDS)"

definition clamp_retry_at :: "epoch option \<Rightarrow> epoch \<Rightarrow> int \<Rightarrow> epoch \<times> bool" where
  "clamp_retry_at retry_at now fallback =
     (let constant = now + fallback
      in case retry_at of
           None \<Rightarrow> (constant, False)
         | Some r \<Rightarrow>
             (let upper = now + RETRY_AT_MAX_SECONDS
              in if r \<le> constant then (constant, False)
                 else if r \<ge> upper then (upper, True)
                 else (r, True)))"

section \<open>Candidates\<close>

record candidate =
  c_id :: cred_id
  c_provider :: provider_id
  c_health :: "int option"
  c_cooling_until :: "epoch option"
  c_disabled :: bool
  c_enabled :: bool
  c_err_count :: int
  c_pinned :: bool
  c_quota_remaining :: "rat option"
  c_cycle_end :: "epoch option"
  c_expiry_ladder :: "(epoch \<times> rat) list option"
  c_credit_rate :: "rat option"
  c_inflight :: int
  c_model_cooldowns :: "model_name \<rightharpoonup> model_cooldown"

definition mk_candidate :: "cred_id \<Rightarrow> provider_id \<Rightarrow> candidate" where
  "mk_candidate c p = \<lparr>c_id = c, c_provider = p, c_health = None, c_cooling_until = None,
     c_disabled = False, c_enabled = True, c_err_count = 0, c_pinned = False,
     c_quota_remaining = None, c_cycle_end = None, c_expiry_ladder = None, c_credit_rate = None,
     c_inflight = 0, c_model_cooldowns = Map.empty\<rparr>"

definition expiry_credits :: "candidate \<Rightarrow> epoch \<Rightarrow> int \<Rightarrow> rat" where
  "expiry_credits c now window = expiring_credits (c_expiry_ladder c) window now"

definition model_cooling_until :: "candidate \<Rightarrow> model_name option \<Rightarrow> epoch option" where
  "model_cooling_until c model =
     (case model of
        None \<Rightarrow> None
      | Some m \<Rightarrow> if m = [] then None else map_option mc_until (c_model_cooldowns c m))"

definition is_selectable :: "candidate \<Rightarrow> epoch \<Rightarrow> model_name option \<Rightarrow> bool" where
  "is_selectable c now model =
     (if c_disabled c \<or> \<not> c_enabled c then False
      else if (case c_cooling_until c of Some u \<Rightarrow> u > now | None \<Rightarrow> False) then False
      else \<not> (case model_cooling_until c model of Some u \<Rightarrow> u > now | None \<Rightarrow> False))"

record error_outcome =
  eo_disabled :: bool
  eo_disabled_reason :: string
  eo_cooling_until :: "epoch option"
  eo_cooling_kind :: string
  eo_err_count :: int
  eo_model_cooldowns :: "(model_name, model_cooldown) odict"

definition outcome0 :: error_outcome where
  "outcome0 = \<lparr>eo_disabled = False, eo_disabled_reason = [], eo_cooling_until = None,
     eo_cooling_kind = [], eo_err_count = 0, eo_model_cooldowns = []\<rparr>"

section \<open>Selection\<close>

record scheduler =
  sch_max_rotate :: int
  sch_err_threshold :: int
  sch_plan :: int
  sch_soft :: int
  sch_other :: int
  sch_expiry_window :: int
  sch_secondary_window :: int

definition default_scheduler :: scheduler where
  "default_scheduler = \<lparr>sch_max_rotate = MAX_ROTATE, sch_err_threshold = ERR_THRESHOLD,
     sch_plan = PLAN_COOLDOWN_SECONDS, sch_soft = SOFT_COOLDOWN_SECONDS,
     sch_other = OTHER_COOLDOWN_SECONDS, sch_expiry_window = EXPIRY_WINDOW_SECONDS,
     sch_secondary_window = SECONDARY_EXPIRY_WINDOW_SECONDS\<rparr>"

definition health_rank :: "int option \<Rightarrow> int" where
  "health_rank h = (case h of None \<Rightarrow> 1 | Some v \<Rightarrow> if v < 0 then 2 else 0)"

definition health_value :: "int option \<Rightarrow> int" where
  "health_value h = (case h of None \<Rightarrow> 0 | Some v \<Rightarrow> if v < 0 then 0 else v)"

definition remaining_value :: "rat option \<Rightarrow> rat" where
  "remaining_value r = (case r of Some v \<Rightarrow> v | None \<Rightarrow> 0)"

definition free_first_rank :: "candidate \<Rightarrow> bool \<Rightarrow> int" where
  "free_first_rank c free_present =
     (if \<not> free_present then 0 else if c_credit_rate c = Some 0 then 0 else 1)"

text \<open>The sort key, compared lexicographically as a Python tuple.\<close>

definition select_key ::
    "scheduler \<Rightarrow> epoch \<Rightarrow> bool \<Rightarrow> candidate \<Rightarrow> int \<times> int \<times> rat \<times> rat \<times> int \<times> int \<times> rat \<times> string" where
  "select_key s now free_present c =
     (let (primary, secondary) = expiry_windows (sch_expiry_window s) (sch_secondary_window s)
      in (free_first_rank c free_present,
          c_inflight c,
          - expiry_credits c now primary,
          - expiry_credits c now secondary,
          health_rank (c_health c), - health_value (c_health c),
          - remaining_value (c_quota_remaining c), c_id c))"

definition select_pool :: "candidate list \<Rightarrow> cred_id set \<Rightarrow> epoch \<Rightarrow> candidate list" where
  "select_pool candidates tried now =
     filter (\<lambda>c. is_selectable c now None \<and> c_id c \<notin> tried) candidates"

definition select_ranked :: "candidate list \<Rightarrow> candidate list" where
  "select_ranked pool =
     (let pinned = filter c_pinned pool in if pinned \<noteq> [] then pinned else pool)"

definition select :: "scheduler \<Rightarrow> candidate list \<Rightarrow> cred_id set \<Rightarrow> epoch \<Rightarrow> cred_id option" where
  "select s candidates tried now =
     (let pool = select_pool candidates tried now
      in if pool = [] then None
         else
           (let free_present = list_ex (\<lambda>c. c_credit_rate c = Some 0) pool;
                chosen = sort_key (select_key s now free_present) (select_ranked pool)
            in Some (c_id (hd chosen))))"

definition should_rotate :: "scheduler \<Rightarrow> int \<Rightarrow> bool" where
  "should_rotate s attempts \<longleftrightarrow> attempts < sch_max_rotate s"

section \<open>Feedback\<close>

definition cooling_until_of :: "epoch \<Rightarrow> epoch option \<Rightarrow> int \<Rightarrow> epoch" where
  "cooling_until_of now retry_at duration = fst (clamp_retry_at retry_at now duration)"

definition restricted_duration :: "int \<Rightarrow> int" where
  "restricted_duration level =
     min (RESTRICTED_COOLDOWN_SECONDS * 2 ^ nat (min level 8)) RESTRICTED_COOLDOWN_MAX_SECONDS"

definition scoped_reason :: "err_kind \<Rightarrow> string" where
  "scoped_reason kind =
     (if kind = BLOCKED then ''blocked'' else if kind = CONCURRENCY then ''concurrency'' else ''model'')"

definition scoped_cooldown ::
    "candidate \<Rightarrow> err_kind \<Rightarrow> epoch \<Rightarrow> model_name \<Rightarrow> epoch option \<Rightarrow> model_cooldown" where
  "scoped_cooldown c kind now m retry_at =
     (let reason = scoped_reason kind;
          existing = c_model_cooldowns c m;
          hits = (case existing of
                    Some e \<Rightarrow> if mc_reason e = reason then mc_hits e + 1 else 1
                  | None \<Rightarrow> 1);
          duration = (if kind = CONCURRENCY then CONCURRENCY_COOLDOWN_SECONDS
                      else if kind = BLOCKED then blocked_backoff_duration hits
                      else model_cooldown_duration hits)
      in \<lparr>mc_until = cooling_until_of now retry_at duration, mc_hits = hits, mc_reason = reason\<rparr>)"

definition account_cooldown :: "err_kind \<Rightarrow> epoch \<Rightarrow> int \<Rightarrow> error_outcome" where
  "account_cooldown kind until errs =
     outcome0\<lparr>eo_cooling_until := Some until, eo_cooling_kind := err_value kind, eo_err_count := errs\<rparr>"

definition note_error ::
    "scheduler \<Rightarrow> candidate \<Rightarrow> err_kind \<Rightarrow> epoch \<Rightarrow> model_name option \<Rightarrow> epoch option \<Rightarrow> error_outcome" where
  "note_error s c kind now model retry_at =
     (if kind \<in> set NO_PENALTY_KINDS then outcome0\<lparr>eo_err_count := c_err_count c\<rparr>
      else if kind = QUEUE then outcome0\<lparr>eo_err_count := c_err_count c\<rparr>
      else if kind = DEAD then outcome0\<lparr>eo_disabled := True, eo_err_count := 0\<rparr>
      else if kind = RESTRICTED then
        (let level = max (c_err_count c) 0;
             duration = restricted_duration level
         in account_cooldown kind (cooling_until_of now retry_at duration) (level + 1))
      else if kind = CREDIT then
        account_cooldown kind
          (cooling_until_of now retry_at (max (next_credit_reset now - now) 0)) 0
      else if kind = PLAN then
        account_cooldown kind (cooling_until_of now retry_at (sch_plan s)) 0
      else if kind \<in> set MODEL_SCOPED_KINDS then
        (case model of
           Some m \<Rightarrow>
             if m = [] then
               account_cooldown kind (cooling_until_of now retry_at (sch_soft s)) (c_err_count c)
             else outcome0\<lparr>eo_err_count := c_err_count c,
                           eo_model_cooldowns := [(m, scoped_cooldown c kind now m retry_at)]\<rparr>
         | None \<Rightarrow>
             account_cooldown kind (cooling_until_of now retry_at (sch_soft s)) (c_err_count c))
      else if kind = SOFT then
        account_cooldown kind (cooling_until_of now retry_at (sch_soft s)) (c_err_count c)
      else
        (let count = c_err_count c + 1
         in if count \<ge> sch_err_threshold s
            then account_cooldown kind (cooling_until_of now retry_at (sch_other s)) 0
            else outcome0\<lparr>eo_err_count := count\<rparr>))"

section \<open>Cooldown arithmetic\<close>

lemma next_credit_reset_bounds: "now < next_credit_reset now \<and> next_credit_reset now \<le> now + 86400"
proof -
  let ?m = "day_start now"
  have b: "?m \<le> now" "now < ?m + 86400" using day_start_bounds[of now] by auto
  show ?thesis
  proof (cases "(now - ?m) div 3600 \<ge> 4")
    case True
    then have "now - ?m \<ge> 4 * 3600" by linarith
    with b True show ?thesis by (simp add: next_credit_reset_def Let_def CREDIT_RESET_HOUR_def)
  next
    case False
    then have "now - ?m < 4 * 3600" by linarith
    with b False show ?thesis by (simp add: next_credit_reset_def Let_def CREDIT_RESET_HOUR_def)
  qed
qed

text \<open>A balance-exhausted credential cools down until 04:00 Beijing time: the reset lies strictly
  in the future, at most a day ahead, is four hours after a Beijing midnight, and no earlier
  04:00 lies between now and it.\<close>

theorem next_credit_reset_is_next_four_oclock:
  "now < next_credit_reset now
   \<and> day_start (next_credit_reset now) + 4 * 3600 = next_credit_reset now
   \<and> \<not> (\<exists>t. now < t \<and> t < next_credit_reset now \<and> t = day_start t + 4 * 3600)"
proof -
  have four: "day_start (day_start x + 4 * 3600) = day_start x"
    "day_start (day_start x + 4 * 3600 + 86400) = day_start x + 86400" for x
    by (simp_all add: day_start_def)
  have a: "day_start (next_credit_reset now) + 4 * 3600 = next_credit_reset now"
    using four[of now] by (simp add: next_credit_reset_def Let_def CREDIT_RESET_HOUR_def)
  have "False" if t: "now < t" "t < next_credit_reset now" "t = day_start t + 4 * 3600" for t
  proof -
    have b: "day_start now \<le> now" "now < day_start now + 86400" using day_start_bounds by auto
    have r: "next_credit_reset now = day_start now + 4 * 3600 \<and> now < day_start now + 4 * 3600
        \<or> next_credit_reset now = day_start now + 4 * 3600 + 86400 \<and> day_start now + 4 * 3600 \<le> now"
      by (simp add: next_credit_reset_def Let_def CREDIT_RESET_HOUR_def) linarith
    have step: "\<exists>j. day_start x = 86400 * j - CN_OFFSET" for x
      by (rule exI[of _ "(x + CN_OFFSET) div 86400"]) (simp add: day_start_def)
    obtain i j where "day_start now = 86400 * i - CN_OFFSET" "day_start t = 86400 * j - CN_OFFSET"
      using step by blast
    with t b r show False by (cases "j \<le> i"; cases "i + 1 \<le> j") auto
  qed
  with a next_credit_reset_bounds show ?thesis by blast
qed

text \<open>An upstream's restore time is adopted only inside the bounds: the cooldown is never shorter
  than the local constant, never longer than the larger of the constant and a day, and equals
  the upstream's time when that lies between the two, for every constant of at most a day.\<close>

theorem clamp_retry_at_bounds:
  assumes "fallback \<le> RETRY_AT_MAX_SECONDS"
  shows "now + fallback \<le> fst (clamp_retry_at r now fallback)
    \<and> fst (clamp_retry_at r now fallback) \<le> now + RETRY_AT_MAX_SECONDS
    \<and> (\<forall>t. r = Some t \<longrightarrow> now + fallback \<le> t \<longrightarrow> t \<le> now + RETRY_AT_MAX_SECONDS \<longrightarrow>
         fst (clamp_retry_at r now fallback) = t)"
  using assms by (auto simp: clamp_retry_at_def Let_def split: option.splits)

theorem clamp_retry_at_bounds_witness:
  "100 + 60 \<le> fst (clamp_retry_at (Some 500) 100 60) \<and> fst (clamp_retry_at (Some 500) 100 60) = 500"
  using clamp_retry_at_bounds[of 60 100 "Some 500"] by (simp add: RETRY_AT_MAX_SECONDS_def)

lemma clamp_retry_at_long_fallback:
  assumes "RETRY_AT_MAX_SECONDS < fallback" "now + fallback < t"
  shows "fst (clamp_retry_at (Some t) now fallback) = now + RETRY_AT_MAX_SECONDS"
  using assms by (simp add: clamp_retry_at_def Let_def)

lemma restricted_duration_high: "4 \<le> level \<Longrightarrow> RETRY_AT_MAX_SECONDS < restricted_duration level"
proof -
  assume "4 \<le> level"
  then have "(2::int) ^ 4 \<le> 2 ^ nat (min level 8)" by (intro power_increasing) auto
  then show ?thesis by (simp add: restricted_duration_def sched_consts)
qed

lemma restricted_duration_bounds:
  "0 \<le> level \<Longrightarrow> RESTRICTED_COOLDOWN_SECONDS \<le> restricted_duration level
    \<and> restricted_duration level \<le> RESTRICTED_COOLDOWN_MAX_SECONDS"
proof -
  have "(1::int) \<le> 2 ^ nat (min level 8)" by simp
  then show ?thesis by (simp add: restricted_duration_def sched_consts)
qed

text \<open>The backoffs double per hit inside their bounds: the model cooldown runs from 10 minutes to
  2 hours, the negative cache from 6 to 24 hours, the account restriction from 2 hours to 7 days,
  each monotone in the number of hits.\<close>

theorem backoff_durations:
  assumes "h \<le> h'"
  shows "600 \<le> model_cooldown_duration h \<and> model_cooldown_duration h \<le> 7200
    \<and> model_cooldown_duration h \<le> model_cooldown_duration h'
    \<and> 21600 \<le> blocked_backoff_duration h \<and> blocked_backoff_duration h \<le> 86400
    \<and> blocked_backoff_duration h \<le> blocked_backoff_duration h'
    \<and> 7200 \<le> restricted_duration h \<and> restricted_duration h \<le> 604800
    \<and> restricted_duration h \<le> restricted_duration h'"
proof -
  have pow: "a \<le> b \<Longrightarrow> (1::int) \<le> 2 ^ nat a \<and> (2::int) ^ nat a \<le> 2 ^ nat b" for a b :: int
    by (simp add: power_increasing nat_mono)
  note [simp del] = power_increasing_iff
  have m: "model_cooldown_duration h \<le> model_cooldown_duration h'"
    using pow[of "h - 1" "h' - 1"] assms
    by (auto simp: model_cooldown_duration_def sched_consts min_le_iff_disj)
  have b: "blocked_backoff_duration h \<le> blocked_backoff_duration h'"
    unfolding blocked_backoff_duration_def sched_consts Let_def using assms
    by (intro min.mono mult_left_mono power_increasing nat_mono) auto
  have r: "restricted_duration h \<le> restricted_duration h'"
    unfolding restricted_duration_def sched_consts using assms
    by (intro min.mono mult_left_mono power_increasing nat_mono) auto
  have bounds: "600 \<le> model_cooldown_duration h" "model_cooldown_duration h \<le> 7200"
    "21600 \<le> blocked_backoff_duration h" "blocked_backoff_duration h \<le> 86400"
    "7200 \<le> restricted_duration h" "restricted_duration h \<le> 604800"
    using pow[of "h - 1" "h - 1"] pow[of "min (max (h - 1) 0) 2" "2"] pow[of "min h 8" "min h 8"]
    by (auto simp: model_cooldown_duration_def blocked_backoff_duration_def restricted_duration_def
        sched_consts Let_def)
  from m b r bounds show ?thesis by blast
qed

theorem backoff_durations_witness:
  "model_cooldown_duration 2 \<le> model_cooldown_duration 3 \<and> model_cooldown_duration 3 = 2400"
  using backoff_durations[of 2 3] by (simp add: model_cooldown_duration_def sched_consts)

section \<open>Selection is optimal\<close>

lemma hd_sort_key_mem: "xs \<noteq> [] \<Longrightarrow> hd (sort_key f xs) \<in> set xs"
  by (metis hd_in_set set_sort sort_key_simps(1) length_sort length_0_conv)

lemma hd_sort_key_min: "y \<in> set xs \<Longrightarrow> f (hd (sort_key f xs)) \<le> f y"
proof -
  assume y: "y \<in> set xs"
  have "sorted (map f (sort_key f xs))" by simp
  moreover have "y \<in> set (sort_key f xs)" using y by simp
  ultimately show ?thesis
    by (cases "sort_key f xs") auto
qed

lemma select_None_iff: "select s cs tried now = None \<longleftrightarrow>
    \<not> (\<exists>c \<in> set cs. is_selectable c now None \<and> c_id c \<notin> tried)"
  by (auto simp: select_def Let_def select_pool_def filter_empty_conv)

abbreviation has_free :: "candidate list \<Rightarrow> bool" where
  "has_free pool \<equiv> list_ex (\<lambda>c. c_credit_rate c = Some 0) pool"

lemma select_Some_ranked:
  assumes "select s cs tried now = Some cid" and "pool = select_pool cs tried now"
  shows "\<exists>c \<in> set (select_ranked pool). c_id c = cid
    \<and> (\<forall>d \<in> set (select_ranked pool). select_key s now (has_free pool) c \<le> select_key s now (has_free pool) d)"
proof -
  let ?c = "hd (sort_key (select_key s now (has_free pool)) (select_ranked pool))"
  have "pool \<noteq> []" and cid: "c_id ?c = cid"
    using assms by (auto simp: select_def Let_def split: if_splits)
  then have "select_ranked pool \<noteq> []" by (auto simp: select_ranked_def Let_def)
  then have "?c \<in> set (select_ranked pool)" by (rule hd_sort_key_mem)
  moreover have "\<forall>d \<in> set (select_ranked pool).
      select_key s now (has_free pool) ?c \<le> select_key s now (has_free pool) d"
    by (intro ballI hd_sort_key_min)
  ultimately show ?thesis using cid by (intro bexI[of _ ?c]) simp_all
qed

lemma set_select_ranked: "c \<in> set (select_ranked pool) \<longleftrightarrow>
    c \<in> set pool \<and> ((\<exists>d \<in> set pool. c_pinned d) \<longrightarrow> c_pinned c)"
  by (auto simp: select_ranked_def Let_def filter_empty_conv)



text \<open>A deterministic choice: the result does not depend on the order of the candidates.\<close>

lemma select_key_inj: "select_key s now fp c = select_key s now fp d \<Longrightarrow> c_id c = c_id d"
  by (simp add: select_key_def split_beta)

text \<open>The choice does not depend on the order in which the repository lists the credentials: any
  two lists of the same candidates give the same result.\<close>

theorem select_order_independent:
  assumes "set cs = set cs'"
  shows "select s cs tried now = select s cs' tried now"
proof -
  let ?p = "select_pool cs tried now" and ?p' = "select_pool cs' tried now"
  have pool: "set ?p = set ?p'" using assms by (auto simp: select_pool_def)
  then have free: "has_free ?p = has_free ?p'" by (simp add: list_ex_iff)
  have ranked: "set (select_ranked ?p) = set (select_ranked ?p')"
    using pool by (auto simp: set_select_ranked)
  have none: "select s cs tried now = None \<longleftrightarrow> select s cs' tried now = None"
    using assms unfolding select_None_iff by simp
  have "a = b" if a: "select s cs tried now = Some a" and b: "select s cs' tried now = Some b" for a b
  proof -
    from select_Some_ranked[OF a refl] obtain c where c: "c \<in> set (select_ranked ?p)" "c_id c = a"
      "\<forall>d \<in> set (select_ranked ?p). select_key s now (has_free ?p) c \<le> select_key s now (has_free ?p) d"
      by blast
    from select_Some_ranked[OF b refl] obtain d where d: "d \<in> set (select_ranked ?p')" "c_id d = b"
      "\<forall>e \<in> set (select_ranked ?p'). select_key s now (has_free ?p') d \<le> select_key s now (has_free ?p') e"
      by blast
    have "select_key s now (has_free ?p) c = select_key s now (has_free ?p) d"
      using c d by (intro antisym) (simp_all add: ranked free)
    from select_key_inj[OF this] c(2) d(2) show "a = b" by simp
  qed
  note same = this
  show ?thesis
  proof (cases "select s cs tried now")
    case None
    with none show ?thesis by (metis)
  next
    case (Some a)
    with none obtain b where b: "select s cs' tried now = Some b" by (cases "select s cs' tried now") auto
    from same[OF Some b] Some b show ?thesis by simp
  qed
qed

theorem select_order_independent_witness:
  "select default_scheduler [mk_candidate ''a'' ''p'', mk_candidate ''b'' ''p''] {} 0
   = select default_scheduler [mk_candidate ''b'' ''p'', mk_candidate ''a'' ''p''] {} 0"
  by (rule select_order_independent) auto

section \<open>What an error does\<close>

lemma note_error_account_time:
  assumes "eo_cooling_until (note_error s c kind now model r) = Some u"
    and "0 < sch_plan s" "0 < sch_soft s" "0 < sch_other s"
  shows "now < u"
proof -
  have pos: "0 < d \<Longrightarrow> now < cooling_until_of now r d" for d
    by (auto simp: cooling_until_of_def clamp_retry_at_def Let_def sched_consts split: option.splits)
  have "0 < restricted_duration (max (c_err_count c) 0)"
    using restricted_duration_bounds[of "max (c_err_count c) 0"] by (simp add: sched_consts)
  moreover have "0 < max (next_credit_reset now - now) 0" using next_credit_reset_bounds[of now] by simp
  ultimately show ?thesis
    using assms pos
    by (auto simp: note_error_def account_cooldown_def outcome0_def Let_def
        split: if_splits option.splits)
qed

text \<open>The scope of every error class: request, context, network and queue errors change nothing;
  only a dead session disables; a model-scoped error with a model name never touches the account
  and leaves exactly one entry, for that model; every other class leaves the models alone, and an
  account cooldown is recorded together with its class.\<close>

theorem note_error_scope:
  "(kind \<in> set NO_PENALTY_KINDS \<or> kind = QUEUE \<longrightarrow>
      note_error s c kind now model r = outcome0\<lparr>eo_err_count := c_err_count c\<rparr>)
   \<and> (eo_disabled (note_error s c kind now model r) \<longleftrightarrow> kind = DEAD)
   \<and> (kind \<in> set MODEL_SCOPED_KINDS \<and> model = Some m \<and> m \<noteq> [] \<longrightarrow>
      eo_cooling_until (note_error s c kind now model r) = None
      \<and> eo_err_count (note_error s c kind now model r) = c_err_count c
      \<and> od_keys (eo_model_cooldowns (note_error s c kind now model r)) = [m])
   \<and> (kind \<notin> set MODEL_SCOPED_KINDS \<longrightarrow> eo_model_cooldowns (note_error s c kind now model r) = [])
   \<and> (eo_cooling_until (note_error s c kind now model r) \<noteq> None \<longrightarrow>
      eo_cooling_kind (note_error s c kind now model r) = err_value kind
      \<and> eo_model_cooldowns (note_error s c kind now model r) = [])"
  by (cases kind; cases model)
    (auto simp: note_error_def account_cooldown_def outcome0_def kind_sets Let_def od_keys_def)

theorem note_error_scope_witness:
  "od_keys (eo_model_cooldowns (note_error default_scheduler (mk_candidate ''a'' ''p'') MODEL 0 (Some ''m'') None)) = [''m'']"
  using note_error_scope[of MODEL default_scheduler "mk_candidate ''a'' ''p''" 0 "Some ''m''" None "''m''"]
  by (simp add: kind_sets)

text \<open>The lower bound on an adopted restore time fails for repeat offenders: from the fifth
  restriction on, an upstream that asks for a longer pause than the local backoff gets a shorter
  one, a day instead of the backoff of more than a day.\<close>

theorem restricted_retry_after_shortens:
  assumes "4 \<le> c_err_count c" and "now + restricted_duration (c_err_count c) < t"
  shows "eo_cooling_until (note_error s c RESTRICTED now model (Some t)) = Some (now + 86400)
    \<and> now + 86400 < now + restricted_duration (c_err_count c)
    \<and> eo_cooling_until (note_error s c RESTRICTED now model None)
        = Some (now + restricted_duration (c_err_count c))"
proof -
  have m: "max (c_err_count c) 0 = c_err_count c" using assms(1) by simp
  have h: "RETRY_AT_MAX_SECONDS < restricted_duration (c_err_count c)"
    by (rule restricted_duration_high[OF assms(1)])
  show ?thesis
    using clamp_retry_at_long_fallback[OF h assms(2)] h
    by (simp add: note_error_def kind_sets account_cooldown_def outcome0_def Let_def m
        cooling_until_of_def clamp_retry_at_def RETRY_AT_MAX_SECONDS_def)
qed

theorem restricted_retry_after_shortens_witness:
  "eo_cooling_until (note_error default_scheduler (mk_candidate ''a'' ''p''\<lparr>c_err_count := 6\<rparr>)
     RESTRICTED 0 None (Some 700000)) = Some 86400"
  using restricted_retry_after_shortens[of "mk_candidate ''a'' ''p''\<lparr>c_err_count := 6\<rparr>" 0 700000
      default_scheduler None]
  by (simp add: mk_candidate_def restricted_duration_def sched_consts)

text \<open>The restriction backoff counts every accumulated error, not the restrictions alone: two
  unrelated failures before the first restriction already quadruple its cooldown.\<close>

theorem restricted_level_counts_other_errors:
  assumes "c_err_count c = 0" and "2 < sch_err_threshold s"
  shows "eo_err_count (note_error s c OTHER now model r) = 1
    \<and> eo_err_count (note_error s (c\<lparr>c_err_count := 1\<rparr>) OTHER now model r) = 2
    \<and> eo_cooling_until (note_error s (c\<lparr>c_err_count := 2\<rparr>) RESTRICTED now model None)
        = Some (now + 4 * RESTRICTED_COOLDOWN_SECONDS)"
  using assms
  by (simp add: note_error_def kind_sets account_cooldown_def outcome0_def Let_def
      cooling_until_of_def clamp_retry_at_def restricted_duration_def sched_consts)

theorem restricted_level_counts_other_errors_witness:
  "eo_cooling_until (note_error default_scheduler (mk_candidate ''a'' ''p''\<lparr>c_err_count := 2\<rparr>)
     RESTRICTED 0 None None) = Some (0 + 4 * RESTRICTED_COOLDOWN_SECONDS)"
  using restricted_level_counts_other_errors[of "mk_candidate ''a'' ''p''" default_scheduler 0 None None]
  by (simp add: mk_candidate_def default_scheduler_def sched_consts)

end
