(* ===== verification/CredStore.thy ===== *)
theory CredStore
  imports Scheduler
begin

text \<open>
  \<^verbatim>\<open>CredentialRepository\<close> of \<^verbatim>\<open>src/db/repo.py\<close>: the credential table and the
  (credential, model) cooldown table. A table is a list of rows in row order, an SQL statement a
  function on it, a transaction one function of the store. The encrypted column is modelled by
  what its decryption yields: \<open>None\<close> is a cipher text that no longer decrypts.
  \<^verbatim>\<open>tags_text\<close>, \<^verbatim>\<open>credential_token_times\<close> and fresh ids are arguments.
\<close>

section \<open>Tables\<close>

record cred_row =
  r_id :: cred_id
  r_provider :: provider_id
  r_nickname :: string
  r_data :: "json option"
  r_enabled :: bool
  r_disabled :: bool
  r_disabled_reason :: "string option"
  r_pinned :: bool
  r_health :: "int option"
  r_cooling_until :: "epoch option"
  r_cooling_kind :: "string option"
  r_err_count :: int
  r_quota_remaining :: "rat option"
  r_quota_total :: "rat option"
  r_cycle_end :: "epoch option"
  r_ladder :: "(epoch \<times> rat) list option"
  r_probed_at :: "epoch option"
  r_token_expires :: epoch
  r_token_issued :: epoch
  r_growth :: "(epoch \<times> string) option"
  r_tags :: string
  r_created :: epoch
  r_added_by :: string

record credit_event =
  ce_cred :: cred_id
  ce_ts :: "epoch option"
  ce_window_start :: "epoch option"
  ce_before :: "rat option"
  ce_after :: "rat option"
  ce_delta :: "rat option"
  ce_source :: string
  ce_ledger :: string

type_synonym cooldown_table = "(cred_id \<times> model_name, model_cooldown) odict"

record store =
  st_rows :: "cred_row list"
  st_cools :: cooldown_table
  st_events :: "credit_event list"

definition empty_store :: store where
  "empty_store = \<lparr>st_rows = [], st_cools = [], st_events = []\<rparr>"

text \<open>\<^verbatim>\<open>UPDATE credentials SET ... WHERE ...\<close> and its row count.\<close>

definition update_where :: "(cred_row \<Rightarrow> bool) \<Rightarrow> (cred_row \<Rightarrow> cred_row) \<Rightarrow> store \<Rightarrow> store" where
  "update_where P f s = s\<lparr>st_rows := map (\<lambda>r. if P r then f r else r) (st_rows s)\<rparr>"

definition count_where :: "(cred_row \<Rightarrow> bool) \<Rightarrow> store \<Rightarrow> nat" where
  "count_where P s = length (filter P (st_rows s))"

definition find_row :: "cred_id \<Rightarrow> store \<Rightarrow> cred_row option" where
  "find_row cid s = find (\<lambda>r. r_id r = cid) (st_rows s)"

definition clear_model_cooldowns :: "cred_id \<Rightarrow> store \<Rightarrow> store" where
  "clear_model_cooldowns cid s = s\<lparr>st_cools := filter (\<lambda>e. fst (fst e) \<noteq> cid) (st_cools s)\<rparr>"

abbreviation at_id :: "cred_id \<Rightarrow> cred_row \<Rightarrow> bool" where
  "at_id cid r \<equiv> r_id r = cid"

section \<open>Administrative operations\<close>

definition cr_add ::
    "cred_id \<Rightarrow> provider_id \<Rightarrow> json \<Rightarrow> string \<Rightarrow> string \<Rightarrow> epoch \<Rightarrow> epoch \<times> epoch \<Rightarrow> string \<Rightarrow> store
      \<Rightarrow> string + store" where
  "cr_add cid p d nick by now tt tags s =
     (if find_row cid s \<noteq> None then Inl ''IntegrityError''
      else Inr (s\<lparr>st_rows := st_rows s @
        [\<lparr>r_id = cid, r_provider = p, r_nickname = nick, r_data = Some d, r_enabled = True,
          r_disabled = False, r_disabled_reason = None, r_pinned = False, r_health = None,
          r_cooling_until = None, r_cooling_kind = None, r_err_count = 0,
          r_quota_remaining = None, r_quota_total = None, r_cycle_end = None, r_ladder = None,
          r_probed_at = None, r_token_expires = snd tt, r_token_issued = fst tt,
          r_growth = None, r_tags = tags, r_created = now, r_added_by = by\<rparr>]\<rparr>))"

definition cr_set_tags :: "cred_id \<Rightarrow> string \<Rightarrow> store \<Rightarrow> bool \<times> store" where
  "cr_set_tags cid tags s =
     (count_where (at_id cid) s > 0, update_where (at_id cid) (\<lambda>r. r\<lparr>r_tags := tags\<rparr>) s)"

definition cr_delete :: "cred_id \<Rightarrow> store \<Rightarrow> bool \<times> store" where
  "cr_delete cid s =
     (count_where (at_id cid) s > 0,
      clear_model_cooldowns cid (s\<lparr>st_rows := filter (\<lambda>r. \<not> at_id cid r) (st_rows s)\<rparr>))"

definition cr_set_enabled :: "cred_id \<Rightarrow> bool \<Rightarrow> store \<Rightarrow> bool \<times> store" where
  "cr_set_enabled cid b s =
     (count_where (at_id cid) s > 0, update_where (at_id cid) (\<lambda>r. r\<lparr>r_enabled := b\<rparr>) s)"

definition cr_set_pinned :: "cred_id option \<Rightarrow> store \<Rightarrow> bool \<times> store" where
  "cr_set_pinned target s =
     (case target of
        None \<Rightarrow> (True, update_where (\<lambda>_. True) (\<lambda>r. r\<lparr>r_pinned := False\<rparr>) s)
      | Some cid \<Rightarrow>
          if find_row cid s = None then (False, s)
          else (True, update_where (at_id cid) (\<lambda>r. r\<lparr>r_pinned := True\<rparr>)
                 (update_where (\<lambda>_. True) (\<lambda>r. r\<lparr>r_pinned := False\<rparr>) s)))"

definition keeps_cooldown :: "cred_row \<Rightarrow> bool" where
  "keeps_cooldown r =
     (case r_cooling_kind r of Some k \<Rightarrow> k \<in> set UPSTREAM_COOLDOWN_KINDS | None \<Rightarrow> False)"

definition cr_revive :: "cred_id \<Rightarrow> bool \<Rightarrow> store \<Rightarrow> bool \<times> store" where
  "cr_revive cid force s =
     (case find_row cid s of
        None \<Rightarrow> (False, s)
      | Some row \<Rightarrow>
          (let keep = \<not> force \<and> keeps_cooldown row;
               s' = (if keep
                     then update_where (at_id cid)
                       (\<lambda>r. r\<lparr>r_disabled := False, r_disabled_reason := None, r_err_count := 0\<rparr>) s
                     else update_where (at_id cid)
                       (\<lambda>r. r\<lparr>r_disabled := False, r_disabled_reason := None,
                             r_cooling_until := None, r_cooling_kind := None, r_err_count := 0\<rparr>) s)
           in (True, clear_model_cooldowns cid s')))"

definition cr_mark_relogin_required :: "cred_id \<Rightarrow> string \<Rightarrow> store \<Rightarrow> store" where
  "cr_mark_relogin_required cid reason s =
     clear_model_cooldowns cid (update_where (at_id cid)
       (\<lambda>r. r\<lparr>r_disabled := True, r_disabled_reason := Some reason, r_err_count := 0,
             r_cooling_until := None, r_cooling_kind := None\<rparr>) s)"

section \<open>Feedback of the engine\<close>

definition coalesce :: "'a option \<Rightarrow> 'a option \<Rightarrow> 'a option" where
  "coalesce a b = (case a of Some x \<Rightarrow> Some x | None \<Rightarrow> b)"

definition str_or_none :: "string \<Rightarrow> string option" where
  "str_or_none t = (if t = [] then None else Some t)"

definition cr_save_error :: "cred_id \<Rightarrow> error_outcome \<Rightarrow> store \<Rightarrow> store" where
  "cr_save_error cid oc s =
     (if eo_model_cooldowns oc \<noteq> []
      then s\<lparr>st_cools := fold (\<lambda>(m, e). od_set (cid, m) e) (eo_model_cooldowns oc) (st_cools s)\<rparr>
      else
        (let s' = (if eo_disabled oc
                   then update_where (at_id cid)
                     (\<lambda>r. r\<lparr>r_disabled := True,
                           r_disabled_reason :=
                             Some (if eo_disabled_reason oc = [] then ''session dead'' else eo_disabled_reason oc),
                           r_err_count := 0, r_cooling_until := None, r_cooling_kind := None\<rparr>) s
                   else update_where (at_id cid)
                     (\<lambda>r. r\<lparr>r_cooling_until := coalesce (eo_cooling_until oc) (r_cooling_until r),
                           r_cooling_kind := coalesce (str_or_none (eo_cooling_kind oc)) (r_cooling_kind r),
                           r_err_count := eo_err_count oc\<rparr>) s)
         in if eo_cooling_until oc \<noteq> None then clear_model_cooldowns cid s' else s'))"

definition provider_ids :: "provider_id \<Rightarrow> store \<Rightarrow> cred_id set" where
  "provider_ids p s = r_id ` set (filter (\<lambda>r. r_provider r = p) (st_rows s))"

definition cools_before :: "provider_id \<Rightarrow> epoch \<Rightarrow> cred_row \<Rightarrow> bool" where
  "cools_before p until r \<longleftrightarrow> r_provider r = p \<and>
     (case r_cooling_until r of None \<Rightarrow> True | Some u \<Rightarrow> u < until)"

definition cr_cool_provider :: "provider_id \<Rightarrow> epoch \<Rightarrow> store \<Rightarrow> nat \<times> store" where
  "cr_cool_provider p until s =
     (count_where (cools_before p until) s,
      (let s' = update_where (cools_before p until)
             (\<lambda>r. r\<lparr>r_cooling_until := Some until, r_cooling_kind := Some (err_value RESTRICTED),
                   r_err_count := 0\<rparr>) s
       in s'\<lparr>st_cools := filter (\<lambda>e. fst (fst e) \<notin> provider_ids p s') (st_cools s')\<rparr>))"

definition cr_save_success :: "cred_id \<Rightarrow> model_name option \<Rightarrow> store \<Rightarrow> store" where
  "cr_save_success cid model s =
     (let s' = update_where (at_id cid) (\<lambda>r. r\<lparr>r_err_count := 0\<rparr>) s
      in case model of
           None \<Rightarrow> s'
         | Some m \<Rightarrow> if m = [] then s'
             else s'\<lparr>st_cools := filter (\<lambda>(k, e). \<not> (k = (cid, m) \<and> mc_reason e = ''blocked'')) (st_cools s')\<rparr>)"

definition cr_purge_model :: "epoch \<Rightarrow> store \<Rightarrow> nat \<times> store" where
  "cr_purge_model now s =
     (length (filter (\<lambda>(k, e). mc_until e \<le> now) (st_cools s)),
      s\<lparr>st_cools := filter (\<lambda>(k, e). \<not> mc_until e \<le> now) (st_cools s)\<rparr>)"

definition expired_row :: "epoch \<Rightarrow> cred_row \<Rightarrow> bool" where
  "expired_row now r = (case r_cooling_until r of Some u \<Rightarrow> u \<le> now | None \<Rightarrow> False)"

definition cr_purge_account :: "epoch \<Rightarrow> store \<Rightarrow> nat \<times> store" where
  "cr_purge_account now s =
     (count_where (expired_row now) s,
      update_where (expired_row now) (\<lambda>r. r\<lparr>r_cooling_until := None, r_cooling_kind := None\<rparr>) s)"

definition cr_model_cooldowns_for :: "cred_id \<Rightarrow> epoch \<Rightarrow> store \<Rightarrow> (model_name, epoch) odict" where
  "cr_model_cooldowns_for cid now s =
     map (\<lambda>(k, e). (snd k, mc_until e))
       (filter (\<lambda>(k, e). fst k = cid \<and> mc_until e > now) (st_cools s))"

definition cr_blocked_cooldowns ::
    "epoch \<Rightarrow> store \<Rightarrow> (cred_id \<times> model_name \<times> epoch \<times> int \<times> provider_id) list" where
  "cr_blocked_cooldowns now s =
     sort_key (\<lambda>(c, m, u, h, p). u)
       (concat (map (\<lambda>(k, e).
          if mc_reason e = ''blocked'' \<and> mc_until e > now
          then map (\<lambda>r. (fst k, snd k, mc_until e, mc_hits e, r_provider r))
                 (filter (at_id (fst k)) (st_rows s))
          else []) (st_cools s)))"

definition cr_clear_blocked :: "provider_id \<Rightarrow> model_name \<Rightarrow> store \<Rightarrow> nat \<times> store" where
  "cr_clear_blocked p m s =
     (let hit = (\<lambda>(k, e). snd k = m \<and> mc_reason e = ''blocked'' \<and> fst k \<in> provider_ids p s)
      in (length (filter hit (st_cools s)),
          s\<lparr>st_cools := filter (\<lambda>x. \<not> hit x) (st_cools s)\<rparr>))"

section \<open>Stored credential data\<close>

definition cr_save_data :: "cred_id \<Rightarrow> json \<Rightarrow> epoch \<times> epoch \<Rightarrow> store \<Rightarrow> store" where
  "cr_save_data cid d tt s =
     update_where (at_id cid)
       (\<lambda>r. r\<lparr>r_data := Some d, r_token_expires := snd tt, r_token_issued := fst tt\<rparr>) s"

text \<open>The identity function is the provider's; it raises (\<open>None\<close>) on a broken document.\<close>

definition login_matches ::
    "provider_id \<Rightarrow> (json \<Rightarrow> string set option) \<Rightarrow> string set \<Rightarrow> store \<Rightarrow> cred_row list" where
  "login_matches p identity target s =
     filter (\<lambda>r. case r_data r of None \<Rightarrow> False
                 | Some d \<Rightarrow> (case identity d of None \<Rightarrow> False | Some a \<Rightarrow> a \<inter> target \<noteq> {}))
       (sort_key r_created (filter (\<lambda>r. r_provider r = p) (st_rows s)))"

definition cr_find_login ::
    "provider_id \<Rightarrow> (json \<Rightarrow> string set option) \<Rightarrow> string set \<Rightarrow> store \<Rightarrow> cred_id option" where
  "cr_find_login p identity target s =
     (if target = {} then None
      else
        (let ms = login_matches p identity target s
         in case find r_disabled ms of
              Some r \<Rightarrow> Some (r_id r)
            | None \<Rightarrow> (case find r_pinned ms of
                Some r \<Rightarrow> Some (r_id r)
              | None \<Rightarrow> (case ms of r # _ \<Rightarrow> Some (r_id r) | [] \<Rightarrow> None))))"

definition cr_merge_login ::
    "cred_id \<Rightarrow> json \<Rightarrow> epoch \<times> epoch \<Rightarrow> string \<Rightarrow> store \<Rightarrow> bool \<times> store" where
  "cr_merge_login cid d tt nick s =
     (case find_row cid s of
        None \<Rightarrow> (False, s)
      | Some row \<Rightarrow>
          (True, clear_model_cooldowns cid (update_where (at_id cid)
             (\<lambda>r. let r' = r\<lparr>r_data := Some d, r_token_expires := snd tt, r_token_issued := fst tt,
                             r_nickname := (if nick = [] then r_nickname r else nick),
                             r_disabled := False, r_disabled_reason := None, r_err_count := 0\<rparr>
                  in if keeps_cooldown row then r'
                     else r'\<lparr>r_cooling_until := None, r_cooling_kind := None\<rparr>) s)))"

definition quota_ledger :: "provider_id \<Rightarrow> string" where
  "quota_ledger p = (if p \<in> {''codearts'', ''raccoon''} then ''credits'' else ''pool'')"

definition round6 :: "rat \<Rightarrow> rat" where
  "round6 x = of_int (py_round (x * 1000000)) / 1000000"

definition credit_event_of ::
    "cred_id \<Rightarrow> string \<Rightarrow> rat option \<Rightarrow> rat option \<Rightarrow> epoch option \<Rightarrow> epoch option \<Rightarrow> credit_event list" where
  "credit_event_of cid ledger before after probed_at window_start =
     (case before of
        None \<Rightarrow>
          (case after of
             None \<Rightarrow> []
           | Some a \<Rightarrow> [\<lparr>ce_cred = cid, ce_ts = probed_at, ce_window_start = None, ce_before = None,
                         ce_after = Some a, ce_delta = None, ce_source = ''sync'', ce_ledger = ledger\<rparr>])
      | Some b \<Rightarrow>
          (case after of
             None \<Rightarrow> [\<lparr>ce_cred = cid, ce_ts = probed_at, ce_window_start = window_start, ce_before = Some b,
                       ce_after = None, ce_delta = None, ce_source = ''observed'', ce_ledger = ledger\<rparr>]
           | Some a \<Rightarrow>
               if b = a then []
               else if \<bar>a - b\<bar> < 1 / 1000000000 then []
               else [\<lparr>ce_cred = cid, ce_ts = probed_at, ce_window_start = window_start, ce_before = Some b,
                      ce_after = Some a, ce_delta = Some (round6 (a - b)), ce_source = ''observed'',
                      ce_ledger = ledger\<rparr>]))"

definition cr_save_quota :: "cred_id \<Rightarrow> quota \<Rightarrow> store \<Rightarrow> store" where
  "cr_save_quota cid q s =
     (let previous = find_row cid s;
          s' = update_where (at_id cid)
            (\<lambda>r. r\<lparr>r_quota_remaining := q_remaining q, r_quota_total := q_total q,
                  r_cycle_end := q_cycle_end q,
                  r_ladder := (if q_expiry_ladder q = Some [] then None else q_expiry_ladder q),
                  r_probed_at := q_probed_at q, r_health := health_score (Some q)\<rparr>) s
      in case previous of
           None \<Rightarrow> s'
         | Some row \<Rightarrow>
             s'\<lparr>st_events := st_events s' @
               credit_event_of cid (quota_ledger (r_provider row)) (r_quota_remaining row)
                 (q_remaining q) (q_probed_at q) (r_probed_at row)\<rparr>)"

definition cr_mark_probe_failed :: "cred_id \<Rightarrow> epoch \<Rightarrow> store \<Rightarrow> store" where
  "cr_mark_probe_failed cid now s =
     update_where (at_id cid) (\<lambda>r. r\<lparr>r_probed_at := Some now, r_health := None\<rparr>) s"

definition cr_save_growth :: "cred_id \<Rightarrow> string \<Rightarrow> epoch \<Rightarrow> store \<Rightarrow> store" where
  "cr_save_growth cid report now s = update_where (at_id cid) (\<lambda>r. r\<lparr>r_growth := Some (now, report)\<rparr>) s"

section \<open>Reads\<close>

definition row_candidate :: "cooldown_table \<Rightarrow> cred_row \<Rightarrow> candidate" where
  "row_candidate cools r =
     \<lparr>c_id = r_id r, c_provider = r_provider r, c_health = r_health r,
      c_cooling_until = r_cooling_until r, c_disabled = r_disabled r, c_enabled = r_enabled r,
      c_err_count = r_err_count r, c_pinned = r_pinned r, c_quota_remaining = r_quota_remaining r,
      c_cycle_end = r_cycle_end r, c_expiry_ladder = r_ladder r, c_credit_rate = None,
      c_inflight = 0, c_model_cooldowns = (\<lambda>m. od_get cools (r_id r, m))\<rparr>"

definition cr_candidates :: "provider_id set option \<Rightarrow> bool \<Rightarrow> store \<Rightarrow> candidate list" where
  "cr_candidates providers selectable_only s =
     (let result = map (row_candidate (st_cools s))
            (filter (\<lambda>r. case providers of None \<Rightarrow> True | Some ps \<Rightarrow> r_provider r \<in> ps) (st_rows s))
      in if selectable_only then filter (\<lambda>c. c_enabled c \<and> \<not> c_disabled c) result else result)"

definition cr_provider_of :: "cred_id \<Rightarrow> store \<Rightarrow> provider_id option" where
  "cr_provider_of cid s = map_option r_provider (find_row cid s)"

record pool_count =
  pc_total :: nat
  pc_ready :: nat
  pc_cooling :: nat
  pc_paused :: nat
  pc_disabled :: nat

definition count_one :: "epoch \<Rightarrow> candidate \<Rightarrow> pool_count \<Rightarrow> pool_count" where
  "count_one now c n =
     (let n = n\<lparr>pc_total := pc_total n + 1\<rparr>
      in if c_disabled c then n\<lparr>pc_disabled := pc_disabled n + 1\<rparr>
         else if \<not> c_enabled c then n\<lparr>pc_paused := pc_paused n + 1\<rparr>
         else if \<not> is_selectable c now None then n\<lparr>pc_cooling := pc_cooling n + 1\<rparr>
         else n\<lparr>pc_ready := pc_ready n + 1\<rparr>)"

definition cr_pool_counts :: "epoch \<Rightarrow> store \<Rightarrow> pool_count" where
  "cr_pool_counts now s =
     fold (count_one now) (cr_candidates None False s)
       \<lparr>pc_total = 0, pc_ready = 0, pc_cooling = 0, pc_paused = 0, pc_disabled = 0\<rparr>"

definition cr_attention_counts :: "store \<Rightarrow> nat \<times> nat" where
  "cr_attention_counts s =
     (count_where r_disabled s,
      count_where (\<lambda>r. \<not> r_disabled r \<and> r_enabled r \<and>
        (case r_health r of Some h \<Rightarrow> h < 0 | None \<Rightarrow> False)) s)"

text \<open>\<^verbatim>\<open>credential_data\<close>: a missing row, an undecryptable one (an error) or the document.\<close>

definition cr_credential_data :: "cred_id \<Rightarrow> store \<Rightarrow> string + json option" where
  "cr_credential_data cid s =
     (case find_row cid s of
        None \<Rightarrow> Inr None
      | Some r \<Rightarrow> (case r_data r of None \<Rightarrow> Inl ''CredentialDecryptError'' | Some d \<Rightarrow> Inr (Some d)))"

definition cr_nickname_of :: "cred_id \<Rightarrow> store \<Rightarrow> string option" where
  "cr_nickname_of cid s =
     (case find_row cid s of
        None \<Rightarrow> None
      | Some r \<Rightarrow> if r_nickname r = [] then None else Some (r_nickname r))"

section \<open>Every operation as a step of the store\<close>

inductive store_step :: "store \<Rightarrow> store \<Rightarrow> bool" where
  add: "cr_add cid p d nick by now tt tags s = Inr s' \<Longrightarrow> store_step s s'"
| set_tags: "store_step s (snd (cr_set_tags cid tags s))"
| delete: "store_step s (snd (cr_delete cid s))"
| set_enabled: "store_step s (snd (cr_set_enabled cid b s))"
| set_pinned: "store_step s (snd (cr_set_pinned target s))"
| revive: "store_step s (snd (cr_revive cid force s))"
| relogin: "store_step s (cr_mark_relogin_required cid reason s)"
| save_error: "store_step s (cr_save_error cid oc s)"
| cool_provider: "store_step s (snd (cr_cool_provider p until s))"
| save_success: "store_step s (cr_save_success cid model s)"
| purge_model: "store_step s (snd (cr_purge_model now s))"
| purge_account: "store_step s (snd (cr_purge_account now s))"
| clear_blocked: "store_step s (snd (cr_clear_blocked p m s))"
| save_data: "store_step s (cr_save_data cid d tt s)"
| merge_login: "store_step s (snd (cr_merge_login cid d tt nick s))"
| save_quota: "store_step s (cr_save_quota cid q s)"
| probe_failed: "store_step s (cr_mark_probe_failed cid now s)"
| save_growth: "store_step s (cr_save_growth cid report now s)"

inductive store_run :: "store \<Rightarrow> store \<Rightarrow> bool" where
  start: "store_run s s"
| go: "store_run s s' \<Longrightarrow> store_step s' s'' \<Longrightarrow> store_run s s''"

definition store_inv :: "store \<Rightarrow> bool" where
  "store_inv s \<longleftrightarrow> distinct (map r_id (st_rows s)) \<and> od_wf (st_cools s)
     \<and> length (filter r_pinned (st_rows s)) \<le> 1"

section \<open>Lemmas on the statements\<close>

lemma rows_update_where [simp]:
  "st_rows (update_where P f s) = map (\<lambda>r. if P r then f r else r) (st_rows s)"
  by (simp add: update_where_def)

lemma cools_update_where [simp]: "st_cools (update_where P f s) = st_cools s"
  by (simp add: update_where_def)

lemma events_update_where [simp]: "st_events (update_where P f s) = st_events s"
  by (simp add: update_where_def)

lemma clear_model_cooldowns_sel [simp]:
  "st_rows (clear_model_cooldowns cid s) = st_rows s"
  "st_events (clear_model_cooldowns cid s) = st_events s"
  by (simp_all add: clear_model_cooldowns_def)

lemma cools_clear: "st_cools (clear_model_cooldowns cid s) = filter (\<lambda>e. fst (fst e) \<noteq> cid) (st_cools s)"
  by (simp add: clear_model_cooldowns_def)

lemma od_get_filter_keys:
  "od_get (filter (\<lambda>e. P (fst e)) d) k = (if P k then od_get d k else None)"
  by (induction d) auto

lemma od_get_clear [simp]:
  "od_get (st_cools (clear_model_cooldowns cid s)) (c, m) =
     (if c = cid then None else od_get (st_cools s) (c, m))"
  using od_get_filter_keys[of "\<lambda>k. fst k \<noteq> cid" "st_cools s" "(c, m)"] by (simp add: cools_clear)

lemma od_wf_filter: "od_wf d \<Longrightarrow> od_wf (filter P d)"
  by (auto simp: od_wf_def od_keys_def distinct_map_filter)

lemma find_row_None: "find_row cid s = None \<longleftrightarrow> cid \<notin> r_id ` set (st_rows s)"
  by (auto simp: find_row_def find_None_iff)

lemma find_row_SomeD: "find_row cid s = Some r \<Longrightarrow> r \<in> set (st_rows s) \<and> r_id r = cid"
  by (auto simp: find_row_def find_Some_iff)

lemma find_row_distinct:
  "distinct (map r_id (st_rows s)) \<Longrightarrow> r \<in> set (st_rows s) \<Longrightarrow> find_row (r_id r) s = Some r"
proof -
  assume d: "distinct (map r_id (st_rows s))" "r \<in> set (st_rows s)"
  then obtain r' where r': "find_row (r_id r) s = Some r'"
    by (cases "find_row (r_id r) s") (auto simp: find_row_None)
  then have "r' \<in> set (st_rows s)" "r_id r' = r_id r" by (auto dest: find_row_SomeD)
  with d have "r' = r" by (auto simp: distinct_map inj_on_def)
  with r' show ?thesis by simp
qed

text \<open>Updates that leave ids and pins alone keep the invariant.\<close>

lemma map_id_update:
  "(\<And>r. r_id (f r) = r_id r) \<Longrightarrow>
     map r_id (map (\<lambda>r. if P r then f r else r) rs) = map r_id rs"
  by simp

lemma pins_update:
  "(\<And>r. r_pinned (f r) = r_pinned r) \<Longrightarrow>
     length (filter r_pinned (map (\<lambda>r. if P r then f r else r) rs)) = length (filter r_pinned rs)"
  by (induction rs) auto

lemma store_inv_update:
  assumes "store_inv s" "\<And>r. r_id (f r) = r_id r" "\<And>r. r_pinned (f r) = r_pinned r"
  shows "store_inv (update_where P f s)"
  using assms(1) unfolding store_inv_def rows_update_where cools_update_where
  by (simp only: pins_update[of f P "st_rows s", OF assms(3)] map_id_update[of f P "st_rows s", OF assms(2)])

lemma store_inv_cools: "store_inv s \<Longrightarrow> od_wf c \<Longrightarrow> store_inv (s\<lparr>st_cools := c\<rparr>)"
  by (simp add: store_inv_def)

lemma store_inv_filter_cools: "store_inv s \<Longrightarrow> store_inv (s\<lparr>st_cools := filter P (st_cools s)\<rparr>)"
  by (simp add: store_inv_def od_wf_filter)

lemma store_inv_wf: "store_inv s \<Longrightarrow> od_wf (st_cools s)"
  by (simp add: store_inv_def)

lemma store_inv_clear: "store_inv s \<Longrightarrow> store_inv (clear_model_cooldowns cid s)"
  by (simp add: clear_model_cooldowns_def store_inv_filter_cools)

lemma od_wf_fold_set: "od_wf d \<Longrightarrow> od_wf (fold (\<lambda>(m, e). od_set (cid, m) e) ms d)"
  by (induction ms arbitrary: d) auto

lemma store_inv_add: "store_inv s \<Longrightarrow> cr_add cid p d nick by now tt tags s = Inr s' \<Longrightarrow> store_inv s'"
  by (auto simp: cr_add_def store_inv_def find_row_None split: if_splits)

lemma store_inv_delete: "store_inv s \<Longrightarrow> store_inv (snd (cr_delete cid s))"
proof -
  assume a: "store_inv s"
  have "length (filter r_pinned (filter (\<lambda>r. r_id r \<noteq> cid) rs)) \<le> length (filter r_pinned rs)" for rs
    by (induction rs) auto
  from this[of "st_rows s"] a show ?thesis
    unfolding cr_delete_def snd_conv
    by (intro store_inv_clear) (auto simp: store_inv_def distinct_map_filter simp del: filter_filter)
qed

lemma pins_after_pin:
  "distinct (map r_id rs) \<Longrightarrow>
     length (filter r_pinned (map (\<lambda>r. if r_id r = cid then r\<lparr>r_pinned := True\<rparr> else r)
       (map (\<lambda>r. r\<lparr>r_pinned := False\<rparr>) rs))) \<le> 1"
proof (induction rs)
  case Nil
  then show ?case by simp
next
  case (Cons r rs)
  show ?case
  proof (cases "r_id r = cid")
    case True
    then have "cid \<notin> r_id ` set rs" using Cons.prems by auto
    then have "filter r_pinned (map (\<lambda>r. if r_id r = cid then r\<lparr>r_pinned := True\<rparr> else r)
        (map (\<lambda>r. r\<lparr>r_pinned := False\<rparr>) rs)) = []"
      by (auto simp: filter_empty_conv)
    with True show ?thesis by simp
  next
    case False
    with Cons show ?thesis by simp
  qed
qed

lemma store_inv_set_pinned: "store_inv s \<Longrightarrow> store_inv (snd (cr_set_pinned target s))"
proof (cases target)
  case None
  assume "store_inv s"
  with None show ?thesis by (simp add: cr_set_pinned_def store_inv_def o_def)
next
  case (Some cid)
  assume "store_inv s"
  with Some pins_after_pin[of "st_rows s" cid] show ?thesis
    by (simp add: cr_set_pinned_def store_inv_def o_def if_distrib[of r_id] cong: if_cong)
qed

lemmas cr_defs = cr_set_tags_def cr_set_enabled_def cr_revive_def cr_mark_relogin_required_def
  cr_save_error_def cr_cool_provider_def cr_save_success_def cr_purge_model_def cr_purge_account_def
  cr_clear_blocked_def cr_save_data_def cr_merge_login_def cr_save_quota_def cr_mark_probe_failed_def
  cr_save_growth_def

lemma store_inv_step: "store_step s s' \<Longrightarrow> store_inv s \<Longrightarrow> store_inv s'"
proof (induction rule: store_step.induct)
  case add
  then show ?case using store_inv_add by blast
next
  case (delete s cid)
  then show ?case by (rule store_inv_delete)
next
  case (set_pinned s target)
  then show ?case by (rule store_inv_set_pinned)
next
  case (save_error s cid oc)
  then show ?case
    by (auto simp: cr_save_error_def Let_def
        intro!: store_inv_clear store_inv_update store_inv_cools od_wf_fold_set store_inv_wf)
next
  case (save_quota s cid q)
  then have "store_inv (update_where (at_id cid) f s)"
    if "\<And>r. r_id (f r) = r_id r" "\<And>r. r_pinned (f r) = r_pinned r" for f
    using that by (intro store_inv_update) auto
  then show ?case
    by (auto simp: cr_save_quota_def Let_def store_inv_def split: option.split)
next
  case (merge_login s cid d tt nick)
  then show ?case
    by (auto simp: cr_merge_login_def Let_def intro!: store_inv_clear store_inv_update
        split: option.split if_splits)
qed (auto simp: cr_defs Let_def split: option.split
      intro!: store_inv_clear store_inv_update store_inv_cools od_wf_filter store_inv_wf)

lemma store_run_inv: "store_run s s' \<Longrightarrow> store_inv s \<Longrightarrow> store_inv s'"
  by (induction rule: store_run.induct) (auto dest: store_inv_step)

lemma store_inv_empty: "store_inv empty_store"
  by (simp add: store_inv_def empty_store_def)

section \<open>What a recorded error does to the next selections\<close>

text \<open>
  The interface between the engine and the credential table: the candidates it lists, and the
  recording of an error outcome. The laws say what a recorded outcome promises about the
  candidates listed afterwards; that a failed credential is left alone follows from them.
\<close>

locale credential_pool =
  fixes cands :: "'s \<Rightarrow> candidate list"
    and record_error :: "cred_id \<Rightarrow> error_outcome \<Rightarrow> 's \<Rightarrow> 's"
  assumes error_frame: "c_id d \<noteq> cid \<Longrightarrow> d \<in> set (cands (record_error cid oc s)) \<longleftrightarrow> d \<in> set (cands s)"
    and error_disables: "d \<in> set (cands (record_error cid oc s)) \<Longrightarrow> c_id d = cid \<Longrightarrow>
      eo_disabled oc \<Longrightarrow> eo_model_cooldowns oc = [] \<Longrightarrow> c_disabled d"
    and error_cools: "d \<in> set (cands (record_error cid oc s)) \<Longrightarrow> c_id d = cid \<Longrightarrow>
      \<not> eo_disabled oc \<Longrightarrow> eo_model_cooldowns oc = [] \<Longrightarrow> eo_cooling_until oc = Some u \<Longrightarrow>
      c_cooling_until d = Some u"
    and error_model: "d \<in> set (cands (record_error cid oc s)) \<Longrightarrow> c_id d = cid \<Longrightarrow>
      eo_model_cooldowns oc = [(m, e)] \<Longrightarrow> c_model_cooldowns d m = Some e"
begin

lemma disabled_not_selectable:
  "d \<in> set (cands (record_error cid oc s)) \<Longrightarrow> c_id d = cid \<Longrightarrow> eo_disabled oc \<Longrightarrow>
   eo_model_cooldowns oc = [] \<Longrightarrow> \<not> is_selectable d t m"
  using error_disables by (simp add: is_selectable_def)

lemma cooled_not_selectable:
  "d \<in> set (cands (record_error cid oc s)) \<Longrightarrow> c_id d = cid \<Longrightarrow> \<not> eo_disabled oc \<Longrightarrow>
   eo_model_cooldowns oc = [] \<Longrightarrow> eo_cooling_until oc = Some u \<Longrightarrow> t < u \<Longrightarrow> \<not> is_selectable d t m"
  using error_cools by (simp add: is_selectable_def)

lemma model_not_selectable:
  "d \<in> set (cands (record_error cid oc s)) \<Longrightarrow> c_id d = cid \<Longrightarrow>
   eo_model_cooldowns oc = [(m, e)] \<Longrightarrow> m \<noteq> [] \<Longrightarrow> t < mc_until e \<Longrightarrow> \<not> is_selectable d t (Some m)"
  using error_model by (simp add: is_selectable_def model_cooling_until_def)

lemma cooled_not_selected:
  assumes "\<not> eo_disabled oc" "eo_model_cooldowns oc = []" "eo_cooling_until oc = Some u" "t < u"
  shows "select sch (cands (record_error cid oc s)) tried t \<noteq> Some cid"
proof
  assume "select sch (cands (record_error cid oc s)) tried t = Some cid"
  from select_Some_ranked[OF this refl] obtain c where
    "c \<in> set (select_ranked (select_pool (cands (record_error cid oc s)) tried t))" "c_id c = cid"
    by blast
  then have "c \<in> set (cands (record_error cid oc s))" "is_selectable c t None"
    by (auto simp: set_select_ranked select_pool_def)
  with cooled_not_selectable[OF _ \<open>c_id c = cid\<close> assms] show False by blast
qed

end

lemma set_cr_candidates:
  "d \<in> set (cr_candidates ps so s) \<longleftrightarrow>
     (\<exists>r \<in> set (st_rows s). d = row_candidate (st_cools s) r
        \<and> (case ps of None \<Rightarrow> True | Some q \<Rightarrow> r_provider r \<in> q)
        \<and> (so \<longrightarrow> r_enabled r \<and> \<not> r_disabled r))"
  by (auto simp: cr_candidates_def Let_def row_candidate_def)

lemma od_get_fold_set:
  "od_get (fold (\<lambda>(m, e). od_set (cid, m) e) ms d) (c, m) =
     (if c = cid then (case od_get (rev ms) m of None \<Rightarrow> od_get d (c, m) | Some e \<Rightarrow> Some e)
      else od_get d (c, m))"
  by (induction ms arbitrary: d) (auto simp: map_add_def split: option.splits)

text \<open>The rows of another credential, and what its candidate shows, do not change.\<close>

lemma save_error_cools_other:
  "c \<noteq> cid \<Longrightarrow> od_get (st_cools (cr_save_error cid oc s)) (c, m) = od_get (st_cools s) (c, m)"
  by (simp add: cr_save_error_def Let_def od_get_fold_set)

lemma map_update_other:
  assumes "\<And>x. r_id (f x) = r_id x" "\<not> P r" "\<And>x. P x \<Longrightarrow> r_id x \<noteq> r_id r"
  shows "r \<in> set (map (\<lambda>x. if P x then f x else x) rs) \<longleftrightarrow> r \<in> set rs"
proof -
  have "f x \<noteq> r" if "P x" for x using assms(1)[of x] assms(3)[OF that] by metis
  with assms(2) show ?thesis by (induction rs) auto
qed

lemma at_id_update_where:
  "r \<in> set (st_rows (update_where (at_id cid) f s)) \<Longrightarrow> r_id r = cid \<Longrightarrow>
     \<exists>x \<in> set (st_rows s). r_id x = cid \<and> r = f x"
  by (auto split: if_splits)

lemma save_error_row_other:
  "r_id r \<noteq> cid \<Longrightarrow> r \<in> set (st_rows (cr_save_error cid oc s)) \<longleftrightarrow> r \<in> set (st_rows s)"
  unfolding cr_save_error_def Let_def
  by (simp add: map_update_other del: set_map)

lemma save_error_row_same:
  assumes "r \<in> set (st_rows (cr_save_error cid oc s))" "r_id r = cid" "eo_model_cooldowns oc = []"
  shows "(eo_disabled oc \<longrightarrow> r_disabled r)
     \<and> (\<not> eo_disabled oc \<longrightarrow> (\<forall>u. eo_cooling_until oc = Some u \<longrightarrow> r_cooling_until r = Some u))"
proof (cases "eo_disabled oc")
  case True
  let ?f = "\<lambda>r. r\<lparr>r_disabled := True,
     r_disabled_reason := Some (if eo_disabled_reason oc = [] then ''session dead'' else eo_disabled_reason oc),
     r_err_count := 0, r_cooling_until := None, r_cooling_kind := None\<rparr>"
  have "st_rows (cr_save_error cid oc s) = st_rows (update_where (at_id cid) ?f s)"
    using True assms(3) by (simp add: cr_save_error_def Let_def)
  then obtain x where "r = ?f x"
    using at_id_update_where[of r cid ?f s] assms(1,2) by metis
  with True show ?thesis by simp
next
  case False
  let ?f = "\<lambda>r. r\<lparr>r_cooling_until := coalesce (eo_cooling_until oc) (r_cooling_until r),
     r_cooling_kind := coalesce (str_or_none (eo_cooling_kind oc)) (r_cooling_kind r),
     r_err_count := eo_err_count oc\<rparr>"
  have "st_rows (cr_save_error cid oc s) = st_rows (update_where (at_id cid) ?f s)"
    using False assms(3) by (simp add: cr_save_error_def Let_def)
  then obtain x where "r = ?f x"
    using at_id_update_where[of r cid ?f s] assms(1,2) by metis
  with False show ?thesis by (simp add: coalesce_def)
qed

lemma row_candidate_sel [simp]:
  "c_id (row_candidate cs r) = r_id r" "c_provider (row_candidate cs r) = r_provider r"
  "c_disabled (row_candidate cs r) = r_disabled r" "c_enabled (row_candidate cs r) = r_enabled r"
  "c_cooling_until (row_candidate cs r) = r_cooling_until r"
  "c_err_count (row_candidate cs r) = r_err_count r" "c_pinned (row_candidate cs r) = r_pinned r"
  "c_model_cooldowns (row_candidate cs r) m = od_get cs (r_id r, m)"
  by (simp_all add: row_candidate_def)

lemma row_candidate_cong:
  "(\<And>m. od_get cs (r_id r, m) = od_get cs' (r_id r, m)) \<Longrightarrow> row_candidate cs r = row_candidate cs' r"
  by (simp add: row_candidate_def)

lemma save_error_frame:
  assumes "c_id d \<noteq> cid"
  shows "d \<in> set (cr_candidates ps so (cr_save_error cid oc s)) \<longleftrightarrow> d \<in> set (cr_candidates ps so s)"
proof -
  have "row_candidate (st_cools (cr_save_error cid oc s)) r = row_candidate (st_cools s) r"
    if "r_id r \<noteq> cid" for r
    by (rule row_candidate_cong) (simp add: save_error_cools_other[OF that])
  with assms show ?thesis
    unfolding set_cr_candidates by (metis save_error_row_other row_candidate_sel(1))
qed

interpretation pool: credential_pool "cr_candidates ps so" cr_save_error
proof
  fix d cid oc and s :: store
  assume d: "d \<in> set (cr_candidates ps so (cr_save_error cid oc s))" "c_id d = cid"
  then obtain r where r: "r \<in> set (st_rows (cr_save_error cid oc s))" "r_id r = cid"
    "d = row_candidate (st_cools (cr_save_error cid oc s)) r"
    unfolding set_cr_candidates by (metis row_candidate_sel(1))
  show "c_disabled d" if "eo_disabled oc" "eo_model_cooldowns oc = []"
    using save_error_row_same[OF r(1,2) that(2)] that r(3) by simp
  show "c_cooling_until d = Some u"
    if "\<not> eo_disabled oc" "eo_model_cooldowns oc = []" "eo_cooling_until oc = Some u" for u
    using save_error_row_same[OF r(1,2) that(2)] that r(3) by simp
  show "c_model_cooldowns d m = Some e" if "eo_model_cooldowns oc = [(m, e)]" for m e
    using that r(2,3) by (simp add: cr_save_error_def)
qed (rule save_error_frame)

text \<open>The three exclusive forms of an outcome: an account cooldown, a disabling, one model entry.\<close>

lemma note_error_forms:
  assumes oc_def: "oc = note_error sch c kind now model r"
  shows "eo_cooling_until oc = Some u \<Longrightarrow> \<not> eo_disabled oc \<and> eo_model_cooldowns oc = []"
    and "eo_disabled oc \<Longrightarrow> eo_model_cooldowns oc = []"
    and "eo_model_cooldowns oc = [] \<or>
      (\<exists>m. model = Some m \<and> m \<noteq> [] \<and> eo_model_cooldowns oc = [(m, scoped_cooldown c kind now m r)])"
proof -
  show "eo_cooling_until oc = Some u \<Longrightarrow> \<not> eo_disabled oc \<and> eo_model_cooldowns oc = []"
    unfolding oc_def note_error_def account_cooldown_def outcome0_def kind_sets Let_def
    by (auto split: if_splits option.splits)
  show "eo_disabled oc \<Longrightarrow> eo_model_cooldowns oc = []"
    unfolding oc_def note_error_def account_cooldown_def outcome0_def kind_sets Let_def
    by (auto split: if_splits option.splits)
  show "eo_model_cooldowns oc = [] \<or>
      (\<exists>m. model = Some m \<and> m \<noteq> [] \<and> eo_model_cooldowns oc = [(m, scoped_cooldown c kind now m r)])"
    unfolding oc_def note_error_def account_cooldown_def outcome0_def kind_sets Let_def
    by (auto split: option.split)
qed


definition sample_row :: "cred_id \<Rightarrow> cred_row" where
  "sample_row cid = \<lparr>r_id = cid, r_provider = ''zen'', r_nickname = [], r_data = None, r_enabled = True,
     r_disabled = False, r_disabled_reason = None, r_pinned = False, r_health = None,
     r_cooling_until = None, r_cooling_kind = None, r_err_count = 0, r_quota_remaining = None,
     r_quota_total = None, r_cycle_end = None, r_ladder = None, r_probed_at = None,
     r_token_expires = 0, r_token_issued = 0, r_growth = None, r_tags = [], r_created = 0,
     r_added_by = []\<rparr>"

definition sample_store :: store where
  "sample_store = \<lparr>st_rows = [sample_row ''a'', sample_row ''b''], st_cools = [], st_events = []\<rparr>"

lemmas sample_defs = sample_row_def sample_store_def


text \<open>C14. Whatever sequence of operations the table goes through, at most one credential is pinned and
  ids are distinct; pinning an existing credential pins exactly that one, pinning an unknown one
  changes nothing.\<close>

theorem at_most_one_pinned:
  assumes "store_run empty_store s"
  shows "distinct (map c_id (cr_candidates None False s))
    \<and> length (filter c_pinned (cr_candidates None False s)) \<le> 1
    \<and> (cid \<in> c_id ` set (cr_candidates None False s) \<longrightarrow>
         {c_id c |c. c \<in> set (cr_candidates None False (snd (cr_set_pinned (Some cid) s))) \<and> c_pinned c} = {cid})
    \<and> (cid \<notin> c_id ` set (cr_candidates None False s) \<longrightarrow> cr_set_pinned (Some cid) s = (False, s))"
proof -
  have inv: "store_inv s" by (rule store_run_inv[OF assms store_inv_empty])
  have all: "cr_candidates None False s' = map (row_candidate (st_cools s')) (st_rows s')" for s'
    by (simp add: cr_candidates_def)
  have ids: "map c_id (cr_candidates None False s) = map r_id (st_rows s)"
    by (simp add: all)
  have pins: "length (filter c_pinned (cr_candidates None False s)) = length (filter r_pinned (st_rows s))"
    by (simp add: all filter_map o_def)
  have known: "cid \<in> c_id ` set (cr_candidates None False s) \<longleftrightarrow> find_row cid s \<noteq> None"
    unfolding all find_row_None by (simp add: image_image)
  have "{c_id c |c. c \<in> set (cr_candidates None False (snd (cr_set_pinned (Some cid) s))) \<and> c_pinned c} = {cid}"
    if known: "find_row cid s \<noteq> None"
  proof -
    obtain r where "find_row cid s = Some r" using known by auto
    then have "r \<in> set (st_rows s)" "r_id r = cid" using find_row_SomeD by auto
    moreover have "st_rows (snd (cr_set_pinned (Some cid) s))
        = map (\<lambda>r. r\<lparr>r_pinned := (r_id r = cid)\<rparr>) (st_rows s)"
      using known by (auto simp: cr_set_pinned_def)
    ultimately have "c \<in> set (cr_candidates None False (snd (cr_set_pinned (Some cid) s))) \<and> c_pinned c
        \<longleftrightarrow> (\<exists>r \<in> set (st_rows s). r_id r = cid \<and>
              c = row_candidate (st_cools (snd (cr_set_pinned (Some cid) s))) (r\<lparr>r_pinned := True\<rparr>))" for c
      by (auto simp: all intro: rev_image_eqI)
    with \<open>r \<in> set (st_rows s)\<close> \<open>r_id r = cid\<close> show ?thesis by force
  qed
  moreover have "cr_set_pinned (Some cid) s = (False, s)" if "find_row cid s = None"
    using that by (simp add: cr_set_pinned_def)
  ultimately show ?thesis using inv known unfolding ids pins by (auto simp: store_inv_def)
qed

theorem at_most_one_pinned_witness:
  "length (filter c_pinned (cr_candidates None False (snd (cr_set_pinned (Some ''a'') empty_store)))) \<le> 1"
proof -
  have "store_run empty_store (snd (cr_set_pinned (Some ''a'') empty_store))"
    by (rule store_run.go[OF store_run.start store_step.set_pinned])
  then show ?thesis using at_most_one_pinned by blast
qed

section \<open>Recovery and channel-wide pauses\<close>

lemma clear_no_model: "od_get (st_cools (clear_model_cooldowns cid s)) (cid, m) = None"
  by simp

lemma keeps_cooldown_upstream:
  "kind \<in> {SOFT, CREDIT, PLAN, RESTRICTED} \<Longrightarrow> r_cooling_kind r = Some (err_value kind) \<Longrightarrow> keeps_cooldown r"
  by (auto simp: keeps_cooldown_def UPSTREAM_COOLDOWN_KINDS_def)

text \<open>What one row becomes under each operation, seen through the distinct ids.\<close>

lemma find_row_update_where:
  assumes "\<And>r. r_id (f r) = r_id r"
  shows "find_row cid (update_where P f s) =
    (case find_row cid s of None \<Rightarrow> None | Some r \<Rightarrow> Some (if P r then f r else r))"
proof -
  have "find (at_id cid) (map (\<lambda>r. if P r then f r else r) rs) =
    (case find (at_id cid) rs of None \<Rightarrow> None | Some r \<Rightarrow> Some (if P r then f r else r))" for rs
    using assms by (induction rs) auto
  then show ?thesis by (simp add: find_row_def)
qed

lemma find_row_clear [simp]: "find_row cid (clear_model_cooldowns c s) = find_row cid s"
  by (simp add: find_row_def)

lemma find_row_save_error:
  "eo_model_cooldowns oc = [] \<Longrightarrow> \<not> eo_disabled oc \<Longrightarrow> find_row cid s = Some r \<Longrightarrow>
   find_row cid (cr_save_error cid oc s) =
     Some (r\<lparr>r_cooling_until := coalesce (eo_cooling_until oc) (r_cooling_until r),
             r_cooling_kind := coalesce (str_or_none (eo_cooling_kind oc)) (r_cooling_kind r),
             r_err_count := eo_err_count oc\<rparr>)"
  using find_row_SomeD[of cid s r] by (simp add: cr_save_error_def Let_def find_row_update_where)

lemma note_error_kind:
  "eo_cooling_until (note_error sch c kind now model r) = Some u \<Longrightarrow>
   eo_cooling_kind (note_error sch c kind now model r) = err_value kind"
  unfolding note_error_def account_cooldown_def outcome0_def kind_sets Let_def
  by (auto split: if_splits option.splits)

text \<open>An administrator's revival of a credential re-enables it and forgets its model cooldowns and
  its error count, but keeps a cooldown the upstream asked for (rate limit, balance, plan or risk
  control) unless it is forced; a cooldown for local reasons is lifted.\<close>

theorem revive_keeps_upstream_cooldown:
  assumes "find_row cid s = Some row" and "oc = note_error sch c kind now model r"
    and "eo_cooling_until oc = Some u"
  shows "fst (cr_revive cid force (cr_save_error cid oc s))
    \<and> (\<exists>row'. find_row cid (snd (cr_revive cid force (cr_save_error cid oc s))) = Some row'
        \<and> \<not> r_disabled row' \<and> r_err_count row' = 0 \<and> r_pinned row' = r_pinned row
        \<and> r_enabled row' = r_enabled row
        \<and> r_cooling_until row' =
            (if kind \<in> {SOFT, CREDIT, PLAN, RESTRICTED} \<and> \<not> force then Some u else None))
    \<and> (\<forall>m. od_get (st_cools (snd (cr_revive cid force (cr_save_error cid oc s)))) (cid, m) = None)"
proof -
  have f: "eo_model_cooldowns oc = []" "\<not> eo_disabled oc"
    using note_error_forms(1)[OF assms(2,3)] by auto
  have k: "eo_cooling_kind oc = err_value kind" using note_error_kind assms(2,3) by blast
  define row1 where "row1 = row\<lparr>r_cooling_until := Some u, r_cooling_kind := Some (err_value kind),
    r_err_count := eo_err_count oc\<rparr>"
  have row1: "find_row cid (cr_save_error cid oc s) = Some row1"
    using find_row_save_error[OF f assms(1)] k assms(3) err_value_nonempty[of kind]
    by (simp add: row1_def coalesce_def str_or_none_def)
  have "r_id row1 = cid" using find_row_SomeD[OF row1] by simp
  moreover have "keeps_cooldown row1 \<longleftrightarrow> kind \<in> {SOFT, CREDIT, PLAN, RESTRICTED}"
    by (cases kind) (simp_all add: keeps_cooldown_def row1_def UPSTREAM_COOLDOWN_KINDS_def)
  ultimately show ?thesis
    using row1 by (simp add: cr_revive_def Let_def find_row_update_where) (simp add: row1_def)
qed

theorem revive_keeps_upstream_cooldown_witness:
  "\<exists>row'. find_row ''a'' (snd (cr_revive ''a'' False (cr_save_error ''a''
     (note_error default_scheduler (mk_candidate ''a'' ''zen'') SOFT 100 None None) sample_store))) = Some row'
   \<and> r_cooling_until row' = Some 160"
proof -
  have "eo_cooling_until (note_error default_scheduler (mk_candidate ''a'' ''zen'') SOFT 100 None None)
      = Some 160"
    by (simp add: note_error_def kind_sets account_cooldown_def outcome0_def cooling_until_of_def
        clamp_retry_at_def default_scheduler_def sched_consts)
  moreover have "find_row ''a'' sample_store = Some (sample_row ''a'')"
    by (simp add: find_row_def sample_defs)
  ultimately show ?thesis
    using revive_keeps_upstream_cooldown[OF _ refl, where force = False] by fastforce
qed

lemma provider_ids_update:
  assumes "\<And>r. r_id (f r) = r_id r" "\<And>r. r_provider (f r) = r_provider r"
  shows "provider_ids p (update_where P f s) = provider_ids p s"
proof -
  have "r_id ` set (filter (\<lambda>r. r_provider r = p) (map (\<lambda>r. if P r then f r else r) rs))
      = r_id ` set (filter (\<lambda>r. r_provider r = p) rs)" for rs
    using assms by (induction rs) auto
  then show ?thesis by (simp add: provider_ids_def del: set_map)
qed

text \<open>Pausing a channel never shortens a cooldown of one of its credentials, leaves every one of them
  unselectable until the given moment, clears its model cooldowns, and touches no credential of
  another channel.\<close>

theorem cool_provider_pauses:
  assumes "store_inv s" and "find_row cid s = Some row" and "s' = snd (cr_cool_provider p until s)"
  shows "\<exists>row'. find_row cid s' = Some row'
    \<and> (r_provider row \<noteq> p \<longrightarrow> row' = row \<and> (\<forall>m. od_get (st_cools s') (cid, m) = od_get (st_cools s) (cid, m)))
    \<and> (r_provider row = p \<longrightarrow>
        r_cooling_until row' =
          Some (case r_cooling_until row of None \<Rightarrow> until | Some u \<Rightarrow> max u until)
        \<and> (\<forall>m. od_get (st_cools s') (cid, m) = None)
        \<and> (\<forall>t m. t < until \<longrightarrow> \<not> is_selectable (row_candidate (st_cools s') row') t m))"
proof -
  let ?f = "\<lambda>r. r\<lparr>r_cooling_until := Some until, r_cooling_kind := Some (err_value RESTRICTED),
                   r_err_count := 0\<rparr>"
  let ?s1 = "update_where (cools_before p until) ?f s"
  define row' where "row' = (if cools_before p until row then ?f row else row)"
  have id: "row \<in> set (st_rows s)" "r_id row = cid" using find_row_SomeD[OF assms(2)] by auto
  have s': "s' = ?s1\<lparr>st_cools := filter (\<lambda>e. fst (fst e) \<notin> provider_ids p ?s1) (st_cools ?s1)\<rparr>"
    by (simp add: assms(3) cr_cool_provider_def Let_def)
  have "find_row cid ?s1 = Some row'"
    using assms(2) by (simp add: find_row_update_where row'_def)
  then have found: "find_row cid s' = Some row'" by (simp add: s' find_row_def)
  have ids: "provider_ids p ?s1 = provider_ids p s" by (rule provider_ids_update) simp_all
  have "cid \<in> provider_ids p s \<longleftrightarrow> r_provider row = p"
  proof -
    have "r = row" if "r \<in> set (st_rows s)" "r_id r = cid" for r
    proof -
      have "distinct (map r_id (st_rows s))" using assms(1) by (simp add: store_inv_def)
      from find_row_distinct[OF this that(1)] that(2) assms(2) show ?thesis by simp
    qed
    then have "r_provider r = p \<Longrightarrow> r \<in> set (st_rows s) \<Longrightarrow> r_id r = cid \<Longrightarrow> r_provider row = p" for r
      by metis
    with id show ?thesis unfolding provider_ids_def by force
  qed
  moreover have "st_cools s' = filter (\<lambda>e. fst (fst e) \<notin> provider_ids p s) (st_cools s)"
    unfolding s' ids by simp
  ultimately have cools: "od_get (st_cools s') (cid, m) =
      (if r_provider row = p then None else od_get (st_cools s) (cid, m))" for m
    using od_get_filter_keys[of "\<lambda>k. fst k \<notin> provider_ids p s" "st_cools s" "(cid, m)"]
    by simp
  have cooled: "r_cooling_until row' = Some (case r_cooling_until row of None \<Rightarrow> until | Some u \<Rightarrow> max u until)"
    if "r_provider row = p"
    using that by (auto simp: row'_def cools_before_def max_def split: option.splits)
  moreover have "row' = row" if "r_provider row \<noteq> p" using that by (simp add: row'_def cools_before_def)
  moreover have "\<not> is_selectable (row_candidate (st_cools s') row') t m"
    if "r_provider row = p" "t < until" for t m
    using cooled[OF that(1)] that(2) by (auto simp: is_selectable_def split: option.splits)
  ultimately show ?thesis using found cools by auto
qed

theorem cool_provider_pauses_witness:
  "\<exists>row'. find_row ''b'' (snd (cr_cool_provider ''zen'' 500 sample_store)) = Some row'
     \<and> r_cooling_until row' = Some 500"
proof -
  have "store_inv sample_store" by (simp add: store_inv_def sample_defs)
  moreover have "find_row ''b'' sample_store = Some (sample_row ''b'')"
    by (simp add: find_row_def sample_defs)
  ultimately show ?thesis
    using cool_provider_pauses[OF _ _ refl, of sample_store "''b''" "sample_row ''b''" "''zen''" 500]
    by (auto simp: sample_row_def)
qed

section \<open>Counting the pool\<close>

lemma count_one_sum:
  "pc_total (count_one now c n) = pc_total n + 1
   \<and> pc_ready (count_one now c n) + pc_cooling (count_one now c n) + pc_paused (count_one now c n)
       + pc_disabled (count_one now c n)
     = pc_ready n + pc_cooling n + pc_paused n + pc_disabled n + 1
   \<and> pc_ready (count_one now c n) = pc_ready n + (if is_selectable c now None then 1 else 0)
   \<and> pc_disabled (count_one now c n) = pc_disabled n + (if c_disabled c then 1 else 0)"
  by (simp add: count_one_def Let_def is_selectable_def)

lemma fold_count_one:
  "pc_total (fold (count_one now) cs n) = pc_total n + length cs
   \<and> pc_ready (fold (count_one now) cs n) + pc_cooling (fold (count_one now) cs n)
       + pc_paused (fold (count_one now) cs n) + pc_disabled (fold (count_one now) cs n)
     = pc_ready n + pc_cooling n + pc_paused n + pc_disabled n + length cs
   \<and> pc_ready (fold (count_one now) cs n) = pc_ready n + length (filter (\<lambda>c. is_selectable c now None) cs)
   \<and> pc_disabled (fold (count_one now) cs n) = pc_disabled n + length (filter c_disabled cs)"
proof (induction cs arbitrary: n)
  case Nil
  then show ?case by simp
next
  case (Cons c cs)
  show ?case using Cons[of "count_one now c n"] count_one_sum[of now c n] by simp
qed

text \<open>The health counts partition the pool: the four classes add up to the total, and the ready ones
  are exactly those the scheduler could select, so selection over the whole pool finds a
  credential exactly when the ready count is positive.\<close>

theorem pool_counts_partition:
  "pc_total (cr_pool_counts now s) = length (st_rows s)
   \<and> pc_ready (cr_pool_counts now s) + pc_cooling (cr_pool_counts now s)
       + pc_paused (cr_pool_counts now s) + pc_disabled (cr_pool_counts now s) = length (st_rows s)
   \<and> (0 < pc_ready (cr_pool_counts now s)) = (select sch (cr_candidates None so s) {} now \<noteq> None)
   \<and> pc_disabled (cr_pool_counts now s) = fst (cr_attention_counts s)"
proof -
  have len: "length (cr_candidates None False s) = length (st_rows s)"
    by (simp add: cr_candidates_def)
  have "(0 < pc_ready (cr_pool_counts now s)) \<longleftrightarrow>
      (\<exists>c \<in> set (cr_candidates None False s). is_selectable c now None)"
    by (auto simp: cr_pool_counts_def fold_count_one length_greater_0_conv filter_empty_conv
        simp del: length_greater_0_conv)
  also have "\<dots> \<longleftrightarrow> (\<exists>c \<in> set (cr_candidates None so s). is_selectable c now None)"
    by (cases so) (auto simp: cr_candidates_def Let_def is_selectable_def)
  also have "\<dots> \<longleftrightarrow> select sch (cr_candidates None so s) {} now \<noteq> None"
    by (simp add: select_None_iff)
  finally have ready: "(0 < pc_ready (cr_pool_counts now s)) \<longleftrightarrow>
      select sch (cr_candidates None so s) {} now \<noteq> None" .
  have "length (filter c_disabled (cr_candidates None False s)) = length (filter r_disabled (st_rows s))"
    by (simp add: cr_candidates_def filter_map o_def)
  moreover note fold_count_one[of now "cr_candidates None False s"
      "\<lparr>pc_total = 0, pc_ready = 0, pc_cooling = 0, pc_paused = 0, pc_disabled = 0\<rparr>"]
  ultimately show ?thesis
    unfolding ready unfolding cr_pool_counts_def len cr_attention_counts_def count_where_def by simp
qed

text \<open>A later, milder error replaces a longer cooldown: a rate limit met by a concurrent request
  cuts a risk-control restriction of hours down to a minute.\<close>

theorem soft_error_shortens_restriction:
  assumes "find_row cid s = Some row" and "r_cooling_kind row = Some (err_value RESTRICTED)"
    and "r_cooling_until row = Some u" and "now + 60 < u"
  shows "\<exists>row'. find_row cid
      (cr_save_error cid (note_error default_scheduler c SOFT now model None) s) = Some row'
    \<and> r_cooling_until row' = Some (now + 60) \<and> now + 60 < u
    \<and> r_cooling_kind row' = Some ''soft''"
proof -
  have n: "note_error default_scheduler c SOFT now model None = account_cooldown SOFT (now + 60) (c_err_count c)"
    by (simp add: note_error_def kind_sets cooling_until_of_def clamp_retry_at_def
        default_scheduler_def sched_consts)
  show ?thesis
    using find_row_save_error[OF _ _ assms(1), of "account_cooldown SOFT (now + 60) (c_err_count c)"] assms(4)
    by (simp add: n account_cooldown_def outcome0_def coalesce_def str_or_none_def)
qed

theorem soft_error_shortens_restriction_witness:
  "\<exists>row'. find_row ''a'' (cr_save_error ''a''
      (note_error default_scheduler (mk_candidate ''a'' ''zen'') SOFT 10 None None)
      (snd (cr_cool_provider ''zen'' 7200 sample_store))) = Some row'
    \<and> r_cooling_until row' = Some 70"
proof -
  have "find_row ''a'' (snd (cr_cool_provider ''zen'' 7200 sample_store)) =
    Some ((sample_row ''a'')\<lparr>r_cooling_until := Some 7200, r_cooling_kind := Some (err_value RESTRICTED)\<rparr>)"
    by (simp add: cr_cool_provider_def Let_def find_row_def sample_defs cools_before_def)
  from soft_error_shortens_restriction[OF this, of 7200 10] show ?thesis by auto
qed

end
