(* ===== verification/Affinity.thy ===== *)
theory Affinity
  imports ProviderBase
begin

text \<open>
  \<^verbatim>\<open>src/engine/affinity.py\<close> (conversation stickiness) and the session and request ids of
  \<^verbatim>\<open>src/request_context.py\<close>. The table maps a digest to the credential that last served the
  conversation. \<open>sha\<close> (SHA-256 of a byte string) and \<open>dump\<close> (the canonical
  \<^verbatim>\<open>json.dumps\<close> of a message) are arguments; the session id read from the context variable
  is an argument, the time to live is read from the live settings at every call.
\<close>

section \<open>Identifiers taken from the request\<close>

definition is_id_char :: "char \<Rightarrow> bool" where
  "is_id_char c =
     (let n = (of_char c :: nat)
      in (65 \<le> n \<and> n \<le> 90) \<or> (97 \<le> n \<and> n \<le> 122) \<or> (48 \<le> n \<and> n \<le> 57) \<or> c \<in> set ''._:-'')"

text \<open>
  \<^verbatim>\<open>re.match("^[A-Za-z0-9._:-]{1,128}$", s)\<close>: the dollar also matches before one final line feed.
\<close>

definition matches_id_pattern :: "string \<Rightarrow> bool" where
  "matches_id_pattern s =
     (let body = takeWhile is_id_char s; rest = dropWhile is_id_char s
      in 1 \<le> length body \<and> length body \<le> 128 \<and> (rest = [] \<or> rest = [CHR 0x0A]))"

definition sanitize_request_id :: "string option \<Rightarrow> string option" where
  "sanitize_request_id raw =
     (case raw of
        None \<Rightarrow> None
      | Some s \<Rightarrow> if s = [] then None else if matches_id_pattern s then Some s else None)"

definition sanitize_session_id :: "string option \<Rightarrow> string option" where
  "sanitize_session_id raw =
     (case raw of
        None \<Rightarrow> None
      | Some s \<Rightarrow> if s = [] \<or> py_strip s = [] then None
                  else (let t = py_strip s in if matches_id_pattern t then Some t else None))"

definition SESSION_ID_HEADERS :: "string list" where
  "SESSION_ID_HEADERS = [''x-session-id'', ''x-opencode-session'', ''x-session-affinity'',
     ''x-claude-code-session-id'', ''thread-id'', ''session-id'', ''conversation-id'', ''conversation_id'']"

text \<open>\<^verbatim>\<open>bytes.lower\<close> folds the ASCII letters only.\<close>

definition ascii_lower :: "string \<Rightarrow> string" where
  "ascii_lower s = map (\<lambda>c. if 65 \<le> (of_char c :: nat) \<and> (of_char c :: nat) \<le> 90
                            then char_of ((of_char c :: nat) + 32) else c) s"

definition session_id_from_headers :: "(string \<times> string) list \<Rightarrow> string option" where
  "session_id_from_headers headers =
     (case [v. name \<leftarrow> SESSION_ID_HEADERS, (k, h) \<leftarrow> headers, ascii_lower k = name,
            v \<leftarrow> (case sanitize_session_id (Some h) of None \<Rightarrow> [] | Some v \<Rightarrow> [v])] of
        [] \<Rightarrow> None
      | v # _ \<Rightarrow> Some v)"

section \<open>Conversation keys\<close>

definition EXPLICIT_KEYS :: "string list" where
  "EXPLICIT_KEYS = [''conversation_id'', ''conversationId'', ''prompt_cache_key'', ''session_id'']"


definition containers :: "jobject \<Rightarrow> jobject list" where
  "containers raw = (case jget raw ''metadata'' of JObj m \<Rightarrow> [m, raw] | _ \<Rightarrow> [raw])"

definition explicit_key :: "jobject \<Rightarrow> string option" where
  "explicit_key raw =
     (case [name @ '':'' @ v. name \<leftarrow> EXPLICIT_KEYS, c \<leftarrow> containers raw,
            v \<leftarrow> (case j_nonempty_str (jget c name) of None \<Rightarrow> [] | Some v \<Rightarrow> [v])] of
        [] \<Rightarrow> None
      | k # _ \<Rightarrow> Some k)"

definition has_user_id :: "jobject \<Rightarrow> bool" where
  "has_user_id raw = list_ex (\<lambda>c. j_nonempty_str (jget c ''user_id'') \<noteq> None) (containers raw)"

definition header_key :: "string option \<Rightarrow> string option" where
  "header_key sid = map_option (\<lambda>v. ''header:'' @ v) (sanitize_session_id sid)"

definition resolve_explicit :: "jobject \<Rightarrow> string option \<Rightarrow> string option" where
  "resolve_explicit raw sid =
     (case explicit_key raw of Some k \<Rightarrow> Some k | None \<Rightarrow> header_key sid)"

section \<open>Digests\<close>

definition utf8_char :: "char \<Rightarrow> string" where
  "utf8_char c = (let n = (of_char c :: nat)
     in if n < 128 then [c] else [char_of (192 + n div 64), char_of (128 + n mod 64)])"

definition utf8 :: "string \<Rightarrow> string" where
  "utf8 s = concat (map utf8_char s)"

definition hex_digit :: "nat \<Rightarrow> char" where
  "hex_digit n = (if n < 10 then char_of (48 + n) else char_of (87 + n))"

definition to_hex :: "string \<Rightarrow> string" where
  "to_hex b = concat (map (\<lambda>c. let n = (of_char c :: nat) in [hex_digit (n div 16), hex_digit (n mod 16)]) b)"

definition explicit_digest :: "(string \<Rightarrow> string) \<Rightarrow> string \<Rightarrow> string \<Rightarrow> string" where
  "explicit_digest sha explicit username =
     to_hex (sha (utf8 (''explicit|'' @ username @ ''|'' @ explicit)))"

definition message_digest :: "(string \<Rightarrow> string) \<Rightarrow> (json \<Rightarrow> string) \<Rightarrow> json \<Rightarrow> string" where
  "message_digest sha dump m = sha (utf8 (dump m))"

fun chain_from :: "(string \<Rightarrow> string) \<Rightarrow> (json \<Rightarrow> string) \<Rightarrow> string \<Rightarrow> json list \<Rightarrow> string list" where
  "chain_from sha dump chain [] = []"
| "chain_from sha dump chain (m # ms) =
     (let chain' = sha (chain @ message_digest sha dump m)
      in to_hex chain' # chain_from sha dump chain' ms)"

definition chain_digests ::
    "(string \<Rightarrow> string) \<Rightarrow> (json \<Rightarrow> string) \<Rightarrow> json list \<Rightarrow> string \<Rightarrow> string list" where
  "chain_digests sha dump messages username = chain_from sha dump (sha (utf8 username)) messages"

section \<open>The table\<close>

record affinity =
  af_max :: nat
  af_entries :: "(string, cred_id \<times> seconds) odict"

definition af_touch :: "int \<Rightarrow> string \<Rightarrow> cred_id \<Rightarrow> seconds \<Rightarrow> affinity \<Rightarrow> affinity" where
  "af_touch ttl key cid now s = s\<lparr>af_entries := od_touch key (cid, now + of_int ttl) (af_entries s)\<rparr>"

definition af_evict :: "seconds \<Rightarrow> affinity \<Rightarrow> affinity" where
  "af_evict now s =
     (if length (af_entries s) \<le> af_max s then s
      else (let live = filter (\<lambda>(k, (c, expires)). \<not> expires \<le> now) (af_entries s)
            in s\<lparr>af_entries := drop (length live - af_max s) live\<rparr>))"

definition af_lookup :: "int \<Rightarrow> string \<Rightarrow> seconds \<Rightarrow> affinity \<Rightarrow> cred_id option \<times> affinity" where
  "af_lookup ttl key now s =
     (case od_get (af_entries s) key of
        None \<Rightarrow> (None, s)
      | Some (cid, expires) \<Rightarrow>
          if expires \<le> now then (None, s\<lparr>af_entries := od_del key (af_entries s)\<rparr>)
          else (Some cid, af_touch ttl key cid now s))"

fun af_pin_chain ::
    "int \<Rightarrow> string list \<Rightarrow> seconds \<Rightarrow> cred_id option \<Rightarrow> affinity \<Rightarrow> cred_id option \<times> affinity" where
  "af_pin_chain ttl [] now pinned s = (pinned, s)"
| "af_pin_chain ttl (k # ks) now pinned s =
     (let (hit, s') = af_lookup ttl k now s
      in af_pin_chain ttl ks now (case hit of Some c \<Rightarrow> Some c | None \<Rightarrow> pinned) s')"

text \<open>The messages the fallback may use: a non-empty list, and no user id in the body.\<close>

definition chain_messages :: "jobject \<Rightarrow> json list option" where
  "chain_messages raw =
     (case jget raw ''messages'' of
        JList ms \<Rightarrow> (if has_user_id raw \<or> ms = [] then None else Some ms)
      | _ \<Rightarrow> None)"

definition af_pin_for ::
    "(string \<Rightarrow> string) \<Rightarrow> (json \<Rightarrow> string) \<Rightarrow> int \<Rightarrow> json \<Rightarrow> string option \<Rightarrow> string \<Rightarrow> seconds \<Rightarrow> affinity
      \<Rightarrow> cred_id option \<times> affinity" where
  "af_pin_for sha dump ttl body sid username now s =
     (case body of
        JObj raw \<Rightarrow>
          if ttl \<le> 0 then (None, s)
          else (case resolve_explicit raw sid of
                  Some e \<Rightarrow> af_lookup ttl (explicit_digest sha e username) now s
                | None \<Rightarrow>
                    (case chain_messages raw of
                       None \<Rightarrow> (None, s)
                     | Some ms \<Rightarrow> af_pin_chain ttl (chain_digests sha dump ms username) now None s))
      | _ \<Rightarrow> (None, s))"

definition af_remember ::
    "(string \<Rightarrow> string) \<Rightarrow> (json \<Rightarrow> string) \<Rightarrow> int \<Rightarrow> json \<Rightarrow> string option \<Rightarrow> string \<Rightarrow> cred_id \<Rightarrow> seconds
      \<Rightarrow> affinity \<Rightarrow> affinity" where
  "af_remember sha dump ttl body sid username cid now s =
     (case body of
        JObj raw \<Rightarrow>
          if ttl \<le> 0 then s
          else (case resolve_explicit raw sid of
                  Some e \<Rightarrow> af_evict now (af_touch ttl (explicit_digest sha e username) cid now s)
                | None \<Rightarrow>
                    (case chain_messages raw of
                       None \<Rightarrow> s
                     | Some ms \<Rightarrow>
                         af_evict now (af_touch ttl (last (chain_digests sha dump ms username)) cid now s)))
      | _ \<Rightarrow> s)"

section \<open>The table as a bounded cache\<close>

definition af_peek :: "seconds \<Rightarrow> affinity \<Rightarrow> string \<Rightarrow> cred_id option" where
  "af_peek now s k =
     (case od_get (af_entries s) k of
        Some (c, expires) \<Rightarrow> if expires \<le> now then None else Some c
      | None \<Rightarrow> None)"

definition af_ok :: "affinity \<Rightarrow> bool" where
  "af_ok s \<longleftrightarrow> od_wf (af_entries s)"

lemma od_get_filter_cases:
  "od_wf d \<Longrightarrow> od_get (filter P d) k = (case od_get d k of Some v \<Rightarrow> if P (k, v) then Some v else None | None \<Rightarrow> None)"
proof (induction d)
  case Nil
  then show ?case by simp
next
  case (Cons p d)
  have wf: "od_wf d" using Cons.prems by (auto simp: od_wf_def od_keys_def)
  have "od_get d (fst p) = None" using Cons.prems by (auto simp: od_wf_def od_keys_def map_of_eq_None_iff)
  with Cons.IH[OF wf] show ?case by (cases p) (auto split: option.splits)
qed

lemma od_get_drop: "od_wf d \<Longrightarrow> od_get (drop n d) k = None \<or> od_get (drop n d) k = od_get d k"
proof (induction d arbitrary: n)
  case Nil
  then show ?case by simp
next
  case (Cons p d)
  have wf: "od_wf d" using Cons.prems by (auto simp: od_wf_def od_keys_def)
  have none: "od_get d (fst p) = None" using Cons.prems by (auto simp: od_wf_def od_keys_def map_of_eq_None_iff)
  show ?case
  proof (cases n)
    case 0
    then show ?thesis by simp
  next
    case (Suc m)
    then show ?thesis using Cons.IH[OF wf, of m] none by (cases p) auto
  qed
qed

lemma od_wf_filter_drop: "od_wf d \<Longrightarrow> od_wf (drop n (filter P d))"
  by (auto simp: od_wf_def od_keys_def distinct_map_filter drop_map[symmetric])

lemma af_max_simps [simp]:
  "af_max (af_touch ttl k c now s) = af_max s" "af_max (af_evict now s) = af_max s"
  "af_max (snd (af_lookup ttl k now s)) = af_max s"
  by (auto simp: af_touch_def af_evict_def af_lookup_def Let_def split: option.splits)

lemma af_ok_touch [simp]: "af_ok s \<Longrightarrow> af_ok (af_touch ttl k c now s)"
  by (simp add: af_ok_def af_touch_def)

lemma af_ok_evict [simp]: "af_ok s \<Longrightarrow> af_ok (af_evict now s)"
  by (simp add: af_ok_def af_evict_def Let_def od_wf_filter_drop)

lemma length_evict: "length (af_entries (af_evict now s)) \<le> af_max s"
proof -
  have "n - (n - m) \<le> m" for n m :: nat by arith
  then show ?thesis by (simp add: af_evict_def Let_def)
qed

text \<open>The entry just written is live and newest, so eviction spares it.\<close>

lemma evict_spares_newest:
  assumes "af_ok s" "0 < ttl" "0 < af_max s"
  shows "od_get (af_entries (af_evict now (af_touch ttl k c now s))) k = Some (c, now + of_int ttl)"
proof -
  let ?d = "od_del k (af_entries s)" and ?v = "(c, now + of_int ttl)"
  let ?P = "\<lambda>(k :: string, (c :: cred_id, expires)). \<not> expires \<le> now"
  have wf: "af_ok (af_touch ttl k c now s)" using assms(1) by simp
  have last: "af_entries (af_touch ttl k c now s) = ?d @ [(k, ?v)]"
    by (simp add: af_touch_def od_touch_def)
  have "drop n (filter ?P (?d @ [(k, ?v)])) = drop n (filter ?P ?d) @ [(k, ?v)]"
    if "n \<le> length (filter ?P ?d)" for n
    using that assms(2) by simp
  moreover have "Suc (length (filter ?P ?d)) - af_max s \<le> length (filter ?P ?d)" using assms(3) by simp
  ultimately have evicted: "af_entries (af_evict now (af_touch ttl k c now s)) =
      (if length (?d @ [(k, ?v)]) \<le> af_max s then ?d @ [(k, ?v)]
       else drop (Suc (length (filter ?P ?d)) - af_max s) (filter ?P ?d) @ [(k, ?v)])"
    using assms(2) by (simp add: af_evict_def Let_def last af_max_simps)
  have "od_wf (af_entries (af_evict now (af_touch ttl k c now s)))"
    using af_ok_evict[OF wf] by (simp add: af_ok_def)
  then show ?thesis unfolding evicted od_wf_def od_keys_def
    by (auto intro!: map_of_is_SomeI simp del: distinct_append)
qed

lemma evict_keeps_or_forgets:
  "af_ok s \<Longrightarrow> od_get (af_entries (af_evict now s)) k = None
     \<or> od_get (af_entries (af_evict now s)) k = od_get (af_entries s) k"
proof -
  assume ok: "af_ok s"
  then have wf: "od_wf (af_entries s)" by (simp add: af_ok_def)
  show ?thesis
    using od_get_drop[of "filter (\<lambda>(k, c, expires). \<not> expires \<le> now) (af_entries s)"
        "length (filter (\<lambda>(k, c, expires). \<not> expires \<le> now) (af_entries s)) - af_max s" k]
      od_get_filter_cases[OF wf] od_wf_filter_drop[OF wf, of 0]
    by (auto simp: af_evict_def Let_def split: option.splits if_splits)
qed

interpretation sticky: bounded_cache
  "\<lambda>k c s. af_evict now (af_touch (int (Suc n)) k c now s)" "af_peek now" "\<lambda>s. length (af_entries s)"
  "Suc m" "\<lambda>s. af_ok s \<and> af_max s = Suc m" for now n m
proof
  fix s :: affinity and k k' :: string and v :: cred_id
  assume inv: "af_ok s \<and> af_max s = Suc m"
  show "af_ok (af_evict now (af_touch (int (Suc n)) k v now s))
      \<and> af_max (af_evict now (af_touch (int (Suc n)) k v now s)) = Suc m"
    using inv by simp
  show "af_peek now (af_evict now (af_touch (int (Suc n)) k v now s)) k = Some v"
    using evict_spares_newest[of s "int (Suc n)" now k v] inv by (simp add: af_peek_def)
  show "length (af_entries (af_evict now (af_touch (int (Suc n)) k v now s))) \<le> Suc m"
    using length_evict[of now "af_touch (int (Suc n)) k v now s"] inv by simp
  assume "k' \<noteq> k"
  then have "od_get (af_entries (af_touch (int (Suc n)) k v now s)) k' = od_get (af_entries s) k'"
    by (simp add: af_touch_def)
  with evict_keeps_or_forgets[of "af_touch (int (Suc n)) k v now s" now k'] inv
  show "af_peek now (af_evict now (af_touch (int (Suc n)) k v now s)) k' = None
      \<or> af_peek now (af_evict now (af_touch (int (Suc n)) k v now s)) k' = af_peek now s k'"
    by (auto simp: af_peek_def)
qed

section \<open>Injective encodings\<close>

lemma of_char_less: "(of_char c :: nat) < 256"
  using nat_of_char_less_256 by simp

lemma char_of_inj: "a < 256 \<Longrightarrow> b < 256 \<Longrightarrow> (char_of a = char_of (b :: nat)) \<longleftrightarrow> a = b"
  using of_char_of[of a] of_char_of[of b] by (auto simp: take_bit_eq_mod)

lemma hex_digit_inj: "a < 16 \<Longrightarrow> b < 16 \<Longrightarrow> hex_digit a = hex_digit b \<longleftrightarrow> a = b"
  by (auto simp: hex_digit_def char_of_inj split: if_splits)

lemma to_hex_inj: "to_hex a = to_hex b \<Longrightarrow> a = b"
proof (induction a arbitrary: b)
  case Nil
  then show ?case by (cases b) (simp_all add: to_hex_def Let_def)
next
  case (Cons c a)
  then obtain d b' where b: "b = d # b'" by (cases b) (simp_all add: to_hex_def Let_def)
  let ?m = "of_char c :: nat" and ?n = "of_char d :: nat"
  have "hex_digit (?m div 16) = hex_digit (?n div 16)" "hex_digit (?m mod 16) = hex_digit (?n mod 16)"
    "to_hex a = to_hex b'"
    using Cons.prems by (simp_all add: b to_hex_def Let_def)
  moreover have "?m div 16 < 16" "?n div 16 < 16" using of_char_less[of c] of_char_less[of d]
    by (simp_all add: less_mult_imp_div_less)
  ultimately have "?m div 16 = ?n div 16" "?m mod 16 = ?n mod 16" by (simp_all add: hex_digit_inj)
  then have "?m = ?n" by (metis div_mult_mod_eq)
  with Cons.IH[OF \<open>to_hex a = to_hex b'\<close>] show ?case by (simp add: b)
qed

lemma utf8_char_prefix:
  assumes "utf8_char c @ r = utf8_char d @ r'"
  shows "c = d \<and> r = r'"
proof -
  let ?m = "of_char c :: nat" and ?n = "of_char d :: nat"
  have b: "?m < 256" "?n < 256" by (rule of_char_less)+
  have code: "of_char (char_of x :: char) = x" if "x < 256" for x :: nat using that by simp
  have hi: "192 + x div 64 < 256" "128 + x mod 64 < 256" if "x < 256" for x :: nat
    using that by (auto simp: less_mult_imp_div_less)
  consider "?m < 128" "?n < 128" | "?m < 128" "\<not> ?n < 128" | "\<not> ?m < 128" "?n < 128"
    | "\<not> ?m < 128" "\<not> ?n < 128" by blast
  then show ?thesis
  proof cases
    case 1
    then show ?thesis using assms by (simp add: utf8_char_def Let_def)
  next
    case 2
    then have "?m = 192 + ?n div 64"
      using assms code[OF hi(1)[OF b(2)]] by (simp add: utf8_char_def Let_def)
    with 2 show ?thesis by simp
  next
    case 3
    then have "?n = 192 + ?m div 64"
      using assms code[OF hi(1)[OF b(1)]] by (simp add: utf8_char_def Let_def)
    with 3 show ?thesis by simp
  next
    case 4
    then have "char_of (192 + ?m div 64) = (char_of (192 + ?n div 64) :: char)"
      "char_of (128 + ?m mod 64) = (char_of (128 + ?n mod 64) :: char)" "r = r'"
      using assms by (simp_all add: utf8_char_def Let_def)
    then have "?m div 64 = ?n div 64" "?m mod 64 = ?n mod 64"
      using char_of_inj hi[OF b(1)] hi[OF b(2)] by simp_all
    then have "?m = ?n" by (metis div_mult_mod_eq)
    with \<open>r = r'\<close> show ?thesis by simp
  qed
qed

lemma utf8_char_not_Nil: "utf8_char c \<noteq> []"
  by (simp add: utf8_char_def Let_def)

lemma utf8_inj: "utf8 s = utf8 t \<Longrightarrow> s = t"
proof (induction s arbitrary: t)
  case Nil
  then show ?case by (cases t) (simp_all add: utf8_def utf8_char_not_Nil)
next
  case (Cons c s)
  then obtain d t' where t: "t = d # t'" by (cases t) (simp_all add: utf8_def utf8_char_not_Nil)
  with Cons.prems have "utf8_char c @ utf8 s = utf8_char d @ utf8 t'" by (simp add: utf8_def)
  from utf8_char_prefix[OF this] Cons.IH show ?case by (simp add: t)
qed

lemma separator_split:
  "c \<notin> set u \<Longrightarrow> c \<notin> set u' \<Longrightarrow> u @ c # e = u' @ c # e' \<Longrightarrow> u = u' \<and> e = e'"
proof (induction u arbitrary: u')
  case Nil
  then show ?case by (cases u') auto
next
  case (Cons x u)
  then show ?case by (cases u') auto
qed

text \<open>Two users never share an explicit conversation entry, as long as no user name contains a
  vertical bar and SHA-256 does not collide: equal table keys mean the same user and the same
  conversation key.\<close>

theorem explicit_digest_isolates:
  assumes "inj sha" and "CHR ''|'' \<notin> set u" and "CHR ''|'' \<notin> set u'"
  shows "explicit_digest sha e u = explicit_digest sha e' u' \<longleftrightarrow> e = e' \<and> u = u'"
proof
  assume "explicit_digest sha e u = explicit_digest sha e' u'"
  then have "sha (utf8 (''explicit|'' @ u @ ''|'' @ e)) = sha (utf8 (''explicit|'' @ u' @ ''|'' @ e'))"
    unfolding explicit_digest_def by (rule to_hex_inj)
  then have "''explicit|'' @ u @ ''|'' @ e = ''explicit|'' @ u' @ ''|'' @ e'"
    using assms(1) utf8_inj by (blast dest: injD)
  then have "u @ CHR ''|'' # e = u' @ CHR ''|'' # e'" by simp
  from separator_split[OF assms(2,3) this] show "e = e' \<and> u = u'" by simp
qed simp

theorem explicit_digest_isolates_witness:
  "explicit_digest (\<lambda>x. x) ''header:s'' ''ann'' \<noteq> explicit_digest (\<lambda>x. x) ''header:s'' ''bob''"
  using explicit_digest_isolates[of "\<lambda>x. x" "''ann''" "''bob''" "''header:s''" "''header:s''"]
  by (simp add: inj_on_def)

text \<open>Without a restriction on user names the entries do collide: a user whose name contains a
  vertical bar is handed the credential another user's conversation is pinned to, whatever the
  hash function.\<close>

theorem username_bar_crosses_users:
  assumes "0 < ttl" and "0 < af_max s" and "af_ok s"
  shows "fst (af_pin_for sha dump ttl (JObj [(''conversation_id'', JStr ''y'')]) None
       ''a|conversation_id:x'' now
       (af_remember sha dump ttl (JObj [(''conversation_id'', JStr ''x|conversation_id:y'')]) None
          ''a'' cid now s)) = Some cid"
proof -
  have e: "resolve_explicit [(''conversation_id'', JStr ''y'')] None = Some ''conversation_id:y''"
    "resolve_explicit [(''conversation_id'', JStr ''x|conversation_id:y'')] None
       = Some ''conversation_id:x|conversation_id:y''"
    by (simp_all add: resolve_explicit_def explicit_key_def EXPLICIT_KEYS_def containers_def jget_def
        j_nonempty_str_def py_strip_def py_rstrip_def py_lstrip_def is_space_def is_space_code_def)
  have d: "explicit_digest sha ''conversation_id:y'' ''a|conversation_id:x''
      = explicit_digest sha ''conversation_id:x|conversation_id:y'' ''a''"
    by (simp add: explicit_digest_def)
  show ?thesis
    using assms evict_spares_newest[OF assms(3,1,2)]
    by (simp add: af_pin_for_def af_remember_def e d af_lookup_def)
qed

theorem username_bar_crosses_users_witness:
  "fst (af_pin_for (\<lambda>x. x) (\<lambda>_. []) 60 (JObj [(''conversation_id'', JStr ''y'')]) None
       ''a|conversation_id:x'' 5
       (af_remember (\<lambda>x. x) (\<lambda>_. []) 60 (JObj [(''conversation_id'', JStr ''x|conversation_id:y'')]) None
          ''a'' ''cred'' 5 \<lparr>af_max = 512, af_entries = []\<rparr>)) = Some ''cred''"
  by (rule username_bar_crosses_users) (simp_all add: af_ok_def)

text \<open>The pattern that admits request ids accepts a final line feed, which the sanitizer is there
  to reject; session ids are stripped first and never contain one.\<close>

theorem request_id_admits_line_feed:
  "sanitize_request_id (Some (''abc'' @ [CHR 0x0A])) = Some (''abc'' @ [CHR 0x0A])
   \<and> sanitize_session_id (Some (''abc'' @ [CHR 0x0A])) = Some ''abc''"
  by (simp add: sanitize_request_id_def sanitize_session_id_def matches_id_pattern_def is_id_char_def
      py_strip_def py_rstrip_def py_lstrip_def is_space_def is_space_code_def Let_def)

section \<open>A conversation keeps its credential\<close>

text \<open>A conversation with an explicit key stays on its credential: after a request was served by a
  credential, the next request of the same user with the same key, before the time to live is
  over, is pinned to it, whatever else the table holds and whatever the request contains.\<close>

theorem explicit_conversation_sticks:
  assumes "resolve_explicit raw sid = Some e" and "resolve_explicit raw' sid' = Some e"
    and "af_ok s" and "0 < ttl" and "0 < af_max s" and "now \<le> t" and "t < now + of_int ttl"
  shows "fst (af_pin_for sha dump ttl (JObj raw') sid' u t
           (af_remember sha dump ttl (JObj raw) sid u cid now s)) = Some cid
    \<and> length (af_entries (af_remember sha dump ttl (JObj raw) sid u cid now s)) \<le> af_max s"
proof -
  have "od_get (af_entries (af_evict now (af_touch ttl (explicit_digest sha e u) cid now s)))
      (explicit_digest sha e u) = Some (cid, now + of_int ttl)"
    by (rule evict_spares_newest[OF assms(3,4,5)])
  then show ?thesis
    using assms length_evict[of now "af_touch ttl (explicit_digest sha e u) cid now s"]
    by (simp add: af_pin_for_def af_remember_def af_lookup_def)
qed

theorem explicit_conversation_sticks_witness:
  "fst (af_pin_for (\<lambda>x. x) (\<lambda>_. []) 60 (JObj []) (Some '' s1 '') ''ann'' 30
     (af_remember (\<lambda>x. x) (\<lambda>_. []) 60 (JObj [(''messages'', JList [JNull])]) (Some ''s1'') ''ann'' ''cred'' 5
        \<lparr>af_max = 1, af_entries = [(''old'', ''other'', 99)]\<rparr>)) = Some ''cred''"
proof -
  have "resolve_explicit [] (Some '' s1 '') = Some ''header:s1''"
    "resolve_explicit [(''messages'', JList [JNull])] (Some ''s1'') = Some ''header:s1''"
    by (simp_all add: resolve_explicit_def explicit_key_def EXPLICIT_KEYS_def containers_def jget_def
        j_nonempty_str_def header_key_def sanitize_session_id_def matches_id_pattern_def is_id_char_def
        py_strip_def py_rstrip_def py_lstrip_def is_space_def is_space_code_def Let_def)
  note e = this
  show ?thesis
    using explicit_conversation_sticks[OF e(2) e(1), of "\<lparr>af_max = 1, af_entries = [(''old'', ''other'', 99)]\<rparr>"
        60 5 30 "\<lambda>x. x" "\<lambda>_. []" "''ann''" "''cred''"]
    by (simp add: af_ok_def od_wf_def od_keys_def)
qed

lemma lookup_get_other:
  "k' \<noteq> k \<Longrightarrow> od_get (af_entries (snd (af_lookup ttl k' now s))) k = od_get (af_entries s) k"
  by (auto simp: af_lookup_def af_touch_def split: option.splits)

lemma lookup_get_same:
  "od_get (af_entries s) k = Some (c, ex) \<Longrightarrow> now < ex \<Longrightarrow>
   od_get (af_entries (snd (af_lookup ttl k now s))) k = Some (c, now + of_int ttl)
   \<and> fst (af_lookup ttl k now s) = Some c"
  by (simp add: af_lookup_def af_touch_def)

lemma lookup_absent:
  "od_get (af_entries s) k = None \<Longrightarrow> od_get (af_entries (snd (af_lookup ttl k' now s))) k = None"
  by (cases "k' = k") (auto simp: af_lookup_def af_touch_def split: option.splits)

lemma pin_chain_append:
  "af_pin_chain ttl (ks @ ks') now p s =
     (let (p', s') = af_pin_chain ttl ks now p s in af_pin_chain ttl ks' now p' s')"
  by (induction ks arbitrary: p s) (auto simp: Let_def split: prod.splits)

lemma pin_chain_absent:
  "\<forall>k \<in> set ks. od_get (af_entries s) k = None \<Longrightarrow> af_pin_chain ttl ks now p s = (p, s)"
  by (induction ks) (auto simp: af_lookup_def)

lemma pin_chain_keeps_absent:
  "od_get (af_entries s) k = None \<Longrightarrow> od_get (af_entries (snd (af_pin_chain ttl ks now p s))) k = None"
proof (induction ks arbitrary: p s)
  case Nil
  then show ?case by simp
next
  case (Cons k' ks)
  from Cons.IH[OF lookup_absent[OF Cons.prems, of ttl k' now]] show ?case
    by (simp add: Let_def split_beta)
qed

lemma pin_chain_keeps_live:
  "od_get (af_entries s) k = Some (c, ex) \<Longrightarrow> now < ex \<Longrightarrow> 0 < ttl \<Longrightarrow>
   \<exists>ex'. od_get (af_entries (snd (af_pin_chain ttl ks now p s))) k = Some (c, ex') \<and> now < ex'"
proof (induction ks arbitrary: p s ex)
  case Nil
  then show ?case by simp
next
  case (Cons k' ks)
  have "\<exists>ex1. od_get (af_entries (snd (af_lookup ttl k' now s))) k = Some (c, ex1) \<and> now < ex1"
  proof (cases "k' = k")
    case True
    with lookup_get_same[OF Cons.prems(1,2), of ttl] Cons.prems(3) show ?thesis by auto
  next
    case False
    with lookup_get_other[OF False, of ttl now s] Cons.prems show ?thesis by auto
  qed
  with Cons.IH Cons.prems(3) show ?case by (fastforce simp: Let_def split_beta)
qed

lemma chain_from_append:
  "\<exists>c'. chain_from sha dump c (ms @ ns) = chain_from sha dump c ms @ chain_from sha dump c' ns"
  by (induction ms arbitrary: c) (auto simp: Let_def)

lemma length_chain_from [simp]: "length (chain_from sha dump c ms) = length ms"
  by (induction ms arbitrary: c) (auto simp: Let_def)

lemma chain_digests_extend:
  assumes "ms \<noteq> []"
  obtains ks where "chain_digests sha dump (ms @ tail) u =
      butlast (chain_digests sha dump ms u) @ last (chain_digests sha dump ms u) # ks"
    and "ks = drop (length ms) (chain_digests sha dump (ms @ tail) u)"
proof -
  obtain c' where c': "chain_digests sha dump (ms @ tail) u
      = chain_digests sha dump ms u @ chain_from sha dump c' tail"
    using chain_from_append unfolding chain_digests_def by blast
  have "chain_digests sha dump ms u \<noteq> []"
    using assms length_chain_from by (metis chain_digests_def length_0_conv)
  then have "chain_digests sha dump (ms @ tail) u =
      butlast (chain_digests sha dump ms u) @ last (chain_digests sha dump ms u) # chain_from sha dump c' tail"
    by (simp add: c')
  moreover have "chain_from sha dump c' tail = drop (length ms) (chain_digests sha dump (ms @ tail) u)"
    using length_chain_from[of sha dump "sha (utf8 u)" ms] by (simp add: c' chain_digests_def[of sha dump ms])
  ultimately show ?thesis by (rule that)
qed

lemma chain_prefix_sticks:
  assumes "resolve_explicit raw sid = None" and "chain_messages raw = Some ms"
    and "resolve_explicit raw' sid' = None" and "chain_messages raw' = Some (ms @ tail)"
    and "af_ok s" and "0 < ttl" and "0 < af_max s" and "now \<le> t" and "t < now + of_int ttl"
    and "s1 = af_remember sha dump ttl (JObj raw) sid u cid now s"
    and "\<forall>k \<in> set (drop (length ms) (chain_digests sha dump (ms @ tail) u)). od_get (af_entries s1) k = None"
  shows "fst (af_pin_for sha dump ttl (JObj raw') sid' u t s1) = Some cid"
proof -
  have ms: "ms \<noteq> []" using assms(2) by (auto simp: chain_messages_def split: json.splits if_splits)
  let ?key = "last (chain_digests sha dump ms u)" and ?before = "butlast (chain_digests sha dump ms u)"
  obtain ks where ks: "chain_digests sha dump (ms @ tail) u = ?before @ ?key # ks"
    "ks = drop (length ms) (chain_digests sha dump (ms @ tail) u)"
    by (rule chain_digests_extend[OF ms])
  have s1: "s1 = af_evict now (af_touch ttl ?key cid now s)"
    using assms(1,2,6,10) by (simp add: af_remember_def)
  have live: "od_get (af_entries s1) ?key = Some (cid, now + of_int ttl)"
    unfolding s1 by (rule evict_spares_newest[OF assms(5,6,7)])
  define s2 where "s2 = snd (af_pin_chain ttl ?before t None s1)"
  obtain ex where ex: "od_get (af_entries s2) ?key = Some (cid, ex)" "t < ex"
    using pin_chain_keeps_live[OF live assms(9,6)] unfolding s2_def by blast
  define s3 where "s3 = snd (af_lookup ttl ?key t s2)"
  have "od_get (af_entries s3) k = None" if "k \<in> set ks" for k
    unfolding s3_def s2_def
    by (intro lookup_absent pin_chain_keeps_absent) (use assms(11) that ks(2) in blast)
  then have "af_pin_chain ttl (?key # ks) t p s2 = (Some cid, s3)" for p
    using lookup_get_same[OF ex, of ttl] pin_chain_absent[of ks s3 ttl t "Some cid"]
    by (simp add: s3_def split_beta Let_def)
  then show ?thesis
    using assms(3,4,6) by (simp add: af_pin_for_def ks(1) pin_chain_append split_beta s2_def)
qed

text \<open>Without any session id, a conversation whose next request extends the previous messages stays
  on its credential: the longest known prefix decides, so it is enough that none of the strictly
  longer prefixes of the new request has an entry of its own.\<close>

theorem prefix_conversation_sticks:
  assumes "resolve_explicit raw sid = None" and "chain_messages raw = Some ms"
    and "resolve_explicit raw' sid' = None" and "chain_messages raw' = Some (ms @ tail)"
    and "af_ok s" and "0 < ttl" and "0 < af_max s" and "now \<le> t" and "t < now + of_int ttl"
    and "s1 = af_remember sha dump ttl (JObj raw) sid u cid now s"
    and "\<forall>k \<in> set (drop (length ms) (chain_digests sha dump (ms @ tail) u)). od_get (af_entries s1) k = None"
  shows "fst (af_pin_for sha dump ttl (JObj raw') sid' u t s1) = Some cid"
  by (rule chain_prefix_sticks[OF assms])

theorem prefix_conversation_sticks_witness:
  "fst (af_pin_for (\<lambda>x. x) (\<lambda>_. ''m'') 60 (JObj [(''messages'', JList [JNull, JBool True])]) None ''u'' 9
     (af_remember (\<lambda>x. x) (\<lambda>_. ''m'') 60 (JObj [(''messages'', JList [JNull])]) None ''u'' ''cred'' 5
        \<lparr>af_max = 8, af_entries = []\<rparr>)) = Some ''cred''"
proof -
  have no_key: "resolve_explicit [(''messages'', JList ms)] None = None" for ms
    by (simp add: resolve_explicit_def explicit_key_def EXPLICIT_KEYS_def containers_def jget_def
        j_nonempty_str_def header_key_def sanitize_session_id_def)
  have chain: "chain_messages [(''messages'', JList (m # ms))] = Some (m # ms)" for m ms
    by (simp add: chain_messages_def jget_def has_user_id_def containers_def j_nonempty_str_def)
  show ?thesis
    using chain[of JNull "[JBool True]"]
    by (intro prefix_conversation_sticks[OF no_key chain no_key _ _ _ _ _ _ refl, where tail = "[JBool True]"])
      (simp_all add: af_ok_def af_remember_def no_key chain chain_digests_def Let_def message_digest_def
        utf8_def utf8_char_def to_hex_def hex_digit_def af_evict_def af_touch_def od_touch_def od_del_def)
qed

section \<open>The table stays bounded\<close>

inductive af_run :: "(string \<Rightarrow> string) \<Rightarrow> (json \<Rightarrow> string) \<Rightarrow> nat \<Rightarrow> affinity \<Rightarrow> bool" for sha dump m where
  new: "af_run sha dump m \<lparr>af_max = m, af_entries = []\<rparr>"
| pin: "af_run sha dump m s \<Longrightarrow> af_run sha dump m (snd (af_pin_for sha dump ttl body sid u now s))"
| remember: "af_run sha dump m s \<Longrightarrow> af_run sha dump m (af_remember sha dump ttl body sid u cid now s)"

definition af_inv :: "nat \<Rightarrow> affinity \<Rightarrow> bool" where
  "af_inv m s \<longleftrightarrow> af_ok s \<and> af_max s = m \<and> length (af_entries s) \<le> m"

lemma lookup_inv: "af_inv m s \<Longrightarrow> af_inv m (snd (af_lookup ttl k now s))"
proof -
  assume a: "af_inv m s"
  show ?thesis
  proof (cases "od_get (af_entries s) k")
    case None
    with a show ?thesis by (simp add: af_lookup_def)
  next
    case (Some v)
    have "Suc (length (od_del k (af_entries s))) = length (af_entries s)"
      using length_od_del_present[OF _ Some] a by (simp add: af_inv_def af_ok_def)
    with Some a show ?thesis
      by (cases v) (auto simp: af_inv_def af_ok_def af_lookup_def af_touch_def od_touch_def[of k]
          intro: od_wf_touch[unfolded od_touch_def])
  qed
qed

lemma pin_chain_inv: "af_inv m s \<Longrightarrow> af_inv m (snd (af_pin_chain ttl ks now p s))"
proof (induction ks arbitrary: p s)
  case Nil
  then show ?case by simp
next
  case (Cons k ks)
  from Cons.IH[OF lookup_inv[OF Cons.prems, of ttl k now]] show ?case
    by (simp add: Let_def split_beta)
qed

lemma evict_touch_inv: "af_inv m s \<Longrightarrow> af_inv m (af_evict now (af_touch ttl k c now s))"
  using length_evict[of now "af_touch ttl k c now s"] by (simp add: af_inv_def)

text \<open>The stickiness table never outgrows its capacity and never holds a key twice, whatever
  requests are served in whatever order, under any time to live.\<close>

theorem affinity_table_bounded:
  assumes "af_run sha dump m s"
  shows "length (af_entries s) \<le> m \<and> distinct (map fst (af_entries s)) \<and> af_max s = m"
proof -
  have "af_inv m s"
    using assms
  proof (induction rule: af_run.induct)
    case new
    then show ?case by (simp add: af_inv_def af_ok_def)
  next
    case (pin s ttl body sid u now)
    then show ?case
      by (auto simp: af_pin_for_def intro: lookup_inv pin_chain_inv split: json.split option.split)
  next
    case (remember s ttl body sid u cid now)
    then show ?case
      by (auto simp: af_remember_def intro: evict_touch_inv split: json.split option.split)
  qed
  then show ?thesis by (simp add: af_inv_def af_ok_def od_wf_def od_keys_def)
qed

theorem affinity_table_bounded_witness:
  "length (af_entries (af_remember (\<lambda>x. x) (\<lambda>_. []) 60 (JObj [(''session_id'', JStr ''s'')]) None ''u''
     ''c'' 1 \<lparr>af_max = 1, af_entries = []\<rparr>)) \<le> 1"
  using affinity_table_bounded[OF af_run.remember[OF af_run.new]] by blast

end
