(* ===== verification/ModelResolver.thy ===== *)
theory ModelResolver
  imports Prelude
begin

text \<open>
  \<^verbatim>\<open>src/engine/model_resolver.py\<close> and \<^verbatim>\<open>src/model_alias.py\<close>: the model name a
  request carries, the fallback groups and the aliases of the configuration. Configuration
  parsing is tolerant: a broken segment is skipped.
\<close>

section \<open>Fallback groups\<close>

definition KNOWN_PROVIDERS :: "provider_id list" where
  "KNOWN_PROVIDERS = [''codebuddy'', ''codebuddy_intl'', ''trae'', ''zen'', ''kilo'', ''qoder'',
     ''codearts'', ''officeace'', ''raccoon'']"

type_synonym fallback_groups = "(string, model_name list) odict"

definition split_members :: "string \<Rightarrow> model_name list" where
  "split_members raw = filter (\<lambda>m. m \<noteq> []) (map py_strip (py_split CHR '','' raw))"

definition group_of_chunk :: "string \<Rightarrow> (string \<times> model_name list) option" where
  "group_of_chunk c =
     (let chunk = py_strip c
      in if chunk = [] \<or> CHR ''='' \<notin> set chunk then None
         else (let (name, _, members_raw) = py_partition CHR ''='' chunk;
                   name = py_strip name;
                   members = split_members members_raw
               in if name = [] \<or> members = [] then None else Some (name, members)))"

definition parse_fallback_groups :: "string \<Rightarrow> fallback_groups" where
  "parse_fallback_groups raw =
     fold (\<lambda>c groups. case group_of_chunk c of None \<Rightarrow> groups | Some (n, ms) \<Rightarrow> od_set n ms groups)
       (py_split CHR '';'' raw) []"

fun ordered_fallback_chain :: "model_name \<Rightarrow> fallback_groups \<Rightarrow> model_name list" where
  "ordered_fallback_chain model [] = []"
| "ordered_fallback_chain model ((name, members) # groups) =
     (if py_lower model = py_lower name then members
      else if list_ex (\<lambda>m. py_lower model = py_lower m) members
      then model # filter (\<lambda>m. py_lower m \<noteq> py_lower model) members
      else ordered_fallback_chain model groups)"

section \<open>The requested model\<close>

record model_target =
  mt_model :: model_name
  mt_providers :: "provider_id list"
  mt_forced :: bool

definition resolve :: "string option \<Rightarrow> string \<Rightarrow> string + model_target" where
  "resolve model default_model =
     (let raw0 = py_strip (case model of Some m \<Rightarrow> m | None \<Rightarrow> []);
          raw = (if raw0 = [] \<or> py_lower raw0 = ''auto'' then default_model else raw0)
      in if CHR ''@'' \<in> set raw then
           (let (name, provider) = py_rpartition CHR ''@'' raw;
                provider = py_lower (py_strip provider)
            in if provider \<notin> set KNOWN_PROVIDERS then Inl ''unknown provider''
               else if py_strip name = [] then Inl ''model name missing''
               else Inr \<lparr>mt_model = py_strip name, mt_providers = [provider], mt_forced = True\<rparr>)
         else Inr \<lparr>mt_model = raw, mt_providers = KNOWN_PROVIDERS, mt_forced = False\<rparr>)"

section \<open>Aliases\<close>

record model_alias =
  ma_name :: string
  ma_model :: model_name
  ma_provider :: "provider_id option"

definition alias_of_chunk :: "string \<Rightarrow> model_alias option" where
  "alias_of_chunk c =
     (let chunk = py_strip c
      in if chunk = [] then None
         else (let (n, separator, target_raw) = py_partition CHR ''='' chunk;
                   name = py_strip n
               in if \<not> separator \<or> name = [] then None
                  else (let target = py_strip target_raw
                        in if target = [] then None
                           else if CHR ''@'' \<in> set target then
                             (let (model_raw, provider_raw) = py_rpartition CHR ''@'' target;
                                  model = py_strip model_raw;
                                  provider = py_lower (py_strip provider_raw)
                              in if model = [] \<or> provider \<notin> set KNOWN_PROVIDERS then None
                                 else Some \<lparr>ma_name = name, ma_model = model, ma_provider = Some provider\<rparr>)
                           else Some \<lparr>ma_name = name, ma_model = target, ma_provider = None\<rparr>)))"

definition parse_model_aliases :: "string \<Rightarrow> (string, model_alias) odict" where
  "parse_model_aliases raw =
     fold (\<lambda>c aliases. case alias_of_chunk c of None \<Rightarrow> aliases | Some a \<Rightarrow> od_set (ma_name a) a aliases)
       (py_split CHR '';'' raw) []"

section \<open>Rendering, for the round trips\<close>

definition render_group :: "string \<times> model_name list \<Rightarrow> string" where
  "render_group g = fst g @ ''='' @ join_sep CHR '','' (snd g)"

definition render_groups :: "fallback_groups \<Rightarrow> string" where
  "render_groups gs = join_sep CHR '';'' (map render_group gs)"

text \<open>A word that survives the parser: no separator, nothing to strip, not empty.\<close>

definition plain_word :: "string \<Rightarrow> bool" where
  "plain_word w \<longleftrightarrow> w \<noteq> [] \<and> CHR '';'' \<notin> set w \<and> CHR ''='' \<notin> set w \<and> CHR '','' \<notin> set w
     \<and> \<not> is_space (hd w) \<and> \<not> is_space (last w)"

lemma py_split_free: "c \<notin> set w \<Longrightarrow> py_split c w = [w]"
  by (induction w) auto

lemma py_split_append: "c \<notin> set w \<Longrightarrow> py_split c (w @ c # s) = w # py_split c s"
  by (induction w) auto

lemma py_split_join: "ws \<noteq> [] \<Longrightarrow> \<forall>w \<in> set ws. c \<notin> set w \<Longrightarrow> py_split c (join_sep c ws) = ws"
  by (induction c ws rule: join_sep.induct) (auto simp: py_split_free py_split_append)

lemma set_join_sep: "set (join_sep c ws) \<subseteq> insert c (\<Union>w \<in> set ws. set w)"
  by (induction c ws rule: join_sep.induct) auto

lemma strip_id: "w \<noteq> [] \<Longrightarrow> \<not> is_space (hd w) \<Longrightarrow> \<not> is_space (last w) \<Longrightarrow> py_strip w = w"
proof -
  assume a: "w \<noteq> []" "\<not> is_space (hd w)" "\<not> is_space (last w)"
  have "dropWhile is_space w = w" using a(1,2) by (cases w) auto
  moreover have "dropWhile is_space (rev w) = rev w"
    using a(1,3) by (cases "rev w") (auto simp: hd_rev[symmetric])
  ultimately show ?thesis by (simp add: py_strip_def py_lstrip_def py_rstrip_def)
qed

lemma plain_strip: "plain_word w \<Longrightarrow> py_strip w = w"
  by (simp add: plain_word_def strip_id)

lemma hd_join_sep: "ws \<noteq> [] \<Longrightarrow> hd ws \<noteq> [] \<Longrightarrow> join_sep c ws \<noteq> [] \<and> hd (join_sep c ws) = hd (hd ws)"
  by (induction c ws rule: join_sep.induct) auto

lemma last_join_sep:
  "ws \<noteq> [] \<Longrightarrow> \<forall>w \<in> set ws. w \<noteq> [] \<Longrightarrow> join_sep c ws \<noteq> [] \<and> last (join_sep c ws) = last (last ws)"
  by (induction c ws rule: join_sep.induct) auto

lemma py_partition_first: "c \<notin> set a \<Longrightarrow> py_partition c (a @ c # b) = (a, True, b)"
  by (induction a) (auto simp: py_partition_def)

lemma split_members_join:
  assumes "ms \<noteq> []" "\<forall>m \<in> set ms. plain_word m"
  shows "split_members (join_sep CHR '','' ms) = ms"
proof -
  have "py_split CHR '','' (join_sep CHR '','' ms) = ms"
    using assms by (intro py_split_join) (auto simp: plain_word_def)
  moreover have "map py_strip ms = ms" using assms(2) by (intro map_idI) (auto simp: plain_strip)
  moreover have "filter (\<lambda>m. m \<noteq> []) ms = ms" using assms(2) by (auto simp: plain_word_def filter_id_conv)
  ultimately show ?thesis by (simp add: split_members_def)
qed

lemma group_of_rendered:
  assumes "plain_word n" "ms \<noteq> []" "\<forall>m \<in> set ms. plain_word m"
  shows "group_of_chunk (render_group (n, ms)) = Some (n, ms)"
proof -
  let ?r = "n @ CHR ''='' # join_sep CHR '','' ms"
  have ne: "\<forall>m \<in> set ms. m \<noteq> []" using assms(3) by (auto simp: plain_word_def)
  have "last ?r = last (last ms)" using last_join_sep[OF assms(2) ne] by auto
  moreover have "\<not> is_space (last (last ms))" using assms(2,3) by (auto simp: plain_word_def)
  moreover have "\<not> is_space (hd ?r)" using assms(1) by (auto simp: plain_word_def)
  ultimately have "py_strip ?r = ?r" by (intro strip_id) auto
  then show ?thesis
    using assms(1,2) py_partition_first[of "CHR ''=''" n "join_sep CHR '','' ms"]
      split_members_join[OF assms(2,3)] plain_strip[OF assms(1)]
    by (simp add: group_of_chunk_def render_group_def Let_def plain_word_def)
qed

lemma fold_od_set_append: "distinct (map fst (ps @ qs)) \<Longrightarrow>
    fold (\<lambda>(n, ms) d. od_set n ms d) qs ps = ps @ qs"
proof (induction qs arbitrary: ps)
  case Nil
  then show ?case by simp
next
  case (Cons q qs)
  have "od_set k v ps' = ps' @ [(k, v)]" if "k \<notin> fst ` set ps'" for k v and ps' :: "('a \<times> 'b) list"
    using that by (induction ps') (auto simp: od_set_def)
  then have "od_set (fst q) (snd q) ps = ps @ [q]" using Cons.prems by simp
  moreover have "fold (\<lambda>(n, ms) d. od_set n ms d) qs (ps @ [q]) = (ps @ [q]) @ qs"
    using Cons.prems by (intro Cons.IH) simp
  ultimately show ?case by (cases q) simp
qed

text \<open>Every configuration of fallback groups can be written down and is read back unchanged, in the
  same order: names and members that are plain words survive, nothing is merged or dropped.\<close>

theorem fallback_groups_roundtrip:
  assumes "gs \<noteq> []" and "distinct (map fst gs)"
    and "\<forall>(n, ms) \<in> set gs. plain_word n \<and> ms \<noteq> [] \<and> (\<forall>m \<in> set ms. plain_word m)"
  shows "parse_fallback_groups (render_groups gs) = gs"
proof -
  have free: "CHR '';'' \<notin> set (render_group g)" if "g \<in> set gs" for g
  proof -
    have "CHR '';'' \<notin> set (join_sep CHR '','' (snd g))"
      using set_join_sep[of "CHR '',''" "snd g"] that assms(3) by (fastforce simp: plain_word_def)
    then show ?thesis using that assms(3) by (fastforce simp: render_group_def plain_word_def)
  qed
  have "py_split CHR '';'' (render_groups gs) = map render_group gs"
    unfolding render_groups_def using assms(1) free by (intro py_split_join) auto
  moreover have "fold (\<lambda>c groups. case group_of_chunk c of None \<Rightarrow> groups | Some (n, ms) \<Rightarrow> od_set n ms groups)
      (map render_group gs') d = fold (\<lambda>(n, ms) d. od_set n ms d) gs' d" if "set gs' \<subseteq> set gs" for gs' d
    using that
  proof (induction gs' arbitrary: d)
    case Nil
    then show ?case by simp
  next
    case (Cons g gs')
    then show ?case using group_of_rendered[of "fst g" "snd g"] assms(3) by (auto simp: split_beta)
  qed
  ultimately show ?thesis
    using fold_od_set_append[of "[]" gs] assms(2) by (simp add: parse_fallback_groups_def)
qed

theorem fallback_groups_roundtrip_witness:
  "parse_fallback_groups (render_groups [(''fast'', [''glm-4.6'', ''glm-5'']), (''b'', [''k''])])
   = [(''fast'', [''glm-4.6'', ''glm-5'']), (''b'', [''k''])]"
  by (rule fallback_groups_roundtrip)
    (simp_all add: plain_word_def is_space_def is_space_code_def)

text \<open>The fallback chain: it is empty exactly when the model is neither a group nor a member; for a
  group name it is the members of the first such group; for a member it starts with the requested
  spelling, goes on with the other members in the configured order, and never names the requested
  model twice.\<close>

theorem fallback_chain_spec:
  assumes "\<forall>(n, ms) \<in> set gs. ms \<noteq> []"
  shows "(ordered_fallback_chain m gs = [] \<longleftrightarrow>
       \<not> (\<exists>(n, ms) \<in> set gs. py_lower m = py_lower n \<or> py_lower m \<in> py_lower ` set ms))
    \<and> (ordered_fallback_chain m gs \<noteq> [] \<longrightarrow>
       (\<exists>(n, ms) \<in> set gs.
          if py_lower m = py_lower n then ordered_fallback_chain m gs = ms
          else py_lower m \<in> py_lower ` set ms
            \<and> ordered_fallback_chain m gs = m # filter (\<lambda>x. py_lower x \<noteq> py_lower m) ms))"
  using assms
proof (induction gs)
  case Nil
  then show ?case by simp
next
  case (Cons g gs)
  obtain n ms where g: "g = (n, ms)" by (cases g)
  have ex: "list_ex (\<lambda>x. py_lower m = py_lower x) ms \<longleftrightarrow> py_lower m \<in> py_lower ` set ms"
    by (auto simp: list_ex_iff)
  consider "py_lower m = py_lower n" | "py_lower m \<noteq> py_lower n" "py_lower m \<in> py_lower ` set ms"
    | "py_lower m \<noteq> py_lower n" "py_lower m \<notin> py_lower ` set ms" by blast
  then show ?case
  proof cases
    case 1
    with Cons.prems show ?thesis by (simp add: g)
  next
    case 2
    with Cons.prems show ?thesis by (simp add: g ex)
  next
    case 3
    then have eq: "ordered_fallback_chain m ((n, ms) # gs) = ordered_fallback_chain m gs" by (simp add: ex)
    have "\<forall>(n, ms) \<in> set gs. ms \<noteq> []" using Cons.prems by simp
    note IH = Cons.IH[OF this]
    show ?thesis
      unfolding g eq
    proof (rule conjI)
      show "(ordered_fallback_chain m gs = []) = (\<not> (\<exists>(n, ms) \<in> set ((n, ms) # gs).
          py_lower m = py_lower n \<or> py_lower m \<in> py_lower ` set ms))"
        unfolding IH[THEN conjunct1] using 3 by (simp add: ex)
    qed (use IH[THEN conjunct2] in \<open>meson list.set_intros(2)\<close>)
  qed
qed

theorem fallback_chain_spec_witness:
  "ordered_fallback_chain ''GLM-5'' [(''fast'', [''glm-4.6'', ''glm-5''])] \<noteq> []"
proof -
  have "py_lower ''GLM-5'' = py_lower ''glm-5''" by code_simp
  then show ?thesis
    using fallback_chain_spec[of "[(''fast'', [''glm-4.6'', ''glm-5''])]" "''GLM-5''"]
    by (auto simp del: ordered_fallback_chain.simps)
qed

text \<open>Resolving the requested model: an empty or automatic name means the default; a known channel
  after the last at-sign forces that channel and strips it from the name, so every model name (even
  one with at-signs of its own) can be sent to every channel; an unknown channel or an empty name
  is an error; and a successful result always names known channels.\<close>

theorem resolve_spec:
  assumes "plain_word m" and "p \<in> set KNOWN_PROVIDERS"
  shows "resolve (Some (m @ ''@'' @ p)) d = Inr \<lparr>mt_model = m, mt_providers = [p], mt_forced = True\<rparr>
    \<and> (py_lower m \<noteq> ''auto'' \<longrightarrow> CHR ''@'' \<notin> set m \<longrightarrow>
        resolve (Some m) d = Inr \<lparr>mt_model = m, mt_providers = KNOWN_PROVIDERS, mt_forced = False\<rparr>)
    \<and> (\<forall>r t. resolve r d = Inr t \<longrightarrow> mt_providers t \<noteq> [] \<and> set (mt_providers t) \<subseteq> set KNOWN_PROVIDERS)
    \<and> resolve None d = resolve (Some ''auto'') d"
proof -
  have p: "CHR ''@'' \<notin> set p" "p \<noteq> []" "\<not> is_space (hd p)" "\<not> is_space (last p)" "py_lower p = p"
    using assms(2)
    by (auto simp: KNOWN_PROVIDERS_def is_space_def is_space_code_def py_lower_def lower_char_def Let_def)
  have m: "m \<noteq> []" "\<not> is_space (hd m)" "py_strip m = m" using assms(1) plain_strip by (auto simp: plain_word_def)
  let ?r = "m @ CHR ''@'' # p"
  have strip: "py_strip ?r = ?r" using m p by (intro strip_id) auto
  have tw: "takeWhile (\<lambda>x. x \<noteq> CHR ''@'') (rev p @ CHR ''@'' # rev m) = rev p"
    "dropWhile (\<lambda>x. x \<noteq> CHR ''@'') (rev p @ CHR ''@'' # rev m) = CHR ''@'' # rev m"
    using p(1) by (subst takeWhile_append2 dropWhile_append2; auto)+
  then have part: "py_rpartition CHR ''@'' ?r = (m, p)" by (simp add: py_rpartition_def)
  have "CHR ''@'' \<in> set (py_lower ?r)" by (simp add: py_lower_def lower_char_def Let_def image_iff)
  then have "py_lower ?r \<noteq> ''auto''" by auto
  then have forced: "resolve (Some (m @ ''@'' @ p)) d = Inr \<lparr>mt_model = m, mt_providers = [p], mt_forced = True\<rparr>"
    using strip part p assms(2) m strip_id[OF p(2-4)] by (simp add: resolve_def Let_def)
  have "resolve (Some m) d = Inr \<lparr>mt_model = m, mt_providers = KNOWN_PROVIDERS, mt_forced = False\<rparr>"
    if "py_lower m \<noteq> ''auto''" "CHR ''@'' \<notin> set m"
    using that m by (simp add: resolve_def Let_def)
  moreover have "mt_providers t \<noteq> [] \<and> set (mt_providers t) \<subseteq> set KNOWN_PROVIDERS"
    if "resolve r d = Inr t" for r t
    using that
    by (auto simp: resolve_def Let_def split_beta KNOWN_PROVIDERS_def split: if_splits option.splits)
  moreover have "resolve None d = resolve (Some ''auto'') d"
    by (simp add: resolve_def Let_def py_strip_def py_lstrip_def py_rstrip_def is_space_def
        is_space_code_def py_lower_def lower_char_def)
  ultimately show ?thesis using forced by blast
qed

theorem resolve_spec_witness:
  "resolve (Some ''glm@5@zen'') ''x'' = Inr \<lparr>mt_model = ''glm@5'', mt_providers = [''zen''], mt_forced = True\<rparr>"
proof -
  have "plain_word ''glm@5''" by (simp add: plain_word_def is_space_def is_space_code_def)
  moreover have "''zen'' \<in> set KNOWN_PROVIDERS" by (simp add: KNOWN_PROVIDERS_def)
  ultimately show ?thesis using resolve_spec[of "''glm@5''" "''zen''" "''x''"] by simp
qed

end
