(* ===== verification/Compress.thy ===== *)
theory Compress
  imports Prelude
begin

text \<open>
  \<^verbatim>\<open>src/engine/compress.py\<close>: trimming a conversation to the input limit of the model. A
  message is the view the module reads: role, content (a string, a list of parts, nothing, or
  another value through its \<^verbatim>\<open>str\<close>), reasoning, tool calls and the id of the answered call.
  Texts are lists of Unicode code points; the token estimate is an exact rational instead of a
  float sum. Every message the module sees is a dictionary with string roles.
\<close>

section \<open>Messages\<close>

datatype part = PText utext | PImage utext | PStr utext | POther

datatype content = CText utext | CParts "part list" | CNone | COther utext

text \<open>A tool call is its function name and arguments; \<open>None\<close> is an entry that is no dictionary.\<close>

record message =
  m_role :: string
  m_content :: content
  m_reasoning :: "utext option"
  m_calls :: "(utext \<times> utext) option list"
  m_call_id :: "utext option"

abbreviation is_system :: "message \<Rightarrow> bool" where "is_system m \<equiv> m_role m = ''system''"
abbreviation is_tool :: "message \<Rightarrow> bool" where "is_tool m \<equiv> m_role m = ''tool''"

section \<open>Token estimate\<close>

definition CJK_WEIGHT :: rat where "CJK_WEIGHT = 55 / 100"
definition DIGIT_WEIGHT :: rat where "DIGIT_WEIGHT = 33 / 100"
definition OTHER_WEIGHT :: rat where "OTHER_WEIGHT = 25 / 100"
definition DEFAULT_RESERVE_FOR_OUTPUT :: rat where "DEFAULT_RESERVE_FOR_OUTPUT = 4096"
definition DEFAULT_MIN_KEEP_MESSAGES :: nat where "DEFAULT_MIN_KEEP_MESSAGES = 4"
definition DEFAULT_SAFETY_RATIO :: rat where "DEFAULT_SAFETY_RATIO = 95 / 100"
definition TRUNCATE_HEAD :: nat where "TRUNCATE_HEAD = 4000"
definition TRUNCATE_TAIL :: nat where "TRUNCATE_TAIL = 4000"
definition TRUNCATE_MARKER :: utext where
  "TRUNCATE_MARKER = [10, 8230, 91, 20869, 23481, 36807, 38271, 24050, 25130, 26029, 93, 8230, 10]"

definition is_cjk :: "nat \<Rightarrow> bool" where
  "is_cjk code \<longleftrightarrow> (0x4E00 \<le> code \<and> code \<le> 0x9FFF) \<or> (0x3000 \<le> code \<and> code \<le> 0x303F)
     \<or> (0xFF00 \<le> code \<and> code \<le> 0xFFEF)"

text \<open>\<^verbatim>\<open>str.isdigit\<close>: the digit ranges of Unicode 15.0.\<close>

definition digit_ranges :: "(nat \<times> nat) list" where
  "digit_ranges =
    [(48, 57), (178, 179), (185, 185), (1632, 1641), (1776, 1785), (1984, 1993), (2406, 2415),
     (2534, 2543), (2662, 2671), (2790, 2799), (2918, 2927), (3046, 3055), (3174, 3183),
     (3302, 3311), (3430, 3439), (3558, 3567), (3664, 3673), (3792, 3801), (3872, 3881),
     (4160, 4169), (4240, 4249), (4969, 4977), (6112, 6121), (6160, 6169), (6470, 6479),
     (6608, 6618), (6784, 6793), (6800, 6809), (6992, 7001), (7088, 7097), (7232, 7241),
     (7248, 7257), (8304, 8304), (8308, 8313), (8320, 8329), (9312, 9320), (9332, 9340),
     (9352, 9360), (9450, 9450), (9461, 9469), (9471, 9471), (10102, 10110), (10112, 10120),
     (10122, 10130), (42528, 42537), (43216, 43225), (43264, 43273), (43472, 43481),
     (43504, 43513), (43600, 43609), (44016, 44025), (65296, 65305), (66720, 66729),
     (68160, 68163), (68912, 68921), (69216, 69224), (69714, 69722), (69734, 69743),
     (69872, 69881), (69942, 69951), (70096, 70105), (70384, 70393), (70736, 70745),
     (70864, 70873), (71248, 71257), (71360, 71369), (71472, 71481), (71904, 71913),
     (72016, 72025), (72784, 72793), (73040, 73049), (73120, 73129), (73552, 73561),
     (92768, 92777), (92864, 92873), (93008, 93017), (120782, 120831), (123200, 123209),
     (123632, 123641), (124144, 124153), (125264, 125273), (127232, 127242), (130032, 130041)]"

definition is_digit :: "nat \<Rightarrow> bool" where
  "is_digit code \<longleftrightarrow> list_ex (\<lambda>(a, b). a \<le> code \<and> code \<le> b) digit_ranges"

definition char_weight :: "nat \<Rightarrow> rat" where
  "char_weight c = (if is_cjk c then CJK_WEIGHT else if is_digit c then DIGIT_WEIGHT else OTHER_WEIGHT)"

definition estimate_tokens :: "utext \<Rightarrow> rat" where
  "estimate_tokens t = sum_list (map char_weight t)"

fun part_text :: "part \<Rightarrow> utext" where
  "part_text (PText t) = t"
| "part_text (PImage url) = url"
| "part_text (PStr t) = t"
| "part_text POther = []"

fun content_text :: "content \<Rightarrow> utext" where
  "content_text (CText t) = t"
| "content_text (CParts ps) = concat (map part_text ps)"
| "content_text CNone = []"
| "content_text (COther t) = t"

fun part_tokens :: "part \<Rightarrow> rat" where
  "part_tokens (PText t) = estimate_tokens t"
| "part_tokens (PImage url) = OTHER_WEIGHT * of_nat (length url)"
| "part_tokens (PStr t) = estimate_tokens t"
| "part_tokens POther = 0"

fun content_tokens :: "content \<Rightarrow> rat" where
  "content_tokens (CText t) = estimate_tokens t"
| "content_tokens (CParts ps) = sum_list (map part_tokens ps)"
| "content_tokens CNone = 0"
| "content_tokens (COther t) = estimate_tokens t"

definition call_tokens :: "(utext \<times> utext) option \<Rightarrow> rat" where
  "call_tokens c = (case c of None \<Rightarrow> 0 | Some (n, a) \<Rightarrow> estimate_tokens n + estimate_tokens a)"

definition opt_tokens :: "utext option \<Rightarrow> rat" where
  "opt_tokens t = (case t of None \<Rightarrow> 0 | Some x \<Rightarrow> estimate_tokens x)"

definition message_tokens :: "message \<Rightarrow> rat" where
  "message_tokens m = content_tokens (m_content m) + opt_tokens (m_reasoning m)
     + sum_list (map call_tokens (m_calls m)) + opt_tokens (m_call_id m)"

definition estimate_messages :: "message list \<Rightarrow> rat" where
  "estimate_messages ms = sum_list (map message_tokens ms)"

section \<open>Truncating one message\<close>

fun has_non_text_part :: "content \<Rightarrow> bool" where
  "has_non_text_part (CParts ps) = list_ex (\<lambda>p. case p of PText _ \<Rightarrow> False | _ \<Rightarrow> True) ps"
| "has_non_text_part _ = False"

text \<open>\<open>None\<close>: the same object is returned, nothing was cut.\<close>

definition truncate_content :: "content \<Rightarrow> content option" where
  "truncate_content c =
     (if has_non_text_part c then None
      else (let t = content_text c
            in if length t \<le> TRUNCATE_HEAD + TRUNCATE_TAIL then None
               else Some (CText (take TRUNCATE_HEAD t @ TRUNCATE_MARKER @ drop (length t - TRUNCATE_TAIL) t))))"

fun truncate_loop :: "nat list \<Rightarrow> rat \<Rightarrow> rat \<Rightarrow> message list \<Rightarrow> message list" where
  "truncate_loop [] budget tot result = result"
| "truncate_loop (i # is) budget tot result =
     (if tot \<le> budget then result
      else (case truncate_content (m_content (result ! i)) of
              None \<Rightarrow> truncate_loop is budget tot result
            | Some c \<Rightarrow>
                (let m' = (result ! i)\<lparr>m_content := c\<rparr>
                 in truncate_loop is budget
                      (tot - (message_tokens (result ! i) - message_tokens m')) (result[i := m']))))"

definition truncate_candidates :: "message list \<Rightarrow> nat list" where
  "truncate_candidates ms =
     sort_key (\<lambda>i. - int (length (content_text (m_content (ms ! i)))))
       (filter (\<lambda>i. \<not> is_system (ms ! i)) [0..<length ms])"

definition truncate_to_budget :: "message list \<Rightarrow> rat \<Rightarrow> message list" where
  "truncate_to_budget ms budget = truncate_loop (truncate_candidates ms) budget (estimate_messages ms) ms"

section \<open>Groups and the kept suffix\<close>

text \<open>An assistant message with tool calls and the tool results right after it are one group.\<close>

function group_atomic :: "message list \<Rightarrow> message list list" where
  "group_atomic [] = []"
| "group_atomic (m # ms) =
     (if m_role m = ''assistant'' \<and> m_calls m \<noteq> []
      then (m # takeWhile is_tool ms) # group_atomic (dropWhile is_tool ms)
      else [m] # group_atomic ms)"
  by pat_completeness auto
termination
  by (relation "measure length") (auto simp: le_imp_less_Suc length_dropWhile_le)

definition group_offsets :: "message list list \<Rightarrow> nat list" where
  "group_offsets gs = map (\<lambda>k. length (concat (take k gs))) [0..<length gs]"

text \<open>
  The loop from the newest group backwards: the groups not yet visited (newest first, each with
  its offset), the running estimate, the number of kept messages, the kept groups and the start.
\<close>

fun keep_loop ::
    "(message list \<times> nat) list \<Rightarrow> rat \<Rightarrow> nat \<Rightarrow> rat \<Rightarrow> nat \<Rightarrow> message list list \<Rightarrow> nat
      \<Rightarrow> message list list \<times> nat" where
  "keep_loop [] budget min_keep running count kept start = (kept, start)"
| "keep_loop ((g, off) # gs) budget min_keep running count kept start =
     (let cost = estimate_messages g
      in if count \<ge> min_keep \<and> running + cost > budget then (kept, start)
         else keep_loop gs budget min_keep (running + cost) (count + length g) (g # kept) off)"

definition trim_to_budget :: "message list \<Rightarrow> rat \<Rightarrow> nat \<Rightarrow> message list \<times> nat" where
  "trim_to_budget messages budget min_keep =
     (let system_messages = filter is_system messages;
          body = filter (\<lambda>m. \<not> is_system m) messages;
          groups = group_atomic body;
          (kept, start) = keep_loop (rev (zip groups (group_offsets groups))) budget min_keep
                            (estimate_messages system_messages) 0 [] (length body)
      in (truncate_to_budget (system_messages @ concat kept) budget, start))"

definition compress_messages :: "message list \<Rightarrow> int \<Rightarrow> rat \<Rightarrow> nat \<Rightarrow> rat \<Rightarrow> message list" where
  "compress_messages messages max_input reserve min_keep safety =
     (if max_input \<le> 0 then messages
      else (let budget = of_int max_input * safety - reserve
            in if budget \<le> 0 \<or> estimate_messages messages \<le> budget then messages
               else fst (trim_to_budget messages budget min_keep)))"

section \<open>Truncation changes contents only\<close>

lemma concat_group_atomic [simp]: "concat (group_atomic ms) = ms"
  by (induction ms rule: group_atomic.induct) auto

lemma group_atomic_not_Nil: "g \<in> set (group_atomic ms) \<Longrightarrow> g \<noteq> []"
  by (induction ms rule: group_atomic.induct) (auto split: if_splits)

lemma estimate_messages_append [simp]:
  "estimate_messages (a @ b) = estimate_messages a + estimate_messages b"
  by (simp add: estimate_messages_def)

lemma estimate_tokens_append [simp]: "estimate_tokens (a @ b) = estimate_tokens a + estimate_tokens b"
  by (simp add: estimate_tokens_def)

definition bare :: "message \<Rightarrow> message" where
  "bare m = m\<lparr>m_content := CNone\<rparr>"

definition same_but_contents :: "message list \<Rightarrow> message list \<Rightarrow> bool" where
  "same_but_contents a b \<longleftrightarrow> map bare a = map bare b \<and> filter is_system a = filter is_system b"

lemma same_but_contents_refl [simp]: "same_but_contents a a"
  by (simp add: same_but_contents_def)

lemma same_but_contents_length: "same_but_contents a b \<Longrightarrow> length a = length b"
  unfolding same_but_contents_def by (metis length_map)

lemma filter_update_not:
  "i < length xs \<Longrightarrow> \<not> P (xs ! i) \<Longrightarrow> \<not> P x \<Longrightarrow> filter P (xs[i := x]) = filter P xs"
proof (induction xs arbitrary: i)
  case Nil
  then show ?case by simp
next
  case (Cons y ys)
  then show ?case by (cases i) auto
qed

lemma truncate_loop_same:
  "\<forall>i \<in> set is. i < length ms \<and> \<not> is_system (ms ! i) \<Longrightarrow>
   same_but_contents (truncate_loop is budget tot ms) ms"
proof (induction "is" budget tot ms rule: truncate_loop.induct)
  case (1 budget tot result)
  then show ?case by simp
next
  case (2 i "is" budget tot result)
  show ?case
  proof (cases "tot \<le> budget \<or> truncate_content (m_content (result ! i)) = None")
    case True
    then show ?thesis using "2.IH"(1) "2.prems" by auto
  next
    case False
    then obtain c where c: "truncate_content (m_content (result ! i)) = Some c" "\<not> tot \<le> budget" by auto
    let ?m = "(result ! i)\<lparr>m_content := c\<rparr>"
    let ?r = "result[i := ?m]"
    have i: "i < length result" "\<not> is_system (result ! i)" using "2.prems" by auto
    have "map bare ?r = map bare result"
      using i(1) by (simp add: map_update bare_def) (metis list_update_id nth_map bare_def)
    moreover have "filter is_system ?r = filter is_system result" by (rule filter_update_not) (use i in auto)
    ultimately have r: "same_but_contents ?r result" by (simp add: same_but_contents_def)
    have "\<forall>j \<in> set is. j < length ?r \<and> \<not> is_system (?r ! j)"
      using "2.prems" i by (auto simp: nth_list_update)
    then have "same_but_contents (truncate_loop is budget
        (tot - (message_tokens (result ! i) - message_tokens ?m)) ?r) ?r"
      using "2.IH"(2)[OF c(2) c(1) refl] by simp
    with r c show ?thesis by (simp add: same_but_contents_def Let_def)
  qed
qed

lemma truncate_to_budget_same: "same_but_contents (truncate_to_budget ms budget) ms"
  unfolding truncate_to_budget_def
  by (rule truncate_loop_same) (auto simp: truncate_candidates_def)

lemma truncate_loop_fits: "tot \<le> budget \<Longrightarrow> truncate_loop is budget tot ms = ms"
  by (cases "is") auto

lemma truncate_to_budget_fits: "estimate_messages ms \<le> budget \<Longrightarrow> truncate_to_budget ms budget = ms"
  by (simp add: truncate_to_budget_def truncate_loop_fits)

section \<open>The kept messages\<close>

definition kept_ok :: "message list list \<Rightarrow> rat \<Rightarrow> rat \<Rightarrow> nat \<Rightarrow> nat \<Rightarrow> bool" where
  "kept_ok G base budget min_keep j \<longleftrightarrow>
     (j = 0 \<or> (min_keep \<le> length (concat (drop j G))
               \<and> budget < base + estimate_messages (concat (drop (j - 1) G))))"

definition needed :: "message list list \<Rightarrow> rat \<Rightarrow> rat \<Rightarrow> nat \<Rightarrow> nat \<Rightarrow> bool" where
  "needed G base budget min_keep i \<longleftrightarrow>
     length (concat (drop (Suc i) G)) < min_keep
     \<or> base + estimate_messages (concat (drop i G)) \<le> budget"

lemma keep_loop_spec:
  assumes "k \<le> length G"
  shows "\<exists>j \<le> k.
    keep_loop (rev (zip (take k G) (map (\<lambda>i. length (concat (take i G))) [0..<k]))) budget min_keep
      (base + estimate_messages (concat (drop k G))) (length (concat (drop k G))) (drop k G)
      (length (concat (take k G)))
    = (drop j G, length (concat (take j G)))
    \<and> kept_ok G base budget min_keep j
    \<and> (\<forall>i. j \<le> i \<and> i < k \<longrightarrow> needed G base budget min_keep i)"
  using assms
proof (induction k)
  case 0
  then show ?case by (simp add: kept_ok_def)
next
  case (Suc k)
  then have k: "k < length G" by simp
  let ?g = "G ! k"
  have tk: "take (Suc k) G = take k G @ [?g]" using k by (simp add: take_Suc_conv_app_nth)
  have dk: "drop k G = ?g # drop (Suc k) G" using k by (simp add: Cons_nth_drop_Suc)
  have zip: "rev (zip (take (Suc k) G) (map (\<lambda>i. length (concat (take i G))) [0..<Suc k]))
      = (?g, length (concat (take k G))) # rev (zip (take k G) (map (\<lambda>i. length (concat (take i G))) [0..<k]))"
    using k by (simp add: tk zip_append1 min_def)
  show ?case
  proof (cases "min_keep \<le> length (concat (drop (Suc k) G))
      \<and> budget < base + estimate_messages (concat (drop (Suc k) G)) + estimate_messages ?g")
    case True
    then show ?thesis
      unfolding zip
      by (intro exI[of _ "Suc k"])
        (auto simp: Let_def kept_ok_def dk algebra_simps)
  next
    case False
    have "keep_loop (rev (zip (take (Suc k) G) (map (\<lambda>i. length (concat (take i G))) [0..<Suc k]))) budget min_keep
        (base + estimate_messages (concat (drop (Suc k) G))) (length (concat (drop (Suc k) G))) (drop (Suc k) G)
        (length (concat (take (Suc k) G)))
      = keep_loop (rev (zip (take k G) (map (\<lambda>i. length (concat (take i G))) [0..<k]))) budget min_keep
        (base + estimate_messages (concat (drop k G))) (length (concat (drop k G))) (drop k G)
        (length (concat (take k G)))"
      unfolding zip keep_loop.simps Let_def if_not_P[OF False] by (simp add: dk add_ac)
    moreover have "needed G base budget min_keep k" using False by (auto simp: needed_def dk add_ac)
    moreover have "k \<le> length G" using k by simp
    ultimately show ?thesis using Suc.IH by (metis (no_types, lifting) le_SucI less_Suc_eq)
  qed
qed

text \<open>
  Every trimming in one statement: a group boundary, the messages behind it, and why exactly
  those are kept.
\<close>

lemma trim_to_budget_form:
  assumes "trim_to_budget ms budget min_keep = (res, start)"
  defines "sys \<equiv> filter is_system ms" and "body \<equiv> filter (\<lambda>m. \<not> is_system m) ms"
  shows "\<exists>j \<le> length (group_atomic body).
     start = length (concat (take j (group_atomic body)))
     \<and> drop start body = concat (drop j (group_atomic body))
     \<and> res = truncate_to_budget (sys @ drop start body) budget
     \<and> kept_ok (group_atomic body) (estimate_messages sys) budget min_keep j
     \<and> (\<forall>i. j \<le> i \<and> i < length (group_atomic body) \<longrightarrow>
          needed (group_atomic body) (estimate_messages sys) budget min_keep i)"
proof -
  let ?G = "group_atomic body"
  have "estimate_messages [] = 0" by (simp add: estimate_messages_def)
  with keep_loop_spec[of "length ?G" ?G budget min_keep "estimate_messages sys"]
  obtain j where j: "j \<le> length ?G"
    "keep_loop (rev (zip ?G (group_offsets ?G))) budget min_keep (estimate_messages sys) 0 [] (length body)
      = (drop j ?G, length (concat (take j ?G)))"
    "kept_ok ?G (estimate_messages sys) budget min_keep j"
    "\<forall>i. j \<le> i \<and> i < length ?G \<longrightarrow> needed ?G (estimate_messages sys) budget min_keep i"
    by (auto simp: group_offsets_def)
  have "body = concat (take j ?G) @ concat (drop j ?G)"
    by (metis append_take_drop_id concat_append concat_group_atomic)
  then have "drop (length (concat (take j ?G))) body = concat (drop j ?G)" by (metis append_eq_conv_conj)
  moreover have "res = truncate_to_budget (sys @ concat (drop j ?G)) budget \<and> start = length (concat (take j ?G))"
    using assms(1) j(2) by (simp add: trim_to_budget_def Let_def sys_def body_def)
  ultimately show ?thesis using j by (intro exI[of _ j]) simp
qed

text \<open>C15. What survives a trimming: every system message unchanged, and of the rest exactly the messages
  from a group boundary on, so a tool result is never separated from its call; at least the last
  messages asked for; contents are cut only when what is kept exceeds the budget, and then only
  of other messages than the system's; and the cut is as late as it can be, for one group more
  would exceed the budget.\<close>

theorem trim_keeps_recent_suffix:
  assumes "trim_to_budget ms budget min_keep = (res, start)"
    and "sys = filter is_system ms" and "body = filter (\<lambda>m. \<not> is_system m) ms"
  shows "same_but_contents res (sys @ drop start body)
    \<and> filter is_system res = sys
    \<and> (\<exists>j. start = length (concat (take j (group_atomic body)))
         \<and> (j \<noteq> 0 \<longrightarrow> budget < estimate_messages (sys @ concat (drop (j - 1) (group_atomic body)))))
    \<and> min min_keep (length body) \<le> length body - start
    \<and> (estimate_messages (sys @ drop start body) \<le> budget \<longrightarrow> res = sys @ drop start body)
    \<and> (budget < estimate_messages (sys @ drop start body) \<longrightarrow> start < length body \<longrightarrow>
         (\<exists>g gs. drop start (body) = g @ gs \<and> g \<in> set (group_atomic body) \<and> length gs < min_keep))"
proof -
  let ?G = "group_atomic body"
  from trim_to_budget_form[OF assms(1), folded assms(2,3)] obtain j where j: "j \<le> length ?G"
    "start = length (concat (take j ?G))" "drop start body = concat (drop j ?G)"
    "res = truncate_to_budget (sys @ drop start body) budget"
    "kept_ok ?G (estimate_messages sys) budget min_keep j"
    "\<forall>i. j \<le> i \<and> i < length ?G \<longrightarrow> needed ?G (estimate_messages sys) budget min_keep i"
    by blast
  have same: "same_but_contents res (sys @ drop start body)"
    unfolding j(4) by (rule truncate_to_budget_same)
  have only_sys: "filter is_system (sys @ drop start body) = sys"
  proof -
    have "filter is_system (drop start body) = []"
      using set_drop_subset[of start body] by (auto simp: filter_empty_conv assms(3))
    then show ?thesis by (simp add: assms(2))
  qed
  have len: "length body - start = length (concat (drop j ?G))" using j(3) by (metis length_drop)
  have keep: "min min_keep (length body) \<le> length body - start"
  proof (cases "j = 0")
    case True
    then show ?thesis using j(2) by simp
  next
    case False
    then show ?thesis using j(5) by (simp add: len kept_ok_def min.coboundedI1)
  qed
  have last_group: "\<exists>g gs. drop start body = g @ gs \<and> g \<in> set ?G \<and> length gs < min_keep"
    if over: "budget < estimate_messages (sys @ drop start body)" and ne: "start < length body"
  proof -
    have jl: "j < length ?G" using ne j(1,3) by (cases "j = length ?G") auto
    then have "drop start body = ?G ! j @ concat (drop (Suc j) ?G)"
      using j(3) by (metis Cons_nth_drop_Suc concat.simps(2))
    moreover have "length (concat (drop (Suc j) ?G)) < min_keep"
      using j(6) jl over by (auto simp: needed_def j(3))
    ultimately show ?thesis using jl by (meson nth_mem)
  qed
  have "j \<noteq> 0 \<longrightarrow> budget < estimate_messages (sys @ concat (drop (j - 1) ?G))"
    using j(5) by (auto simp: kept_ok_def)
  then show ?thesis
    using same only_sys keep last_group j(2,4) truncate_to_budget_fits
    by (auto simp: same_but_contents_def)
qed

definition plain_message :: "string \<Rightarrow> utext \<Rightarrow> message" where
  "plain_message role t =
     \<lparr>m_role = role, m_content = CText t, m_reasoning = None, m_calls = [], m_call_id = None\<rparr>"

theorem trim_keeps_recent_suffix_witness:
  "filter is_system (fst (trim_to_budget
     [plain_message ''system'' [65], plain_message ''user'' [66], plain_message ''user'' [67]] 1 1))
   = [plain_message ''system'' [65]]"
  using trim_keeps_recent_suffix[OF prod.collapse[symmetric] refl refl, where budget = 1 and min_keep = 1 and
      ms = "[plain_message ''system'' [65], plain_message ''user'' [66], plain_message ''user'' [67]]"]
  by (simp add: plain_message_def)

text \<open>Below the limit, and whenever no limit or no budget is known, a conversation is passed on
  untouched; above it, the result has no more messages than before and keeps the system messages.\<close>

theorem compress_only_above_limit:
  "(max_input \<le> 0 \<or> of_int max_input * safety - reserve \<le> 0
      \<or> estimate_messages ms \<le> of_int max_input * safety - reserve \<longrightarrow>
      compress_messages ms max_input reserve min_keep safety = ms)
   \<and> filter is_system (compress_messages ms max_input reserve min_keep safety) = filter is_system ms
   \<and> length (compress_messages ms max_input reserve min_keep safety) \<le> length ms"
proof -
  let ?b = "of_int max_input * safety - reserve"
  obtain res start where t: "trim_to_budget ms ?b min_keep = (res, start)" by fastforce
  let ?body = "filter (\<lambda>m. \<not> is_system m) ms"
  obtain j where "res = truncate_to_budget (filter is_system ms @ drop start ?body) ?b"
    using trim_to_budget_form[OF t] by blast
  then have same: "same_but_contents res (filter is_system ms @ drop start ?body)"
    using truncate_to_budget_same by simp
  have "filter is_system (drop start ?body) = []"
    using set_drop_subset[of start ?body] by (auto simp: filter_empty_conv)
  then have "filter is_system res = filter is_system ms" using same by (simp add: same_but_contents_def)
  moreover have "length res \<le> length ms"
    using same_but_contents_length[OF same] sum_length_filter_compl[of is_system ms] by simp
  ultimately show ?thesis by (auto simp: compress_messages_def Let_def t)
qed

theorem compress_only_above_limit_witness:
  "compress_messages [plain_message ''user'' [66]] 0 4096 4 (95 / 100) = [plain_message ''user'' [66]]"
  using compress_only_above_limit[of 0] by blast

text \<open>Cutting one over-long content keeps its head and tail and yields exactly 8013 characters,
  so a content of 8001 to 8012 ordinary characters grows, in length and in estimated tokens.\<close>

theorem truncation_can_lengthen:
  assumes "8000 < length t"
  shows "\<exists>t'. truncate_content (CText t) = Some (CText t') \<and> length t' = 8013
    \<and> take 4000 t' = take 4000 t \<and> drop 4013 t' = drop (length t - 4000) t
    \<and> (length t < 8013 \<and> (\<forall>c \<in> set t. char_weight c = OTHER_WEIGHT) \<longrightarrow>
         length t < length t' \<and> estimate_tokens t < estimate_tokens t')"
proof -
  let ?h = "take 4000 t" and ?e = "drop (length t - 4000) t"
  let ?t = "?h @ TRUNCATE_MARKER @ ?e"
  have form: "truncate_content (CText t) = Some (CText ?t)"
    using assms by (simp add: truncate_content_def Let_def TRUNCATE_HEAD_def TRUNCATE_TAIL_def)
  have len: "length ?h = 4000" "length ?e = 4000" "length TRUNCATE_MARKER = 13"
    using assms by (simp_all add: TRUNCATE_MARKER_def)
  have "estimate_tokens t < estimate_tokens ?t"
    if "length t < 8013" "\<forall>c \<in> set t. char_weight c = OTHER_WEIGHT"
  proof -
    have w: "estimate_tokens u = OTHER_WEIGHT * of_nat (length u)" if "set u \<subseteq> set t" for u
      using that \<open>\<forall>c \<in> set t. char_weight c = OTHER_WEIGHT\<close>
      unfolding estimate_tokens_def by (induction u) (auto simp: algebra_simps)
    have marker: "estimate_tokens TRUNCATE_MARKER = 535 / 100"
      by (simp add: estimate_tokens_def TRUNCATE_MARKER_def char_weight_def is_cjk_def is_digit_def
          digit_ranges_def CJK_WEIGHT_def OTHER_WEIGHT_def)
    have "estimate_tokens ?t = OTHER_WEIGHT * 8000 + 535 / 100"
      using w[of ?h] w[of ?e] len set_take_subset[of 4000 t] set_drop_subset[of "length t - 4000" t]
      by (simp add: marker OTHER_WEIGHT_def)
    moreover have "estimate_tokens t \<le> OTHER_WEIGHT * 8012"
      using w[of t] that(1) by (simp add: OTHER_WEIGHT_def)
    ultimately show ?thesis by (simp add: OTHER_WEIGHT_def)
  qed
  with form len show ?thesis by (intro exI[of _ ?t]) simp
qed

theorem truncation_can_lengthen_witness:
  "\<exists>t'. truncate_content (CText (replicate 8001 65)) = Some (CText t') \<and> length t' = 8013
     \<and> estimate_tokens (replicate 8001 65) < estimate_tokens t'"
proof -
  have "char_weight 65 = OTHER_WEIGHT" by (simp add: char_weight_def is_cjk_def is_digit_def digit_ranges_def)
  moreover have "set (replicate 8001 (65::nat)) = {65}" by (rule set_replicate) simp
  ultimately show ?thesis
    using truncation_can_lengthen[of "replicate 8001 65"] unfolding length_replicate by auto
qed

end
