(* ===== verification/StickyTrim.thy ===== *)
theory StickyTrim
  imports Compress
begin

text \<open>
  \<^verbatim>\<open>src/engine/sticky_trim.py\<close>: remembering, per conversation, where the last trimming cut,
  so that the messages sent upstream keep a stable prefix. The digest of a message (a hash of its
  canonical JSON) is an argument; the table is an LRU of boundaries, its newest entry last.
\<close>

definition DEFAULT_LOW_WATERMARK :: rat where "DEFAULT_LOW_WATERMARK = 6 / 10"
definition STICKY_CAPACITY :: nat where "STICKY_CAPACITY = 256"

record boundary =
  b_start :: nat
  b_digest :: string

record trim_outcome =
  to_messages :: "message list"
  to_trimmed :: bool
  to_reason :: string

record trimmer =
  st_capacity :: nat
  st_watermark :: rat
  st_seen :: "(string, boundary) odict"

definition new_trimmer :: "int \<Rightarrow> rat \<Rightarrow> string + trimmer" where
  "new_trimmer capacity low_watermark =
     (if capacity < 1 then Inl ''sticky trim capacity must be >= 1''
      else if \<not> (0 < low_watermark \<and> low_watermark \<le> 1) then Inl ''sticky trim low_watermark must be in (0, 1]''
      else Inr \<lparr>st_capacity = nat capacity, st_watermark = low_watermark, st_seen = []\<rparr>)"

definition group_starts :: "message list \<Rightarrow> nat set" where
  "group_starts body = set (group_offsets (group_atomic body))"

definition sticky_touch :: "string \<Rightarrow> boundary \<Rightarrow> trimmer \<Rightarrow> trimmer" where
  "sticky_touch key b s = s\<lparr>st_seen := od_touch key b (st_seen s)\<rparr>"

definition sticky_forget :: "string \<Rightarrow> trimmer \<Rightarrow> trimmer" where
  "sticky_forget key s = s\<lparr>st_seen := od_del key (st_seen s)\<rparr>"

definition sticky_insert :: "string \<Rightarrow> boundary \<Rightarrow> trimmer \<Rightarrow> trimmer" where
  "sticky_insert key b s =
     (let s' = sticky_touch key b s
      in if length (st_seen s') > st_capacity s' then s'\<lparr>st_seen := tl (st_seen s')\<rparr> else s')"

definition sticky_remember ::
    "(message \<Rightarrow> string) \<Rightarrow> string \<Rightarrow> message list \<Rightarrow> nat \<Rightarrow> trimmer \<Rightarrow> trimmer" where
  "sticky_remember dig key body start s =
     (if start < length body
      then sticky_insert key \<lparr>b_start = start, b_digest = dig (body ! start)\<rparr> s
      else sticky_forget key s)"

definition sticky_reuse ::
    "(message \<Rightarrow> string) \<Rightarrow> message list \<Rightarrow> message list \<Rightarrow> boundary \<Rightarrow> rat \<Rightarrow> message list option \<times> string" where
  "sticky_reuse dig messages body b budget =
     (let start = b_start b
      in if start \<ge> length body then (None, ''start_out_of_range'')
         else if dig (body ! start) \<noteq> b_digest b then (None, ''digest_changed'')
         else if start \<notin> group_starts body then (None, ''not_group_start'')
         else (let candidate = filter is_system messages @ drop start body
               in if estimate_messages candidate > budget then (None, ''over_budget'')
                  else (Some candidate, ''reused'')))"

definition sticky_compress ::
    "(message \<Rightarrow> string) \<Rightarrow> string \<Rightarrow> message list \<Rightarrow> int \<Rightarrow> rat \<Rightarrow> nat \<Rightarrow> rat \<Rightarrow> trimmer
      \<Rightarrow> trim_outcome \<times> trimmer" where
  "sticky_compress dig key messages max_input reserve min_keep safety s =
     (let keep = (\<lambda>r. (\<lparr>to_messages = messages, to_trimmed = False, to_reason = r\<rparr>, sticky_forget key s));
          budget = of_int max_input * safety - reserve
      in if max_input \<le> 0 then keep ''no_limit''
         else if budget \<le> 0 then keep ''no_budget''
         else if estimate_messages messages \<le> budget then keep ''fits''
         else
           (let body = filter (\<lambda>m. \<not> is_system m) messages;
                retrim = (\<lambda>reason.
                  (let (trimmed, start) = trim_to_budget messages (budget * st_watermark s) min_keep
                   in (\<lparr>to_messages = trimmed, to_trimmed = True, to_reason = reason\<rparr>,
                       sticky_remember dig key body start s)))
            in (case od_get (st_seen s) key of
                  None \<Rightarrow> retrim ''no_memory''
                | Some b \<Rightarrow>
                    (case sticky_reuse dig messages body b budget of
                       (Some reused, _) \<Rightarrow>
                         (\<lparr>to_messages = reused, to_trimmed = False, to_reason = ''reused''\<rparr>,
                          sticky_touch key b s)
                     | (None, reason) \<Rightarrow> retrim reason))))"

section \<open>The memory is a bounded cache\<close>

lemma od_wf_tl: "od_wf d \<Longrightarrow> od_wf (tl d)"
  by (cases d) (auto simp: od_wf_def od_keys_def)

lemma od_get_tl: "od_wf d \<Longrightarrow> od_get (tl d) k = None \<or> od_get (tl d) k = od_get d k"
  by (cases d) (auto simp: od_wf_def od_keys_def map_of_eq_None_iff)

lemma od_get_tl_touched:
  assumes "od_wf (od_touch k v d)" "tl (od_touch k v d) \<noteq> []"
  shows "od_get (tl (od_touch k v d)) k = Some v"
proof -
  have "(k, v) \<in> set (tl (od_touch k v d))"
    using assms(2) by (cases "od_del k d") (auto simp: od_touch_def)
  moreover have "distinct (map fst (tl (od_touch k v d)))"
    using od_wf_tl[OF assms(1)] by (simp add: od_wf_def od_keys_def)
  ultimately show ?thesis by (simp add: map_of_is_SomeI)
qed

interpretation memory: bounded_cache sticky_insert "\<lambda>s. od_get (st_seen s)" "\<lambda>s. length (st_seen s)"
  "Suc m" "\<lambda>s. od_wf (st_seen s) \<and> st_capacity s = Suc m \<and> length (st_seen s) \<le> Suc m" for m
proof
  fix s :: trimmer and k k' :: string and v :: boundary
  assume inv: "od_wf (st_seen s) \<and> st_capacity s = Suc m \<and> length (st_seen s) \<le> Suc m"
  then have wf: "od_wf (od_touch k v (st_seen s))" by simp
  have le: "length (od_touch k v (st_seen s)) \<le> Suc (Suc m)"
    using length_od_touch_le[of k v "st_seen s"] inv by simp
  have form: "st_seen (sticky_insert k v s) =
      (if length (od_touch k v (st_seen s)) > Suc m then tl (od_touch k v (st_seen s))
       else od_touch k v (st_seen s))"
    using inv by (simp add: sticky_insert_def sticky_touch_def Let_def)
  show "od_wf (st_seen (sticky_insert k v s)) \<and> st_capacity (sticky_insert k v s) = Suc m
      \<and> length (st_seen (sticky_insert k v s)) \<le> Suc m"
    using inv wf le unfolding form by (auto simp: sticky_insert_def sticky_touch_def Let_def od_wf_tl)
  then show "length (st_seen (sticky_insert k v s)) \<le> Suc m" by simp
  show "od_get (st_seen (sticky_insert k v s)) k = Some v"
  proof (cases "length (od_touch k v (st_seen s)) > Suc m")
    case True
    then have "tl (od_touch k v (st_seen s)) \<noteq> []" by (cases "od_touch k v (st_seen s)") auto
    with True od_get_tl_touched[OF wf] show ?thesis by (simp add: form)
  next
    case False
    then show ?thesis by (simp add: form)
  qed
  assume "k' \<noteq> k"
  then have "od_get (od_touch k v (st_seen s)) k' = od_get (st_seen s) k'" by simp
  with od_get_tl[OF wf, of k'] show "od_get (st_seen (sticky_insert k v s)) k' = None
      \<or> od_get (st_seen (sticky_insert k v s)) k' = od_get (st_seen s) k'"
    by (auto simp: form)
qed

section \<open>The sent prefix is stable\<close>

lemma group_starts_Nil [simp]: "group_starts [] = {}"
  by (simp add: group_starts_def group_offsets_def)

lemma group_offsets_Cons: "group_offsets (g # gs) = 0 # map (\<lambda>k. length g + k) (group_offsets gs)"
proof -
  have "[0..<Suc (length gs)] = 0 # map Suc [0..<length gs]" by (simp add: upt_conv_Cons map_Suc_upt del: upt_Suc)
  then show ?thesis by (simp add: group_offsets_def o_def del: upt_Suc)
qed

lemma group_starts_Cons:
  "group_starts (m # ms) = insert 0 (if m_role m = ''assistant'' \<and> m_calls m \<noteq> []
     then (\<lambda>k. Suc (length (takeWhile is_tool ms)) + k) ` group_starts (dropWhile is_tool ms)
     else Suc ` group_starts ms)"
  by (auto simp: group_starts_def group_offsets_Cons)

text \<open>Boundaries survive when messages are appended: only the last group can grow.\<close>

lemma group_starts_append: "group_starts body \<subseteq> group_starts (body @ new)"
proof (induction body rule: group_atomic.induct)
  case 1
  then show ?case by simp
next
  case (2 m ms)
  show ?case
  proof (cases "m_role m = ''assistant'' \<and> m_calls m \<noteq> []")
    case True
    show ?thesis
    proof (cases "dropWhile is_tool ms = []")
      case True
      then have "group_starts (dropWhile is_tool ms) = {}" by (simp only: group_starts_Nil)
      with \<open>m_role m = ''assistant'' \<and> m_calls m \<noteq> []\<close> show ?thesis by (simp add: group_starts_Cons)
    next
      case False
      then have "\<exists>x \<in> set ms. \<not> is_tool x" by (auto simp: dropWhile_eq_Nil_conv)
      then have "takeWhile is_tool (ms @ new) = takeWhile is_tool ms"
        "dropWhile is_tool (ms @ new) = dropWhile is_tool ms @ new"
        by (auto simp: takeWhile_append1 dropWhile_append1)
      with True 2(1) show ?thesis by (auto simp: group_starts_Cons)
    qed
  next
    case False
    with 2(2) show ?thesis by (auto simp: group_starts_Cons)
  qed
qed

lemma boundary_is_group_start:
  "j < length (group_atomic body) \<Longrightarrow> length (concat (take j (group_atomic body))) \<in> group_starts body"
  by (auto simp: group_starts_def group_offsets_def)

lemma remember_get:
  assumes "od_wf (st_seen s)" "0 < st_capacity s" "length (st_seen s) \<le> st_capacity s"
    "start < length body"
  shows "od_get (st_seen (sticky_remember dig key body start s)) key
    = Some \<lparr>b_start = start, b_digest = dig (body ! start)\<rparr>"
proof -
  obtain n where "st_capacity s = Suc n" using assms(2) by (cases "st_capacity s") auto
  then show ?thesis using assms memory.put_get[of s n key] by (simp add: sticky_remember_def)
qed

lemma compress_trimmed:
  assumes "sticky_compress dig key ms mx res mk sf s = (o1, s1)" "to_trimmed o1"
  shows "\<exists>start. trim_to_budget ms ((of_int mx * sf - res) * st_watermark s) mk = (to_messages o1, start)
    \<and> s1 = sticky_remember dig key (filter (\<lambda>m. \<not> is_system m) ms) start s
    \<and> 0 < mx \<and> 0 < of_int mx * sf - res \<and> of_int mx * sf - res < estimate_messages ms"
proof -
  obtain trimmed start where
    t: "trim_to_budget ms ((of_int mx * sf - res) * st_watermark s) mk = (trimmed, start)" by fastforce
  show ?thesis
    using assms
    by (auto simp: sticky_compress_def Let_def t split: if_splits option.splits prod.splits)
qed

lemma trim_start_boundary:
  assumes "trim_to_budget ms b mk = (res, start)" "start < length (filter (\<lambda>m. \<not> is_system m) ms)"
  shows "start \<in> group_starts (filter (\<lambda>m. \<not> is_system m) ms)"
proof -
  let ?G = "group_atomic (filter (\<lambda>m. \<not> is_system m) ms)"
  from trim_to_budget_form[OF assms(1)] obtain j where j: "j \<le> length ?G"
    "start = length (concat (take j ?G))" by blast
  have "j < length ?G"
  proof (rule ccontr)
    assume "\<not> j < length ?G"
    then have "start = length (filter (\<lambda>m. \<not> is_system m) ms)" using j by simp
    with assms(2) show False by simp
  qed
  with j(2) show ?thesis by (simp add: boundary_is_group_start)
qed


lemma estimate_replicate: "estimate_tokens (replicate n c) = of_nat n * char_weight c"
  by (induction n) (simp_all add: estimate_tokens_def algebra_simps)

lemma weight_a: "char_weight 97 = 25 / 100"
  by (simp add: char_weight_def is_cjk_def is_digit_def digit_ranges_def OTHER_WEIGHT_def)

definition sample_user :: "nat \<Rightarrow> message" where
  "sample_user n = plain_message ''user'' (replicate n 97)"

lemma sample_user_simps [simp]:
  "m_role (sample_user n) = ''user''" "m_content (sample_user n) = CText (replicate n 97)"
  "m_calls (sample_user n) = []" "message_tokens (sample_user n) = of_nat n * (25 / 100)"
  by (simp_all add: sample_user_def plain_message_def message_tokens_def estimate_replicate weight_a opt_tokens_def)

lemma sample_user_estimate [simp]:
  "estimate_messages [] = 0"
  "estimate_messages (sample_user n # ms) = of_nat n * (25 / 100) + estimate_messages ms"
  by (simp_all add: estimate_messages_def)

definition sample_trimmer :: trimmer where
  "sample_trimmer = \<lparr>st_capacity = 1, st_watermark = DEFAULT_LOW_WATERMARK, st_seen = []\<rparr>"

lemma sample_trim:
  "trim_to_budget [sample_user 4000, sample_user 4000, sample_user 40] 1080 1 = ([sample_user 4000, sample_user 40], 1)"
  by (simp add: trim_to_budget_def Let_def group_offsets_def truncate_to_budget_def truncate_loop_fits)


text \<open>Where the trimming had to cut a long message, reusing the window sends it uncut: the very
  same request sent again goes upstream with a different, longer text, although nothing changed
  and the window is reported as reused.\<close>

theorem reuse_undoes_truncation:
  "to_reason (fst (sticky_compress dig key [sample_user 4000, sample_user 20000] 5500 0 1 1
      (snd (sticky_compress dig key [sample_user 4000, sample_user 20000] 5500 0 1 1 sample_trimmer)))) = ''reused''
   \<and> to_messages (fst (sticky_compress dig key [sample_user 4000, sample_user 20000] 5500 0 1 1
      (snd (sticky_compress dig key [sample_user 4000, sample_user 20000] 5500 0 1 1 sample_trimmer))))
      = [sample_user 20000]
   \<and> map (\<lambda>m. length (content_text (m_content m)))
      (to_messages (fst (sticky_compress dig key [sample_user 4000, sample_user 20000] 5500 0 1 1 sample_trimmer)))
      = [8013]"
proof -
  let ?ms = "[sample_user 4000, sample_user 20000]"
  define t :: utext where "t = replicate 4000 97 @ TRUNCATE_MARKER @ replicate 4000 97"
  have t: "length t = 8013" by (simp add: t_def TRUNCATE_MARKER_def)
  have cut: "truncate_content (CText (replicate 20000 97)) = Some (CText t)"
    by (simp add: truncate_content_def TRUNCATE_HEAD_def TRUNCATE_TAIL_def t_def)
  have trim: "trim_to_budget ?ms 3300 1 = ([(sample_user 20000)\<lparr>m_content := CText t\<rparr>], 1)"
    by (simp add: trim_to_budget_def Let_def group_offsets_def truncate_to_budget_def truncate_candidates_def cut)
  let ?s = "sample_trimmer\<lparr>st_seen := [(key, \<lparr>b_start = 1, b_digest = dig (sample_user 20000)\<rparr>)]\<rparr>"
  have one: "sticky_compress dig key ?ms 5500 0 1 1 sample_trimmer
      = (\<lparr>to_messages = [(sample_user 20000)\<lparr>m_content := CText t\<rparr>], to_trimmed = True,
          to_reason = ''no_memory''\<rparr>, ?s)"
    using trim
    by (simp add: sticky_compress_def Let_def sample_trimmer_def DEFAULT_LOW_WATERMARK_def
        sticky_remember_def sticky_insert_def sticky_touch_def od_touch_def od_del_def)
  have "fst (sticky_compress dig key ?ms 5500 0 1 1 ?s)
      = \<lparr>to_messages = [sample_user 20000], to_trimmed = False, to_reason = ''reused''\<rparr>"
    by (simp add: sticky_compress_def Let_def sample_trimmer_def sticky_reuse_def group_starts_Cons)
  with one t show ?thesis by simp
qed

end
