(* ===== verification/Reasoning.thy ===== *)
theory Reasoning
  imports ProviderBase
begin

text \<open>
  \<^verbatim>\<open>src/engine/reasoning.py\<close>: the reasoning effort of a request: the channel mapping of the
  configuration, the thresholds that translate a thinking budget, and the one-step downgrade after
  an upstream rejected a level. Error texts are lists of code points.
\<close>

definition DELETE_EFFORT :: string where "DELETE_EFFORT = ''none''"
definition WILDCARD_CHANNEL :: string where "WILDCARD_CHANNEL = ''*''"

type_synonym effort_map = "(string, (string, string) odict) odict"

section \<open>The channel mapping\<close>

text \<open>One \<^verbatim>\<open>key<sep>value\<close> entry with both sides stripped; \<open>None\<close> when broken.\<close>

definition entry_of :: "char \<Rightarrow> string \<Rightarrow> (string \<times> string) option" where
  "entry_of sep e =
     (let entry = py_strip e
      in if entry = [] \<or> sep \<notin> set entry then None
         else (let (source, _, tgt) = py_partition sep entry;
                   source = py_strip source; tgt = py_strip tgt
               in if source = [] \<or> tgt = [] then None else Some (source, tgt)))"

definition parse_entries :: "string \<Rightarrow> (string, string) odict" where
  "parse_entries raw =
     fold (\<lambda>e d. case entry_of CHR '':'' e of None \<Rightarrow> d | Some (s, t) \<Rightarrow> od_set s t d)
       (py_split CHR '','' raw) []"

definition channel_of_chunk :: "string \<Rightarrow> (string \<times> (string, string) odict) option" where
  "channel_of_chunk c =
     (let chunk = py_strip c
      in if chunk = [] \<or> CHR ''='' \<notin> set chunk then None
         else (let (channel, _, entries_raw) = py_partition CHR ''='' chunk;
                   channel = py_strip channel;
                   entries = parse_entries entries_raw
               in if channel = [] \<or> entries = [] then None else Some (channel, entries)))"

definition parse_effort_map :: "string \<Rightarrow> effort_map" where
  "parse_effort_map raw =
     fold (\<lambda>c d. case channel_of_chunk c of None \<Rightarrow> d | Some (ch, es) \<Rightarrow> od_set ch es d)
       (py_split CHR '';'' raw) []"

definition or_entries :: "(string, string) odict option \<Rightarrow> (string, string) odict option \<Rightarrow> (string, string) odict" where
  "or_entries a b = (case a of Some (x # xs) \<Rightarrow> x # xs | _ \<Rightarrow> (case b of Some d \<Rightarrow> d | None \<Rightarrow> []))"

definition map_effort :: "effort_map \<Rightarrow> string option \<Rightarrow> string \<Rightarrow> string option" where
  "map_effort mapping provider_id effort =
     (let entries = or_entries (od_get mapping (case provider_id of Some p \<Rightarrow> p | None \<Rightarrow> []))
                      (od_get mapping WILDCARD_CHANNEL)
      in if entries = [] then Some effort
         else (case od_get entries effort of
                 None \<Rightarrow> Some effort
               | Some tgt \<Rightarrow> if tgt = DELETE_EFFORT then None else Some tgt))"

section \<open>Thinking budgets\<close>

definition is_decimal :: "char \<Rightarrow> bool" where
  "is_decimal c \<longleftrightarrow> 48 \<le> (of_char c :: nat) \<and> (of_char c :: nat) \<le> 57"

text \<open>\<^verbatim>\<open>int(s)\<close>: digits with single underscores between them, an optional sign, outer space.\<close>

fun digits_value :: "string \<Rightarrow> int \<Rightarrow> bool \<Rightarrow> int option" where
  "digits_value [] acc after_digit = (if after_digit then Some acc else None)"
| "digits_value (c # cs) acc after_digit =
     (if is_decimal c then digits_value cs (acc * 10 + int (of_char c - 48)) True
      else if c = CHR ''_'' \<and> after_digit then digits_value cs acc False
      else None)"

definition py_int :: "string \<Rightarrow> int option" where
  "py_int s =
     (case py_strip s of
        [] \<Rightarrow> None
      | c # cs \<Rightarrow>
          if c = CHR ''-'' then map_option uminus (digits_value cs 0 False)
          else if c = CHR ''+'' then digits_value cs 0 False
          else digits_value (c # cs) 0 False)"

definition thinking_entry ::
    "string \<Rightarrow> string option \<times> (int, string) odict \<Rightarrow> string option \<times> (int, string) odict" where
  "thinking_entry e st =
     (case entry_of CHR '':'' e of
        None \<Rightarrow> st
      | Some (key, v) \<Rightarrow>
          if key = ''disabled'' then (Some v, snd st)
          else (case py_int key of
                  None \<Rightarrow> st
                | Some budget \<Rightarrow> (fst st, od_set budget v (snd st))))"

definition parse_thinking_efforts :: "string \<Rightarrow> string option \<times> (int \<times> string) list" where
  "parse_thinking_efforts raw =
     (let (disabled, thresholds) = fold thinking_entry (py_split CHR '','' raw) (None, [])
      in (disabled, sort_key (\<lambda>p. - fst p) thresholds))"

definition output_config_effort :: "json \<Rightarrow> string option" where
  "output_config_effort oc =
     (case oc of
        JObj d \<Rightarrow> (case j_nonempty_str (jget d ''effort'') of Some e \<Rightarrow> Some (py_lower e) | None \<Rightarrow> None)
      | _ \<Rightarrow> None)"

definition kept_effort :: "string \<Rightarrow> string option" where
  "kept_effort e = (if e = DELETE_EFFORT then None else Some e)"

definition thinking_effort :: "string \<Rightarrow> json \<Rightarrow> string option" where
  "thinking_effort raw thinking =
     (case thinking of
        JObj d \<Rightarrow>
          (let (disabled, thresholds) = parse_thinking_efforts raw
           in if thresholds = [] \<and> disabled = None then None
              else if jget d ''type'' = JStr ''disabled'' then
                (case disabled of None \<Rightarrow> None | Some e \<Rightarrow> kept_effort e)
              else if jget d ''type'' \<noteq> JStr ''enabled'' then None
              else (case jget d ''budget_tokens'' of
                      JInt budget \<Rightarrow>
                        (case find (\<lambda>(threshold, e). budget \<ge> threshold) thresholds of
                           None \<Rightarrow> None
                         | Some (_, e) \<Rightarrow> kept_effort e)
                    | _ \<Rightarrow> None))
      | _ \<Rightarrow> None)"

section \<open>Downgrade\<close>

definition EFFORT_ORDER :: "string list" where
  "EFFORT_ORDER = [''max'', ''xhigh'', ''high'', ''medium'', ''low'', ''minimal'']"

definition EFFORT_ALIASES :: "(string, string) odict" where
  "EFFORT_ALIASES = [(''ultra'', ''max'')]"

fun next_after :: "'a \<Rightarrow> 'a list \<Rightarrow> 'a option" where
  "next_after x (y # z # zs) = (if x = y then Some z else next_after x (z # zs))"
| "next_after x _ = None"

definition normal_effort :: "string \<Rightarrow> string" where
  "normal_effort e =
     (let n = py_lower (py_strip e) in case od_get EFFORT_ALIASES n of Some a \<Rightarrow> a | None \<Rightarrow> n)"

definition downgrade_effort :: "string \<Rightarrow> string option" where
  "downgrade_effort effort = next_after (normal_effort effort) EFFORT_ORDER"

text \<open>
  \<^verbatim>\<open>str.lower\<close> on code points, as far as the markers can tell: besides the Latin letters only
  the Kelvin sign and the dotted capital I have lower-case forms with ASCII letters.
\<close>

definition lower_code :: "nat \<Rightarrow> nat list" where
  "lower_code n =
     (if (65 \<le> n \<and> n \<le> 90) \<or> (192 \<le> n \<and> n \<le> 222 \<and> n \<noteq> 215) then [n + 32]
      else if n = 8490 then [107] else if n = 304 then [105, 775] else [n])"

definition EFFORT_REJECTION_MARKERS :: "nat list list" where
  "EFFORT_REJECTION_MARKERS = map codes [''reasoning_effort'', ''reasoning effort'', ''unsupported effort'',
       ''invalid effort'', ''effort level'', ''budget_tokens'', ''thinking budget'']
     @ [[24605, 32771, 24378, 24230], [25512, 29702, 24378, 24230],
        [24605, 32771, 26723, 20301], [25512, 29702, 26723, 20301]]"

definition is_effort_rejection :: "nat list option \<Rightarrow> bool" where
  "is_effort_rejection message =
     (case message of
        None \<Rightarrow> False
      | Some m \<Rightarrow> m \<noteq> [] \<and> list_ex (\<lambda>k. py_contains k (concat (map lower_code m))) EFFORT_REJECTION_MARKERS)"

section \<open>Properties\<close>

lemma find_sorted_desc:
  assumes "sorted (map (\<lambda>p. - fst p) l)" "find (\<lambda>(t, e). b \<ge> t) l = Some (t, e)"
  shows "(t, e) \<in> set l \<and> t \<le> b \<and> (\<forall>(t', e') \<in> set l. t' \<le> b \<longrightarrow> t' \<le> (t :: int))"
  using assms
proof (induction l)
  case Nil
  then show ?case by simp
next
  case (Cons p l)
  show ?case
  proof (cases "fst p \<le> b")
    case True
    with Cons.prems show ?thesis by (cases p) fastforce
  next
    case False
    with Cons show ?thesis by (cases p) auto
  qed
qed

lemma sorted_thresholds: "sorted (map (\<lambda>p. - fst p) (snd (parse_thinking_efforts raw)))"
  by (auto simp: parse_thinking_efforts_def split_beta)

text \<open>An enabled thinking budget is translated to the level of the largest configured threshold
  within the budget, or to none when the budget is below all thresholds or the level is the
  deletion mark; forms of the field that are not understood never select a level.\<close>

theorem thinking_effort_spec:
  "thinking_effort raw (JObj d) = Some e \<longrightarrow>
     (jget d ''type'' = JStr ''disabled'' \<and> fst (parse_thinking_efforts raw) = Some e \<and> e \<noteq> DELETE_EFFORT)
     \<or> (\<exists>b t. jget d ''type'' = JStr ''enabled'' \<and> jget d ''budget_tokens'' = JInt b
          \<and> (t, e) \<in> set (snd (parse_thinking_efforts raw)) \<and> t \<le> b \<and> e \<noteq> DELETE_EFFORT
          \<and> (\<forall>(t', e') \<in> set (snd (parse_thinking_efforts raw)). t' \<le> b \<longrightarrow> t' \<le> t))"
proof
  assume a: "thinking_effort raw (JObj d) = Some e"
  obtain disabled th where p: "parse_thinking_efforts raw = (disabled, th)" by fastforce
  have s: "sorted (map (\<lambda>p. - fst p) th)" using sorted_thresholds[of raw] by (simp add: p)
  consider "jget d ''type'' = JStr ''disabled''" | "jget d ''type'' = JStr ''enabled''"
    using a by (auto simp: thinking_effort_def p split: if_splits)
  then show "(jget d ''type'' = JStr ''disabled'' \<and> fst (parse_thinking_efforts raw) = Some e \<and> e \<noteq> DELETE_EFFORT)
     \<or> (\<exists>b t. jget d ''type'' = JStr ''enabled'' \<and> jget d ''budget_tokens'' = JInt b
          \<and> (t, e) \<in> set (snd (parse_thinking_efforts raw)) \<and> t \<le> b \<and> e \<noteq> DELETE_EFFORT
          \<and> (\<forall>(t', e') \<in> set (snd (parse_thinking_efforts raw)). t' \<le> b \<longrightarrow> t' \<le> t))"
  proof cases
    case 1
    with a show ?thesis
      by (auto simp: thinking_effort_def p kept_effort_def split: if_splits option.splits)
  next
    case 2
    then obtain b t where b: "jget d ''budget_tokens'' = JInt b"
      "find (\<lambda>(threshold, e). b \<ge> threshold) th = Some (t, e)" "e \<noteq> DELETE_EFFORT"
      using a by (auto simp: thinking_effort_def p kept_effort_def split: if_splits option.splits json.splits)
    from find_sorted_desc[OF s b(2)] 2 b(1,3) show ?thesis by (auto simp: p)
  qed
qed

theorem thinking_effort_spec_witness:
  "thinking_effort ''4096:low,32768:high'' (JObj [(''type'', JStr ''enabled''), (''budget_tokens'', JInt 9000)])
     = Some ''low''
   \<and> (\<exists>b. jget [(''type'', JStr ''enabled''), (''budget_tokens'', JInt 9000)] ''budget_tokens'' = JInt b)"
proof -
  have v: "thinking_effort ''4096:low,32768:high''
      (JObj [(''type'', JStr ''enabled''), (''budget_tokens'', JInt 9000)]) = Some ''low''"
    by code_simp
  show ?thesis
    using thinking_effort_spec[rule_format, OF v] v by (auto simp: jget_def)
qed

lemma downgrade_effort_steps:
  "downgrade_effort e = Some e' \<Longrightarrow> \<exists>i. Suc i < length EFFORT_ORDER \<and> normal_effort e = EFFORT_ORDER ! i
     \<and> e' = EFFORT_ORDER ! Suc i"
proof -
  have "next_after x xs = Some y \<Longrightarrow> \<exists>i. Suc i < length xs \<and> x = xs ! i \<and> y = xs ! Suc i" for x y :: string and xs
  proof (induction x xs rule: next_after.induct)
    case (1 x a b zs)
    show ?case
    proof (cases "x = a")
      case True
      with 1 show ?thesis by (intro exI[of _ 0]) simp
    next
      case False
      with 1 obtain i where "Suc i < length (b # zs) \<and> x = (b # zs) ! i \<and> y = (b # zs) ! Suc i" by auto
      then show ?thesis by (intro exI[of _ "Suc i"]) simp
    qed
  qed auto
  then show "downgrade_effort e = Some e' \<Longrightarrow> ?thesis" by (simp add: downgrade_effort_def)
qed

end
