(* ===== verification/ExecPolicy.thy ===== *)
theory ExecPolicy
  imports CredStore Inflight HalfOpen ModelResolver Affinity Reasoning
begin

text \<open>
  \<^verbatim>\<open>src/engine/executor.py\<close>, first half: the classification of upstream errors, the choice
  of a credential for an attempt, and the reactions to an error. The retry loops built from these
  pieces are in theory ExecLoop. Log output and the texts of error messages are left out. The
  state the executor shares between requests is the record \<open>engine\<close>; what it is assembled from
  (providers, catalogue, settings) is the record \<open>config\<close>; clock readings are arguments.
\<close>

section \<open>Errors and their classification\<close>

text \<open>
  The exception classes the executor tells apart. Class membership follows the Python hierarchy:
  \<open>ConnectError\<close> and \<open>ProxyError\<close> are transport errors of httpx, \<open>GaiError\<close> and \<open>SslError\<close> are not.
\<close>

datatype exn_class =
    ConnectError | ProxyError | GaiError | HttpxTransport | SslError | UpstreamTransport
  | UpstreamHttp | UpstreamStream | StreamTimeout string | OtherError

record exn =
  x_class :: exn_class
  x_cause :: "exn_class option"
  x_kind :: "err_kind option"
  x_retry_at :: "epoch option"
  x_retry_after :: "rat option"
  x_body :: "string option"
  x_detail :: "nat list option"

definition network_classes :: "exn_class list" where
  "network_classes = [ConnectError, ProxyError, GaiError]"

definition is_network_error :: "exn option \<Rightarrow> bool" where
  "is_network_error error =
     (case error of
        None \<Rightarrow> False
      | Some e \<Rightarrow> x_class e \<in> set network_classes
          \<or> (case x_cause e of Some c \<Rightarrow> c \<in> set network_classes | None \<Rightarrow> False))"

definition httpx_or_ssl :: "exn_class list" where
  "httpx_or_ssl = [ConnectError, ProxyError, HttpxTransport, SslError]"

definition is_transport_error :: "exn option \<Rightarrow> bool" where
  "is_transport_error error =
     (case error of None \<Rightarrow> False | Some e \<Rightarrow> x_class e = UpstreamTransport \<or> x_class e \<in> set httpx_or_ssl)"

text \<open>The result of the exception's own \<^verbatim>\<open>kind()\<close> method, when it has one.\<close>

definition kind_method :: "exn \<Rightarrow> err_kind option" where
  "kind_method e =
     (case x_class e of
        UpstreamTransport \<Rightarrow> Some SOFT
      | StreamTimeout _ \<Rightarrow> Some SOFT
      | UpstreamHttp \<Rightarrow> x_kind e
      | UpstreamStream \<Rightarrow> x_kind e
      | OtherError \<Rightarrow> x_kind e
      | _ \<Rightarrow> None)"

definition classify :: "exn \<Rightarrow> err_kind option" where
  "classify e =
     (if is_network_error (Some e) then Some NETWORK
      else case kind_method e of
             Some k \<Rightarrow> Some k
           | None \<Rightarrow> if x_class e \<in> set httpx_or_ssl then Some SOFT else None)"

definition dead_as_credit :: "bool \<Rightarrow> err_kind" where
  "dead_as_credit quota_exhausted = (if quota_exhausted then CREDIT else DEAD)"

definition error_type_for :: "err_kind \<Rightarrow> string" where
  "error_type_for kind =
     (if kind = NETWORK then ''network_error''
      else if kind \<in> {PLAN, CREDIT, MODEL, CONCURRENCY, QUEUE, SOFT} then ''rate_limit''
      else if kind = DEAD then ''credential_unavailable''
      else if kind = RESTRICTED then ''account_restricted''
      else if kind = BLOCKED then ''model_not_found''
      else if kind = CONTEXT then ''context_overflow''
      else if kind = CAPABILITY then ''model_capability''
      else if kind \<in> {INVALID, REQUEST} then ''invalid_request''
      else ''upstream_error'')"

definition failure_type :: "err_kind option \<Rightarrow> exn option \<Rightarrow> bool \<Rightarrow> string" where
  "failure_type kind error quota_exhausted =
     (if is_network_error error then ''network_error''
      else if is_transport_error error then ''upstream_timeout''
      else case kind of
             None \<Rightarrow> ''upstream_protocol''
           | Some k \<Rightarrow> error_type_for (if k = DEAD then dead_as_credit quota_exhausted else k))"

definition stream_error_type :: "exn option \<Rightarrow> bool \<Rightarrow> string" where
  "stream_error_type error quota_exhausted =
     (case error of
        Some e \<Rightarrow>
          (case x_class e of
             StreamTimeout phase \<Rightarrow> ''upstream_'' @ phase @ ''_timeout''
           | _ \<Rightarrow> failure_type (classify e) error quota_exhausted)
      | None \<Rightarrow> failure_type None None quota_exhausted)"

definition mk_exn :: "exn_class \<Rightarrow> exn" where
  "mk_exn c = \<lparr>x_class = c, x_cause = None, x_kind = None, x_retry_at = None, x_retry_after = None,
     x_body = None, x_detail = None\<rparr>"

text \<open>\<^verbatim>\<open>UpstreamStreamError(event)\<close>; it carries no restore time and no body.\<close>

definition stream_exn :: "event \<Rightarrow> exn" where
  "stream_exn ev = (mk_exn UpstreamStream)\<lparr>x_kind := Some (event_error_kind ev)\<rparr>"

definition is_data_event :: "event \<Rightarrow> bool" where
  "is_data_event ev =
     (case ev_kind ev of
        EvContent \<Rightarrow> ev_content ev \<notin> {None, Some []}
      | EvReasoning \<Rightarrow> ev_content ev \<notin> {None, Some []}
      | EvToolCalls \<Rightarrow> ev_tool_calls ev \<notin> {None, Some []}
      | EvUsage \<Rightarrow> ev_usage ev \<noteq> None
      | EvFinish \<Rightarrow> True
      | EvError \<Rightarrow> False)"

definition MODEL_PLACEHOLDERS :: "string list" where
  "MODEL_PLACEHOLDERS = [''auto'', ''default'', ''unknown'', ''none'']"

definition model_mismatch :: "string \<Rightarrow> string \<Rightarrow> bool" where
  "model_mismatch requested observed =
     (let left = py_lower (py_strip requested); right = py_lower (py_strip observed)
      in if left = [] \<or> right = [] \<or> left = right then False
         else if right \<in> set MODEL_PLACEHOLDERS then False
         else \<not> (py_startswith left right \<or> py_startswith right left))"

section \<open>Configuration and shared state\<close>

type_synonym alias_table = "(provider_id, (string, string) odict) odict"

record config =
  cf_providers :: "provider_id list"
  cf_scheduler :: scheduler
  cf_default_model :: string
  cf_aliases :: alias_table
  cf_catalogue :: "(provider_id, (string, rat option) odict) odict"
  cf_upstream_name :: "provider_id \<Rightarrow> model_name \<Rightarrow> model_name"
  cf_paid :: "(provider_id \<times> string \<Rightarrow> rat option) option"
  cf_normalize :: "string \<Rightarrow> string"
  cf_groups :: fallback_groups
  cf_limits :: "candidate \<Rightarrow> model_name \<Rightarrow> bool"
  cf_inflight :: "int option"
  cf_half_open :: bool
  cf_short_wait :: rat
  cf_effort_map :: string
  cf_hide_reasoning :: bool
  cf_max_events :: int
  cf_bad_tools :: "event list \<Rightarrow> bool"
  cf_disabled_reason :: "provider_id \<Rightarrow> string \<Rightarrow> string"
  cf_compress :: "provider_id \<Rightarrow> model_name \<Rightarrow> jobject \<Rightarrow> jobject"
  cf_remember :: "cred_id \<Rightarrow> seconds \<Rightarrow> affinity \<Rightarrow> affinity"

record usage_row =
  ur_provider :: provider_id
  ur_cred :: "cred_id option"
  ur_model :: model_name
  ur_ok :: bool
  ur_error :: "string option"

record engine =
  en_store :: store
  en_tracker :: tracker
  en_half :: half_open
  en_pending :: "cred_id \<rightharpoonup> probe_key"
  en_probe_leases :: "cred_id \<Rightarrow> probe_key list"
  en_hits :: "provider_id \<rightharpoonup> epoch \<times> cred_id set"
  en_quota_probes :: "cred_id \<rightharpoonup> seconds \<times> bool"
  en_affinity :: affinity
  en_rows :: "usage_row list"

record clock =
  ck_now :: epoch
  ck_mono :: seconds

definition RESTRICTED_BURST_WINDOW_SECONDS :: int where "RESTRICTED_BURST_WINDOW_SECONDS = 10 * 60"
definition RESTRICTED_BURST_CREDENTIALS :: nat where "RESTRICTED_BURST_CREDENTIALS = 2"
definition RESTRICTED_PROVIDER_PAUSE_SECONDS :: int where "RESTRICTED_PROVIDER_PAUSE_SECONDS = 24 * 3600"
definition DEAD_QUOTA_PROBE_TTL_SECONDS :: seconds where "DEAD_QUOTA_PROBE_TTL_SECONDS = 60"
definition QUEUE_MAX_WAIT_SECONDS :: rat where "QUEUE_MAX_WAIT_SECONDS = 60"
definition QUEUE_MAX_ROUNDS :: int where "QUEUE_MAX_ROUNDS = 3"

definition add_row :: "usage_row \<Rightarrow> engine \<Rightarrow> engine" where
  "add_row r s = s\<lparr>en_rows := en_rows s @ [r]\<rparr>"

section \<open>Target and candidate providers\<close>

text \<open>\<^verbatim>\<open>lower in aliases.get(pid, {})\<close>.\<close>

definition knows_model :: "config \<Rightarrow> provider_id \<Rightarrow> string \<Rightarrow> bool" where
  "knows_model cf p lower = (case od_get (cf_aliases cf) p of None \<Rightarrow> False | Some d \<Rightarrow> od_get d lower \<noteq> None)"

definition narrow_providers :: "config \<Rightarrow> model_target \<Rightarrow> provider_id list" where
  "narrow_providers cf t =
     (if mt_forced t \<or> cf_aliases cf = [] then mt_providers t
      else (let known = filter (\<lambda>p. p \<in> set (cf_providers cf) \<and> knows_model cf p (py_lower (mt_model t)))
                          (mt_providers t)
            in if known \<noteq> [] then known else mt_providers t))"

definition registered :: "config \<Rightarrow> model_target \<Rightarrow> provider_id list" where
  "registered cf t = filter (\<lambda>p. p \<in> set (cf_providers cf)) (narrow_providers cf t)"

definition apply_binding :: "config \<Rightarrow> model_target \<Rightarrow> provider_id option \<Rightarrow> string + model_target" where
  "apply_binding cf t binding =
     (case binding of
        None \<Rightarrow> Inr t
      | Some b \<Rightarrow>
          if b = [] then Inr t
          else if mt_forced t \<and> mt_providers t \<noteq> [b] then Inl ''InvalidRequest''
          else (let known = filter (\<lambda>p. knows_model cf p (py_lower (mt_model t))) (od_keys (cf_aliases cf))
                in if cf_aliases cf \<noteq> [] \<and> known \<noteq> [] \<and> b \<notin> set known then Inl ''InvalidRequest''
                   else Inr \<lparr>mt_model = mt_model t, mt_providers = [b], mt_forced = True\<rparr>))"

definition resolve_target :: "config \<Rightarrow> string option \<Rightarrow> provider_id option \<Rightarrow> string + model_target" where
  "resolve_target cf model binding =
     (case resolve model (cf_default_model cf) of
        Inl e \<Rightarrow> Inl e
      | Inr t \<Rightarrow> apply_binding cf t binding)"

definition fallback_allowed :: "config \<Rightarrow> model_target \<Rightarrow> bool" where
  "fallback_allowed cf t =
     (cf_aliases cf = [] \<or> list_ex (\<lambda>p. knows_model cf p (py_lower (mt_model t))) (mt_providers t))"

text \<open>The members of the chain: broken ones skipped, repeated ones (by lower-case name) dropped.\<close>

fun chain_members :: "model_target \<Rightarrow> model_name list \<Rightarrow> string set \<Rightarrow> model_target list" where
  "chain_members t [] seen = []"
| "chain_members t (name # names) seen =
     (case (if py_lower name = py_lower (mt_model t) then Inr t else resolve (Some name) name) of
        Inl _ \<Rightarrow> chain_members t names seen
      | Inr member \<Rightarrow>
          (let key = py_lower (mt_model member)
           in if key \<in> seen then chain_members t names seen
              else member # chain_members t names (insert key seen)))"

definition fallback_chain :: "config \<Rightarrow> model_target \<Rightarrow> model_target list" where
  "fallback_chain cf t =
     (if mt_forced t \<or> cf_groups cf = [] then [t]
      else (let chain = ordered_fallback_chain (mt_model t) (cf_groups cf);
                resolved = chain_members t chain {}
            in case resolved of
                 [] \<Rightarrow> [t]
               | head # rest \<Rightarrow>
                   if py_lower (mt_model head) = py_lower (mt_model t)
                   then head # filter (fallback_allowed cf) rest
                   else (case filter (fallback_allowed cf) (head # rest) of [] \<Rightarrow> [t] | ms \<Rightarrow> ms)))"

definition preflight :: "config \<Rightarrow> string option \<Rightarrow> provider_id option \<Rightarrow> string + model_target" where
  "preflight cf model binding =
     (case resolve_target cf model binding of
        Inl e \<Rightarrow> Inl e
      | Inr t \<Rightarrow> if list_ex (\<lambda>a. registered cf a \<noteq> []) (fallback_chain cf t) then Inr t
                  else Inl ''NoProviderForModel'')"

definition observed_paid_rate :: "config \<Rightarrow> provider_id \<Rightarrow> model_name \<Rightarrow> rat option \<Rightarrow> rat option" where
  "observed_paid_rate cf p model declared =
     (if declared \<noteq> Some 0 then declared
      else case cf_paid cf of
             None \<Rightarrow> declared
           | Some source \<Rightarrow> (case source (p, cf_normalize cf model) of Some r \<Rightarrow> Some r | None \<Rightarrow> declared))"

definition model_rate_of :: "config \<Rightarrow> model_target \<Rightarrow> provider_id \<Rightarrow> rat option option" where
  "model_rate_of cf t p =
     (case od_get (cf_aliases cf) p of
        None \<Rightarrow> None
      | Some d \<Rightarrow>
          (case od_get d (py_lower (mt_model t)) of
             None \<Rightarrow> None
           | Some raw \<Rightarrow>
               (case od_get (cf_catalogue cf) p of
                  None \<Rightarrow> None
                | Some models \<Rightarrow>
                    (case od_get models (py_lower raw) of
                       None \<Rightarrow> None
                     | Some rate \<Rightarrow>
                         Some (if rate = Some 0 then observed_paid_rate cf p (mt_model t) rate else rate)))))"

definition model_rates :: "config \<Rightarrow> model_target \<Rightarrow> provider_id \<Rightarrow> rat option option" where
  "model_rates cf t p =
     (if cf_aliases cf = [] \<or> cf_catalogue cf = [] then None
      else if p \<in> set (mt_providers t) then model_rate_of cf t p else None)"

section \<open>Choosing a credential\<close>

definition model_scope :: "config \<Rightarrow> provider_id \<Rightarrow> model_name \<Rightarrow> model_name" where
  "model_scope cf p model = cf_upstream_name cf p model"

definition inflight_blocked :: "config \<Rightarrow> cred_id \<Rightarrow> seconds \<Rightarrow> tracker \<Rightarrow> bool \<times> tracker" where
  "inflight_blocked cf c now s =
     (case cf_inflight cf of None \<Rightarrow> (False, s) | Some src \<Rightarrow> ig_blocked src c now s)"

fun filter_selectable ::
    "config \<Rightarrow> candidate list \<Rightarrow> model_target \<Rightarrow> clock \<Rightarrow> tracker \<Rightarrow> candidate list \<times> tracker" where
  "filter_selectable cf [] t ck s = ([], s)"
| "filter_selectable cf (c # cs) t ck s =
     (if \<not> is_selectable c (ck_now ck) (Some (model_scope cf (c_provider c) (mt_model t)))
         \<or> cf_limits cf c (mt_model t)
      then filter_selectable cf cs t ck s
      else (let (blocked, s1) = inflight_blocked cf (c_id c) (ck_mono ck) s;
                (rest, s2) = filter_selectable cf cs t ck s1
            in (if blocked then rest else c # rest, s2)))"

fun inject_inflight :: "candidate list \<Rightarrow> seconds \<Rightarrow> tracker \<Rightarrow> candidate list \<times> tracker" where
  "inject_inflight [] now s = ([], s)"
| "inject_inflight (c # cs) now s =
     (let (n, s1) = tr_count (c_id c) now s; (rest, s2) = inject_inflight cs now s1
      in (c\<lparr>c_inflight := int n\<rparr> # rest, s2))"

definition inject_rate :: "config \<Rightarrow> model_target \<Rightarrow> candidate \<Rightarrow> candidate" where
  "inject_rate cf t c =
     (case model_rates cf t (c_provider c) of Some r \<Rightarrow> c\<lparr>c_credit_rate := r\<rparr> | None \<Rightarrow> c)"

definition selectable :: "config \<Rightarrow> candidate list \<Rightarrow> model_target \<Rightarrow> clock \<Rightarrow> tracker \<Rightarrow> candidate list \<times> tracker" where
  "selectable cf candidates t ck s =
     (let (selected, s1) = filter_selectable cf candidates t ck s;
          (counted, s2) = (if cf_inflight cf = None then (selected, s1)
                           else inject_inflight selected (ck_mono ck) s1)
      in (map (inject_rate cf t) counted, s2))"

definition sticky :: "candidate list \<Rightarrow> cred_id set \<Rightarrow> cred_id option \<Rightarrow> epoch \<Rightarrow> cred_id option" where
  "sticky candidates tried affinity_id now =
     (case affinity_id of
        None \<Rightarrow> None
      | Some a \<Rightarrow>
          if a \<in> tried then None
          else if list_ex (\<lambda>c. c_pinned c \<and> c_id c \<notin> tried \<and> is_selectable c now None) candidates then None
          else (case find (\<lambda>c. c_id c = a) candidates of
                  None \<Rightarrow> None
                | Some m \<Rightarrow> if is_selectable m now None then Some a else None))"

definition half_open_key :: "config \<Rightarrow> candidate \<Rightarrow> model_target \<Rightarrow> epoch \<Rightarrow> probe_key option" where
  "half_open_key cf c t now =
     (case c_cooling_until c of
        Some u \<Rightarrow> if u \<le> now then Some (c_id c, [])
                  else (let scope = model_scope cf (c_provider c) (mt_model t)
                        in case model_cooling_until c (Some scope) of
                             Some mu \<Rightarrow> if mu \<le> now then Some (c_id c, scope) else None
                           | None \<Rightarrow> None)
      | None \<Rightarrow> (let scope = model_scope cf (c_provider c) (mt_model t)
                 in case model_cooling_until c (Some scope) of
                      Some mu \<Rightarrow> if mu \<le> now then Some (c_id c, scope) else None
                    | None \<Rightarrow> None))"

text \<open>
  The loop of \<^verbatim>\<open>_choose\<close>: every round that does not return drops the chosen candidate, so as
  many rounds as there are candidates are enough.
\<close>

definition first_choice ::
    "config \<Rightarrow> candidate list \<Rightarrow> cred_id set \<Rightarrow> cred_id option \<Rightarrow> epoch \<Rightarrow> cred_id option" where
  "first_choice cf usable tried affinity_id now =
     (case sticky usable tried affinity_id now of
        Some c \<Rightarrow> Some c
      | None \<Rightarrow> select (cf_scheduler cf) usable tried now)"

fun choose_cred ::
    "nat \<Rightarrow> config \<Rightarrow> candidate list \<Rightarrow> model_target \<Rightarrow> cred_id set \<Rightarrow> cred_id option \<Rightarrow> clock \<Rightarrow> engine
      \<Rightarrow> cred_id option \<times> engine" where
  "choose_cred 0 cf usable t tried affinity_id ck s = (None, s)"
| "choose_cred (Suc n) cf usable t tried affinity_id ck s =
     (if usable = [] then (None, s)
      else case first_choice cf usable tried affinity_id (ck_now ck) of
        None \<Rightarrow> (None, s)
      | Some cid \<Rightarrow>
          if \<not> cf_half_open cf then (Some cid, s)
          else (case find (\<lambda>c. c_id c = cid) usable of
                  None \<Rightarrow> (None, s)
                | Some c \<Rightarrow>
                    (case half_open_key cf c t (ck_now ck) of
                       None \<Rightarrow> (Some cid, s)
                     | Some key \<Rightarrow>
                         (let (recovered, h1) = ho_is_recovered (ck_mono ck) key (en_half s)
                          in if recovered then (Some cid, s\<lparr>en_half := h1\<rparr>)
                             else (let (got, h2) = ho_acquire (ck_mono ck) (ck_mono ck) key h1
                                   in if got then (Some cid, s\<lparr>en_half := h2,
                                                             en_pending := (en_pending s)(cid \<mapsto> key)\<rparr>)
                                      else choose_cred n cf (filter (\<lambda>d. c_id d \<noteq> cid) usable) t tried affinity_id ck
                                             (s\<lparr>en_half := h2\<rparr>))))))"

definition select_cred ::
    "config \<Rightarrow> model_target \<Rightarrow> cred_id set \<Rightarrow> cred_id option \<Rightarrow> clock \<Rightarrow> engine
      \<Rightarrow> (string + cred_id option) \<times> engine" where
  "select_cred cf t tried affinity_id ck s =
     (if registered cf t = [] then (Inl ''NoProviderForModel'', s)
      else
        (let (usable, tr) = selectable cf (cr_candidates (Some (set (registered cf t))) False (en_store s)) t ck
                              (en_tracker s);
             s1 = s\<lparr>en_tracker := tr\<rparr>
         in if usable = [] then (Inr None, s1)
            else (let (c, s2) = choose_cred (length usable) cf usable t tried affinity_id ck s1 in (Inr c, s2))))"

text \<open>A document that no longer decrypts is skipped like a deleted credential.\<close>

definition safe_credential_data :: "cred_id \<Rightarrow> store \<Rightarrow> json option" where
  "safe_credential_data cid s = (case cr_credential_data cid s of Inl _ \<Rightarrow> None | Inr d \<Rightarrow> d)"

definition drop_probe :: "cred_id \<Rightarrow> engine \<Rightarrow> engine" where
  "drop_probe cid s =
     (case en_pending s cid of
        None \<Rightarrow> s
      | Some key \<Rightarrow> s\<lparr>en_pending := (en_pending s)(cid := None), en_half := ho_release key (en_half s)\<rparr>)"

text \<open>The shortest remaining cooldown among the candidates that are only cooling down.\<close>

definition cooling_end :: "config \<Rightarrow> candidate \<Rightarrow> model_target \<Rightarrow> epoch option" where
  "cooling_end cf c t =
     (case model_cooling_until c (Some (model_scope cf (c_provider c) (mt_model t))) of
        None \<Rightarrow> c_cooling_until c
      | Some mu \<Rightarrow> Some (case c_cooling_until c of None \<Rightarrow> mu | Some u \<Rightarrow> max u mu))"

fun shortest_wait ::
    "config \<Rightarrow> candidate list \<Rightarrow> model_target \<Rightarrow> cred_id set \<Rightarrow> clock \<Rightarrow> tracker \<Rightarrow> int option
      \<Rightarrow> int option \<times> tracker" where
  "shortest_wait cf [] t tried ck s remaining = (remaining, s)"
| "shortest_wait cf (c # cs) t tried ck s remaining =
     (if c_id c \<in> tried \<or> c_disabled c \<or> \<not> c_enabled c \<or> cf_limits cf c (mt_model t)
      then shortest_wait cf cs t tried ck s remaining
      else
        (let (blocked, s1) = inflight_blocked cf (c_id c) (ck_mono ck) s
         in if blocked then shortest_wait cf cs t tried ck s1 remaining
            else (case cooling_end cf c t of
                    None \<Rightarrow> shortest_wait cf cs t tried ck s1 remaining
                  | Some u \<Rightarrow>
                      if u \<le> ck_now ck then shortest_wait cf cs t tried ck s1 remaining
                      else shortest_wait cf cs t tried ck s1
                             (Some (case remaining of
                                      None \<Rightarrow> u - ck_now ck
                                    | Some w \<Rightarrow> if u - ck_now ck < w then u - ck_now ck else w)))))"

definition wait_short_cooldown ::
    "config \<Rightarrow> model_target \<Rightarrow> cred_id set \<Rightarrow> clock \<Rightarrow> engine \<Rightarrow> int option \<times> engine" where
  "wait_short_cooldown cf t tried ck s =
     (if cf_short_wait cf \<le> 0 \<or> registered cf t = [] then (None, s)
      else
        (let (remaining, tr) = shortest_wait cf
               (cr_candidates (Some (set (registered cf t))) False (en_store s)) t tried ck (en_tracker s) None;
             s1 = s\<lparr>en_tracker := tr\<rparr>
         in case remaining of
              None \<Rightarrow> (None, s1)
            | Some w \<Rightarrow> if of_int w > cf_short_wait cf then (None, s1) else (Some w, s1)))"

text \<open>
  \<^verbatim>\<open>_pick\<close>. Its loop is split at the one permitted sleep: \<open>pick_now\<close> selects until a
  credential with a readable document is found or none is left (each round marks one more listed
  credential as tried, so one round more than there are rows is enough); \<open>pick\<close> adds the wait,
  during which the clock advances and \<open>others\<close> is what the rest of the process does to the shared
  state.
\<close>

definition advance :: "int \<Rightarrow> clock \<Rightarrow> clock" where
  "advance w ck = \<lparr>ck_now = ck_now ck + w, ck_mono = ck_mono ck + of_int w\<rparr>"

fun pick_now ::
    "nat \<Rightarrow> config \<Rightarrow> model_target \<Rightarrow> cred_id option \<Rightarrow> clock \<Rightarrow> cred_id set \<Rightarrow> engine
      \<Rightarrow> ((string + (cred_id \<times> json) option) \<times> cred_id set \<times> engine) option" where
  "pick_now 0 cf t affinity_id ck tried s = None"
| "pick_now (Suc n) cf t affinity_id ck tried s =
     (case select_cred cf t tried affinity_id ck s of
        (Inl e, s1) \<Rightarrow> Some (Inl e, tried, s1)
      | (Inr None, s1) \<Rightarrow> Some (Inr None, tried, s1)
      | (Inr (Some cid), s1) \<Rightarrow>
          (case safe_credential_data cid (en_store s1) of
             Some d \<Rightarrow> Some (Inr (Some (cid, d)), tried, s1)
           | None \<Rightarrow> pick_now n cf t affinity_id ck (insert cid tried) (drop_probe cid s1)))"

definition pick_rounds :: "engine \<Rightarrow> nat" where
  "pick_rounds s = Suc (length (st_rows (en_store s)))"

definition pick ::
    "config \<Rightarrow> model_target \<Rightarrow> (engine \<Rightarrow> engine) \<Rightarrow> cred_id option \<Rightarrow> clock \<Rightarrow> cred_id set \<Rightarrow> engine
      \<Rightarrow> ((string + (cred_id \<times> json) option) \<times> cred_id set \<times> clock \<times> engine) option" where
  "pick cf t others affinity_id ck tried s =
     (case pick_now (pick_rounds s) cf t affinity_id ck tried s of
        None \<Rightarrow> None
      | Some (Inr None, tried1, s1) \<Rightarrow>
          (case wait_short_cooldown cf t tried1 ck s1 of
             (None, s2) \<Rightarrow> Some (Inr None, tried1, ck, s2)
           | (Some w, s2) \<Rightarrow>
               (case pick_now (pick_rounds (others s2)) cf t affinity_id (advance w ck) tried1 (others s2) of
                  None \<Rightarrow> None
                | Some (r, tried2, s3) \<Rightarrow> Some (r, tried2, advance w ck, s3)))
      | Some (r, tried1, s1) \<Rightarrow> Some (r, tried1, ck, s1))"

section \<open>Quota evidence\<close>

text \<open>
  The answer of \<^verbatim>\<open>provider.probe_quota\<close>: the provider has no such method, it raised, or it
  returned a quota. \<open>pe_during\<close> is what the rest of the process does while the probe is awaited
  and \<open>pe_done\<close> the clock reading after it.
\<close>

datatype probe_answer = NoProbe | ProbeRaised | ProbeQuota quota

record probe_env =
  pe_answer :: probe_answer
  pe_during :: "engine \<Rightarrow> engine"
  pe_done :: seconds

definition candidate_or_none :: "cred_id \<Rightarrow> provider_id \<Rightarrow> store \<Rightarrow> candidate" where
  "candidate_or_none cid p s =
     (case find (\<lambda>c. c_id c = cid) (cr_candidates None False s) of
        Some c \<Rightarrow> c
      | None \<Rightarrow> mk_candidate cid p)"

definition quota_exhausted :: "cred_id \<Rightarrow> provider_id \<Rightarrow> store \<Rightarrow> bool" where
  "quota_exhausted cid p s =
     (let c = candidate_or_none cid p s
      in if c_health c = Some EXHAUSTED then True
         else (case c_quota_remaining c of Some r \<Rightarrow> r \<le> 0 | None \<Rightarrow> False))"

definition probe_quota_uncached :: "probe_env \<Rightarrow> cred_id \<Rightarrow> provider_id \<Rightarrow> engine \<Rightarrow> bool \<times> engine" where
  "probe_quota_uncached pe cid p s =
     (case pe_answer pe of
        NoProbe \<Rightarrow> (False, s)
      | answer \<Rightarrow>
          if safe_credential_data cid (en_store s) = None then (False, s)
          else (let s1 = pe_during pe s
                in case answer of
                     ProbeQuota q \<Rightarrow>
                       (let s2 = (if q_probe_failed q then s1
                                  else s1\<lparr>en_store := cr_save_quota cid q (en_store s1)\<rparr>)
                        in (quota_exhausted cid p (en_store s2), s2))
                   | _ \<Rightarrow> (False, s1)))"

definition probe_quota_now :: "probe_env \<Rightarrow> clock \<Rightarrow> cred_id \<Rightarrow> provider_id \<Rightarrow> engine \<Rightarrow> bool \<times> engine" where
  "probe_quota_now pe ck cid p s =
     (let probe = (let (exhausted, s1) = probe_quota_uncached pe cid p s
                   in (exhausted, s1\<lparr>en_quota_probes := (en_quota_probes s1)(cid \<mapsto> (pe_done pe, exhausted))\<rparr>))
      in case en_quota_probes s cid of
           Some (done_at, exhausted) \<Rightarrow>
             if ck_mono ck - done_at < DEAD_QUOTA_PROBE_TTL_SECONDS then (exhausted, s) else probe
         | None \<Rightarrow> probe)"

definition credit_if_exhausted ::
    "probe_env \<Rightarrow> clock \<Rightarrow> err_kind option \<Rightarrow> cred_id \<Rightarrow> provider_id \<Rightarrow> engine \<Rightarrow> err_kind option \<times> engine" where
  "credit_if_exhausted pe ck kind cid p s =
     (if kind \<noteq> Some DEAD then (kind, s)
      else if quota_exhausted cid p (en_store s) then (Some CREDIT, s)
      else (let (exhausted, s1) = probe_quota_now pe ck cid p s in (Some (dead_as_credit exhausted), s1)))"

section \<open>Leases and probes of a request\<close>

definition lease :: "config \<Rightarrow> clock \<Rightarrow> cred_id \<Rightarrow> engine \<Rightarrow> engine" where
  "lease cf ck cid s =
     (let s1 = (if cf_inflight cf = None then s
                else s\<lparr>en_tracker := ig_acquire cid (ck_mono ck) (en_tracker s)\<rparr>)
      in case en_pending s1 cid of
           None \<Rightarrow> s1
         | Some key \<Rightarrow> s1\<lparr>en_pending := (en_pending s1)(cid := None),
                          en_probe_leases := (en_probe_leases s1)(cid := en_probe_leases s1 cid @ [key])\<rparr>)"

definition release :: "config \<Rightarrow> cred_id \<Rightarrow> engine \<Rightarrow> engine" where
  "release cf cid s =
     (let s1 = (if cf_inflight cf = None then s else s\<lparr>en_tracker := ig_release cid (en_tracker s)\<rparr>);
          keys = en_probe_leases s1 cid
      in if keys = [] then s1
         else s1\<lparr>en_half := ho_release (last keys) (en_half s1),
                 en_probe_leases := (en_probe_leases s1)(cid := butlast keys)\<rparr>)"

definition confirm_probe :: "clock \<Rightarrow> cred_id option \<Rightarrow> engine \<Rightarrow> engine" where
  "confirm_probe ck cid s =
     (case cid of
        None \<Rightarrow> s
      | Some c \<Rightarrow> if en_probe_leases s c = [] then s
                  else s\<lparr>en_half := ho_confirm (ck_mono ck) (last (en_probe_leases s c)) (en_half s)\<rparr>)"

section \<open>Reactions to an upstream error\<close>

text \<open>Only an exception with a \<^verbatim>\<open>body\<close> is shown to the provider's recogniser.\<close>

definition disabled_reason :: "config \<Rightarrow> provider_id \<Rightarrow> exn option \<Rightarrow> string" where
  "disabled_reason cf p error =
     (case error of
        Some e \<Rightarrow> (case x_body e of Some b \<Rightarrow> cf_disabled_reason cf p b | None \<Rightarrow> [])
      | None \<Rightarrow> [])"

definition pause_provider_on_burst :: "clock \<Rightarrow> provider_id \<Rightarrow> cred_id \<Rightarrow> engine \<Rightarrow> engine" where
  "pause_provider_on_burst ck p cid s =
     (let now = ck_now ck;
          (start, hit) = (case en_hits s p of Some w \<Rightarrow> w | None \<Rightarrow> (now, {}));
          (start, hit) = (if now - start > RESTRICTED_BURST_WINDOW_SECONDS then (now, {}) else (start, hit));
          hit = insert cid hit;
          s1 = s\<lparr>en_hits := (en_hits s)(p \<mapsto> (start, hit))\<rparr>
      in if card hit < RESTRICTED_BURST_CREDENTIALS then s1
         else s1\<lparr>en_store := snd (cr_cool_provider p (now + RESTRICTED_PROVIDER_PAUSE_SECONDS) (en_store s1))\<rparr>)"

definition error_row :: "provider_id \<Rightarrow> cred_id option \<Rightarrow> model_name \<Rightarrow> string \<Rightarrow> usage_row" where
  "error_row p cid model etype =
     \<lparr>ur_provider = p, ur_cred = cid, ur_model = model, ur_ok = False, ur_error = Some etype\<rparr>"

definition note_upstream_error ::
    "config \<Rightarrow> clock \<Rightarrow> cred_id \<Rightarrow> err_kind \<Rightarrow> provider_id \<Rightarrow> model_name \<Rightarrow> exn option \<Rightarrow> engine \<Rightarrow> bool \<times> engine" where
  "note_upstream_error cf ck cid kind p model error s =
     (if kind \<in> set NO_PENALTY_KINDS then (False, s)
      else
        (let scope = model_scope cf p model;
             s1 = (if cf_half_open cf \<and> kind \<noteq> QUEUE
                   then s\<lparr>en_half := ho_reset cid scope (ho_reset cid [] (en_half s))\<rparr> else s);
             outcome = note_error (cf_scheduler cf) (candidate_or_none cid p (en_store s1)) kind (ck_now ck)
                         (Some scope) (case error of Some e \<Rightarrow> x_retry_at e | None \<Rightarrow> None);
             outcome = (if kind = DEAD then outcome\<lparr>eo_disabled_reason := disabled_reason cf p error\<rparr>
                        else outcome);
             s2 = s1\<lparr>en_store := cr_save_error cid outcome (en_store s1)\<rparr>;
             s3 = (if kind = RESTRICTED then pause_provider_on_burst ck p cid s2 else s2)
         in if kind \<notin> {DEAD, RESTRICTED} then (False, s3)
            else (True, add_row (error_row p (Some cid) model (error_type_for kind)) s3)))"

definition record_invalid :: "provider_id \<Rightarrow> cred_id \<Rightarrow> model_name \<Rightarrow> err_kind \<Rightarrow> engine \<Rightarrow> engine" where
  "record_invalid p cid model kind s = add_row (error_row p (Some cid) model (error_type_for kind)) s"

definition skip_provider :: "provider_id \<Rightarrow> store \<Rightarrow> cred_id set \<Rightarrow> cred_id set" where
  "skip_provider p s tried = tried \<union> c_id ` set (cr_candidates (Some {p}) False s)"

definition handle_restricted ::
    "config \<Rightarrow> clock \<Rightarrow> provider_id \<Rightarrow> cred_id \<Rightarrow> model_name \<Rightarrow> exn \<Rightarrow> bool \<Rightarrow> cred_id set \<Rightarrow> engine
      \<Rightarrow> bool \<times> cred_id set \<times> engine" where
  "handle_restricted cf ck p cid model error attributed tried s =
     (let tried1 = skip_provider p (en_store s) tried;
          (noted, s1) = note_upstream_error cf ck cid RESTRICTED p model (Some error) s
      in (noted \<or> attributed, tried1, s1))"

definition queue_wait :: "rat option \<Rightarrow> bool \<Rightarrow> int \<Rightarrow> rat option" where
  "queue_wait retry_after emitted rounds =
     (if emitted \<or> rounds \<ge> QUEUE_MAX_ROUNDS then None
      else (let wait = (case retry_after of None \<Rightarrow> QUEUE_DEFAULT_WAIT_SECONDS | Some r \<Rightarrow> r)
            in Some (min (max wait 0) QUEUE_MAX_WAIT_SECONDS)))"

record queue_restart =
  qr_wait :: rat
  qr_rounds :: int
  qr_attempts :: int
  qr_pinned :: "cred_id \<times> json"

definition plan_queue_restart ::
    "rat option \<Rightarrow> bool \<Rightarrow> int \<Rightarrow> int \<Rightarrow> cred_id \<Rightarrow> json \<Rightarrow> queue_restart option" where
  "plan_queue_restart retry_after emitted rounds attempts cid d =
     (case queue_wait retry_after emitted rounds of
        None \<Rightarrow> None
      | Some w \<Rightarrow> Some \<lparr>qr_wait = w, qr_rounds = rounds + 1, qr_attempts = attempts - 1, qr_pinned = (cid, d)\<rparr>)"

section \<open>When the pool is exhausted\<close>

definition model_cooled_only :: "config \<Rightarrow> provider_id list \<Rightarrow> model_target \<Rightarrow> epoch \<Rightarrow> store \<Rightarrow> bool" where
  "model_cooled_only cf providers t now s =
     (let cs = cr_candidates (Some (set providers)) False s
      in cs \<noteq> [] \<and>
         list_all (\<lambda>c. \<not> is_selectable c now (Some (model_scope cf (c_provider c) (mt_model t)))
                       \<and> is_selectable c now None) cs)"

definition all_model_cooled :: "config \<Rightarrow> model_target \<Rightarrow> epoch \<Rightarrow> store \<Rightarrow> bool" where
  "all_model_cooled cf t now s = model_cooled_only cf (registered cf t) t now s"

definition exhaust_error_type ::
    "config \<Rightarrow> model_target \<Rightarrow> err_kind option \<Rightarrow> exn option \<Rightarrow> epoch \<Rightarrow> store \<Rightarrow> string" where
  "exhaust_error_type cf t last_kind last_error now s =
     (if all_model_cooled cf t now s then ''model_unavailable''
      else case last_kind of
             None \<Rightarrow> ''no_healthy_credential''
           | Some k \<Rightarrow> failure_type (Some k) last_error False)"

definition attribution_provider :: "config \<Rightarrow> model_target \<Rightarrow> provider_id \<Rightarrow> provider_id" where
  "attribution_provider cf t observed = (if observed \<noteq> ''-'' then observed else hd (registered cf t))"

section \<open>The reasoning effort of the outgoing payload\<close>

definition payload_effort :: "jobject \<Rightarrow> string option" where
  "payload_effort payload =
     (case jget payload ''reasoning_effort'' of JStr e \<Rightarrow> (if e = [] then None else Some e) | _ \<Rightarrow> None)"

definition map_payload_effort :: "config \<Rightarrow> provider_id \<Rightarrow> jobject \<Rightarrow> jobject" where
  "map_payload_effort cf p payload =
     (if cf_effort_map cf = [] then payload
      else case payload_effort payload of
             None \<Rightarrow> payload
           | Some effort \<Rightarrow>
               (case map_effort (parse_effort_map (cf_effort_map cf)) (Some p) effort of
                  None \<Rightarrow> od_del ''reasoning_effort'' payload
                | Some mapped \<Rightarrow> if mapped = effort then payload
                                 else od_set ''reasoning_effort'' (JStr mapped) payload))"

definition clamp_effort :: "string option \<Rightarrow> jobject \<Rightarrow> jobject" where
  "clamp_effort cap payload =
     (case cap of
        None \<Rightarrow> payload
      | Some c \<Rightarrow>
          (case payload_effort payload of
             None \<Rightarrow> payload
           | Some effort \<Rightarrow> if effort = c then payload else od_set ''reasoning_effort'' (JStr c) payload))"

definition downgrade_payload :: "jobject \<Rightarrow> nat list option \<Rightarrow> bool \<Rightarrow> string option" where
  "downgrade_payload payload message already =
     (if already then None
      else case payload_effort payload of
             None \<Rightarrow> None
           | Some effort \<Rightarrow> if is_effort_rejection message then downgrade_effort effort else None)"

definition outgoing :: "config \<Rightarrow> provider_id \<Rightarrow> model_name \<Rightarrow> string option \<Rightarrow> jobject \<Rightarrow> jobject" where
  "outgoing cf p model cap raw = clamp_effort cap (map_payload_effort cf p (cf_compress cf p model raw))"

section \<open>Success\<close>

definition finish_success ::
    "config \<Rightarrow> clock \<Rightarrow> provider_id \<Rightarrow> cred_id \<Rightarrow> model_name \<Rightarrow> bool \<Rightarrow> engine \<Rightarrow> engine" where
  "finish_success cf ck p cid model truncated s =
     (let s1 = s\<lparr>en_store := cr_save_success cid (Some (model_scope cf p model)) (en_store s)\<rparr>;
          s2 = confirm_probe ck (Some cid) s1;
          s3 = s2\<lparr>en_affinity := cf_remember cf cid (ck_mono ck) (en_affinity s2)\<rparr>
      in add_row \<lparr>ur_provider = p, ur_cred = Some cid, ur_model = model, ur_ok = \<not> truncated,
                  ur_error = (if truncated then Some ''truncated_stream'' else None)\<rparr> s3)"

end
