(* ===== verification/ExecLoop.thy ===== *)
theory ExecLoop
  imports ExecPolicy
begin

text \<open>
  \<^verbatim>\<open>src/engine/executor.py\<close>, second half: the streaming loop \<^verbatim>\<open>_stream_loop\<close>, the
  non-streaming loop \<^verbatim>\<open>_complete_model\<close>, and the fallback chains \<^verbatim>\<open>stream\<close> and
  \<^verbatim>\<open>complete\<close>. Everything a loop awaits is an input: one \<open>attempt_input\<close> per round, with the
  clock readings, what the upstream stream delivered and how it ended, and what the rest of the
  process did to the shared state at each suspension. A loop is a structural recursion over the
  list of these inputs; \<open>None\<close> means that the list was too short.
\<close>

section \<open>Inputs and state\<close>

datatype stream_end = EndNormal | EndRaised exn | EndTimeout | EndDisconnect bool

record attempt_input =
  ai_clock :: clock
  ai_wait :: "engine \<Rightarrow> engine"
  ai_events :: "event list"
  ai_end :: stream_end
  ai_during :: "engine \<Rightarrow> engine"
  ai_seen :: clock
  ai_probe :: probe_env
  ai_sleep :: "engine \<Rightarrow> engine"

text \<open>
  The local variables of the loop; \<open>lp_emitted\<close>, \<open>lp_saw_finish\<close>, \<open>lp_sink\<close> and \<open>lp_frames\<close>
  belong to the streaming loop only. \<open>lp_sink\<close> is the translator's own state. Each frame handed to
  the client is kept together with the credential it came from.
\<close>

record ('x, 'f) loop =
  lp_tried :: "cred_id set"
  lp_attempts :: int
  lp_last_error :: "exn option"
  lp_last_kind :: "err_kind option"
  lp_attributed :: bool
  lp_emitted :: bool
  lp_queue_rounds :: int
  lp_pinned :: "(cred_id \<times> json) option"
  lp_cap :: "string option"
  lp_retried :: bool
  lp_provider :: provider_id
  lp_cred :: "cred_id option"
  lp_saw_finish :: bool
  lp_sink :: 'x
  lp_frames :: "(cred_id \<times> 'f) list"

definition loop0 :: "'x \<Rightarrow> ('x, 'f) loop" where
  "loop0 x = \<lparr>lp_tried = {}, lp_attempts = 0, lp_last_error = None, lp_last_kind = None,
     lp_attributed = False, lp_emitted = False, lp_queue_rounds = 0, lp_pinned = None, lp_cap = None,
     lp_retried = False, lp_provider = ''-'', lp_cred = None, lp_saw_finish = False, lp_sink = x,
     lp_frames = []\<rparr>"

text \<open>
  The translator of the outgoing protocol (\<^verbatim>\<open>StreamSink\<close>), a parameter: the frames of one
  event, or the exception it raises, the frames that close the response, and its attributes
  \<^verbatim>\<open>usage\<close> (only whether it is set) and \<^verbatim>\<open>done_sent\<close>.
\<close>

record ('x, 'f) sink =
  sk_translate :: "'x \<Rightarrow> event \<Rightarrow> exn + 'f list \<times> 'x"
  sk_finish :: "'x \<Rightarrow> exn + 'f list \<times> 'x"
  sk_usage_known :: "'x \<Rightarrow> bool"
  sk_done_sent :: "'x \<Rightarrow> bool"

text \<open>What the loops need of one attempt.\<close>

record attempt =
  at_target :: model_target
  at_provider :: provider_id
  at_cred :: cred_id
  at_data :: json
  at_payload :: jobject

text \<open>How the body of one round ends: with another round at once, by falling through to the wait
  and the rotation check, or with an exception the loop does not handle.\<close>

datatype flow = Continue | Fall "rat option" | Escape exn

section \<open>Reactions shared by the branches\<close>

definition restart_loop :: "queue_restart \<Rightarrow> ('x, 'f) loop \<Rightarrow> ('x, 'f) loop" where
  "restart_loop plan l =
     l\<lparr>lp_queue_rounds := qr_rounds plan, lp_attempts := qr_attempts plan, lp_pinned := Some (qr_pinned plan)\<rparr>"

definition plan_for :: "attempt \<Rightarrow> rat option \<Rightarrow> ('x, 'f) loop \<Rightarrow> queue_restart option" where
  "plan_for a retry_after l =
     plan_queue_restart retry_after (lp_emitted l) (lp_queue_rounds l) (lp_attempts l) (at_cred a) (at_data a)"

definition lower_effort :: "attempt \<Rightarrow> nat list option \<Rightarrow> ('x, 'f) loop \<Rightarrow> string option" where
  "lower_effort a message l =
     (if lp_emitted l then None else downgrade_payload (at_payload a) message (lp_retried l))"

definition retry_lower :: "attempt \<Rightarrow> string \<Rightarrow> ('x, 'f) loop \<Rightarrow> ('x, 'f) loop" where
  "retry_lower a lower l = l\<lparr>lp_cap := Some lower, lp_retried := True, lp_pinned := Some (at_cred a, at_data a)\<rparr>"

text \<open>The upstream rejects the request: account for it, skip the whole upstream.\<close>

definition reject :: "attempt \<Rightarrow> err_kind \<Rightarrow> exn \<Rightarrow> ('x, 'f) loop \<Rightarrow> engine \<Rightarrow> ('x, 'f) loop \<times> engine" where
  "reject a kind e l s =
     (l\<lparr>lp_last_error := Some e, lp_last_kind := Some kind,
        lp_tried := skip_provider (at_provider a) (en_store s) (lp_tried l)\<rparr>,
      record_invalid (at_provider a) (at_cred a) (mt_model (at_target a)) kind s)"

definition restrict ::
    "config \<Rightarrow> clock \<Rightarrow> attempt \<Rightarrow> exn \<Rightarrow> ('x, 'f) loop \<Rightarrow> engine \<Rightarrow> ('x, 'f) loop \<times> engine" where
  "restrict cf ck a e l s =
     (let (attributed, tried, s1) = handle_restricted cf ck (at_provider a) (at_cred a) (mt_model (at_target a))
             e (lp_attributed l) (lp_tried l) s
      in (l\<lparr>lp_attributed := attributed, lp_tried := tried, lp_last_error := Some e,
           lp_last_kind := Some RESTRICTED\<rparr>, s1))"

text \<open>\<^verbatim>\<open>attributed = self._note_upstream_error(...) or attributed\<close>.\<close>

definition note_attempt ::
    "config \<Rightarrow> clock \<Rightarrow> attempt \<Rightarrow> err_kind \<Rightarrow> exn option \<Rightarrow> ('x, 'f) loop \<Rightarrow> engine \<Rightarrow> ('x, 'f) loop \<times> engine" where
  "note_attempt cf ck a kind e l s =
     (let (noted, s1) = note_upstream_error cf ck (at_cred a) kind (at_provider a) (mt_model (at_target a)) e s
      in (l\<lparr>lp_attributed := noted \<or> lp_attributed l\<rparr>, s1))"

section \<open>The body of one streaming round\<close>

text \<open>
  An ERROR event inside the stream. The generic branch (last case) stores the error but, unlike
  the other branches, not its class.
\<close>

definition stream_error_event ::
    "config \<Rightarrow> clock \<Rightarrow> probe_env \<Rightarrow> attempt \<Rightarrow> event \<Rightarrow> ('x, 'f) loop \<Rightarrow> engine
      \<Rightarrow> rat option \<times> ('x, 'f) loop \<times> engine" where
  "stream_error_event cf ck pe a ev l s =
     (let (kind_opt, s1) = credit_if_exhausted pe ck (Some (event_error_kind ev)) (at_cred a) (at_provider a) s;
          kind = the kind_opt;
          plan = (if kind = QUEUE then plan_for a (ev_retry_after ev) l else None)
      in case plan of
           Some p \<Rightarrow> (Some (qr_wait p), restart_loop p l, s1)
         | None \<Rightarrow>
             (let kind = (if kind = QUEUE then SOFT else kind)
              in if kind \<in> set REJECT_KINDS then
                   (case lower_effort a (map_option codes (ev_error_message ev)) l of
                      Some lower \<Rightarrow> (None, retry_lower a lower l, s1)
                    | None \<Rightarrow> (let (l1, s2) = reject a kind (stream_exn ev) l s1 in (None, l1, s2)))
                 else if kind = RESTRICTED then
                   (let (l1, s2) = restrict cf ck a (stream_exn ev) l s1 in (None, l1, s2))
                 else
                   (let (l1, s2) = note_attempt cf ck a kind (Some (stream_exn ev)) l s1
                    in (None, l1\<lparr>lp_last_error := Some (stream_exn ev)\<rparr>, s2))))"

text \<open>How the reading of the stream stopped: exhausted, broken off by an ERROR event (with a wait
  when it queued), or by an exception of the translator.\<close>

datatype reading = Consumed | Broken "rat option" | Thrown exn

definition put_frames :: "attempt \<Rightarrow> 'f list \<Rightarrow> ('x, 'f) loop \<Rightarrow> ('x, 'f) loop" where
  "put_frames a frames l =
     l\<lparr>lp_emitted := lp_emitted l \<or> frames \<noteq> [], lp_frames := lp_frames l @ map (Pair (at_cred a)) frames\<rparr>"

fun stream_events ::
    "config \<Rightarrow> ('x, 'f) sink \<Rightarrow> clock \<Rightarrow> probe_env \<Rightarrow> attempt \<Rightarrow> event list \<Rightarrow> ('x, 'f) loop \<Rightarrow> engine
      \<Rightarrow> reading \<times> ('x, 'f) loop \<times> engine" where
  "stream_events cf sk ck pe a [] l s = (Consumed, l, s)"
| "stream_events cf sk ck pe a (ev # evs) l s =
     (if cf_hide_reasoning cf \<and> ev_kind ev = EvReasoning then stream_events cf sk ck pe a evs l s
      else if ev_kind ev = EvError then
        (let (w, l1, s1) = stream_error_event cf ck pe a ev l s in (Broken w, l1, s1))
      else
        (let l1 = (if ev_kind ev = EvFinish then l\<lparr>lp_saw_finish := True\<rparr> else l)
         in case sk_translate sk (lp_sink l1) ev of
              Inl e \<Rightarrow> (Thrown e, l1, s)
            | Inr (frames, x) \<Rightarrow>
                stream_events cf sk ck pe a evs (put_frames a frames (l1\<lparr>lp_sink := x\<rparr>)) s))"

text \<open>The \<^verbatim>\<open>except Exception\<close> branch.\<close>

definition stream_exception ::
    "config \<Rightarrow> clock \<Rightarrow> probe_env \<Rightarrow> attempt \<Rightarrow> exn \<Rightarrow> ('x, 'f) loop \<Rightarrow> engine
      \<Rightarrow> flow \<times> ('x, 'f) loop \<times> engine" where
  "stream_exception cf ck pe a e l s =
     (let (kind_opt, s1) = credit_if_exhausted pe ck (classify e) (at_cred a) (at_provider a) s
      in case kind_opt of
           None \<Rightarrow> (Escape e, l, s1)
         | Some kind \<Rightarrow>
             if kind = QUEUE then
               (case plan_for a (x_retry_after e) l of
                  Some p \<Rightarrow> (Fall (Some (qr_wait p)), restart_loop p l, s1)
                | None \<Rightarrow>
                    (let (_, s2) = note_attempt cf ck a SOFT (Some e) l s1
                     in (Fall None, l\<lparr>lp_last_error := Some e, lp_last_kind := Some SOFT\<rparr>, s2)))
             else if kind \<in> set REJECT_KINDS then
               (case lower_effort a (x_detail e) l of
                  Some lower \<Rightarrow> (Continue, retry_lower a lower l, s1)
                | None \<Rightarrow> (let (l1, s2) = reject a kind e l s1 in (Fall None, l1, s2)))
             else if kind = RESTRICTED then
               (let (l1, s2) = restrict cf ck a e l s1 in (Fall None, l1, s2))
             else
               (let (l1, s2) = note_attempt cf ck a kind (Some e) l s1
                in (Fall None, l1\<lparr>lp_last_error := Some e, lp_last_kind := Some kind\<rparr>, s2)))"

text \<open>\<open>None\<close> as flow: the response is complete.\<close>

definition stream_success ::
    "config \<Rightarrow> ('x, 'f) sink \<Rightarrow> clock \<Rightarrow> probe_env \<Rightarrow> attempt \<Rightarrow> ('x, 'f) loop \<Rightarrow> engine
      \<Rightarrow> flow option \<times> ('x, 'f) loop \<times> engine" where
  "stream_success cf sk ck pe a l s =
     (let s1 = finish_success cf ck (at_provider a) (at_cred a) (mt_model (at_target a)) (\<not> lp_saw_finish l) s
      in case sk_finish sk (lp_sink l) of
           Inr (frames, x) \<Rightarrow> (None, put_frames a frames (l\<lparr>lp_sink := x\<rparr>), s1)
         | Inl e \<Rightarrow> (let (f, l2, s2) = stream_exception cf ck pe a e l s1 in (Some f, l2, s2)))"

definition timeout_phase :: "('x, 'f) loop \<Rightarrow> string" where
  "timeout_phase l = (if lp_emitted l then ''idle'' else ''first_event'')"

datatype body_end = Done | Disconnected bool | Flow flow

definition stream_body ::
    "config \<Rightarrow> ('x, 'f) sink \<Rightarrow> attempt_input \<Rightarrow> attempt \<Rightarrow> ('x, 'f) loop \<Rightarrow> engine
      \<Rightarrow> body_end \<times> ('x, 'f) loop \<times> engine" where
  "stream_body cf sk ai a l s =
     (let ck = ai_seen ai; pe = ai_probe ai;
          raised = (\<lambda>e l s. let (f, l2, s2) = stream_exception cf ck pe a e l s in (Flow f, l2, s2))
      in case stream_events cf sk ck pe a (ai_events ai) (l\<lparr>lp_saw_finish := False\<rparr>) s of
           (Broken w, l1, s1) \<Rightarrow> (Flow (Fall w), l1, s1)
         | (Thrown e, l1, s1) \<Rightarrow> raised e l1 s1
         | (Consumed, l1, s1) \<Rightarrow>
             (case ai_end ai of
                EndNormal \<Rightarrow>
                  (case stream_success cf sk ck pe a l1 s1 of
                     (None, l2, s2) \<Rightarrow> (Done, l2, s2)
                   | (Some f, l2, s2) \<Rightarrow> (Flow f, l2, s2))
              | EndRaised e \<Rightarrow> raised e l1 s1
              | EndTimeout \<Rightarrow> raised (mk_exn (StreamTimeout (timeout_phase l1))) l1 s1
              | EndDisconnect y \<Rightarrow> (Disconnected y, l1, s1)))"

section \<open>Acquiring the credential of a round\<close>

text \<open>
  The top of the loop: the pinned credential while it is still readable, otherwise a pick, which
  is charged to the rotation budget. The result also has the clock at which the lease is taken.
\<close>

definition pinned_ready :: "('x, 'f) loop \<Rightarrow> store \<Rightarrow> (cred_id \<times> json) option" where
  "pinned_ready l s =
     (case lp_pinned l of
        Some (cid, d) \<Rightarrow> if safe_credential_data cid s \<noteq> None then Some (cid, d) else None
      | None \<Rightarrow> None)"

definition obtain_cred ::
    "config \<Rightarrow> model_target \<Rightarrow> cred_id option \<Rightarrow> attempt_input \<Rightarrow> ('x, 'f) loop \<Rightarrow> engine
      \<Rightarrow> ((string + (cred_id \<times> json) option) \<times> ('x, 'f) loop \<times> clock \<times> engine) option" where
  "obtain_cred cf t affinity_id ai l s =
     (let l0 = l\<lparr>lp_pinned := None\<rparr>
      in case pinned_ready l (en_store s) of
           Some p \<Rightarrow> Some (Inr (Some p), l0, ai_clock ai, s)
         | None \<Rightarrow>
             (case pick cf t (ai_wait ai) affinity_id (ai_clock ai) (lp_tried l) s of
                None \<Rightarrow> None
              | Some (Inr (Some (c, d)), tried, ck, s1) \<Rightarrow>
                  Some (Inr (Some (c, d)),
                        l0\<lparr>lp_tried := insert c tried, lp_attempts := lp_attempts l + 1\<rparr>, ck, s1)
              | Some (r, tried, ck, s1) \<Rightarrow> Some (r, l0\<lparr>lp_tried := tried\<rparr>, ck, s1)))"

text \<open>The provider of the credential; a missing row makes the lookup of the client fail.\<close>

definition start_attempt ::
    "config \<Rightarrow> model_target \<Rightarrow> jobject \<Rightarrow> cred_id \<times> json \<Rightarrow> ('x, 'f) loop \<Rightarrow> engine \<Rightarrow> attempt option \<times> ('x, 'f) loop"
  where
  "start_attempt cf t raw cd l s =
     (let cid = fst cd; d = snd cd; p = cr_provider_of cid (en_store s);
          l1 = l\<lparr>lp_provider := (case p of Some q \<Rightarrow> (if q = [] then ''-'' else q) | None \<Rightarrow> ''-''), lp_cred := Some cid\<rparr>
      in case p of
           None \<Rightarrow> (None, l1)
         | Some q \<Rightarrow>
             if q \<in> set (cf_providers cf)
             then (Some \<lparr>at_target = t, at_provider = q, at_cred = cid, at_data = d,
                         at_payload = outgoing cf q (mt_model t) (lp_cap l) raw\<rparr>, l1)
             else (None, l1))"

section \<open>The streaming loop\<close>

text \<open>
  How a request of one model ends: a complete response; an error frame after output; exhausted
  before any output, with the error code for the next model of the chain (or the client); a
  disconnected client; or an exception that leaves the loop.
\<close>

datatype outcome =
    OkDone | ErrorFrame string | Exhausted string | ClientGone | NoProvider | Raised exn | MissingProvider

definition exhausted_pick ::
    "config \<Rightarrow> model_target \<Rightarrow> epoch \<Rightarrow> ('x, 'f) loop \<Rightarrow> engine \<Rightarrow> outcome \<times> engine" where
  "exhausted_pick cf t now l s =
     (if (case lp_last_kind l of Some k \<Rightarrow> k \<in> set REJECT_KINDS | None \<Rightarrow> False)
      then (Exhausted ''invalid_request'', s)
      else
        (Exhausted ''no_healthy_credential'',
         if lp_attributed l then s
         else add_row (error_row (attribution_provider cf t (lp_provider l)) (lp_cred l) (mt_model t)
                (exhaust_error_type cf t (lp_last_kind l) (lp_last_error l) now (en_store s))) s))"

definition terminal_outcome :: "('x, 'f) loop \<Rightarrow> string \<Rightarrow> outcome" where
  "terminal_outcome l code = (if lp_emitted l then ErrorFrame code else Exhausted code)"

definition is_stream_timeout :: "exn option \<Rightarrow> bool" where
  "is_stream_timeout e = (case e of Some x \<Rightarrow> (case x_class x of StreamTimeout _ \<Rightarrow> True | _ \<Rightarrow> False) | None \<Rightarrow> False)"

definition stream_stop :: "attempt \<Rightarrow> ('x, 'f) loop \<Rightarrow> engine \<Rightarrow> outcome \<times> engine" where
  "stream_stop a l s =
     (if (case lp_last_kind l of Some k \<Rightarrow> k \<in> set REJECT_KINDS | None \<Rightarrow> False)
      then (terminal_outcome l ''invalid_request'', s)
      else
        (if is_stream_timeout (lp_last_error l) then ErrorFrame ''no_healthy_credential''
         else terminal_outcome l ''no_healthy_credential'',
         if lp_emitted l \<or> \<not> lp_attributed l
         then add_row (error_row (at_provider a) (Some (at_cred a)) (mt_model (at_target a))
                (stream_error_type (lp_last_error l) (quota_exhausted (at_cred a) (at_provider a) (en_store s)))) s
         else s))"

definition rotates :: "config \<Rightarrow> ('x, 'f) loop \<Rightarrow> bool" where
  "rotates cf l = (should_rotate (cf_scheduler cf) (lp_attempts l) \<and> \<not> lp_emitted l)"

text \<open>
  The accounting of a client that went away (\<^verbatim>\<open>stream\<close>, the \<^verbatim>\<open>GeneratorExit\<close> branch): a
  response whose last frame was sent counts as a success. At a \<^verbatim>\<open>yield\<close> (argument \<open>True\<close> of
  \<open>EndDisconnect\<close>) it runs before the lease is released; on a cancelled await, after.
\<close>

definition account_gone ::
    "config \<Rightarrow> ('x, 'f) sink \<Rightarrow> clock \<Rightarrow> model_name \<Rightarrow> ('x, 'f) loop \<Rightarrow> engine \<Rightarrow> engine" where
  "account_gone cf sk ck model l s =
     (if \<not> sk_usage_known sk (lp_sink l) \<and> lp_frames l = [] then s
      else if sk_done_sent sk (lp_sink l) then
        (let s1 = (case lp_cred l of
                     None \<Rightarrow> s
                   | Some c \<Rightarrow> confirm_probe ck (Some c) (s\<lparr>en_store := cr_save_success c None (en_store s)\<rparr>))
         in add_row \<lparr>ur_provider = lp_provider l,
                     ur_cred = Some (case lp_cred l of Some c \<Rightarrow> (if c = [] then ''-'' else c) | None \<Rightarrow> ''-''),
                     ur_model = model, ur_ok = lp_saw_finish l,
                     ur_error = (if lp_saw_finish l then None else Some ''truncated_stream'')\<rparr> s1)
      else add_row (error_row (lp_provider l) (lp_cred l) model ''client_disconnect'') s)"

text \<open>After the body: release the lease, then wait, stop or go round again (\<open>Inr\<close>).\<close>

definition stream_after ::
    "config \<Rightarrow> ('x, 'f) sink \<Rightarrow> attempt_input \<Rightarrow> attempt \<Rightarrow> body_end \<Rightarrow> ('x, 'f) loop \<Rightarrow> engine
      \<Rightarrow> (outcome \<times> engine) + engine" where
  "stream_after cf sk ai a r l s =
     (let s1 = release cf (at_cred a) s;
          gone = account_gone cf sk (ai_seen ai) (mt_model (at_target a)) l
      in case r of
           Done \<Rightarrow> Inl (OkDone, s1)
         | Disconnected at_yield \<Rightarrow> Inl (ClientGone, if at_yield then release cf (at_cred a) (gone s) else gone s1)
         | Flow Continue \<Rightarrow> Inr s1
         | Flow (Escape e) \<Rightarrow> Inl (Raised e, s1)
         | Flow (Fall (Some w)) \<Rightarrow> Inr (ai_sleep ai s1)
         | Flow (Fall None) \<Rightarrow> if rotates cf l then Inr s1 else Inl (stream_stop a l s1))"

definition stream_round ::
    "config \<Rightarrow> ('x, 'f) sink \<Rightarrow> model_target \<Rightarrow> jobject \<Rightarrow> cred_id option \<Rightarrow> attempt_input
      \<Rightarrow> ('x, 'f) loop \<Rightarrow> engine \<Rightarrow> (((outcome \<times> engine) + engine) \<times> ('x, 'f) loop) option" where
  "stream_round cf sk t raw affinity_id ai l s =
     (case obtain_cred cf t affinity_id ai l s of
        None \<Rightarrow> None
      | Some (Inl e, l1, ck, s1) \<Rightarrow> Some (Inl (NoProvider, s1), l1)
      | Some (Inr None, l1, ck, s1) \<Rightarrow> Some (Inl (exhausted_pick cf t (ck_now ck) l1 s1), l1)
      | Some (Inr (Some cd), l1, ck, s1) \<Rightarrow>
          (case start_attempt cf t raw cd l1 s1 of
             (None, l2) \<Rightarrow> Some (Inl (MissingProvider, s1), l2)
           | (Some a, l2) \<Rightarrow>
               (let (r, l3, s3) = stream_body cf sk ai a l2 (ai_during ai (lease cf ck (at_cred a) s1))
                in Some (stream_after cf sk ai a r l3 s3, l3))))"

fun stream_loop ::
    "config \<Rightarrow> ('x, 'f) sink \<Rightarrow> model_target \<Rightarrow> jobject \<Rightarrow> cred_id option \<Rightarrow> attempt_input list
      \<Rightarrow> ('x, 'f) loop \<Rightarrow> engine \<Rightarrow> (outcome \<times> ('x, 'f) loop \<times> engine) option" where
  "stream_loop cf sk t raw affinity_id [] l s = None"
| "stream_loop cf sk t raw affinity_id (ai # ais) l s =
     (case stream_round cf sk t raw affinity_id ai l s of
        None \<Rightarrow> None
      | Some (Inl (out, s1), l1) \<Rightarrow> Some (out, l1, s1)
      | Some (Inr s1, l1) \<Rightarrow> stream_loop cf sk t raw affinity_id ais l1 s1)"

section \<open>The non-streaming loop\<close>

text \<open>
  Reading the whole stream: queueing events are caught before they enter the list, and the list
  is bounded. The events are kept in the order received.
\<close>

datatype collecting = Collected "event list" | Overflow | Queued queue_restart

fun collect_events :: "config \<Rightarrow> attempt \<Rightarrow> event list \<Rightarrow> event list \<Rightarrow> ('x, 'f) loop \<Rightarrow> collecting" where
  "collect_events cf a [] acc l = Collected acc"
| "collect_events cf a (ev # evs) acc l =
     (if cf_hide_reasoning cf \<and> ev_kind ev = EvReasoning then collect_events cf a evs acc l
      else
        (let queueing = ev_kind ev = EvError \<and> event_error_kind ev = QUEUE;
             plan = (if queueing then plan_for a (ev_retry_after ev) l else None)
         in case plan of
              Some p \<Rightarrow> Queued p
            | None \<Rightarrow>
                (let acc1 = acc @ [if queueing then ev\<lparr>ev_error_kind := Some SOFT\<rparr> else ev]
                 in if cf_max_events cf > 0 \<and> int (length acc1) > cf_max_events cf then Overflow
                    else collect_events cf a evs acc1 l)))"

text \<open>
  \<^verbatim>\<open>aggregate(events, model)\<close> as far as the loop depends on it: the first ERROR event raises,
  damaged tool arguments raise an exception the loop does not handle.
\<close>

datatype aggregated = AggError event | AggBadTools | AggOk

definition aggregate_end :: "config \<Rightarrow> event list \<Rightarrow> aggregated" where
  "aggregate_end cf evs =
     (case find (\<lambda>ev. ev_kind ev = EvError) evs of
        Some ev \<Rightarrow> AggError ev
      | None \<Rightarrow> if cf_bad_tools cf evs then AggBadTools else AggOk)"

text \<open>The branches for \<^verbatim>\<open>TimeoutError\<close> and \<^verbatim>\<open>_AggregateOverflow\<close>; they store an unclassified
  error and leave the last class as it is.\<close>

definition complete_transient ::
    "config \<Rightarrow> clock \<Rightarrow> attempt \<Rightarrow> ('x, 'f) loop \<Rightarrow> engine \<Rightarrow> flow \<times> ('x, 'f) loop \<times> engine" where
  "complete_transient cf ck a l s =
     (let (_, s1) = note_attempt cf ck a SOFT None l s
      in (Fall None, l\<lparr>lp_last_error := Some (stream_exn (mk_event EvError))\<rparr>, s1))"

text \<open>An ERROR event found by the aggregation.\<close>

definition complete_error_event ::
    "config \<Rightarrow> clock \<Rightarrow> probe_env \<Rightarrow> attempt \<Rightarrow> event \<Rightarrow> ('x, 'f) loop \<Rightarrow> engine
      \<Rightarrow> flow \<times> ('x, 'f) loop \<times> engine" where
  "complete_error_event cf ck pe a ev l s =
     (let (kind_opt, s1) = credit_if_exhausted pe ck (Some (event_error_kind ev)) (at_cred a) (at_provider a) s;
          kind = the kind_opt
      in if kind \<in> set REJECT_KINDS then
           (case lower_effort a (map_option codes (ev_error_message ev)) l of
              Some lower \<Rightarrow> (Continue, retry_lower a lower l, s1)
            | None \<Rightarrow> (let (l1, s2) = reject a kind (stream_exn ev) l s1 in (Fall None, l1, s2)))
         else if kind = RESTRICTED then
           (let (l1, s2) = restrict cf ck a (stream_exn ev) l s1 in (Fall None, l1, s2))
         else
           (let (l1, s2) = note_attempt cf ck a kind (Some (stream_exn ev)) l s1
            in (Fall None, l1\<lparr>lp_last_error := Some (stream_exn ev), lp_last_kind := Some kind\<rparr>, s2)))"

definition complete_body ::
    "config \<Rightarrow> attempt_input \<Rightarrow> attempt \<Rightarrow> ('x, 'f) loop \<Rightarrow> engine \<Rightarrow> body_end \<times> ('x, 'f) loop \<times> engine" where
  "complete_body cf ai a l s =
     (let ck = ai_seen ai; pe = ai_probe ai;
          flowing = (\<lambda>(f, l2, s2). (Flow f, l2, s2))
      in case collect_events cf a (ai_events ai) [] l of
           Queued p \<Rightarrow> (Flow (Fall (Some (qr_wait p))), restart_loop p l, s)
         | Overflow \<Rightarrow> flowing (complete_transient cf ck a l s)
         | Collected evs \<Rightarrow>
             (case ai_end ai of
                EndRaised e \<Rightarrow> flowing (stream_exception cf ck pe a e l s)
              | EndTimeout \<Rightarrow> flowing (complete_transient cf ck a l s)
              | EndDisconnect y \<Rightarrow> (Disconnected y, l, s)
              | EndNormal \<Rightarrow>
                  (case aggregate_end cf evs of
                     AggError ev \<Rightarrow> flowing (complete_error_event cf ck pe a ev l s)
                   | AggBadTools \<Rightarrow> (Flow (Escape (mk_exn OtherError)), l, s)
                   | AggOk \<Rightarrow>
                       (Done, l, finish_success cf ck (at_provider a) (at_cred a) (mt_model (at_target a)) False s))))"

definition complete_stop ::
    "config \<Rightarrow> attempt_input \<Rightarrow> attempt \<Rightarrow> ('x, 'f) loop \<Rightarrow> engine \<Rightarrow> outcome \<times> engine" where
  "complete_stop cf ai a l s =
     (if (case lp_last_kind l of Some k \<Rightarrow> k \<in> set REJECT_KINDS | None \<Rightarrow> False)
      then (Exhausted ''invalid_request'', s)
      else
        (let (kind, s1) = (case lp_last_error l of
                 Some e \<Rightarrow> credit_if_exhausted (ai_probe ai) (ai_seen ai) (classify e) (at_cred a) (at_provider a) s
               | None \<Rightarrow> (None, s))
         in (Exhausted ''no_healthy_credential'',
             if lp_attributed l then s1
             else add_row (error_row (at_provider a) (Some (at_cred a)) (mt_model (at_target a))
                    (failure_type kind (lp_last_error l) False)) s1)))"

definition complete_after ::
    "config \<Rightarrow> attempt_input \<Rightarrow> attempt \<Rightarrow> body_end \<Rightarrow> ('x, 'f) loop \<Rightarrow> engine
      \<Rightarrow> (outcome \<times> engine) + engine" where
  "complete_after cf ai a r l s =
     (let s1 = release cf (at_cred a) s
      in case r of
           Done \<Rightarrow> Inl (OkDone, s1)
         | Disconnected _ \<Rightarrow> Inl (ClientGone, s1)
         | Flow Continue \<Rightarrow> Inr s1
         | Flow (Escape e) \<Rightarrow> Inl (Raised e, s1)
         | Flow (Fall (Some w)) \<Rightarrow> Inr (ai_sleep ai s1)
         | Flow (Fall None) \<Rightarrow>
             if should_rotate (cf_scheduler cf) (lp_attempts l) then Inr s1
             else Inl (complete_stop cf ai a l s1))"

definition complete_round ::
    "config \<Rightarrow> model_target \<Rightarrow> jobject \<Rightarrow> cred_id option \<Rightarrow> attempt_input
      \<Rightarrow> ('x, 'f) loop \<Rightarrow> engine \<Rightarrow> (((outcome \<times> engine) + engine) \<times> ('x, 'f) loop) option" where
  "complete_round cf t raw affinity_id ai l s =
     (case obtain_cred cf t affinity_id ai l s of
        None \<Rightarrow> None
      | Some (Inl e, l1, ck, s1) \<Rightarrow> Some (Inl (NoProvider, s1), l1)
      | Some (Inr None, l1, ck, s1) \<Rightarrow> Some (Inl (exhausted_pick cf t (ck_now ck) l1 s1), l1)
      | Some (Inr (Some cd), l1, ck, s1) \<Rightarrow>
          (case start_attempt cf t raw cd l1 s1 of
             (None, l2) \<Rightarrow> Some (Inl (MissingProvider, s1), l2)
           | (Some a, l2) \<Rightarrow>
               (let (r, l3, s3) = complete_body cf ai a l2 (ai_during ai (lease cf ck (at_cred a) s1))
                in Some (complete_after cf ai a r l3 s3, l3))))"

fun complete_model ::
    "config \<Rightarrow> model_target \<Rightarrow> jobject \<Rightarrow> cred_id option \<Rightarrow> attempt_input list
      \<Rightarrow> ('x, 'f) loop \<Rightarrow> engine \<Rightarrow> (outcome \<times> ('x, 'f) loop \<times> engine) option" where
  "complete_model cf t raw affinity_id [] l s = None"
| "complete_model cf t raw affinity_id (ai # ais) l s =
     (case complete_round cf t raw affinity_id ai l s of
        None \<Rightarrow> None
      | Some (Inl (out, s1), l1) \<Rightarrow> Some (out, l1, s1)
      | Some (Inr s1, l1) \<Rightarrow> complete_model cf t raw affinity_id ais l1 s1)"

section \<open>The fallback chain\<close>

text \<open>
  The loops start afresh for each model of the chain; provider, credential and the frames already
  sent belong to the request (\<^verbatim>\<open>_StreamState\<close>). \<open>fresh\<close> is the translator's initial state for
  a model. Only an exhausted model moves on to the next one.
\<close>

definition with_model :: "model_name \<Rightarrow> jobject \<Rightarrow> jobject" where
  "with_model model raw = od_set ''model'' (JStr model) raw"

definition next_loop :: "'x \<Rightarrow> ('x, 'f) loop \<Rightarrow> ('x, 'f) loop" where
  "next_loop x l = (loop0 x)\<lparr>lp_provider := lp_provider l, lp_cred := lp_cred l,
                              lp_saw_finish := lp_saw_finish l, lp_frames := lp_frames l\<rparr>"

fun stream_chain ::
    "config \<Rightarrow> ('x, 'f) sink \<Rightarrow> (model_name \<Rightarrow> 'x) \<Rightarrow> jobject \<Rightarrow> cred_id option \<Rightarrow> model_target list
      \<Rightarrow> attempt_input list list \<Rightarrow> string \<Rightarrow> ('x, 'f) loop \<Rightarrow> engine \<Rightarrow> (outcome \<times> ('x, 'f) loop \<times> engine) option"
  where
  "stream_chain cf sk fresh raw affinity_id [] inputs code l s = Some (ErrorFrame code, l, s)"
| "stream_chain cf sk fresh raw affinity_id (t # ts) [] code l s = None"
| "stream_chain cf sk fresh raw affinity_id (t # ts) (ais # inputs) code l s =
     (case stream_loop cf sk t (with_model (mt_model t) raw) affinity_id ais (next_loop (fresh (mt_model t)) l) s of
        None \<Rightarrow> None
      | Some (Exhausted code1, l1, s1) \<Rightarrow> stream_chain cf sk fresh raw affinity_id ts inputs code1 l1 s1
      | Some r \<Rightarrow> Some r)"

definition stream_request ::
    "config \<Rightarrow> ('x, 'f) sink \<Rightarrow> (model_name \<Rightarrow> 'x) \<Rightarrow> jobject \<Rightarrow> cred_id option \<Rightarrow> model_target
      \<Rightarrow> attempt_input list list \<Rightarrow> engine \<Rightarrow> (outcome \<times> ('x, 'f) loop \<times> engine) option" where
  "stream_request cf sk fresh raw affinity_id t inputs s =
     stream_chain cf sk fresh raw affinity_id (fallback_chain cf t) inputs [] (loop0 (fresh (mt_model t))) s"

fun complete_chain ::
    "config \<Rightarrow> jobject \<Rightarrow> cred_id option \<Rightarrow> model_target list \<Rightarrow> attempt_input list list \<Rightarrow> string \<Rightarrow> engine
      \<Rightarrow> (outcome \<times> engine) option" where
  "complete_chain cf raw affinity_id [] inputs code s = Some (Exhausted code, s)"
| "complete_chain cf raw affinity_id (t # ts) [] code s = None"
| "complete_chain cf raw affinity_id (t # ts) (ais # inputs) code s =
     (case complete_model cf t (with_model (mt_model t) raw) affinity_id ais (loop0 () :: (unit, unit) loop) s of
        None \<Rightarrow> None
      | Some (Exhausted code1, _, s1) \<Rightarrow> complete_chain cf raw affinity_id ts inputs code1 s1
      | Some (out, _, s1) \<Rightarrow> Some (out, s1))"

definition complete_request ::
    "config \<Rightarrow> jobject \<Rightarrow> cred_id option \<Rightarrow> model_target \<Rightarrow> attempt_input list list \<Rightarrow> engine
      \<Rightarrow> (outcome \<times> engine) option" where
  "complete_request cf raw affinity_id t inputs s =
     complete_chain cf raw affinity_id (fallback_chain cf t) inputs [] s"

end
