(* ===== verification/ExecPick.thy ===== *)
theory ExecPick
  imports ExecPolicy
begin

text \<open>
  What the choice of a credential in theory ExecPolicy promises: a chosen credential may be used, a
  usable one is found, the half-open probe admits one request, the loop of \<^verbatim>\<open>_pick\<close> ends, and
  the binding of an API key and the fallback chain confine the upstreams a request can reach.
\<close>

section \<open>The filter before the scheduler\<close>

text \<open>The guard reads and prunes one tracker; at one moment the pruning is invisible.\<close>

definition same_leases :: "seconds \<Rightarrow> tracker \<Rightarrow> tracker \<Rightarrow> bool" where
  "same_leases now s s' \<longleftrightarrow> tr_ok s' \<and> (\<forall>c. live_at s' now c = live_at s now c)"

lemma same_leases_refl: "tr_ok s \<Longrightarrow> same_leases now s s"
  by (simp add: same_leases_def)

lemma same_leases_trans: "same_leases now s s1 \<Longrightarrow> same_leases now s1 s2 \<Longrightarrow> same_leases now s s2"
  by (simp add: same_leases_def)

lemma same_leases_live: "tr_ok s \<Longrightarrow> same_leases now s (snd (tr_live c now s))"
  by (simp add: same_leases_def tr_ok_live live_at_prune)

definition over_limit :: "config \<Rightarrow> seconds \<Rightarrow> tracker \<Rightarrow> cred_id \<Rightarrow> bool" where
  "over_limit cf now s c =
     (case cf_inflight cf of None \<Rightarrow> False | Some src \<Rightarrow> 0 < src \<and> src \<le> int (length (live_at s now c)))"

lemma over_limit_cong: "same_leases now s s' \<Longrightarrow> over_limit cf now s' c = over_limit cf now s c"
  by (simp add: over_limit_def same_leases_def split: option.split)

lemma inflight_blocked_spec:
  assumes "tr_ok s"
  shows "fst (inflight_blocked cf c now s) = over_limit cf now s c
    \<and> same_leases now s (snd (inflight_blocked cf c now s))"
  using assms same_leases_live[OF assms, of now c]
  by (auto simp: inflight_blocked_def over_limit_def ig_blocked_def ig_limit_def Let_def split_beta
      tr_count_eq snd_tr_count same_leases_refl split: option.splits)

definition admissible :: "config \<Rightarrow> model_target \<Rightarrow> clock \<Rightarrow> tracker \<Rightarrow> candidate \<Rightarrow> bool" where
  "admissible cf t ck s c \<longleftrightarrow>
     is_selectable c (ck_now ck) (Some (model_scope cf (c_provider c) (mt_model t)))
     \<and> \<not> cf_limits cf c (mt_model t) \<and> \<not> over_limit cf (ck_mono ck) s (c_id c)"

lemma filter_selectable_spec:
  "tr_ok s \<Longrightarrow> fst (filter_selectable cf cs t ck s) = filter (admissible cf t ck s) cs
    \<and> same_leases (ck_mono ck) s (snd (filter_selectable cf cs t ck s))"
proof (induction cs arbitrary: s)
  case Nil
  then show ?case by (simp add: same_leases_refl)
next
  case (Cons c cs)
  let ?s1 = "snd (inflight_blocked cf (c_id c) (ck_mono ck) s)"
  note b = inflight_blocked_spec[OF Cons.prems, of cf "c_id c" "ck_mono ck"]
  have ok: "tr_ok ?s1" using b by (simp add: same_leases_def)
  have eq: "admissible cf t ck ?s1 = admissible cf t ck s"
    by (simp add: fun_eq_iff admissible_def over_limit_cong[OF conjunct2[OF b]])
  from Cons.IH[OF ok] Cons.IH[OF Cons.prems] b eq show ?case
    by (auto simp: split_beta Let_def admissible_def intro: same_leases_trans)
qed

definition with_load :: "config \<Rightarrow> seconds \<Rightarrow> tracker \<Rightarrow> candidate \<Rightarrow> candidate" where
  "with_load cf now s c = (if cf_inflight cf = None then c else c\<lparr>c_inflight := int (length (live_at s now (c_id c)))\<rparr>)"

lemma inject_inflight_spec:
  "tr_ok s \<Longrightarrow> fst (inject_inflight cs now s) = map (\<lambda>c. c\<lparr>c_inflight := int (length (live_at s now (c_id c)))\<rparr>) cs
    \<and> same_leases now s (snd (inject_inflight cs now s))"
proof (induction cs arbitrary: s)
  case Nil
  then show ?case by (simp add: same_leases_refl)
next
  case (Cons c cs)
  note l = same_leases_live[OF Cons.prems, of now "c_id c"]
  from Cons.IH[of "snd (tr_live (c_id c) now s)"] l show ?case
    by (auto simp: split_beta Let_def tr_count_eq snd_tr_count same_leases_def)
qed

lemma selectable_spec:
  assumes "tr_ok s"
  shows "fst (selectable cf cs t ck s)
      = map (inject_rate cf t \<circ> with_load cf (ck_mono ck) s) (filter (admissible cf t ck s) cs)
    \<and> same_leases (ck_mono ck) s (snd (selectable cf cs t ck s))"
proof -
  let ?s1 = "snd (filter_selectable cf cs t ck s)"
  note f = filter_selectable_spec[OF assms, of cf cs t ck]
  then have ok: "tr_ok ?s1" by (simp add: same_leases_def)
  note i = inject_inflight_spec[OF ok, of "fst (filter_selectable cf cs t ck s)" "ck_mono ck"]
  from f i show ?thesis
    by (auto simp: selectable_def split_beta Let_def with_load_def same_leases_def)
qed

lemma injected_sel [simp]:
  "c_id (inject_rate cf t (with_load cf now s c)) = c_id c"
  "c_provider (inject_rate cf t (with_load cf now s c)) = c_provider c"
  "c_cooling_until (inject_rate cf t (with_load cf now s c)) = c_cooling_until c"
  "c_pinned (inject_rate cf t (with_load cf now s c)) = c_pinned c"
  "is_selectable (inject_rate cf t (with_load cf now s c)) n m = is_selectable c n m"
  "model_cooling_until (inject_rate cf t (with_load cf now s c)) m = model_cooling_until c m"
  by (auto simp: inject_rate_def with_load_def is_selectable_def model_cooling_until_def split: option.splits)

lemma half_open_key_injected [simp]:
  "half_open_key cf (inject_rate cf t (with_load cf now s c)) t n = half_open_key cf c t n"
  by (auto simp: half_open_key_def Let_def split: option.splits)

lemma is_selectable_account: "is_selectable c now m \<Longrightarrow> is_selectable c now None"
  by (simp add: is_selectable_def model_cooling_until_def split: if_splits)

section \<open>The choice\<close>

lemma sticky_Some:
  "sticky cs tried a now = Some cid \<Longrightarrow> cid \<notin> tried \<and> (\<exists>c \<in> set cs. c_id c = cid \<and> is_selectable c now None)"
  by (auto simp: sticky_def find_Some_iff split: option.splits if_splits)

lemma first_choice_Some:
  assumes "first_choice cf cs tried a now = Some cid"
  shows "cid \<notin> tried \<and> (\<exists>c \<in> set cs. c_id c = cid \<and> is_selectable c now None)"
proof (cases "sticky cs tried a now")
  case None
  with assms have "select (cf_scheduler cf) cs tried now = Some cid" by (simp add: first_choice_def)
  from select_Some_ranked[OF this refl] show ?thesis
    by (auto simp: select_ranked_def select_pool_def Let_def split: if_splits)
next
  case (Some x)
  with assms sticky_Some[of cs tried a now cid] show ?thesis by (simp add: first_choice_def)
qed

lemma first_choice_None:
  "first_choice cf cs tried a now = None \<Longrightarrow> c \<in> set cs \<Longrightarrow> is_selectable c now None \<Longrightarrow> c_id c \<in> tried"
  by (auto simp: first_choice_def select_None_iff split: option.splits)

lemma find_id_Some: "find (\<lambda>c. c_id c = cid) cs = Some c \<Longrightarrow> c \<in> set cs \<and> c_id c = cid"
  by (auto simp: find_Some_iff)

lemma choose_cred_Some:
  "choose_cred n cf cs t tried a ck s = (Some cid, s') \<Longrightarrow>
     cid \<notin> tried \<and> (\<exists>c \<in> set cs. c_id c = cid \<and> is_selectable c (ck_now ck) None)"
proof (induction n arbitrary: cs s)
  case 0
  then show ?case by simp
next
  case (Suc n)
  show ?case
  proof (cases "first_choice cf cs tried a (ck_now ck) = Some cid")
    case True
    then show ?thesis by (rule first_choice_Some)
  next
    case False
    with Suc.prems obtain x s1 where
      "choose_cred n cf (filter (\<lambda>d. c_id d \<noteq> x) cs) t tried a ck s1 = (Some cid, s')"
      by (auto simp: split_beta Let_def split: option.splits if_splits)
    from Suc.IH[OF this] show ?thesis by auto
  qed
qed

lemma choose_cred_frame:
  "choose_cred n cf cs t tried a ck s = (r, s') \<Longrightarrow> en_store s' = en_store s \<and> en_tracker s' = en_tracker s
     \<and> en_rows s' = en_rows s \<and> en_probe_leases s' = en_probe_leases s"
proof (induction n arbitrary: cs s)
  case (Suc n)
  then show ?case
    by (force simp: split_beta Let_def split: option.splits if_splits)
qed simp

lemma choose_cred_complete:
  assumes "\<not> cf_half_open cf" "c \<in> set cs" "is_selectable c (ck_now ck) None" "c_id c \<notin> tried"
  shows "\<exists>cid. choose_cred (Suc n) cf cs t tried a ck s = (Some cid, s)"
  using assms first_choice_None[of cf cs tried a "ck_now ck" c] by (cases cs) (auto split: option.splits)

definition listed :: "config \<Rightarrow> model_target \<Rightarrow> engine \<Rightarrow> candidate list" where
  "listed cf t s = cr_candidates (Some (set (registered cf t))) False (en_store s)"

definition usable_of :: "config \<Rightarrow> model_target \<Rightarrow> clock \<Rightarrow> engine \<Rightarrow> candidate list" where
  "usable_of cf t ck s = map (inject_rate cf t \<circ> with_load cf (ck_mono ck) (en_tracker s))
     (filter (admissible cf t ck (en_tracker s)) (listed cf t s))"

lemma select_cred_unfold:
  assumes "tr_ok (en_tracker s)"
  shows "\<exists>tr. same_leases (ck_mono ck) (en_tracker s) tr \<and>
    select_cred cf t tried a ck s =
      (if registered cf t = [] then (Inl ''NoProviderForModel'', s)
       else if usable_of cf t ck s = [] then (Inr None, s\<lparr>en_tracker := tr\<rparr>)
       else (Inr (fst (choose_cred (length (usable_of cf t ck s)) cf (usable_of cf t ck s) t tried a ck
                (s\<lparr>en_tracker := tr\<rparr>))),
             snd (choose_cred (length (usable_of cf t ck s)) cf (usable_of cf t ck s) t tried a ck
                (s\<lparr>en_tracker := tr\<rparr>))))"
  using selectable_spec[OF assms, of cf "listed cf t s" t ck]
  by (intro exI[of _ "snd (selectable cf (listed cf t s) t ck (en_tracker s))"])
     (simp add: select_cred_def Let_def split_beta usable_of_def listed_def)

lemma select_cred_frame:
  assumes "tr_ok (en_tracker s)" "select_cred cf t tried a ck s = (r, s')"
  shows "en_store s' = en_store s" "same_leases (ck_mono ck) (en_tracker s) (en_tracker s')"
    "en_rows s' = en_rows s" "en_probe_leases s' = en_probe_leases s"
proof -
  obtain tr where tr: "same_leases (ck_mono ck) (en_tracker s) tr" "select_cred cf t tried a ck s =
      (if registered cf t = [] then (Inl ''NoProviderForModel'', s)
       else if usable_of cf t ck s = [] then (Inr None, s\<lparr>en_tracker := tr\<rparr>)
       else (Inr (fst (choose_cred (length (usable_of cf t ck s)) cf (usable_of cf t ck s) t tried a ck
                (s\<lparr>en_tracker := tr\<rparr>))),
             snd (choose_cred (length (usable_of cf t ck s)) cf (usable_of cf t ck s) t tried a ck
                (s\<lparr>en_tracker := tr\<rparr>))))"
    using select_cred_unfold[OF assms(1)] by blast
  have f: "en_store x = en_store s \<and> en_tracker x = tr \<and> en_rows x = en_rows s \<and> en_probe_leases x = en_probe_leases s"
    if "x = snd (choose_cred n cf cs t tried a ck (s\<lparr>en_tracker := tr\<rparr>))" for x n cs
    using choose_cred_frame[of n cf cs t tried a ck "s\<lparr>en_tracker := tr\<rparr>"] that by (cases "choose_cred n cf cs t tried a ck (s\<lparr>en_tracker := tr\<rparr>)") auto
  show "en_store s' = en_store s" "same_leases (ck_mono ck) (en_tracker s) (en_tracker s')"
    "en_rows s' = en_rows s" "en_probe_leases s' = en_probe_leases s"
    using tr assms f[OF refl] same_leases_refl[OF assms(1)] by (auto split: if_splits)
qed

lemma usable_of_mem:
  "c \<in> set (usable_of cf t ck s) \<longleftrightarrow> (\<exists>r \<in> set (st_rows (en_store s)). r_provider r \<in> set (registered cf t)
     \<and> admissible cf t ck (en_tracker s) (row_candidate (st_cools (en_store s)) r)
     \<and> c = inject_rate cf t (with_load cf (ck_mono ck) (en_tracker s) (row_candidate (st_cools (en_store s)) r)))"
  by (auto simp: usable_of_def listed_def set_cr_candidates)

lemma select_cred_mem:
  assumes "tr_ok (en_tracker s)" and "fst (select_cred cf t tried a ck s) = Inr (Some cid)"
  shows "cid \<notin> tried \<and> (\<exists>c \<in> set (usable_of cf t ck s). c_id c = cid)"
proof -
  let ?u = "usable_of cf t ck s"
  obtain tr where "fst (choose_cred (length ?u) cf ?u t tried a ck (s\<lparr>en_tracker := tr\<rparr>)) = Some cid"
    using select_cred_unfold[OF assms(1), of ck cf t tried a] assms(2) by (auto split: if_splits)
  then obtain s' where "choose_cred (length ?u) cf ?u t tried a ck (s\<lparr>en_tracker := tr\<rparr>) = (Some cid, s')"
    by (metis prod.collapse)
  from choose_cred_Some[OF this] show ?thesis by auto
qed

text \<open>C6. A credential chosen for an attempt may be used for it: its channel is registered and a
  candidate for the model, it is enabled and not disabled, neither the account nor the model is
  cooling down, no usage limit stops it, it has not been tried in this request, and it has fewer
  live leases than the in-flight limit. The choice itself changes no credential.\<close>

theorem selected_credential_is_usable:
  assumes "tr_ok (en_tracker s)" and "select_cred cf t tried affinity_id ck s = (Inr (Some cid), s')"
  shows "en_store s' = en_store s \<and> cid \<notin> tried
    \<and> (\<exists>r \<in> set (st_rows (en_store s)). r_id r = cid \<and> r_provider r \<in> set (registered cf t)
        \<and> r_enabled r \<and> \<not> r_disabled r
        \<and> is_selectable (row_candidate (st_cools (en_store s)) r) (ck_now ck)
             (Some (model_scope cf (r_provider r) (mt_model t)))
        \<and> \<not> cf_limits cf (row_candidate (st_cools (en_store s)) r) (mt_model t)
        \<and> (\<forall>limit. cf_inflight cf = Some limit \<longrightarrow> 0 < limit \<longrightarrow>
              int (length (live_at (en_tracker s) (ck_mono ck) cid)) < limit))"
proof -
  note sel = select_cred_mem[OF assms(1), of cf t tried affinity_id ck cid]
  have "cid \<notin> tried" "\<exists>c \<in> set (usable_of cf t ck s). c_id c = cid" using sel assms(2) by simp_all
  moreover have "r_enabled r \<and> \<not> r_disabled r" if "is_selectable (row_candidate cs r) n m" for r cs n m
    using that by (auto simp: is_selectable_def split: if_splits)
  ultimately show ?thesis
    using select_cred_frame(1)[OF assms] unfolding Bex_def usable_of_mem
    by (fastforce simp: admissible_def over_limit_def)
qed


section \<open>Half-open probing\<close>

lemma choose_cred_probe_held:
  assumes "cf_half_open cf" and "choose_cred n cf cs t tried a ck s = (Some cid, s')"
    and "\<forall>c \<in> set cs. c_id c = cid \<longrightarrow> half_open_key cf c t (ck_now ck) = Some key"
    and "ho_probing (en_half s) key = Some started" "ck_mono ck - started < ho_ttl (en_half s)"
    and "ho_recovered (en_half s) key = None"
  shows False
  using assms(2-)
proof (induction n arbitrary: cs s)
  case 0
  then show ?case by simp
next
  case (Suc n)
  obtain x where x: "first_choice cf cs tried a (ck_now ck) = Some x" "cs \<noteq> []"
    using Suc.prems(1) by (auto split: option.splits if_splits)
  obtain c where c: "find (\<lambda>c. c_id c = x) cs = Some c"
    using Suc.prems(1) x assms(1) by (auto split: option.splits if_splits)
  note cm = find_id_Some[OF c]
  obtain k where k: "half_open_key cf c t (ck_now ck) = Some k \<or> x \<noteq> cid \<and> half_open_key cf c t (ck_now ck) = None"
    using Suc.prems(2) cm by (cases "half_open_key cf c t (ck_now ck)") auto
  define h1 where "h1 = snd (ho_is_recovered (ck_mono ck) k (en_half s))"
  have h1: "ho_probing h1 = ho_probing (en_half s)" "ho_ttl h1 = ho_ttl (en_half s)"
    "ho_recovered h1 key = None"
    using Suc.prems(5) by (auto simp: h1_def ho_is_recovered_def split: option.splits)
  define h2 where "h2 = snd (ho_acquire (ck_mono ck) (ck_mono ck) k h1)"
  have acq: "ho_ttl h2 = ho_ttl (en_half s)" "ho_recovered h2 key = None"
    "\<not> fst (ho_acquire (ck_mono ck) (ck_mono ck) k h1) \<Longrightarrow> ho_probing h2 key = ho_probing (en_half s) key"
    using h1 by (auto simp: h2_def ho_acquire_def ho_live_def Let_def split: option.splits if_splits)
  have notk: "\<not> fst (ho_acquire (ck_mono ck) (ck_mono ck) key h1)" if "k = key"
    using h1 Suc.prems(3,4) by (simp add: ho_acquire_iff)
  have keyx: "x = cid \<Longrightarrow> half_open_key cf c t (ck_now ck) = Some key" using Suc.prems(2) cm by auto
  show ?case
  proof (cases "x = cid")
    case True
    then have kk: "half_open_key cf c t (ck_now ck) = Some key" "k = key" using keyx k by auto
    have nr: "fst (ho_is_recovered (ck_mono ck) key (en_half s)) = False"
      using Suc.prems(5) by (simp add: ho_is_recovered_def)
    have "choose_cred n cf (filter (\<lambda>d. c_id d \<noteq> x) cs) t tried a ck (s\<lparr>en_half := h2\<rparr>) = (Some cid, s')"
      using Suc.prems(1) x c assms(1) kk nr notk by (auto simp: split_beta Let_def h1_def h2_def)
    from choose_cred_Some[OF this] True show ?thesis by auto
  next
    case False
    have "\<not> fst (ho_acquire (ck_mono ck) (ck_mono ck) k h1)
      \<and> choose_cred n cf (filter (\<lambda>d. c_id d \<noteq> x) cs) t tried a ck (s\<lparr>en_half := h2\<rparr>) = (Some cid, s')"
      using Suc.prems(1) x c assms(1) k False
      by (auto simp: split_beta Let_def h1_def h2_def split: if_splits)
    with Suc.IH[of "filter (\<lambda>d. c_id d \<noteq> x) cs" "s\<lparr>en_half := h2\<rparr>"] Suc.prems(2-4) acq
    show ?thesis by auto
  qed
qed

text \<open>Half-open probing lets one request at a time test a credential whose account cooldown has
  run out: while a probe is under way and has not been confirmed, no other request is given that
  credential.\<close>

theorem probe_is_single_file:
  assumes "tr_ok (en_tracker s)" and "cf_half_open cf" and "store_inv (en_store s)"
    and "find_row cid (en_store s) = Some r" and "r_cooling_until r = Some u" and "u \<le> ck_now ck"
    and "ho_probing (en_half s) (cid, []) = Some started" and "ck_mono ck - started < ho_ttl (en_half s)"
    and "ho_recovered (en_half s) (cid, []) = None"
  shows "fst (select_cred cf t tried affinity_id ck s) \<noteq> Inr (Some cid)"
proof
  assume sel: "fst (select_cred cf t tried affinity_id ck s) = Inr (Some cid)"
  let ?u = "usable_of cf t ck s"
  obtain tr where tr: "fst (choose_cred (length ?u) cf ?u t tried affinity_id ck (s\<lparr>en_tracker := tr\<rparr>)) = Some cid"
    using select_cred_unfold[OF assms(1), of ck cf t tried affinity_id] sel by (auto split: if_splits)
  have "x = r" if "x \<in> set (st_rows (en_store s))" "r_id x = cid" for x
  proof -
    have "distinct (map r_id (st_rows (en_store s)))" using assms(3) by (simp add: store_inv_def)
    from find_row_distinct[OF this that(1)] that(2) assms(4) show ?thesis by simp
  qed
  then have key: "\<forall>c \<in> set ?u. c_id c = cid \<longrightarrow> half_open_key cf c t (ck_now ck) = Some (cid, [])"
    using assms(5,6) unfolding Ball_def usable_of_mem by (auto simp: half_open_key_def)
  obtain s' where
    ch: "choose_cred (length ?u) cf ?u t tried affinity_id ck (s\<lparr>en_tracker := tr\<rparr>) = (Some cid, s')"
    using tr by (metis prod.collapse)
  from choose_cred_probe_held[OF assms(2) ch key, of started] assms(7-9) show False by simp
qed

section \<open>The loop of the pick ends\<close>

definition untried :: "cred_id set \<Rightarrow> engine \<Rightarrow> nat" where
  "untried tried s = card (r_id ` set (st_rows (en_store s)) - tried)"

lemma drop_probe_frame [simp]:
  "en_store (drop_probe c s) = en_store s" "en_tracker (drop_probe c s) = en_tracker s"
  "en_rows (drop_probe c s) = en_rows s" "en_probe_leases (drop_probe c s) = en_probe_leases s"
  by (simp_all add: drop_probe_def split: option.split)

lemma pick_now_total:
  "tr_ok (en_tracker s) \<Longrightarrow> untried tried s < n \<Longrightarrow> pick_now n cf t a ck tried s \<noteq> None"
proof (induction n arbitrary: tried s)
  case 0
  then show ?case by simp
next
  case (Suc n)
  show ?case
  proof (cases "select_cred cf t tried a ck s")
    case (Pair r s1)
    note fr = select_cred_frame[OF Suc.prems(1) Pair]
    show ?thesis
    proof (cases "\<exists>cid. r = Inr (Some cid) \<and> safe_credential_data cid (en_store s1) = None")
      case True
      then obtain cid where r: "r = Inr (Some cid)" "safe_credential_data cid (en_store s1) = None" by blast
      from selected_credential_is_usable[OF Suc.prems(1), of cf t tried a ck cid s1] Pair r(1)
      have "cid \<notin> tried" "cid \<in> r_id ` set (st_rows (en_store s))" by auto
      then have "r_id ` set (st_rows (en_store s)) - insert cid tried
          \<subset> r_id ` set (st_rows (en_store s)) - tried" by blast
      then have "untried (insert cid tried) s < untried tried s"
        unfolding untried_def by (rule psubset_card_mono[rotated]) simp
      then have "untried (insert cid tried) (drop_probe cid s1) < n"
        using Suc.prems(2) fr(1) by (simp add: untried_def)
      with Suc.IH[of "drop_probe cid s1" "insert cid tried"] fr(2) Pair r show ?thesis
        by (simp add: same_leases_def)
    next
      case False
      with Pair show ?thesis by (auto split: sum.splits option.splits)
    qed
  qed
qed

lemma untried_lt_rounds: "untried tried s < pick_rounds s"
proof -
  have "card (r_id ` set (st_rows (en_store s)) - tried) \<le> card (r_id ` set (st_rows (en_store s)))"
    by (rule card_mono) auto
  also have "\<dots> \<le> length (st_rows (en_store s))"
    by (metis card_length length_map set_map)
  finally show ?thesis by (simp add: untried_def pick_rounds_def)
qed

lemma pick_now_frame:
  "tr_ok (en_tracker s) \<Longrightarrow> pick_now n cf t a ck tried s = Some (r, tried', s') \<Longrightarrow>
     en_store s' = en_store s \<and> same_leases (ck_mono ck) (en_tracker s) (en_tracker s')
     \<and> en_rows s' = en_rows s \<and> en_probe_leases s' = en_probe_leases s \<and> tried \<subseteq> tried'
     \<and> (\<forall>e. r = Inl e \<longrightarrow> registered cf t = [])
     \<and> (\<forall>cid d. r = Inr (Some (cid, d)) \<longrightarrow> cid \<notin> tried' \<and> safe_credential_data cid (en_store s) = Some d
          \<and> (\<exists>x \<in> set (st_rows (en_store s)). r_id x = cid \<and> r_provider x \<in> set (registered cf t)))"
proof (induction n arbitrary: tried s)
  case 0
  then show ?case by simp
next
  case (Suc n)
  show ?case
  proof (cases "select_cred cf t tried a ck s")
    case (Pair q s1)
    note fr = select_cred_frame[OF Suc.prems(1) Pair]
    show ?thesis
    proof (cases "\<exists>cid. q = Inr (Some cid)")
      case True
      then obtain cid where q: "q = Inr (Some cid)" by blast
      from selected_credential_is_usable[OF Suc.prems(1), of cf t tried a ck cid s1] Pair q
      have sel: "cid \<notin> tried" "\<exists>x \<in> set (st_rows (en_store s)). r_id x = cid \<and> r_provider x \<in> set (registered cf t)"
        by auto
      show ?thesis
      proof (cases "safe_credential_data cid (en_store s1)")
        case None
        then have p: "pick_now n cf t a ck (insert cid tried) (drop_probe cid s1) = Some (r, tried', s')"
          using Suc.prems(2) Pair q by simp
        have "tr_ok (en_tracker (drop_probe cid s1))" using fr(2) by (simp add: same_leases_def)
        from Suc.IH[OF this p] fr show ?thesis by (auto simp: same_leases_def)
      next
        case (Some d)
        then show ?thesis using Suc.prems(2) Pair q sel fr by auto
      qed
    next
      case False
      then have "r = (case q of Inl e \<Rightarrow> Inl e | Inr _ \<Rightarrow> Inr None)" "tried' = tried" "s' = s1"
        using Suc.prems(2) Pair by (auto split: sum.splits option.splits)
      moreover have "registered cf t = []" if "q = Inl e" for e
        using that Pair by (auto simp: select_cred_def Let_def split_beta split: if_splits)
      ultimately show ?thesis using fr False by (auto split: sum.splits)
    qed
  qed
qed

lemma blocked_ok [simp]: "tr_ok s \<Longrightarrow> tr_ok (snd (inflight_blocked cf c now s))"
  using inflight_blocked_spec[of s cf c now] by (simp add: same_leases_def)

lemma shortest_wait_ok: "tr_ok u \<Longrightarrow> tr_ok (snd (shortest_wait cf cs t tr k u r))"
  by (induction cs arbitrary: u r) (auto simp: split_beta Let_def split: option.splits)

lemma wait_frame:
  assumes "wait_short_cooldown cf t tr k x = (w, x')"
  shows "en_store x' = en_store x" "en_rows x' = en_rows x" "en_probe_leases x' = en_probe_leases x"
    and "tr_ok (en_tracker x) \<Longrightarrow> tr_ok (en_tracker x')"
  using assms shortest_wait_ok
  by (auto simp: wait_short_cooldown_def Let_def split_beta split: if_splits option.splits)

lemma pick_total:
  assumes "tr_ok (en_tracker s)" and "\<And>x. tr_ok (en_tracker x) \<Longrightarrow> tr_ok (en_tracker (others x))"
  shows "\<exists>r tried' ck' s'. pick cf t others affinity_id ck tried s = Some (r, tried', ck', s')
    \<and> tr_ok (en_tracker s') \<and> tried \<subseteq> tried'
    \<and> (\<forall>cid d. r = Inr (Some (cid, d)) \<longrightarrow> cid \<notin> tried'
         \<and> cr_credential_data cid (en_store s') = Inr (Some d)
         \<and> (\<exists>x \<in> set (st_rows (en_store s')). r_id x = cid \<and> r_provider x \<in> set (registered cf t)))"
proof -
  have tot: "\<exists>r tr x'. pick_now (pick_rounds x) cf t affinity_id k tr0 x = Some (r, tr, x')"
    if "tr_ok (en_tracker x)" for x tr0 k
    using pick_now_total[OF that untried_lt_rounds] by (metis not_None_eq prod_cases3)
  have data: "cr_credential_data c st = Inr (Some d)" if "safe_credential_data c st = Some d" for c st d
    using that by (auto simp: safe_credential_data_def split: sum.splits)
  obtain r tr s1 where p1: "pick_now (pick_rounds s) cf t affinity_id ck tried s = Some (r, tr, s1)"
    using tot[OF assms(1)] by blast
  note f1 = pick_now_frame[OF assms(1) p1]
  then have ok1: "tr_ok (en_tracker s1)" by (simp add: same_leases_def)
  show ?thesis
  proof (cases "r = Inr None")
    case False
    then have "pick cf t others affinity_id ck tried s = Some (r, tr, ck, s1)"
      using p1 by (auto simp: pick_def split: sum.splits option.splits)
    with f1 ok1 show ?thesis by (auto dest: data)
  next
    case True
    obtain w s2 where w: "wait_short_cooldown cf t tr ck s1 = (w, s2)" by fastforce
    note w2 = wait_frame[OF w]
    have ok2: "tr_ok (en_tracker s2)" using w2(4) ok1 by auto
    show ?thesis
    proof (cases w)
      case None
      then have "pick cf t others affinity_id ck tried s = Some (Inr None, tr, ck, s2)"
        using p1 True w by (simp add: pick_def)
      with f1 ok2 show ?thesis by auto
    next
      case (Some n)
      have ok3: "tr_ok (en_tracker (others s2))" using assms(2)[OF ok2] .
      obtain r' tr' s3 where p3: "pick_now (pick_rounds (others s2)) cf t affinity_id (advance n ck) tr (others s2)
          = Some (r', tr', s3)" using tot[OF ok3] by blast
      note f3 = pick_now_frame[OF ok3 p3]
      have "pick cf t others affinity_id ck tried s = Some (r', tr', advance n ck, s3)"
        using p1 True w Some p3 by (simp add: pick_def)
      with f1 f3 show ?thesis by (auto simp: same_leases_def dest: data)
    qed
  qed
qed

text \<open>Picking a credential always ends, whatever the rest of the process does during the one
  permitted wait, and a pick is a credential of a registered candidate channel whose document is
  readable in the store it was picked from, and which is not marked as tried.\<close>

theorem pick_ends_with_readable_credential:
  assumes "tr_ok (en_tracker s)" and "\<And>x. tr_ok (en_tracker x) \<Longrightarrow> tr_ok (en_tracker (others x))"
  shows "\<exists>r tried' ck' s'. pick cf t others affinity_id ck tried s = Some (r, tried', ck', s')
    \<and> tr_ok (en_tracker s') \<and> tried \<subseteq> tried'
    \<and> (\<forall>cid d. r = Inr (Some (cid, d)) \<longrightarrow> cid \<notin> tried'
         \<and> cr_credential_data cid (en_store s') = Inr (Some d)
         \<and> (\<exists>x \<in> set (st_rows (en_store s')). r_id x = cid \<and> r_provider x \<in> set (registered cf t)))"
  using pick_total[OF assms(1), of others] assms(2) by blast

section \<open>A sample pool\<close>

definition sample_config :: config where
  "sample_config = \<lparr>cf_providers = [''zen''], cf_scheduler = default_scheduler, cf_default_model = ''glm-5.2'',
     cf_aliases = [], cf_catalogue = [], cf_upstream_name = (\<lambda>p m. m), cf_paid = None, cf_normalize = (\<lambda>m. m),
     cf_groups = [], cf_limits = (\<lambda>c m. False), cf_inflight = Some 2, cf_half_open = False, cf_short_wait = 0,
     cf_effort_map = [], cf_hide_reasoning = False, cf_max_events = 0, cf_bad_tools = (\<lambda>evs. False),
     cf_disabled_reason = (\<lambda>p b. []), cf_compress = (\<lambda>p m d. d), cf_remember = (\<lambda>c now a. a)\<rparr>"

definition open_row :: "cred_id \<Rightarrow> cred_row" where
  "open_row cid = (sample_row cid)\<lparr>r_data := Some (JObj [])\<rparr>"

definition sample_engine :: engine where
  "sample_engine = \<lparr>en_store = \<lparr>st_rows = [open_row ''a'', open_row ''b''], st_cools = [], st_events = []\<rparr>,
     en_tracker = new_tracker 600, en_half = new_half_open 600 120, en_pending = Map.empty,
     en_probe_leases = (\<lambda>c. []), en_hits = Map.empty, en_quota_probes = Map.empty,
     en_affinity = \<lparr>af_max = 10, af_entries = []\<rparr>, en_rows = []\<rparr>"

definition sample_target :: model_target where
  "sample_target = \<lparr>mt_model = ''glm'', mt_providers = [''zen''], mt_forced = False\<rparr>"

definition sample_clock :: clock where
  "sample_clock = \<lparr>ck_now = 1000, ck_mono = 5\<rparr>"

lemmas engine_defs = sample_config_def open_row_def sample_engine_def sample_target_def sample_clock_def
  sample_row_def

lemma sample_tracker_ok: "tr_ok (en_tracker sample_engine)"
  by (simp add: sample_engine_def tr_ok_new)

lemma sample_registered: "registered sample_config sample_target = [''zen'']"
  by code_simp

lemma sample_selects:
  "fst (select_cred sample_config sample_target {} None sample_clock sample_engine) = Inr (Some ''a'')"
  by code_simp

theorem selected_credential_is_usable_witness:
  "\<exists>r \<in> set (st_rows (en_store sample_engine)). r_id r = ''a'' \<and> r_provider r \<in> set (registered sample_config sample_target)
     \<and> int (length (live_at (en_tracker sample_engine) 5 ''a'')) < 2"
proof -
  obtain s' where "select_cred sample_config sample_target {} None sample_clock sample_engine = (Inr (Some ''a''), s')"
    using sample_selects by (metis prod.collapse)
  moreover have "cf_inflight sample_config = Some 2" "ck_mono sample_clock = 5" by (simp_all add: engine_defs)
  ultimately show ?thesis
    using selected_credential_is_usable[OF sample_tracker_ok, of sample_config sample_target "{}" None sample_clock "''a''"] by auto
qed

lemma sample_rows: "st_rows (en_store sample_engine) = [open_row ''a'', open_row ''b'']"
  by (simp add: sample_engine_def)


theorem probe_is_single_file_witness:
  "fst (select_cred (sample_config\<lparr>cf_half_open := True\<rparr>) sample_target {} None sample_clock
     (sample_engine\<lparr>en_store := \<lparr>st_rows = [(open_row ''a'')\<lparr>r_cooling_until := Some 900\<rparr>], st_cools = [], st_events = []\<rparr>,
                    en_half := (new_half_open 600 120)\<lparr>ho_probing := [(''a'', []) \<mapsto> 4]\<rparr>\<rparr>)) \<noteq> Inr (Some ''a'')"
proof -
  let ?s = "sample_engine\<lparr>en_store := \<lparr>st_rows = [(open_row ''a'')\<lparr>r_cooling_until := Some 900\<rparr>], st_cools = [], st_events = []\<rparr>,
      en_half := (new_half_open 600 120)\<lparr>ho_probing := [(''a'', []) \<mapsto> 4]\<rparr>\<rparr>"
  let ?cf = "sample_config\<lparr>cf_half_open := True\<rparr>" and ?r = "(open_row ''a'')\<lparr>r_cooling_until := Some 900\<rparr>"
  have ok: "tr_ok (en_tracker ?s)" using sample_tracker_ok by simp
  have half: "cf_half_open ?cf" by (simp add: sample_config_def)
  have inv: "store_inv (en_store ?s)" by (simp add: store_inv_def od_wf_def od_keys_def)
  have row: "find_row ''a'' (en_store ?s) = Some ?r" by (simp add: find_row_def engine_defs)
  have cool: "r_cooling_until ?r = Some 900" by (simp add: open_row_def sample_row_def)
  from probe_is_single_file[OF ok half inv row cool, of sample_clock 4 sample_target "{}" None] show ?thesis
    by (simp add: sample_clock_def new_half_open_def)
qed

theorem pick_ends_with_readable_credential_witness:
  "\<exists>r tried' ck' s'. pick sample_config sample_target id None sample_clock {} sample_engine = Some (r, tried', ck', s')"
  using pick_ends_with_readable_credential[OF sample_tracker_ok, of id sample_config sample_target None sample_clock "{}"]
  by auto

section \<open>Bindings and fallback chains\<close>

lemma apply_binding_provider:
  "apply_binding cf t (Some b) = Inr t' \<Longrightarrow> b \<noteq> [] \<Longrightarrow> mt_providers t' = [b] \<and> mt_forced t'"
  by (auto simp: apply_binding_def Let_def split: if_splits)

text \<open>C9. A request made with an API key that is bound to a channel reaches only that channel: its
  fallback chain is the requested model alone and every credential chosen for it belongs to the
  channel.\<close>

theorem key_binding_confines_request:
  assumes "resolve_target cf model (Some b) = Inr t" and "b \<noteq> []" and "tr_ok (en_tracker s)"
  shows "fallback_chain cf t = [t]
    \<and> (\<forall>cid. fst (select_cred cf t tried affinity_id ck s) = Inr (Some cid) \<longrightarrow>
         (\<exists>r \<in> set (st_rows (en_store s)). r_id r = cid \<and> r_provider r = b))"
proof -
  obtain t0 where "apply_binding cf t0 (Some b) = Inr t"
    using assms(1) by (auto simp: resolve_target_def split: sum.splits)
  from apply_binding_provider[OF this assms(2)] have t: "mt_providers t = [b]" "mt_forced t" by auto
  then have reg: "set (registered cf t) \<subseteq> {b}" by (auto simp: registered_def narrow_providers_def)
  have "\<exists>r \<in> set (st_rows (en_store s)). r_id r = cid \<and> r_provider r = b"
    if "fst (select_cred cf t tried affinity_id ck s) = Inr (Some cid)" for cid
    using select_cred_mem[OF assms(3) that] reg unfolding Bex_def usable_of_mem by auto
  with t show ?thesis by (simp add: fallback_chain_def)
qed

end
