(* ===== verification/ExecReact.thy ===== *)
theory ExecReact
  imports ExecPick
begin

text \<open>
  Properties of the fallback chain and of the reactions to upstream errors of theory ExecPolicy:
  what a chain contains, when a rejected login disables a credential, and when a whole channel
  is paused.
\<close>

theorem key_binding_confines_request_witness:
  "fallback_chain sample_config \<lparr>mt_model = ''glm'', mt_providers = [''zen''], mt_forced = True\<rparr>
     = [\<lparr>mt_model = ''glm'', mt_providers = [''zen''], mt_forced = True\<rparr>]"
proof -
  have "resolve_target sample_config (Some ''glm'') (Some ''zen'')
      = Inr \<lparr>mt_model = ''glm'', mt_providers = [''zen''], mt_forced = True\<rparr>" by code_simp
  from key_binding_confines_request[OF this _ sample_tracker_ok] show ?thesis by simp
qed

section \<open>The fallback chain\<close>

abbreviation chain_key :: "model_target \<Rightarrow> string" where
  "chain_key m \<equiv> py_lower (mt_model m)"

lemma chain_members_keys:
  "distinct (map chain_key (chain_members t names seen))
   \<and> set (map chain_key (chain_members t names seen)) \<inter> seen = {}"
  by (induction t names seen rule: chain_members.induct)
     (auto simp: Let_def split: sum.split)

lemma distinct_map_filter: "distinct (map f xs) \<Longrightarrow> distinct (map f (filter P xs))"
  by (induction xs) auto

text \<open>A fallback chain is never empty and names no model twice (ignoring case); beside the
  requested model it contains only models the catalogue allows; and a request pinned to a channel
  has no fallback.\<close>

theorem fallback_chain_wellformed:
  "fallback_chain cf t \<noteq> [] \<and> distinct (map (\<lambda>m. py_lower (mt_model m)) (fallback_chain cf t))
   \<and> (\<forall>m \<in> set (fallback_chain cf t). py_lower (mt_model m) = py_lower (mt_model t) \<or> fallback_allowed cf m)
   \<and> (mt_forced t \<longrightarrow> fallback_chain cf t = [t])"
proof -
  define ms where "ms = chain_members t (ordered_fallback_chain (mt_model t) (cf_groups cf)) {}"
  have d: "distinct (map chain_key ms)" unfolding ms_def using chain_members_keys by blast
  consider "fallback_chain cf t = [t]" | (head) m rest where "ms = m # rest" "chain_key m = chain_key t"
      "fallback_chain cf t = m # filter (fallback_allowed cf) rest"
    | (other) "fallback_chain cf t = filter (fallback_allowed cf) ms" "fallback_chain cf t \<noteq> []"
  proof (cases "mt_forced t \<or> cf_groups cf = []")
    case True
    with that(1) show ?thesis by (auto simp: fallback_chain_def)
  next
    case False
    have eq: "fallback_chain cf t = (case ms of [] \<Rightarrow> [t] | m # rest \<Rightarrow>
        if chain_key m = chain_key t then m # filter (fallback_allowed cf) rest
        else (case filter (fallback_allowed cf) (m # rest) of [] \<Rightarrow> [t] | xs \<Rightarrow> xs))"
      using False by (simp add: fallback_chain_def Let_def ms_def)
    show ?thesis
    proof (cases ms)
      case Nil
      with eq that(1) show ?thesis by simp
    next
      case (Cons m rest)
      show ?thesis
      proof (cases "chain_key m = chain_key t")
        case True
        with eq Cons that(2) show ?thesis by simp
      next
        case ne: False
        then have "fallback_chain cf t = (case filter (fallback_allowed cf) ms of [] \<Rightarrow> [t] | xs \<Rightarrow> xs)"
          using eq Cons by simp
        with that(1,3) show ?thesis by (cases "filter (fallback_allowed cf) ms") auto
      qed
    qed
  qed
  then have "fallback_chain cf t \<noteq> [] \<and> distinct (map chain_key (fallback_chain cf t))
    \<and> (\<forall>m \<in> set (fallback_chain cf t). chain_key m = chain_key t \<or> fallback_allowed cf m)"
  proof cases
    case head
    then show ?thesis using d by (auto intro: distinct_map_filter)
  qed (use d in \<open>auto intro: distinct_map_filter\<close>)
  then show ?thesis by (simp add: fallback_chain_def)
qed

theorem fallback_chain_wellformed_witness:
  "distinct (map (\<lambda>m. py_lower (mt_model m))
     (fallback_chain (sample_config\<lparr>cf_groups := [(''fast'', [''glm'', ''kimi'', ''GLM''])]\<rparr>) sample_target))
   \<and> length (fallback_chain (sample_config\<lparr>cf_groups := [(''fast'', [''glm'', ''kimi'', ''GLM''])]\<rparr>) sample_target) = 2"
proof -
  have "length (fallback_chain (sample_config\<lparr>cf_groups := [(''fast'', [''glm'', ''kimi'', ''GLM''])]\<rparr>) sample_target) = 2"
    by code_simp
  then show ?thesis using fallback_chain_wellformed by blast
qed

section \<open>A rejected login and the quota\<close>

lemma find_row_store_error:
  "eo_model_cooldowns oc = [] \<Longrightarrow> find_row cid s = Some r \<Longrightarrow>
   find_row cid (cr_save_error cid oc s) = Some
     (if eo_disabled oc
      then r\<lparr>r_disabled := True, r_disabled_reason :=
               Some (if eo_disabled_reason oc = [] then ''session dead'' else eo_disabled_reason oc),
             r_err_count := 0, r_cooling_until := None, r_cooling_kind := None\<rparr>
      else r\<lparr>r_cooling_until := coalesce (eo_cooling_until oc) (r_cooling_until r),
             r_cooling_kind := coalesce (str_or_none (eo_cooling_kind oc)) (r_cooling_kind r),
             r_err_count := eo_err_count oc\<rparr>)"
  using find_row_SomeD[of cid s r] by (simp add: cr_save_error_def Let_def find_row_update_where)

lemma credit_until:
  "\<exists>u. eo_cooling_until (note_error sch c CREDIT now m r) = Some u \<and> now < u \<and> u \<le> now + 86400"
proof -
  let ?d = "max (next_credit_reset now - now) 0"
  have d: "0 < ?d" "?d \<le> 86400" using next_credit_reset_bounds[of now] by auto
  have "now < cooling_until_of now r ?d \<and> cooling_until_of now r ?d \<le> now + 86400"
    using d by (auto simp: cooling_until_of_def clamp_retry_at_def Let_def RETRY_AT_MAX_SECONDS_def split: option.splits)
  then show ?thesis by (simp add: note_error_def kind_sets account_cooldown_def outcome0_def)
qed

text \<open>C8. A login the upstream rejects disables the credential only without evidence of an exhausted
  quota. With such evidence (in the table, or from the probe made on the spot) the error counts as
  exhausted credit: the credential stays enabled and cools down for at most a day.\<close>

theorem dead_disables_unless_quota_exhausted:
  assumes "credit_if_exhausted pe ck (Some DEAD) cid p s = (Some kind, s1)"
    and "note_upstream_error cf ck cid kind p model error s1 = (noted, s2)"
    and "find_row cid (en_store s1) = Some r"
  shows "(kind = CREDIT \<longleftrightarrow> quota_exhausted cid p (en_store s) \<or> fst (probe_quota_now pe ck cid p s))
    \<and> (kind = CREDIT \<longrightarrow> (\<exists>r2 u. find_row cid (en_store s2) = Some r2 \<and> r_disabled r2 = r_disabled r
          \<and> r_cooling_until r2 = Some u \<and> ck_now ck < u \<and> u \<le> ck_now ck + 86400))
    \<and> (kind \<noteq> CREDIT \<longrightarrow> (\<exists>r2. find_row cid (en_store s2) = Some r2 \<and> r_disabled r2))"
proof -
  have kind: "kind = CREDIT \<longleftrightarrow> quota_exhausted cid p (en_store s) \<or> fst (probe_quota_now pe ck cid p s)"
    "kind = CREDIT \<or> kind = DEAD"
    using assms(1) by (auto simp: credit_if_exhausted_def dead_as_credit_def split_beta split: if_splits)
  define c where "c = candidate_or_none cid p (en_store s1)"
  define reason where "reason = disabled_reason cf p error"
  define oc where oc: "oc = note_error (cf_scheduler cf) c kind (ck_now ck) (Some (model_scope cf p model))
        (case error of Some e \<Rightarrow> x_retry_at e | None \<Rightarrow> None)"
  have st: "en_store s2 = cr_save_error cid (if kind = DEAD then oc\<lparr>eo_disabled_reason := reason\<rparr> else oc) (en_store s1)"
    using assms(2) kind(2)
    by (auto simp: note_upstream_error_def kind_sets Let_def add_row_def c_def reason_def oc)
  show ?thesis
  proof (cases "kind = CREDIT")
    case True
    have nm: "eo_model_cooldowns oc = []" "\<not> eo_disabled oc"
      unfolding oc True by (simp_all add: note_error_def kind_sets account_cooldown_def outcome0_def)
    obtain u where u: "eo_cooling_until oc = Some u" "ck_now ck < u" "u \<le> ck_now ck + 86400"
      unfolding oc True using credit_until by blast
    have "find_row cid (en_store s2) = Some (r\<lparr>r_cooling_until := Some u,
        r_cooling_kind := coalesce (str_or_none (eo_cooling_kind oc)) (r_cooling_kind r), r_err_count := eo_err_count oc\<rparr>)"
      using find_row_store_error[OF nm(1) assms(3)] nm(2) u(1) True st by (simp add: coalesce_def)
    with kind True u show ?thesis by simp
  next
    case False
    then have k: "kind = DEAD" using kind by blast
    have nm: "eo_model_cooldowns (oc\<lparr>eo_disabled_reason := reason\<rparr>) = []" "eo_disabled (oc\<lparr>eo_disabled_reason := reason\<rparr>)"
      unfolding oc k by (simp_all add: note_error_def kind_sets outcome0_def)
    have "\<exists>r2. find_row cid (en_store s2) = Some r2 \<and> r_disabled r2"
      using find_row_store_error[OF nm(1) assms(3)] nm(2) k st by simp
    with kind False show ?thesis by blast
  qed
qed

definition sample_probe :: "quota \<Rightarrow> probe_env" where
  "sample_probe q = \<lparr>pe_answer = ProbeQuota q, pe_during = id, pe_done = 6\<rparr>"

definition zero_quota :: quota where
  "zero_quota = \<lparr>q_remaining = Some 0, q_total = Some 4100, q_cycle_end = None, q_expiry_ladder = None,
     q_probed_at = Some 1000, q_probe_failed = False\<rparr>"

theorem dead_disables_unless_quota_exhausted_witness:
  "\<exists>s1 r2. credit_if_exhausted (sample_probe zero_quota) sample_clock (Some DEAD) ''a'' ''zen'' sample_engine
       = (Some CREDIT, s1)
     \<and> find_row ''a'' (en_store (snd (note_upstream_error sample_config sample_clock ''a'' CREDIT ''zen'' ''glm'' None s1)))
       = Some r2 \<and> \<not> r_disabled r2"
proof -
  let ?c = "credit_if_exhausted (sample_probe zero_quota) sample_clock (Some DEAD) ''a'' ''zen'' sample_engine"
  have k: "fst ?c = Some CREDIT" by code_simp
  have row: "map_option r_disabled (find_row ''a'' (en_store (snd ?c))) = Some False" by code_simp
  obtain s1 where c: "?c = (Some CREDIT, s1)" using k by (metis prod.collapse)
  obtain r where r: "find_row ''a'' (en_store s1) = Some r" "\<not> r_disabled r" using row c by auto
  obtain noted s2 where n: "note_upstream_error sample_config sample_clock ''a'' CREDIT ''zen'' ''glm'' None s1 = (noted, s2)"
    by fastforce
  from dead_disables_unless_quota_exhausted[OF c n r(1)] r(2) c n show ?thesis by auto
qed

section \<open>Pausing a channel\<close>

lemma cool_provider_unselectable:
  assumes "r \<in> set (st_rows (snd (cr_cool_provider p until s)))" "r_provider r = p" "t < until"
  shows "\<not> is_selectable (row_candidate cs r) t m"
proof -
  let ?f = "\<lambda>r. r\<lparr>r_cooling_until := Some until, r_cooling_kind := Some (err_value RESTRICTED), r_err_count := 0\<rparr>"
  have "st_rows (snd (cr_cool_provider p until s)) = map (\<lambda>x. if cools_before p until x then ?f x else x) (st_rows s)"
    by (simp add: cr_cool_provider_def Let_def)
  then have "r \<in> (\<lambda>x. if cools_before p until x then ?f x else x) ` set (st_rows s)"
    using assms(1) by (simp only: set_map)
  then obtain x where x: "r = (if cools_before p until x then ?f x else x)" by (rule imageE)
  have "\<exists>u. r_cooling_until r = Some u \<and> until \<le> u"
  proof (cases "cools_before p until x")
    case False
    with x assms(2) show ?thesis by (auto simp: cools_before_def split: option.splits)
  qed (use x in auto)
  with assms(3) show ?thesis by (auto simp: is_selectable_def)
qed

text \<open>A channel is paused when a second, different credential of it is restricted within ten
  minutes of the first, and then for a day and completely; the same credential being restricted
  again changes nothing beyond its own cooldown.\<close>

theorem channel_paused_on_second_credential:
  assumes "en_hits s p = None" and "s1 = pause_provider_on_burst ck1 p c1 s"
    and "en_hits s2 p = en_hits s1 p" and "s3 = pause_provider_on_burst ck2 p c2 s2"
    and "0 \<le> ck_now ck2 - ck_now ck1" and "ck_now ck2 - ck_now ck1 \<le> RESTRICTED_BURST_WINDOW_SECONDS"
  shows "en_store s1 = en_store s
    \<and> (c2 = c1 \<longrightarrow> en_store s3 = en_store s2)
    \<and> (c2 \<noteq> c1 \<longrightarrow> (\<forall>r \<in> set (st_rows (en_store s3)). \<forall>t m. r_provider r = p \<longrightarrow> t < ck_now ck2 + 86400 \<longrightarrow>
         \<not> is_selectable (row_candidate (st_cools (en_store s3)) r) t m))"
proof -
  note d = pause_provider_on_burst_def Let_def RESTRICTED_BURST_WINDOW_SECONDS_def
    RESTRICTED_BURST_CREDENTIALS_def RESTRICTED_PROVIDER_PAUSE_SECONDS_def
  have s1: "en_store s1 = en_store s" "en_hits s1 p = Some (ck_now ck1, {c1})"
    using assms(1,2) by (simp_all add: d)
  then have h: "en_hits s2 p = Some (ck_now ck1, {c1})" using assms(3) by simp
  have w: "\<not> 600 < ck_now ck2 - ck_now ck1" using assms(6) by (simp add: RESTRICTED_BURST_WINDOW_SECONDS_def)
  have same: "c2 = c1 \<Longrightarrow> en_store s3 = en_store s2" using h w by (simp add: assms(4) d)
  have diff: "c2 \<noteq> c1 \<Longrightarrow> en_store s3 = snd (cr_cool_provider p (ck_now ck2 + 86400) (en_store s2))"
    using h w by (simp add: assms(4) d)
  show ?thesis using s1 same diff cool_provider_unselectable by auto
qed

theorem channel_paused_on_second_credential_witness:
  "\<exists>r \<in> set (st_rows (en_store (pause_provider_on_burst sample_clock ''zen'' ''b''
       (pause_provider_on_burst sample_clock ''zen'' ''a'' sample_engine)))).
     r_id r = ''a'' \<and> r_provider r = ''zen'' \<and> \<not> is_selectable (row_candidate (st_cools (en_store (pause_provider_on_burst sample_clock
        ''zen'' ''b'' (pause_provider_on_burst sample_clock ''zen'' ''a'' sample_engine)))) r) 87000 (Some ''glm'')"
proof -
  let ?s = "pause_provider_on_burst sample_clock ''zen'' ''b'' (pause_provider_on_burst sample_clock ''zen'' ''a'' sample_engine)"
  have "list_ex (\<lambda>r. r_id r = ''a'' \<and> r_provider r = ''zen'') (st_rows (en_store ?s))" by code_simp
  then have row: "\<exists>r \<in> set (st_rows (en_store ?s)). r_id r = ''a'' \<and> r_provider r = ''zen''" by (simp add: list_ex_iff)
  have "en_hits sample_engine ''zen'' = None" by (simp add: sample_engine_def)
  from channel_paused_on_second_credential[OF this refl refl refl, where ?ck1.0 = sample_clock
      and ?ck2.0 = sample_clock and ?c1.0 = "''a''" and ?c2.0 = "''b''"]
  have "\<forall>r \<in> set (st_rows (en_store ?s)). r_provider r = ''zen'' \<longrightarrow>
     \<not> is_selectable (row_candidate (st_cools (en_store ?s)) r) 87000 (Some ''glm'')"
    by (simp add: sample_clock_def RESTRICTED_BURST_WINDOW_SECONDS_def)
  with row show ?thesis by blast
qed

end
