(* ===== verification/ExecRun.thy ===== *)
theory ExecRun
  imports ExecLoop ExecReact
begin

text \<open>
  Properties of the retry loops of theory ExecLoop. Two interfaces carry the proofs: \<open>retry_loop\<close>
  (a loop whose rounds consume inputs and lower a measure ends) is interpreted on both loops, and
  \<open>reaction_frame\<close> (a relation between engine states that every reaction respects) on three
  relations: the tracker stays well-formed, usage rows are only added, leases are left alone.
\<close>

section \<open>What a reaction may change\<close>

named_theorems frame_ops \<open>operations a frame relation is kept by\<close>

locale reaction_frame =
  fixes R :: "engine \<Rightarrow> engine \<Rightarrow> bool"
  assumes R_refl: "R s s"
    and R_trans: "R s s' \<Longrightarrow> R s' s'' \<Longrightarrow> R s s''"
    and R_store: "R s (s\<lparr>en_store := st\<rparr>)"
    and R_half: "R s (s\<lparr>en_half := h\<rparr>)"
    and R_hits: "R s (s\<lparr>en_hits := w\<rparr>)"
    and R_quota: "R s (s\<lparr>en_quota_probes := q\<rparr>)"
    and R_affinity: "R s (s\<lparr>en_affinity := a\<rparr>)"
    and R_row: "R s (add_row r s)"
begin

text \<open>The laws chained: each operation keeps what held between an earlier state and its argument.\<close>

lemma upd [frame_ops]:
  "R s x \<Longrightarrow> R s (x\<lparr>en_store := st\<rparr>)" "R s x \<Longrightarrow> R s (x\<lparr>en_half := h\<rparr>)" "R s x \<Longrightarrow> R s (x\<lparr>en_hits := w\<rparr>)"
  "R s x \<Longrightarrow> R s (x\<lparr>en_quota_probes := q\<rparr>)" "R s x \<Longrightarrow> R s (x\<lparr>en_affinity := a\<rparr>)" "R s x \<Longrightarrow> R s (add_row r x)" "R s s"
  by (erule R_trans, rule R_store R_half R_hits R_quota R_affinity R_row)+ (rule R_refl)

lemma confirm [frame_ops]: "R s x \<Longrightarrow> R s (confirm_probe ck c x)"
  by (simp add: frame_ops confirm_probe_def split: option.split)

lemma pause [frame_ops]: "R s x \<Longrightarrow> R s (pause_provider_on_burst ck p cid x)"
proof -
  assume x: "R s x"
  have "R s (x\<lparr>en_hits := w, en_store := st\<rparr>)" for w st using upd(1)[OF upd(3)[OF x]] by simp
  then show ?thesis using x by (simp add: frame_ops pause_provider_on_burst_def Let_def split_beta)
qed

lemma noted [frame_ops]: "R s x \<Longrightarrow> R s (snd (note_upstream_error cf ck cid kind p model e x))"
proof -
  assume x: "R s x"
  have "R s (x\<lparr>en_half := h, en_store := st\<rparr>)" for h st using upd(1)[OF upd(2)[OF x]] by simp
  then show ?thesis using x unfolding note_upstream_error_def Let_def by (simp add: frame_ops)
qed

lemma invalid [frame_ops]: "R s x \<Longrightarrow> R s (record_invalid p c m k x)"
  by (simp add: frame_ops record_invalid_def)

lemma restricted [frame_ops]: "R s x \<Longrightarrow> R s (snd (snd (handle_restricted cf ck p cid model e att tried x)))"
  by (simp add: frame_ops handle_restricted_def Let_def split_beta)

lemma success [frame_ops]: "R s x \<Longrightarrow> R s (finish_success cf ck p cid model truncated x)"
  by (simp add: frame_ops finish_success_def Let_def)

lemma credit:
  assumes "\<And>s. R s (pe_during pe s)" "R s x"
  shows "R s (snd (credit_if_exhausted pe ck kind cid p x))"
proof -
  have d: "R s (pe_during pe x)" using R_trans[OF assms(2) assms(1)] .
  then have un: "R s (snd (probe_quota_uncached pe cid p x))"
    using assms(2) by (simp add: frame_ops probe_quota_uncached_def Let_def split: probe_answer.split)
  then have "R s (snd (probe_quota_now pe ck cid p x))"
    using assms(2) by (simp add: frame_ops probe_quota_now_def Let_def split_beta split: option.split)
  then show ?thesis using assms(2) by (simp add: frame_ops credit_if_exhausted_def split_beta)
qed

lemma rejected [frame_ops]: "R s x \<Longrightarrow> R s (snd (reject a kind e l x))"
  by (simp add: frame_ops reject_def)

lemma restrained [frame_ops]: "R s x \<Longrightarrow> R s (snd (restrict cf ck a e l x))"
  by (simp add: frame_ops restrict_def split_beta)

lemma note_attempted [frame_ops]: "R s x \<Longrightarrow> R s (snd (note_attempt cf ck a kind e l x))"
  by (simp add: frame_ops note_attempt_def split_beta)

lemma error_event:
  assumes "\<And>s. R s (pe_during pe s)" "R s x"
  shows "R s (snd (snd (stream_error_event cf ck pe a ev l x)))"
proof -
  obtain k y where k: "credit_if_exhausted pe ck (Some (event_error_kind ev)) (at_cred a) (at_provider a) x = (k, y)"
    by fastforce
  then have "R s y" using credit[OF assms, of ck "Some (event_error_kind ev)" "at_cred a" "at_provider a"] by (simp add: frame_ops)
  then show ?thesis by (simp add: frame_ops stream_error_event_def k Let_def split_beta split: option.split)
qed

lemma exception:
  assumes "\<And>s. R s (pe_during pe s)" "R s x"
  shows "R s (snd (snd (stream_exception cf ck pe a e l x)))"
proof -
  obtain k y where k: "credit_if_exhausted pe ck (classify e) (at_cred a) (at_provider a) x = (k, y)"
    by fastforce
  then have "R s y" using credit[OF assms, of ck "classify e" "at_cred a" "at_provider a"] by (simp add: frame_ops)
  then show ?thesis by (simp add: frame_ops stream_exception_def k Let_def split_beta split: option.split)
qed

lemma events:
  assumes "\<And>s. R s (pe_during pe s)"
  shows "R s x \<Longrightarrow> R s (snd (snd (stream_events cf sk ck pe a evs l x)))"
  by (induction evs arbitrary: l x) (simp_all add: frame_ops error_event[OF assms] Let_def split_beta split: sum.split)

lemma stream_succeeded:
  assumes "\<And>s. R s (pe_during pe s)" "R s x"
  shows "R s (snd (snd (stream_success cf sk ck pe a l x)))"
  using assms(2)
  by (simp add: frame_ops stream_success_def Let_def split_beta exception[OF assms(1) success[OF assms(2)]] split: sum.split)

lemma stream_bodied:
  assumes "\<And>s. R s (pe_during (ai_probe ai) s)" "R s x"
  shows "R s (snd (snd (stream_body cf sk ai a l x)))"
proof -
  obtain r l1 y where r: "stream_events cf sk (ai_seen ai) (ai_probe ai) a (ai_events ai) (l\<lparr>lp_saw_finish := False\<rparr>) x = (r, l1, y)"
    using prod_cases3 by blast
  then have y: "R s y" using events[OF assms, of cf sk "ai_seen ai" a "ai_events ai" "l\<lparr>lp_saw_finish := False\<rparr>"] by (simp add: frame_ops)
  have "R s (snd (snd (case stream_success cf sk (ai_seen ai) (ai_probe ai) a l1 y of
      (None, l2, s2) \<Rightarrow> (Done, l2, s2) | (Some f, l2, s2) \<Rightarrow> (Flow f, l2, s2))))"
    by (simp add: frame_ops split_beta stream_succeeded[OF assms(1) y] split: option.split)
  with y show ?thesis
    by (simp add: frame_ops stream_body_def r Let_def split_beta exception[OF assms(1) y]
        split: reading.split stream_end.split)
qed

lemma transient [frame_ops]: "R s x \<Longrightarrow> R s (snd (snd (complete_transient cf ck a l x)))"
  by (simp add: frame_ops complete_transient_def split_beta)

lemma complete_error:
  assumes "\<And>s. R s (pe_during pe s)" "R s x"
  shows "R s (snd (snd (complete_error_event cf ck pe a ev l x)))"
proof -
  obtain k y where k: "credit_if_exhausted pe ck (Some (event_error_kind ev)) (at_cred a) (at_provider a) x = (k, y)"
    by fastforce
  then have "R s y" using credit[OF assms, of ck "Some (event_error_kind ev)" "at_cred a" "at_provider a"] by (simp add: frame_ops)
  then show ?thesis by (simp add: frame_ops complete_error_event_def k Let_def split_beta split: option.split)
qed

lemma complete_bodied:
  assumes "\<And>s. R s (pe_during (ai_probe ai) s)" "R s x"
  shows "R s (snd (snd (complete_body cf ai a l x)))"
  using assms(2)
  by (simp add: frame_ops complete_body_def Let_def split_beta complete_error[OF assms] exception[OF assms]
      split: collecting.split stream_end.split aggregated.split)

end

interpretation tracker: reaction_frame "\<lambda>s s'. tr_ok (en_tracker s) \<longrightarrow> tr_ok (en_tracker s')"
  by unfold_locales (simp_all add: add_row_def)

interpretation rows: reaction_frame "\<lambda>s s'. length (en_rows s) \<le> length (en_rows s')"
  by unfold_locales (simp_all add: add_row_def)

interpretation leases: reaction_frame
  "\<lambda>s s'. en_tracker s' = en_tracker s \<and> en_probe_leases s' = en_probe_leases s"
  by unfold_locales (simp_all add: add_row_def)

section \<open>What a round does to the loop variables\<close>

text \<open>The counters the loops are bounded by, and the two ways to go round again on the same credential.\<close>

definition same_counts :: "('x, 'f) loop \<Rightarrow> ('x, 'f) loop \<Rightarrow> bool" where
  "same_counts l l' \<longleftrightarrow> lp_attempts l' = lp_attempts l \<and> lp_queue_rounds l' = lp_queue_rounds l
     \<and> lp_retried l' = lp_retried l \<and> lp_pinned l' = lp_pinned l"

definition queued_again :: "attempt \<Rightarrow> ('x, 'f) loop \<Rightarrow> ('x, 'f) loop \<Rightarrow> bool" where
  "queued_again a l l' \<longleftrightarrow> \<not> lp_emitted l' \<and> lp_queue_rounds l < QUEUE_MAX_ROUNDS
     \<and> lp_queue_rounds l' = lp_queue_rounds l + 1 \<and> lp_attempts l' = lp_attempts l - 1
     \<and> lp_retried l' = lp_retried l \<and> lp_pinned l' = Some (at_cred a, at_data a)"

definition lowered_again :: "attempt \<Rightarrow> ('x, 'f) loop \<Rightarrow> ('x, 'f) loop \<Rightarrow> bool" where
  "lowered_again a l l' \<longleftrightarrow> \<not> lp_emitted l' \<and> \<not> lp_retried l \<and> lp_retried l'
     \<and> lp_attempts l' = lp_attempts l \<and> lp_queue_rounds l' = lp_queue_rounds l
     \<and> lp_pinned l' = Some (at_cred a, at_data a)"

definition flow_step :: "attempt \<Rightarrow> ('x, 'f) loop \<Rightarrow> flow \<Rightarrow> ('x, 'f) loop \<Rightarrow> bool" where
  "flow_step a l f l' \<longleftrightarrow>
     (case f of
        Continue \<Rightarrow> lowered_again a l l'
      | Fall (Some w) \<Rightarrow> queued_again a l l' \<and> 0 \<le> w \<and> w \<le> QUEUE_MAX_WAIT_SECONDS
      | Fall None \<Rightarrow> same_counts l l' \<or> lowered_again a l l'
      | Escape e \<Rightarrow> True)
     \<and> lp_frames l' = lp_frames l \<and> lp_emitted l' = lp_emitted l \<and> lp_cred l' = lp_cred l"

lemmas step_defs = flow_step_def same_counts_def queued_again_def lowered_again_def

lemma plan_step:
  "plan_for a r l = Some p \<Longrightarrow> flow_step a l (Fall (Some (qr_wait p))) (restart_loop p l)"
  by (auto simp: plan_for_def plan_queue_restart_def queue_wait_def restart_loop_def step_defs
      QUEUE_MAX_WAIT_SECONDS_def split: if_splits option.splits)

lemma lower_step:
  "lower_effort a m l = Some e \<Longrightarrow> lowered_again a l (retry_lower a e l) \<and> flow_step a l Continue (retry_lower a e l)
     \<and> flow_step a l (Fall None) (retry_lower a e l)"
  by (auto simp: lower_effort_def downgrade_payload_def retry_lower_def step_defs split: if_splits option.splits)

lemma loop_updates [simp]:
  "flow_step a l (Fall None) (fst (reject a k e l s))"
  "flow_step a l (Fall None) (fst (restrict cf ck a e l s))"
  "flow_step a l (Fall None) (fst (note_attempt cf ck a k eo l s))"
  "flow_step a l (Fall None) (l'\<lparr>lp_last_error := x\<rparr>) = flow_step a l (Fall None) l'"
  "flow_step a l (Fall None) (l'\<lparr>lp_last_error := x, lp_last_kind := y\<rparr>) = flow_step a l (Fall None) l'"
  "flow_step a l (Fall None) l"
  by (simp_all add: reject_def restrict_def note_attempt_def split_beta step_defs)

lemma error_event_step:
  "flow_step a l (Fall (fst (stream_error_event cf ck pe a ev l s))) (fst (snd (stream_error_event cf ck pe a ev l s)))"
  by (simp add: stream_error_event_def Let_def split_beta plan_step lower_step split: option.split)

lemma exception_step:
  "flow_step a l (fst (stream_exception cf ck pe a e l s)) (fst (snd (stream_exception cf ck pe a e l s)))"
  by (simp add: stream_exception_def Let_def split_beta plan_step lower_step split: option.split)
     (simp add: flow_step_def)

lemma transient_step:
  "flow_step a l (fst (complete_transient cf ck a l s)) (fst (snd (complete_transient cf ck a l s)))"
  by (simp add: complete_transient_def split_beta)

lemma complete_error_step:
  "flow_step a l (fst (complete_error_event cf ck pe a ev l s)) (fst (snd (complete_error_event cf ck pe a ev l s)))"
  by (simp add: complete_error_event_def Let_def split_beta lower_step split: option.split)

text \<open>While the stream is read the counters stand still and frames come from this attempt.\<close>

definition frames_step :: "attempt \<Rightarrow> ('x, 'f) loop \<Rightarrow> ('x, 'f) loop \<Rightarrow> bool" where
  "frames_step a l l' \<longleftrightarrow>
     (\<exists>fs. lp_frames l' = lp_frames l @ map (Pair (at_cred a)) fs \<and> lp_emitted l' = (lp_emitted l \<or> fs \<noteq> []))"

lemma frames_refl: "lp_frames l' = lp_frames l \<Longrightarrow> lp_emitted l' = lp_emitted l \<Longrightarrow> frames_step a l l'"
  by (simp add: frames_step_def)

lemma frames_trans:
  assumes "frames_step a l l1" "frames_step a l1 l2"
  shows "frames_step a l l2"
proof -
  from assms(1) obtain f where
    f: "lp_frames l1 = lp_frames l @ map (Pair (at_cred a)) f" "lp_emitted l1 = (lp_emitted l \<or> f \<noteq> [])"
    unfolding frames_step_def by blast
  from assms(2) obtain g where
    g: "lp_frames l2 = lp_frames l1 @ map (Pair (at_cred a)) g" "lp_emitted l2 = (lp_emitted l1 \<or> g \<noteq> [])"
    unfolding frames_step_def by blast
  from f g show ?thesis unfolding frames_step_def by (intro exI[of _ "f @ g"]) auto
qed

definition body_step :: "attempt \<Rightarrow> ('x, 'f) loop \<Rightarrow> body_end \<Rightarrow> ('x, 'f) loop \<Rightarrow> bool" where
  "body_step a l r l' \<longleftrightarrow>
     frames_step a l l'
     \<and> lp_cred l' = lp_cred l
     \<and> (case r of
          Flow Continue \<Rightarrow> lowered_again a l l'
        | Flow (Fall (Some w)) \<Rightarrow> queued_again a l l'
        | Flow (Fall None) \<Rightarrow> same_counts l l' \<or> lowered_again a l l'
        | _ \<Rightarrow> True)"

definition reading_step :: "attempt \<Rightarrow> ('x, 'f) loop \<Rightarrow> ('x, 'f) loop \<Rightarrow> bool" where
  "reading_step a l l' \<longleftrightarrow> same_counts l l' \<and> lp_cred l' = lp_cred l
     \<and> frames_step a l l'"

lemma reading_refl: "reading_step a l l"
  by (simp add: reading_step_def same_counts_def frames_refl)

lemma reading_trans: "reading_step a l l1 \<Longrightarrow> reading_step a l1 l2 \<Longrightarrow> reading_step a l l2"
  using frames_trans unfolding reading_step_def same_counts_def by fastforce

lemma reading_put: "reading_step a l (put_frames a fs (l\<lparr>lp_sink := x\<rparr>))"
  by (auto simp: reading_step_def same_counts_def put_frames_def frames_step_def)

lemma reading_finish [simp]: "reading_step a l (l\<lparr>lp_saw_finish := b\<rparr>)"
  by (simp add: reading_step_def same_counts_def frames_refl)

lemma reading_flow: "reading_step a l l1 \<Longrightarrow> flow_step a l1 f l2 \<Longrightarrow> body_step a l (Flow f) l2"
  using frames_trans frames_refl[of l2 l1 a]
  by (auto simp: reading_step_def body_step_def step_defs split: flow.splits option.splits)

lemma events_step:
  assumes "stream_events cf sk ck pe a evs l s = (r, l', s')"
  shows "case r of Broken w \<Rightarrow> (\<exists>l1. reading_step a l l1 \<and> flow_step a l1 (Fall w) l') | _ \<Rightarrow> reading_step a l l'"
  using assms
proof (induction evs arbitrary: l s)
  case Nil
  then show ?case by (simp add: reading_refl)
next
  case (Cons ev evs)
  let ?l1 = "if ev_kind ev = EvFinish then l\<lparr>lp_saw_finish := True\<rparr> else l"
  have l1: "reading_step a l ?l1" by (simp add: reading_refl)
  consider (skip) "cf_hide_reasoning cf \<and> ev_kind ev = EvReasoning"
    | (err) "\<not> (cf_hide_reasoning cf \<and> ev_kind ev = EvReasoning)" "ev_kind ev = EvError"
    | (data) "\<not> (cf_hide_reasoning cf \<and> ev_kind ev = EvReasoning)" "ev_kind ev \<noteq> EvError" by blast
  then show ?case
  proof cases
    case skip
    with Cons show ?thesis by simp
  next
    case err
    then have "r = Broken (fst (stream_error_event cf ck pe a ev l s))"
      "l' = fst (snd (stream_error_event cf ck pe a ev l s))"
      using Cons.prems by (auto simp: split_beta)
    then show ?thesis using error_event_step[of a l cf ck pe ev s] reading_refl by fastforce
  next
    case data
    show ?thesis
    proof (cases "sk_translate sk (lp_sink ?l1) ev")
      case (Inl e)
      with data Cons.prems l1 show ?thesis by (auto simp: Let_def)
    next
      case (Inr p)
      obtain fs x where p: "p = (fs, x)" by (cases p)
      have rec: "stream_events cf sk ck pe a evs (put_frames a fs (?l1\<lparr>lp_sink := x\<rparr>)) s = (r, l', s')"
        using data Cons.prems Inr p by (simp add: Let_def split: if_splits)
      note IH = Cons.IH[OF rec] and step = reading_trans[OF l1 reading_put[of a ?l1 fs x]]
      show ?thesis using IH step by (auto intro: reading_trans split: reading.splits)
    qed
  qed
qed

lemma stream_success_step:
  assumes "stream_success cf sk ck pe a l s = (r, l', s')"
  shows "body_step a l (case r of None \<Rightarrow> Done | Some f \<Rightarrow> Flow f) l'"
proof (cases "sk_finish sk (lp_sink l)")
  case (Inl e)
  then obtain y where "r = Some (fst (stream_exception cf ck pe a e l y))"
    "l' = fst (snd (stream_exception cf ck pe a e l y))"
    using assms by (auto simp: stream_success_def Let_def split_beta)
  then show ?thesis using reading_flow[OF reading_refl exception_step] by simp
next
  case (Inr p)
  obtain fs x where "p = (fs, x)" by (cases p)
  with Inr assms have "r = None" "l' = put_frames a fs (l\<lparr>lp_sink := x\<rparr>)"
    by (auto simp: stream_success_def Let_def)
  then show ?thesis by (auto simp: body_step_def put_frames_def frames_step_def)
qed

lemma reading_body: "reading_step a l l1 \<Longrightarrow> body_step a l1 r l2 \<Longrightarrow> body_step a l r l2"
proof -
  assume a: "reading_step a l l1" and b: "body_step a l1 r l2"
  then have fr: "frames_step a l l2" using frames_trans unfolding reading_step_def body_step_def by blast
  have "case r of Flow Continue \<Rightarrow> lowered_again a l l2 | Flow (Fall (Some w)) \<Rightarrow> queued_again a l l2
      | Flow (Fall None) \<Rightarrow> same_counts l l2 \<or> lowered_again a l l2 | _ \<Rightarrow> True"
    using a b unfolding reading_step_def body_step_def
    by (auto simp: step_defs split: body_end.splits flow.splits option.splits)
  with a b fr show ?thesis unfolding reading_step_def body_step_def by simp
qed

lemma stream_body_step:
  "body_step a l (fst (stream_body cf sk ai a l s)) (fst (snd (stream_body cf sk ai a l s)))"
proof -
  obtain r l1 y where r: "stream_events cf sk (ai_seen ai) (ai_probe ai) a (ai_events ai) (l\<lparr>lp_saw_finish := False\<rparr>) s = (r, l1, y)"
    using prod_cases3 by blast
  note ev = events_step[OF r]
  have l0: "reading_step a l (l\<lparr>lp_saw_finish := False\<rparr>)" by simp
  have exc: "reading_step a l l1 \<Longrightarrow> body_step a l (Flow (fst (stream_exception cf (ai_seen ai) (ai_probe ai) a e l1 y)))
      (fst (snd (stream_exception cf (ai_seen ai) (ai_probe ai) a e l1 y)))" for e
    by (rule reading_flow[OF _ exception_step])
  show ?thesis
  proof (cases r)
    case (Broken w)
    with ev obtain l2 where "reading_step a (l\<lparr>lp_saw_finish := False\<rparr>) l2" "flow_step a l2 (Fall w) l1" by auto
    then have "body_step a l (Flow (Fall w)) l1" using reading_flow reading_trans[OF l0] by blast
    with r Broken show ?thesis by (simp add: stream_body_def Let_def)
  next
    case (Thrown e)
    with ev have "reading_step a l l1" using reading_trans[OF l0] by simp
    from exc[OF this] r Thrown show ?thesis by (simp add: stream_body_def Let_def split_beta)
  next
    case Consumed
    with ev have l1: "reading_step a l l1" using reading_trans[OF l0] by simp
    show ?thesis
    proof (cases "ai_end ai")
      case EndNormal
      obtain q l2 s2 where q: "stream_success cf sk (ai_seen ai) (ai_probe ai) a l1 y = (q, l2, s2)"
        using prod_cases3 by blast
      from reading_body[OF l1 stream_success_step[OF q]] r Consumed EndNormal q
      show ?thesis by (simp add: stream_body_def Let_def split: option.splits)
    next
      case (EndDisconnect b)
      have "body_step a l (Disconnected b) l1" using l1 by (simp add: reading_step_def body_step_def)
      with r Consumed EndDisconnect show ?thesis by (simp add: stream_body_def Let_def)
    qed (use exc[OF l1] r Consumed in \<open>simp_all add: stream_body_def Let_def split_beta\<close>)
  qed
qed

lemma collect_queued: "collect_events cf a evs acc l = Queued p \<Longrightarrow> \<exists>r. plan_for a r l = Some p"
  by (induction evs arbitrary: acc) (auto simp: Let_def split: if_splits option.splits)

lemma complete_body_step:
  "body_step a l (fst (complete_body cf ai a l s)) (fst (snd (complete_body cf ai a l s)))"
proof -
  note fl = reading_flow[OF reading_refl]
  have q: "collect_events cf a (ai_events ai) [] l = Queued p \<Longrightarrow>
      body_step a l (Flow (Fall (Some (qr_wait p)))) (restart_loop p l)" for p
    using collect_queued[of cf a "ai_events ai" "[]" l p] plan_step[of a _ l p] fl by blast
  have other: "body_step a l Done l" "body_step a l (Disconnected b) l" "body_step a l (Flow (Escape e)) l" for b e
    by (simp_all add: body_step_def frames_refl)
  show ?thesis
    by (simp add: complete_body_def Let_def split_beta q other fl[OF exception_step] fl[OF transient_step]
        fl[OF complete_error_step] split: collecting.split stream_end.split aggregated.split)
qed

section \<open>A retry loop ends\<close>

text \<open>
  The interface of a loop over inputs: a round either ends it or leaves a smaller measure. The
  client lemma is that it ends once it is given more inputs than the measure, and that a property
  of the state at the start of a round is a property of the state at the end.
\<close>

locale retry_loop =
  fixes round :: "'i \<Rightarrow> 'l \<Rightarrow> 's \<Rightarrow> ((('o \<times> 's) + 's) \<times> 'l) option"
    and run :: "'i list \<Rightarrow> 'l \<Rightarrow> 's \<Rightarrow> ('o \<times> 'l \<times> 's) option"
    and good :: "'i \<Rightarrow> bool" and inv :: "'s \<Rightarrow> bool" and fuel :: "'l \<Rightarrow> nat"
  assumes run_Nil: "run [] l s = None"
    and run_Cons: "run (i # is) l s =
      (case round i l s of
         None \<Rightarrow> None
       | Some (Inl (out, s'), l') \<Rightarrow> Some (out, l', s')
       | Some (Inr s', l') \<Rightarrow> run is l' s')"
    and round_total: "good i \<Longrightarrow> inv s \<Longrightarrow> round i l s \<noteq> None"
    and round_inv: "good i \<Longrightarrow> inv s \<Longrightarrow> round i l s = Some (Inr s', l') \<Longrightarrow> inv s'"
    and round_less: "good i \<Longrightarrow> inv s \<Longrightarrow> round i l s = Some (Inr s', l') \<Longrightarrow> fuel l' < fuel l"
begin

lemma ends:
  "\<forall>i \<in> set is. good i \<Longrightarrow> inv s \<Longrightarrow> fuel l < length is \<Longrightarrow> \<exists>r. run is l s = Some r"
proof (induction "is" arbitrary: l s)
  case Nil
  then show ?case by simp
next
  case (Cons i "is")
  have gi: "good i" "\<forall>j \<in> set is. good j" using Cons.prems(1) by simp_all
  obtain r l' where r: "round i l s = Some (r, l')" using round_total[OF gi(1) Cons.prems(2)] by fastforce
  show ?case
  proof (cases r)
    case (Inl p)
    with r show ?thesis by (cases p) (simp add: run_Cons)
  next
    case (Inr s')
    note r' = r[unfolded Inr]
    have "fuel l' < length is" using round_less[OF gi(1) Cons.prems(2) r'] Cons.prems(3) by simp
    from Cons.IH[OF gi(2) round_inv[OF gi(1) Cons.prems(2) r'] this] r'
    show ?thesis by (simp add: run_Cons)
  qed
qed

lemma reaches:
  assumes run: "run is l s = Some (out, l', s')" and good: "\<forall>i \<in> set is. good i \<and> G i" and "inv s" "P l s"
    and again: "\<And>i l s l' s'. good i \<Longrightarrow> G i \<Longrightarrow> inv s \<Longrightarrow> P l s \<Longrightarrow> round i l s = Some (Inr s', l') \<Longrightarrow> P l' s'"
    and stop: "\<And>i l s out l' s'. good i \<Longrightarrow> G i \<Longrightarrow> inv s \<Longrightarrow> P l s \<Longrightarrow> round i l s = Some (Inl (out, s'), l') \<Longrightarrow> Q out l' s'"
  shows "Q out l' s'"
  using assms(1-4)
proof (induction "is" arbitrary: l s)
  case Nil
  then show ?case by (simp add: run_Nil)
next
  case (Cons i "is")
  have gi: "good i" "G i" "\<forall>j \<in> set is. good j \<and> G j" using Cons.prems(2) by simp_all
  obtain r l1 where r: "round i l s = Some (r, l1)" using round_total[OF gi(1) Cons.prems(3)] by fastforce
  show ?case
  proof (cases r)
    case (Inl p)
    obtain o1 s1 where p: "p = (o1, s1)" by (cases p)
    with Inl r Cons.prems(1) have "o1 = out" "l1 = l'" "s1 = s'" by (simp_all add: run_Cons)
    with stop[OF gi(1,2) Cons.prems(3,4)] r Inl p show ?thesis by simp
  next
    case (Inr s1)
    note r' = r[unfolded Inr]
    have "run is l1 s1 = Some (out, l', s')" using Cons.prems(1) r' by (simp add: run_Cons)
    from Cons.IH[OF this gi(3) round_inv[OF gi(1) Cons.prems(3) r'] again[OF gi(1,2) Cons.prems(3,4) r']]
    show ?thesis .
  qed
qed

end

text \<open>What the rest of the process does between the steps of a request keeps the tracker well-formed.\<close>

definition fair_input :: "attempt_input \<Rightarrow> bool" where
  "fair_input ai \<longleftrightarrow> (\<forall>s. tr_ok (en_tracker s) \<longrightarrow> tr_ok (en_tracker (ai_wait ai s))
     \<and> tr_ok (en_tracker (ai_during ai s)) \<and> tr_ok (en_tracker (ai_sleep ai s))
     \<and> tr_ok (en_tracker (pe_during (ai_probe ai) s)))"

lemma fair_inputD:
  assumes "fair_input ai" "tr_ok (en_tracker s)"
  shows "tr_ok (en_tracker (ai_during ai s))" "tr_ok (en_tracker (ai_sleep ai s))" "tr_ok (en_tracker (ai_wait ai s))"
  using assms by (simp_all add: fair_input_def)

lemma fair_probe: "fair_input ai \<Longrightarrow> tr_ok (en_tracker s) \<longrightarrow> tr_ok (en_tracker (pe_during (ai_probe ai) s))"
  by (simp add: fair_input_def)

definition loop_fuel :: "config \<Rightarrow> ('x, 'f) loop \<Rightarrow> nat" where
  "loop_fuel cf l = nat (sch_max_rotate (cf_scheduler cf) - lp_attempts l)
     + 2 * nat (QUEUE_MAX_ROUNDS - lp_queue_rounds l)
     + (if lp_retried l then 0 else 2) + (if lp_pinned l = None then 0 else 1)"

lemma loop_fuel_start: "loop_fuel cf (loop0 x) = nat (sch_max_rotate (cf_scheduler cf)) + 8"
  by (simp add: loop_fuel_def loop0_def QUEUE_MAX_ROUNDS_def)

lemma fuel_decreases:
  assumes "lp_pinned l1 = None" "lp_pinned l \<noteq> None \<and> lp_attempts l1 = lp_attempts l \<or> lp_attempts l1 = lp_attempts l + 1"
    "lp_queue_rounds l1 = lp_queue_rounds l" "lp_retried l1 = lp_retried l"
    "body_step a l1 (Flow f) l2" "f = Fall None \<Longrightarrow> should_rotate (cf_scheduler cf) (lp_attempts l2)" "\<And>e. f \<noteq> Escape e"
  shows "loop_fuel cf l2 < loop_fuel cf l"
proof -
  consider (low) "lowered_again a l1 l2" | (queue) "queued_again a l1 l2"
    | (same) "f = Fall None" "same_counts l1 l2"
    using assms(5,7) by (auto simp: body_step_def split: flow.splits option.splits)
  then show ?thesis
  proof cases
    case low
    with assms(1-4) show ?thesis by (auto simp: loop_fuel_def lowered_again_def)
  next
    case queue
    then have q: "nat (QUEUE_MAX_ROUNDS - lp_queue_rounds l) = Suc (nat (QUEUE_MAX_ROUNDS - lp_queue_rounds l2))"
      using assms(3) by (auto simp: queued_again_def)
    have "nat (m - (n - 1)) \<le> Suc (nat (m - n))" for m n :: int by linarith
    from this[of "sch_max_rotate (cf_scheduler cf)" "lp_attempts l"] queue q assms(1,2,4) show ?thesis
      by (auto simp: loop_fuel_def queued_again_def)
  next
    case same
    then show ?thesis using assms(1-4) assms(6)[OF same(1)]
      by (auto simp: loop_fuel_def same_counts_def should_rotate_def)
  qed
qed

lemma lease_tracker:
  "en_tracker (lease cf ck cid s) = (if cf_inflight cf = None then en_tracker s else tr_acquire cid (ck_mono ck) (en_tracker s))"
  unfolding lease_def Let_def ig_acquire_def by (cases "cf_inflight cf") (simp_all split: option.split)

lemma release_tracker:
  "en_tracker (release cf cid s) = (if cf_inflight cf = None then en_tracker s else tr_release cid (en_tracker s))"
  unfolding release_def Let_def ig_release_def by simp

lemma tracker_lease: "tr_ok (en_tracker s) \<Longrightarrow> tr_ok (en_tracker (lease cf ck cid s))"
  by (simp add: lease_tracker tr_ok_acquire)

lemma tracker_release: "tr_ok (en_tracker s) \<Longrightarrow> tr_ok (en_tracker (release cf cid s))"
  by (simp add: release_tracker tr_ok_release)

text \<open>Acquiring a credential: always an answer; at most one attempt is charged, none when the pinned
  credential is used.\<close>

lemma obtain_cases:
  assumes "tr_ok (en_tracker s)" "fair_input ai"
  obtains (pinned) p where "lp_pinned l \<noteq> None"
      "obtain_cred cf t aff ai l s = Some (Inr (Some p), l\<lparr>lp_pinned := None\<rparr>, ai_clock ai, s)"
      "pinned_ready l (en_store s) = Some p"
    | (picked) c d tried ck s1 where "pick cf t (ai_wait ai) aff (ai_clock ai) (lp_tried l) s = Some (Inr (Some (c, d)), tried, ck, s1)"
      "obtain_cred cf t aff ai l s = Some (Inr (Some (c, d)),
         l\<lparr>lp_pinned := None, lp_tried := insert c tried, lp_attempts := lp_attempts l + 1\<rparr>, ck, s1)"
      "tr_ok (en_tracker s1)"
    | (none) r tried ck s1 where "pick cf t (ai_wait ai) aff (ai_clock ai) (lp_tried l) s = Some (r, tried, ck, s1)"
      "obtain_cred cf t aff ai l s = Some (r, l\<lparr>lp_pinned := None, lp_tried := tried\<rparr>, ck, s1)"
      "r = Inr None \<or> (\<exists>e. r = Inl e)" "tr_ok (en_tracker s1)"
proof (cases "pinned_ready l (en_store s)")
  case (Some p)
  then show ?thesis by (intro pinned) (auto simp: pinned_ready_def obtain_cred_def split: option.splits)
next
  case None
  obtain r tried ck s1 where p: "pick cf t (ai_wait ai) aff (ai_clock ai) (lp_tried l) s = Some (r, tried, ck, s1)"
    "tr_ok (en_tracker s1)"
    using pick_total[OF assms(1), of "ai_wait ai" cf t aff "ai_clock ai" "lp_tried l"] assms(2)
    unfolding fair_input_def by metis
  consider c d where "r = Inr (Some (c, d))" | "r = Inr None" | e where "r = Inl e"
    by (metis option.exhaust prod.exhaust sum.exhaust)
  then show ?thesis
  proof cases
    case 1
    with None p show ?thesis by (intro picked) (simp_all add: obtain_cred_def)
  qed (use None p in \<open>auto intro!: none simp: obtain_cred_def\<close>)
qed

section \<open>The rounds of the two loops\<close>

lemma start_attempt_Some:
  "start_attempt cf t raw cd l s = (Some a, l2) \<Longrightarrow> at_cred a = fst cd \<and> at_target a = t \<and> lp_cred l2 = Some (fst cd)
     \<and> (\<exists>p. l2 = l\<lparr>lp_provider := p, lp_cred := Some (fst cd)\<rparr>)"
  by (auto simp: start_attempt_def Let_def split: option.splits if_splits)

text \<open>A round that goes round again: the attempt it made and how its body ended.\<close>

lemma stream_round_again:
  assumes "stream_round cf sk t raw aff ai l s = Some (Inr s', l')"
  obtains cd l1 ck s1 a l2 f s3 where "obtain_cred cf t aff ai l s = Some (Inr (Some cd), l1, ck, s1)"
    "start_attempt cf t raw cd l1 s1 = (Some a, l2)"
    "stream_body cf sk ai a l2 (ai_during ai (lease cf ck (at_cred a) s1)) = (Flow f, l', s3)"
    "\<forall>e. f \<noteq> Escape e" "f = Fall None \<longrightarrow> rotates cf l'"
    "s' = release cf (at_cred a) s3 \<or> s' = ai_sleep ai (release cf (at_cred a) s3)"
proof -
  from assms obtain cd l1 ck s1 where o: "obtain_cred cf t aff ai l s = Some (Inr (Some cd), l1, ck, s1)"
    by (auto simp: stream_round_def split: option.splits sum.splits)
  with assms obtain a l2 where a: "start_attempt cf t raw cd l1 s1 = (Some a, l2)"
    by (auto simp: stream_round_def split: option.splits prod.splits)
  obtain r l3 s3 where b: "stream_body cf sk ai a l2 (ai_during ai (lease cf ck (at_cred a) s1)) = (r, l3, s3)"
    using prod_cases3 by blast
  from assms o a b have *: "stream_after cf sk ai a r l3 s3 = Inr s'" "l3 = l'"
    by (auto simp: stream_round_def)
  then obtain f where "r = Flow f" "\<forall>e. f \<noteq> Escape e" "f = Fall None \<longrightarrow> rotates cf l'"
    "s' = release cf (at_cred a) s3 \<or> s' = ai_sleep ai (release cf (at_cred a) s3)"
    by (auto simp: stream_after_def Let_def split: body_end.splits flow.splits option.splits if_splits)
  with o a b *(2) show ?thesis using that by blast
qed

lemma complete_round_again:
  assumes "complete_round cf t raw aff ai l s = Some (Inr s', l')"
  obtains cd l1 ck s1 a l2 f s3 where "obtain_cred cf t aff ai l s = Some (Inr (Some cd), l1, ck, s1)"
    "start_attempt cf t raw cd l1 s1 = (Some a, l2)"
    "complete_body cf ai a l2 (ai_during ai (lease cf ck (at_cred a) s1)) = (Flow f, l', s3)"
    "\<forall>e. f \<noteq> Escape e" "f = Fall None \<longrightarrow> should_rotate (cf_scheduler cf) (lp_attempts l')"
    "s' = release cf (at_cred a) s3 \<or> s' = ai_sleep ai (release cf (at_cred a) s3)"
proof -
  from assms obtain cd l1 ck s1 where o: "obtain_cred cf t aff ai l s = Some (Inr (Some cd), l1, ck, s1)"
    by (auto simp: complete_round_def split: option.splits sum.splits)
  with assms obtain a l2 where a: "start_attempt cf t raw cd l1 s1 = (Some a, l2)"
    by (auto simp: complete_round_def split: option.splits prod.splits)
  obtain r l3 s3 where b: "complete_body cf ai a l2 (ai_during ai (lease cf ck (at_cred a) s1)) = (r, l3, s3)"
    using prod_cases3 by blast
  from assms o a b have *: "complete_after cf ai a r l3 s3 = Inr s'" "l3 = l'"
    by (auto simp: complete_round_def)
  then obtain f where "r = Flow f" "\<forall>e. f \<noteq> Escape e" "f = Fall None \<longrightarrow> should_rotate (cf_scheduler cf) (lp_attempts l')"
    "s' = release cf (at_cred a) s3 \<or> s' = ai_sleep ai (release cf (at_cred a) s3)"
    by (auto simp: complete_after_def Let_def split: body_end.splits flow.splits option.splits if_splits)
  with o a b *(2) show ?thesis using that by blast
qed

lemma round_counts:
  assumes "tr_ok (en_tracker s)" "fair_input ai" "obtain_cred cf t aff ai l s = Some (Inr (Some cd), l1, ck, s1)"
  shows "lp_pinned l1 = None" "lp_pinned l \<noteq> None \<and> lp_attempts l1 = lp_attempts l \<or> lp_attempts l1 = lp_attempts l + 1"
    "lp_queue_rounds l1 = lp_queue_rounds l" "lp_retried l1 = lp_retried l" "lp_frames l1 = lp_frames l"
    "lp_emitted l1 = lp_emitted l" "tr_ok (en_tracker s1)"
  using assms by (rule_tac obtain_cases[OF assms(1,2), where cf = cf and t = t and aff = aff and l = l]; auto)+

lemma again_less:
  assumes "tr_ok (en_tracker s)" "fair_input ai" "obtain_cred cf t aff ai l s = Some (Inr (Some cd), l1, ck, s1)"
    "start_attempt cf t raw cd l1 s1 = (Some a, l2)" "body_step a l2 (Flow f) l'"
    "\<forall>e. f \<noteq> Escape e" "f = Fall None \<longrightarrow> should_rotate (cf_scheduler cf) (lp_attempts l')"
  shows "loop_fuel cf l' < loop_fuel cf l"
proof -
  obtain p where "l2 = l1\<lparr>lp_provider := p, lp_cred := Some (fst cd)\<rparr>"
    using start_attempt_Some[OF assms(4)] by blast
  then show ?thesis using fuel_decreases[where ?l1.0 = l2 and l = l and a = a and f = f and ?l2.0 = l' and cf = cf] round_counts(1-4)[OF assms(1-3)] assms(5-7) by simp
qed

interpretation streaming: retry_loop "stream_round cf sk t raw aff" "stream_loop cf sk t raw aff" fair_input
  "\<lambda>s :: engine. tr_ok (en_tracker s)" "loop_fuel cf" for cf sk t raw aff
proof
  fix ai l l' and s s' :: engine
  assume g: "fair_input ai" "tr_ok (en_tracker s)"
  show "stream_round cf sk t raw aff ai l s \<noteq> None"
    by (rule obtain_cases[OF g(2,1), where cf = cf and t = t and aff = aff and l = l])
       (auto simp: stream_round_def split_beta split: option.splits sum.splits)
  assume r: "stream_round cf sk t raw aff ai l s = Some (Inr s', l')"
  from r obtain cd l1 ck s1 a l2 f s3 where
    o: "obtain_cred cf t aff ai l s = Some (Inr (Some cd), l1, ck, s1)" and
    a: "start_attempt cf t raw cd l1 s1 = (Some a, l2)" and
    b: "stream_body cf sk ai a l2 (ai_during ai (lease cf ck (at_cred a) s1)) = (Flow f, l', s3)" and
    f: "\<forall>e. f \<noteq> Escape e" "f = Fall None \<longrightarrow> rotates cf l'" and
    s': "s' = release cf (at_cred a) s3 \<or> s' = ai_sleep ai (release cf (at_cred a) s3)"
    by (rule stream_round_again) blast
  have "tr_ok (en_tracker (ai_during ai (lease cf ck (at_cred a) s1)))"
    by (rule fair_inputD(1)[OF g(1) tracker_lease[OF round_counts(7)[OF g(2,1) o]]])
  then have s3: "tr_ok (en_tracker s3)"
    using tracker.stream_bodied[where ai = ai, OF fair_probe[OF g(1)] impI, of _ _ cf sk a l2] b by (metis snd_conv)
  show "tr_ok (en_tracker s')"
    using s' tracker_release[OF s3] fair_inputD(2)[OF g(1) tracker_release[OF s3]] by auto
  show "loop_fuel cf l' < loop_fuel cf l"
    using again_less[OF g(2,1) o a _ f(1)] stream_body_step[where a = a and l = l2 and cf = cf and sk = sk and ai = ai] b f(2)
    by (metis fst_conv rotates_def snd_conv)
qed simp_all

interpretation completing: retry_loop "complete_round cf t raw aff" "complete_model cf t raw aff" fair_input
  "\<lambda>s :: engine. tr_ok (en_tracker s)" "loop_fuel cf" for cf t raw aff
proof
  fix ai l l' and s s' :: engine
  assume g: "fair_input ai" "tr_ok (en_tracker s)"
  show "complete_round cf t raw aff ai l s \<noteq> None"
    by (rule obtain_cases[OF g(2,1), where cf = cf and t = t and aff = aff and l = l])
       (auto simp: complete_round_def split_beta split: option.splits sum.splits)
  assume r: "complete_round cf t raw aff ai l s = Some (Inr s', l')"
  from r obtain cd l1 ck s1 a l2 f s3 where
    o: "obtain_cred cf t aff ai l s = Some (Inr (Some cd), l1, ck, s1)" and
    a: "start_attempt cf t raw cd l1 s1 = (Some a, l2)" and
    b: "complete_body cf ai a l2 (ai_during ai (lease cf ck (at_cred a) s1)) = (Flow f, l', s3)" and
    f: "\<forall>e. f \<noteq> Escape e" "f = Fall None \<longrightarrow> should_rotate (cf_scheduler cf) (lp_attempts l')" and
    s': "s' = release cf (at_cred a) s3 \<or> s' = ai_sleep ai (release cf (at_cred a) s3)"
    by (rule complete_round_again) blast
  have "tr_ok (en_tracker (ai_during ai (lease cf ck (at_cred a) s1)))"
    by (rule fair_inputD(1)[OF g(1) tracker_lease[OF round_counts(7)[OF g(2,1) o]]])
  then have s3: "tr_ok (en_tracker s3)"
    using tracker.complete_bodied[where ai = ai, OF fair_probe[OF g(1)] impI, of _ _ cf a l2] b by (metis snd_conv)
  show "tr_ok (en_tracker s')"
    using s' tracker_release[OF s3] fair_inputD(2)[OF g(1) tracker_release[OF s3]] by auto
  show "loop_fuel cf l' < loop_fuel cf l"
    using again_less[OF g(2,1) o a _ f(1)] complete_body_step[where a = a and l = l2 and cf = cf and ai = ai] b f(2)
    by (metis fst_conv snd_conv)
qed simp_all

text \<open>C3. A request ends: whatever the upstreams answer and whatever the rest of the process does
  between its steps, both loops come to an outcome after at most the rotation limit plus nine
  rounds (three queue restarts and one effort retry included).\<close>

theorem retry_loops_end:
  assumes "\<forall>ai \<in> set inputs. fair_input ai" and "tr_ok (en_tracker s)"
    and "nat (sch_max_rotate (cf_scheduler cf)) + 9 \<le> length inputs"
  shows "(\<exists>r. stream_loop cf sk t raw affinity_id inputs (loop0 x) s = Some r)
    \<and> (\<exists>r. complete_model cf t raw affinity_id inputs (loop0 ()) s = Some r)"
proof -
  have fuel: "nat (sch_max_rotate (cf_scheduler cf)) + 8 < length inputs" using assms(3) by simp
  have "\<exists>r. stream_loop cf sk t raw affinity_id inputs (loop0 x) s = Some r"
    by (rule streaming.ends[OF assms(1,2)]) (simp add: loop_fuel_start fuel)
  moreover have "\<exists>r. complete_model cf t raw affinity_id inputs (loop0 ()) s = Some r"
    by (rule completing.ends[OF assms(1,2)]) (simp add: loop_fuel_start fuel)
  ultimately show ?thesis by blast
qed

end
