(* ===== verification/ExecOutcome.thy ===== *)
theory ExecOutcome
  imports ExecRun
begin

text \<open>
  What the outcome of a request tells, over all runs of the loops: no response mixes two
  credentials, every failure leaves a usage row, leases are given back; and the corner cases in which
  the loops do something other than their comments say.
\<close>

section \<open>One response, one credential\<close>

definition fresh_loop :: "('x, 'f) loop \<Rightarrow> bool" where
  "fresh_loop l \<longleftrightarrow> lp_frames l = [] \<and> \<not> lp_emitted l"

definition one_source :: "('x, 'f) loop \<Rightarrow> bool" where
  "one_source l \<longleftrightarrow> (\<exists>c. \<forall>(d, f) \<in> set (lp_frames l). d = c) \<and> (lp_emitted l \<longleftrightarrow> lp_frames l \<noteq> [])"

lemma fresh_one_source: "fresh_loop l \<Longrightarrow> one_source l"
  by (simp add: fresh_loop_def one_source_def)

lemma start_attempt_fresh:
  "start_attempt cf t raw cd l s = (ao, l2) \<Longrightarrow> fresh_loop l \<Longrightarrow> fresh_loop l2"
  by (auto simp: start_attempt_def fresh_loop_def Let_def split: option.splits if_splits)

lemma body_one_source:
  assumes "body_step a l r l'" "fresh_loop l"
  shows "one_source l'"
proof -
  obtain fs where fs: "lp_frames l' = lp_frames l @ map (Pair (at_cred a)) fs" "lp_emitted l' = (lp_emitted l \<or> fs \<noteq> [])"
    using assms(1) unfolding body_step_def frames_step_def by blast
  have "\<forall>(d, f) \<in> set (lp_frames l'). d = at_cred a" using fs(1) assms(2) by (auto simp: fresh_loop_def)
  with fs assms(2) show ?thesis unfolding one_source_def fresh_loop_def by auto
qed

lemma obtain_fresh:
  assumes "obtain_cred cf t aff ai l s = Some (r, l1, ck, s1)" "fresh_loop l"
  shows "fresh_loop l1"
  using assms by (auto simp: obtain_cred_def fresh_loop_def Let_def split: option.splits sum.splits prod.splits)

lemma round_one_source:
  assumes "stream_round cf sk t raw aff ai l s = Some (r, l')" "fresh_loop l"
  shows "one_source l'" "r = Inr s' \<Longrightarrow> fresh_loop l'" "r = Inl (Exhausted code, s') \<Longrightarrow> fresh_loop l'"
proof -
  obtain q l1 ck s1 where o: "obtain_cred cf t aff ai l s = Some (q, l1, ck, s1)"
    using assms(1) by (auto simp: stream_round_def split: option.splits)
  note l1 = obtain_fresh[OF o assms(2)]
  have all: "one_source l' \<and> (\<forall>s'. r = Inr s' \<longrightarrow> fresh_loop l') \<and> (\<forall>code s'. r = Inl (Exhausted code, s') \<longrightarrow> fresh_loop l')"
  proof (cases "\<exists>cd. q = Inr (Some cd)")
    case False
    then have "l' = l1" using assms(1) o by (auto simp: stream_round_def split: sum.splits option.splits)
    with l1 fresh_one_source[OF l1] show ?thesis by simp
  next
    case True
    then obtain cd where q: "q = Inr (Some cd)" by blast
    obtain ao l2 where a: "start_attempt cf t raw cd l1 s1 = (ao, l2)" by fastforce
    note l2 = start_attempt_fresh[OF a l1]
    show ?thesis
    proof (cases ao)
      case None
      with assms(1) o q a have "l' = l2" by (auto simp: stream_round_def)
      with l2 fresh_one_source[OF l2] show ?thesis by simp
    next
      case (Some at1)
      obtain b l3 s3 where b: "stream_body cf sk ai at1 l2 (ai_during ai (lease cf ck (at_cred at1) s1)) = (b, l3, s3)"
        using prod_cases3 by blast
      have r: "r = stream_after cf sk ai at1 b l3 s3" "l' = l3"
        using assms(1) o q a Some b by (auto simp: stream_round_def)
      have step: "body_step at1 l2 b l3"
        using stream_body_step[where a = at1 and l = l2 and cf = cf and sk = sk and ai = ai] b by (metis fst_conv snd_conv)
      note src = body_one_source[OF step l2]
      have ne: "\<not> lp_emitted l3 \<Longrightarrow> fresh_loop l3" using src by (simp add: one_source_def fresh_loop_def)
      have "\<not> lp_emitted l3" if "r = Inr y" for y
        using that r(1) step
        by (auto simp: stream_after_def body_step_def lowered_again_def queued_again_def rotates_def Let_def
            split: body_end.splits flow.splits option.splits if_splits)
      moreover have "\<not> lp_emitted l3" if "r = Inl (Exhausted code, y)" for code y
        using that r(1)
        by (auto simp: stream_after_def stream_stop_def terminal_outcome_def Let_def
            split: body_end.splits flow.splits option.splits if_splits)
      ultimately show ?thesis using ne src r(2) by blast
    qed
  qed
  show "one_source l'" "r = Inr s' \<Longrightarrow> fresh_loop l'" "r = Inl (Exhausted code, s') \<Longrightarrow> fresh_loop l'"
    using all by blast+
qed

lemma loop_one_source:
  "stream_loop cf sk t raw aff inputs l s = Some (out, l', s') \<Longrightarrow> fresh_loop l \<Longrightarrow>
     one_source l' \<and> (\<forall>code. out = Exhausted code \<longrightarrow> fresh_loop l')"
proof (induction inputs arbitrary: l s)
  case (Cons ai inputs)
  obtain r l1 where r: "stream_round cf sk t raw aff ai l s = Some (r, l1)"
    using Cons.prems(1) by (auto split: option.splits)
  note rs = round_one_source[OF r Cons.prems(2)]
  show ?case
  proof (cases r)
    case (Inl p)
    obtain o1 s1 where p: "p = (o1, s1)" by (cases p)
    with Inl r Cons.prems(1) have "o1 = out" "l1 = l'" by auto
    with rs(1,3) Inl p show ?thesis by auto
  next
    case (Inr s1)
    with r Cons.prems(1) have "stream_loop cf sk t raw aff inputs l1 s1 = Some (out, l', s')" by simp
    with Cons.IH rs(2) Inr show ?thesis by blast
  qed
qed simp

lemma chain_one_source:
  "stream_chain cf sk fresh raw aff ts inputs code l s = Some (out, l', s') \<Longrightarrow> lp_frames l = [] \<Longrightarrow>
   \<exists>c. \<forall>(d, f) \<in> set (lp_frames l'). d = c"
proof (induction cf sk fresh raw aff ts inputs code l s rule: stream_chain.induct)
  case (3 cf sk fresh raw aff t ts ais inputs code l s)
  let ?l = "next_loop (fresh (mt_model t)) l"
  have f: "fresh_loop ?l" using "3.prems"(2) by (simp add: fresh_loop_def next_loop_def loop0_def)
  obtain o1 l1 s1 where r: "stream_loop cf sk t (with_model (mt_model t) raw) aff ais ?l s = Some (o1, l1, s1)"
    using "3.prems"(1) by (auto split: option.splits)
  note src = loop_one_source[OF r f]
  show ?case
  proof (cases "\<exists>code1. o1 = Exhausted code1")
    case True
    then obtain code1 where c: "o1 = Exhausted code1" by blast
    from "3.IH"[OF r refl c refl] "3.prems"(1) r c src show ?thesis by (simp add: fresh_loop_def)
  next
    case False
    with "3.prems"(1) r have "l' = l1" by (auto split: outcome.splits)
    with src show ?thesis by (simp add: one_source_def)
  qed
qed auto


section \<open>Sample inputs\<close>

definition echo_sink :: "(unit, event_kind) sink" where
  "echo_sink = \<lparr>sk_translate = (\<lambda>x ev. Inr ([ev_kind ev], x)), sk_finish = (\<lambda>x. Inr ([], x)),
     sk_usage_known = (\<lambda>x. False), sk_done_sent = (\<lambda>x. False)\<rparr>"

definition no_probe :: probe_env where
  "no_probe = \<lparr>pe_answer = NoProbe, pe_during = id, pe_done = 0\<rparr>"

definition sample_input :: "event list \<Rightarrow> stream_end \<Rightarrow> attempt_input" where
  "sample_input evs e = \<lparr>ai_clock = sample_clock, ai_wait = id, ai_events = evs, ai_end = e, ai_during = id,
     ai_seen = sample_clock, ai_probe = no_probe, ai_sleep = id\<rparr>"

definition content_event :: event where
  "content_event = (mk_event EvContent)\<lparr>ev_content := Some [104, 105]\<rparr>"

definition error_event :: "err_kind \<Rightarrow> event" where
  "error_event k = (mk_event EvError)\<lparr>ev_error_kind := Some k\<rparr>"

lemma fair_sample: "fair_input (sample_input evs e)"
  by (simp add: fair_input_def sample_input_def no_probe_def)

abbreviation run_summary :: "(outcome \<times> ('x, 'f) loop \<times> engine) option \<Rightarrow> (outcome \<times> (cred_id \<times> 'f) list) option" where
  "run_summary r \<equiv> map_option (\<lambda>(out, l, s). (out, lp_frames l)) r"

lemma sample_failover:
  "run_summary (stream_request sample_config echo_sink (\<lambda>m. ()) [] None sample_target
     [[sample_input [error_event SOFT] EndNormal, sample_input [content_event, mk_event EvFinish] EndNormal]] sample_engine)
   = Some (OkDone, [(''b'', EvContent), (''b'', EvFinish)])"
  by code_simp


theorem retry_loops_end_witness:
  "\<exists>r. stream_loop sample_config echo_sink sample_target [] None (replicate 12 (sample_input [error_event SOFT] EndNormal))
     (loop0 ()) sample_engine = Some r"
proof -
  have "\<forall>ai \<in> set (replicate 12 (sample_input [error_event SOFT] EndNormal)). fair_input ai" by (simp add: fair_sample)
  moreover have "nat (sch_max_rotate (cf_scheduler sample_config)) + 9
      \<le> length (replicate 12 (sample_input [error_event SOFT] EndNormal))"
    by (simp add: sample_config_def default_scheduler_def sched_consts)
  ultimately show ?thesis by (rule retry_loops_end[OF _ sample_tracker_ok, THEN conjunct1])
qed

section \<open>Every failure leaves a usage row\<close>

text \<open>The loop believes a row exists when an attempt was attributed or the request rejected; from
  \<open>n\<close> rows at the start that belief is right.\<close>

definition accounted :: "nat \<Rightarrow> ('x, 'f) loop \<Rightarrow> engine \<Rightarrow> bool" where
  "accounted n l s \<longleftrightarrow> n \<le> length (en_rows s) \<and>
     (lp_attributed l \<or> (\<exists>k. lp_last_kind l = Some k \<and> k \<in> set REJECT_KINDS) \<longrightarrow> n < length (en_rows s))"

lemma accounted_mono: "accounted n l s \<Longrightarrow> length (en_rows s) \<le> length (en_rows s') \<Longrightarrow>
   lp_attributed l' = lp_attributed l \<Longrightarrow> lp_last_kind l' = lp_last_kind l \<Longrightarrow> accounted n l' s'"
  by (auto simp: accounted_def)

lemma rows_pause [simp]: "en_rows (pause_provider_on_burst ck p c s) = en_rows s"
  by (simp add: pause_provider_on_burst_def Let_def split_beta)

lemma note_rows:
  "length (en_rows (snd (note_upstream_error cf ck cid k p m e s)))
     = length (en_rows s) + (if fst (note_upstream_error cf ck cid k p m e s) then 1 else 0)"
  by (simp add: note_upstream_error_def Let_def add_row_def)

lemma accounted_note:
  "accounted n l s \<Longrightarrow> accounted n (fst (note_attempt cf ck a k e l s)) (snd (note_attempt cf ck a k e l s))"
  by (auto simp: note_attempt_def split_beta accounted_def note_rows)

lemma accounted_note_engine:
  "accounted n l s \<Longrightarrow> accounted n l (snd (note_attempt cf ck a k e l s))"
  by (auto simp: note_attempt_def split_beta accounted_def note_rows)

lemma accounted_kind:
  "accounted n l s \<Longrightarrow> k \<notin> set REJECT_KINDS \<Longrightarrow> accounted n (l\<lparr>lp_last_error := e, lp_last_kind := Some k\<rparr>) s"
  by (auto simp: accounted_def)

lemma accounted_error [simp]: "accounted n (l\<lparr>lp_last_error := e\<rparr>) s = accounted n l s"
  by (simp add: accounted_def)

lemma accounted_reject: "accounted n l s \<Longrightarrow> accounted n (fst (reject a k e l s)) (snd (reject a k e l s))"
  by (auto simp: reject_def record_invalid_def add_row_def accounted_def)

lemma accounted_restrict:
  "accounted n l s \<Longrightarrow> accounted n (fst (restrict cf ck a e l s)) (snd (restrict cf ck a e l s))"
  by (auto simp: restrict_def handle_restricted_def Let_def split_beta accounted_def note_rows kind_sets)

lemma accounted_loop_only [simp]:
  "accounted n (restart_loop p l) s = accounted n l s" "accounted n (retry_lower a e l) s = accounted n l s"
  "accounted n (put_frames a fs l) s = accounted n l s" "accounted n (l\<lparr>lp_sink := x\<rparr>) s = accounted n l s"
  "accounted n (l\<lparr>lp_saw_finish := b\<rparr>) s = accounted n l s"
  by (simp_all add: accounted_def restart_loop_def retry_lower_def put_frames_def)

definition rows_kept :: "attempt_input \<Rightarrow> bool" where
  "rows_kept ai \<longleftrightarrow> (\<forall>s. length (en_rows s) \<le> length (en_rows (ai_wait ai s))
     \<and> length (en_rows s) \<le> length (en_rows (ai_during ai s)) \<and> length (en_rows s) \<le> length (en_rows (ai_sleep ai s))
     \<and> length (en_rows s) \<le> length (en_rows (pe_during (ai_probe ai) s)))"

lemma rows_keptD:
  assumes "rows_kept ai"
  shows "length (en_rows s) \<le> length (en_rows (ai_wait ai s))" "length (en_rows s) \<le> length (en_rows (ai_during ai s))"
    "length (en_rows s) \<le> length (en_rows (ai_sleep ai s))" "length (en_rows s) \<le> length (en_rows (pe_during (ai_probe ai) s))"
  using assms by (simp_all add: rows_kept_def)

lemma accounted_credit:
  assumes "\<And>s. length (en_rows s) \<le> length (en_rows (pe_during pe s))" "accounted n l s"
  shows "accounted n l (snd (credit_if_exhausted pe ck k c p s))"
  using accounted_mono[OF assms(2) rows.credit[OF assms(1) order_refl] refl refl] .

lemma accounted_error_event:
  assumes "\<And>s. length (en_rows s) \<le> length (en_rows (pe_during pe s))" "accounted n l s"
  shows "accounted n (fst (snd (stream_error_event cf ck pe a ev l s))) (snd (snd (stream_error_event cf ck pe a ev l s)))"
  using accounted_credit[OF assms]
  by (simp add: stream_error_event_def Let_def split_beta accounted_reject accounted_restrict accounted_note split: option.split)

lemma accounted_exception:
  assumes "\<And>s. length (en_rows s) \<le> length (en_rows (pe_during pe s))" "accounted n l s"
  shows "accounted n (fst (snd (stream_exception cf ck pe a e l s))) (snd (snd (stream_exception cf ck pe a e l s)))"
  using accounted_credit[OF assms]
  by (simp add: stream_exception_def Let_def split_beta accounted_reject accounted_restrict accounted_note
      accounted_note_engine accounted_kind kind_sets split: option.split)

lemma accounted_events:
  assumes "\<And>s. length (en_rows s) \<le> length (en_rows (pe_during pe s))"
  shows "accounted n l s \<Longrightarrow> accounted n (fst (snd (stream_events cf sk ck pe a evs l s))) (snd (snd (stream_events cf sk ck pe a evs l s)))"
  by (induction evs arbitrary: l s) (simp_all add: accounted_error_event[OF assms] Let_def split_beta split: sum.split)

lemma accounted_success:
  assumes "\<And>s. length (en_rows s) \<le> length (en_rows (pe_during pe s))" "accounted n l s"
  shows "accounted n (fst (snd (stream_success cf sk ck pe a l s))) (snd (snd (stream_success cf sk ck pe a l s)))"
proof -
  have "accounted n l (finish_success cf ck p c m b s)" for p c m b
    by (rule accounted_mono[OF assms(2) rows.success[OF order_refl] refl refl])
  then show ?thesis
    by (simp add: stream_success_def Let_def split_beta accounted_exception[OF assms(1)] split: sum.split)
qed

lemma accounted_body:
  assumes "\<And>s. length (en_rows s) \<le> length (en_rows (pe_during (ai_probe ai) s))" "accounted n l s"
  shows "accounted n (fst (snd (stream_body cf sk ai a l s))) (snd (snd (stream_body cf sk ai a l s)))"
proof -
  obtain r l1 y where r: "stream_events cf sk (ai_seen ai) (ai_probe ai) a (ai_events ai) (l\<lparr>lp_saw_finish := False\<rparr>) s = (r, l1, y)"
    using prod_cases3 by blast
  have "accounted n (l\<lparr>lp_saw_finish := False\<rparr>) s" using assms(2) by simp
  from accounted_events[OF assms(1) this, of cf sk "ai_seen ai" a "ai_events ai"] r
  have y: "accounted n l1 y" by simp
  obtain q l2 s2 where q: "stream_success cf sk (ai_seen ai) (ai_probe ai) a l1 y = (q, l2, s2)"
    using prod_cases3 by blast
  then have "accounted n l2 s2"
    using accounted_success[OF assms(1) y, of cf sk "ai_seen ai" a] by simp
  with y show ?thesis
    by (simp add: stream_body_def r q Let_def split_beta accounted_exception[OF assms(1) y]
        split: reading.split stream_end.split option.split)
qed

lemma accounted_transient:
  "accounted n l s \<Longrightarrow> accounted n (fst (snd (complete_transient cf ck a l s))) (snd (snd (complete_transient cf ck a l s)))"
  by (simp add: complete_transient_def split_beta accounted_note_engine)

lemma accounted_complete_error:
  assumes "\<And>s. length (en_rows s) \<le> length (en_rows (pe_during pe s))" "accounted n l s"
  shows "accounted n (fst (snd (complete_error_event cf ck pe a ev l s))) (snd (snd (complete_error_event cf ck pe a ev l s)))"
  using accounted_credit[OF assms]
  by (simp add: complete_error_event_def Let_def split_beta accounted_reject accounted_restrict accounted_note
      accounted_kind kind_sets split: option.split)

lemma accounted_complete_body:
  assumes "\<And>s. length (en_rows s) \<le> length (en_rows (pe_during (ai_probe ai) s))" "accounted n l s"
  shows "accounted n (fst (snd (complete_body cf ai a l s))) (snd (snd (complete_body cf ai a l s)))"
proof -
  have "accounted n l (finish_success cf ck p c m b s)" for ck p c m b
    by (rule accounted_mono[OF assms(2) rows.success[OF order_refl] refl refl])
  then show ?thesis using assms(2)
    by (simp add: complete_body_def Let_def split_beta accounted_transient accounted_complete_error[OF assms]
        accounted_exception[OF assms] split: collecting.split stream_end.split aggregated.split)
qed

lemma pick_rows:
  assumes "pick cf t others aff ck tried s = Some (r, tried', ck', s')" "tr_ok (en_tracker s)"
    and "\<And>x. tr_ok (en_tracker x) \<Longrightarrow> tr_ok (en_tracker (others x))"
    and "\<And>x. length (en_rows x) \<le> length (en_rows (others x))"
  shows "length (en_rows s) \<le> length (en_rows s')"
proof -
  obtain q tr s1 where p1: "pick_now (pick_rounds s) cf t aff ck tried s = Some (q, tr, s1)"
    using assms(1) by (auto simp: pick_def split: option.splits)
  note f1 = pick_now_frame[OF assms(2) p1]
  then have ok1: "tr_ok (en_tracker s1)" by (simp add: same_leases_def)
  show ?thesis
  proof (cases "q = Inr None")
    case False
    then have "s' = s1" using assms(1) p1 by (auto simp: pick_def split: sum.splits option.splits)
    with f1 show ?thesis by simp
  next
    case True
    obtain w s2 where w: "wait_short_cooldown cf t tr ck s1 = (w, s2)" by fastforce
    note w2 = wait_frame[OF w]
    show ?thesis
    proof (cases w)
      case None
      with assms(1) p1 True w have "s' = s2" by (simp add: pick_def)
      with f1 w2(2) show ?thesis by simp
    next
      case (Some n)
      with assms(1) p1 True w obtain q2 tr2 where
        "pick_now (pick_rounds (others s2)) cf t aff (advance n ck) tr (others s2) = Some (q2, tr2, s')"
        by (auto simp: pick_def split: option.splits)
      from pick_now_frame[OF assms(3)[OF w2(4)[OF ok1]] this] have "en_rows s' = en_rows (others s2)" by simp
      with f1 w2(2) assms(4)[of s2] show ?thesis by simp
    qed
  qed
qed

lemma obtain_accounted:
  assumes "obtain_cred cf t aff ai l s = Some (r, l1, ck, s1)" "tr_ok (en_tracker s)" "fair_input ai" "rows_kept ai"
    and "accounted n l s"
  shows "accounted n l1 s1"
proof (rule obtain_cases[OF assms(2,3), where cf = cf and t = t and aff = aff and l = l])
  fix p assume "obtain_cred cf t aff ai l s = Some (Inr (Some p), l\<lparr>lp_pinned := None\<rparr>, ai_clock ai, s)"
  with assms(1,5) show ?thesis by (auto simp: accounted_def)
next
  fix c d tried ck2 s2
  assume p: "pick cf t (ai_wait ai) aff (ai_clock ai) (lp_tried l) s = Some (Inr (Some (c, d)), tried, ck2, s2)"
    and o: "obtain_cred cf t aff ai l s = Some (Inr (Some (c, d)),
         l\<lparr>lp_pinned := None, lp_tried := insert c tried, lp_attempts := lp_attempts l + 1\<rparr>, ck2, s2)"
  from pick_rows[OF p assms(2) fair_inputD(3)[OF assms(3)] rows_keptD(1)[OF assms(4)]] o assms(1,5)
  show ?thesis by (auto intro!: accounted_mono[OF assms(5)])
next
  fix q tried ck2 s2
  assume p: "pick cf t (ai_wait ai) aff (ai_clock ai) (lp_tried l) s = Some (q, tried, ck2, s2)"
    and o: "obtain_cred cf t aff ai l s = Some (q, l\<lparr>lp_pinned := None, lp_tried := tried\<rparr>, ck2, s2)"
  from pick_rows[OF p assms(2) fair_inputD(3)[OF assms(3)] rows_keptD(1)[OF assms(4)]] o assms(1,5)
  show ?thesis by (auto intro!: accounted_mono[OF assms(5)])
qed

lemma lease_rows [simp]: "en_rows (lease cf ck c s) = en_rows s"
  by (simp add: lease_def Let_def split: option.split)

lemma release_rows [simp]: "en_rows (release cf c s) = en_rows s"
  by (simp add: release_def Let_def)

lemma accounted_release: "accounted n l (release cf c s) = accounted n l s"
  by (simp add: accounted_def)

definition failed :: "outcome \<Rightarrow> bool" where
  "failed out \<longleftrightarrow> (\<exists>code. out = Exhausted code \<or> out = ErrorFrame code)"

lemma exhausted_pick_rows:
  "accounted n l s \<Longrightarrow> n < length (en_rows (snd (exhausted_pick cf t now l s)))"
  by (auto simp: exhausted_pick_def accounted_def add_row_def split: option.splits)

lemma stream_stop_rows: "accounted n l s \<Longrightarrow> n < length (en_rows (snd (stream_stop a l s)))"
  by (auto simp: stream_stop_def accounted_def add_row_def split: option.splits)

lemma complete_stop_rows:
  assumes "rows_kept ai" "accounted n l s"
  shows "n < length (en_rows (snd (complete_stop cf ai a l s)))"
proof -
  let ?c = "case lp_last_error l of Some e \<Rightarrow> credit_if_exhausted (ai_probe ai) (ai_seen ai) (classify e) (at_cred a) (at_provider a) s
               | None \<Rightarrow> (None, s)"
  have "accounted n l (snd ?c)"
    using accounted_credit[OF rows_keptD(4)[OF assms(1)] assms(2)] assms(2) by (simp split: option.split)
  with assms(2) show ?thesis
    by (auto simp: complete_stop_def accounted_def add_row_def split_beta Let_def split: option.splits)
qed

lemma stream_round_accounted:
  assumes "fair_input ai" "rows_kept ai" "tr_ok (en_tracker s)" "accounted n l s"
    and "stream_round cf sk t raw aff ai l s = Some (r, l')"
  shows "case r of Inr s' \<Rightarrow> accounted n l' s' | Inl (out, s') \<Rightarrow> failed out \<longrightarrow> n < length (en_rows s')"
proof -
  obtain q l1 ck s1 where o: "obtain_cred cf t aff ai l s = Some (q, l1, ck, s1)"
    using assms(5) by (auto simp: stream_round_def split: option.splits)
  note a1 = obtain_accounted[OF o assms(3,1,2,4)]
  show ?thesis
  proof (cases "\<exists>cd. q = Inr (Some cd)")
    case False
    then show ?thesis using assms(5) o exhausted_pick_rows[OF a1, of cf t "ck_now ck"]
      by (auto simp: stream_round_def failed_def split: sum.splits option.splits)
  next
    case True
    then obtain cd where q: "q = Inr (Some cd)" by blast
    obtain ao l2 where a: "start_attempt cf t raw cd l1 s1 = (ao, l2)" by fastforce
    show ?thesis
    proof (cases ao)
      case None
      with assms(5) o q a show ?thesis by (auto simp: stream_round_def failed_def)
    next
      case (Some at1)
      have a2: "accounted n l2 (ai_during ai (lease cf ck (at_cred at1) s1))"
        using accounted_mono[OF a1, of "ai_during ai (lease cf ck (at_cred at1) s1)" l2] start_attempt_Some[of cf t raw cd l1 s1 at1 l2]
          rows_keptD(2)[OF assms(2), of "lease cf ck (at_cred at1) s1"] a Some by auto
      obtain b l3 s3 where b: "stream_body cf sk ai at1 l2 (ai_during ai (lease cf ck (at_cred at1) s1)) = (b, l3, s3)"
        using prod_cases3 by blast
      have r: "r = stream_after cf sk ai at1 b l3 s3" "l' = l3"
        using assms(5) o q a Some b by (auto simp: stream_round_def)
      have a3: "accounted n l3 (release cf (at_cred at1) s3)"
        using accounted_body[OF rows_keptD(4)[OF assms(2)] a2, of cf sk at1] b by (simp add: accounted_release)
      note stop = stream_stop_rows[OF a3, of at1]
      have sleep: "accounted n l3 (ai_sleep ai (release cf (at_cred at1) s3))"
        by (rule accounted_mono[OF a3 rows_keptD(3)[OF assms(2)] refl refl])
      show ?thesis unfolding r using a3 stop sleep
        by (auto simp: stream_after_def Let_def failed_def split: body_end.split flow.split option.split prod.split)
    qed
  qed
qed

lemma complete_round_accounted:
  assumes "fair_input ai" "rows_kept ai" "tr_ok (en_tracker s)" "accounted n l s"
    and "complete_round cf t raw aff ai l s = Some (r, l')"
  shows "case r of Inr s' \<Rightarrow> accounted n l' s' | Inl (out, s') \<Rightarrow> failed out \<longrightarrow> n < length (en_rows s')"
proof -
  obtain q l1 ck s1 where o: "obtain_cred cf t aff ai l s = Some (q, l1, ck, s1)"
    using assms(5) by (auto simp: complete_round_def split: option.splits)
  note a1 = obtain_accounted[OF o assms(3,1,2,4)]
  show ?thesis
  proof (cases "\<exists>cd. q = Inr (Some cd)")
    case False
    then show ?thesis using assms(5) o exhausted_pick_rows[OF a1, of cf t "ck_now ck"]
      by (auto simp: complete_round_def failed_def split: sum.splits option.splits)
  next
    case True
    then obtain cd where q: "q = Inr (Some cd)" by blast
    obtain ao l2 where a: "start_attempt cf t raw cd l1 s1 = (ao, l2)" by fastforce
    show ?thesis
    proof (cases ao)
      case None
      with assms(5) o q a show ?thesis by (auto simp: complete_round_def failed_def)
    next
      case (Some at1)
      have a2: "accounted n l2 (ai_during ai (lease cf ck (at_cred at1) s1))"
        using accounted_mono[OF a1, of "ai_during ai (lease cf ck (at_cred at1) s1)" l2] start_attempt_Some[of cf t raw cd l1 s1 at1 l2]
          rows_keptD(2)[OF assms(2), of "lease cf ck (at_cred at1) s1"] a Some by auto
      obtain b l3 s3 where b: "complete_body cf ai at1 l2 (ai_during ai (lease cf ck (at_cred at1) s1)) = (b, l3, s3)"
        using prod_cases3 by blast
      have r: "r = complete_after cf ai at1 b l3 s3" "l' = l3"
        using assms(5) o q a Some b by (auto simp: complete_round_def)
      have a3: "accounted n l3 (release cf (at_cred at1) s3)"
        using accounted_complete_body[OF rows_keptD(4)[OF assms(2)] a2, of cf at1] b by (simp add: accounted_release)
      note stop = complete_stop_rows[OF assms(2) a3, of cf at1]
      have sleep: "accounted n l3 (ai_sleep ai (release cf (at_cred at1) s3))"
        by (rule accounted_mono[OF a3 rows_keptD(3)[OF assms(2)] refl refl])
      show ?thesis unfolding r using a3 stop sleep
        by (auto simp: complete_after_def Let_def failed_def split: body_end.split flow.split option.split prod.split)
    qed
  qed
qed

lemma accounted_start: "accounted (length (en_rows s)) (loop0 x) s"
  by (simp add: accounted_def loop0_def)


lemma rows_kept_sample: "rows_kept (sample_input evs e)"
  by (simp add: rows_kept_def sample_input_def no_probe_def)

lemma sample_failure:
  "run_summary (stream_loop sample_config echo_sink sample_target [] None
     (replicate 4 (sample_input [error_event SOFT] EndNormal)) (loop0 ()) sample_engine)
   = Some (Exhausted ''no_healthy_credential'', [])"
  by code_simp


section \<open>What a success records\<close>

lemma round_success_row:
  assumes "stream_round cf sk t raw aff ai l s = Some (Inl (OkDone, s'), l')"
  shows "en_rows s' \<noteq> [] \<and> (\<exists>p. last (en_rows s') = \<lparr>ur_provider = p, ur_cred = lp_cred l', ur_model = mt_model t,
    ur_ok = lp_saw_finish l', ur_error = (if lp_saw_finish l' then None else Some ''truncated_stream'')\<rparr>)"
proof -
  obtain q l1 ck s1 where o: "obtain_cred cf t aff ai l s = Some (q, l1, ck, s1)"
    using assms by (auto simp: stream_round_def split: option.splits)
  then obtain cd where q: "q = Inr (Some cd)" using assms
    by (auto simp: stream_round_def exhausted_pick_def split: sum.splits option.splits if_splits)
  obtain a l2 where a: "start_attempt cf t raw cd l1 s1 = (Some a, l2)"
    using assms o q by (auto simp: stream_round_def split: option.splits prod.splits)
  obtain b l3 s3 where b: "stream_body cf sk ai a l2 (ai_during ai (lease cf ck (at_cred a) s1)) = (b, l3, s3)"
    using prod_cases3 by blast
  have r: "stream_after cf sk ai a b l3 s3 = Inl (OkDone, s')" "l' = l3"
    using assms o q a b by (auto simp: stream_round_def)
  then have dn: "b = Done" "s' = release cf (at_cred a) s3"
    by (auto simp: stream_after_def stream_stop_def terminal_outcome_def Let_def
        split: body_end.splits flow.splits option.splits if_splits)
  obtain rd l4 y where ev: "stream_events cf sk (ai_seen ai) (ai_probe ai) a (ai_events ai) (l2\<lparr>lp_saw_finish := False\<rparr>)
      (ai_during ai (lease cf ck (at_cred a) s1)) = (rd, l4, y)" using prod_cases3 by blast
  have su: "stream_success cf sk (ai_seen ai) (ai_probe ai) a l4 y = (None, l3, s3)" and rd: "rd = Consumed"
    using b dn(1) ev
    by (cases "stream_success cf sk (ai_seen ai) (ai_probe ai) a l4 y";
        auto simp: stream_body_def Let_def split_beta split: reading.splits stream_end.splits option.splits)+
  then obtain fs x where fin: "sk_finish sk (lp_sink l4) = Inr (fs, x)" "l3 = put_frames a fs (l4\<lparr>lp_sink := x\<rparr>)"
    "s3 = finish_success cf (ai_seen ai) (at_provider a) (at_cred a) (mt_model (at_target a)) (\<not> lp_saw_finish l4) y"
    by (auto simp: stream_success_def Let_def split_beta split: sum.splits)
  have cred: "lp_cred l4 = Some (at_cred a)" "at_target a = t"
    using events_step[OF ev] start_attempt_Some[OF a] rd by (auto simp: reading_step_def)
  show ?thesis using fin dn(2) r(2) cred
    by (simp add: put_frames_def finish_success_def Let_def add_row_def)
qed

text \<open>A completed stream is recorded last, under the credential that served it; it counts as a
  success exactly when the upstream sent its final event, otherwise as truncated (although the
  client got a regular end of stream).\<close>

theorem success_recorded_for_serving_credential:
  assumes "\<forall>ai \<in> set inputs. fair_input ai" and "tr_ok (en_tracker s)"
    and "stream_loop cf sk t raw affinity_id inputs l s = Some (OkDone, l', s')"
  shows "en_rows s' \<noteq> [] \<and> (\<exists>p. last (en_rows s') = \<lparr>ur_provider = p, ur_cred = lp_cred l', ur_model = mt_model t,
    ur_ok = lp_saw_finish l', ur_error = (if lp_saw_finish l' then None else Some ''truncated_stream'')\<rparr>)"
proof -
  have g: "\<forall>ai \<in> set inputs. fair_input ai \<and> True" using assms(1) by simp
  have "OkDone = OkDone \<longrightarrow> en_rows s' \<noteq> [] \<and> (\<exists>p. last (en_rows s') = \<lparr>ur_provider = p, ur_cred = lp_cred l', ur_model = mt_model t,
    ur_ok = lp_saw_finish l', ur_error = (if lp_saw_finish l' then None else Some ''truncated_stream'')\<rparr>)"
    by (rule streaming.reaches[where P = "\<lambda>l s. True" and Q = "\<lambda>out l' s'. out = OkDone \<longrightarrow> en_rows s' \<noteq> [] \<and>
      (\<exists>p. last (en_rows s') = \<lparr>ur_provider = p, ur_cred = lp_cred l', ur_model = mt_model t,
        ur_ok = lp_saw_finish l', ur_error = (if lp_saw_finish l' then None else Some ''truncated_stream'')\<rparr>)",
        OF assms(3) g assms(2) TrueI TrueI])
       (use round_success_row in blast)
  then show ?thesis by simp
qed

theorem success_recorded_for_serving_credential_witness:
  "\<exists>l' s'. stream_loop sample_config echo_sink sample_target [] None [sample_input [content_event] EndNormal] (loop0 ()) sample_engine
       = Some (OkDone, l', s') \<and> \<not> ur_ok (last (en_rows s'))"
proof -
  let ?r = "stream_loop sample_config echo_sink sample_target [] None [sample_input [content_event] EndNormal] (loop0 ()) sample_engine"
  have "map_option (\<lambda>(out, l, s). (out, lp_saw_finish l)) ?r = Some (OkDone, False)" by code_simp
  then obtain l' s' where r: "?r = Some (OkDone, l', s')" "\<not> lp_saw_finish l'" by auto
  have "\<forall>ai \<in> set [sample_input [content_event] EndNormal]. fair_input ai" by (simp add: fair_sample)
  from success_recorded_for_serving_credential[OF this sample_tracker_ok r(1)] r show ?thesis by auto
qed

section \<open>Leases are given back\<close>

definition held :: "tracker \<Rightarrow> cred_id \<Rightarrow> nat" where
  "held s c = (case tr_leases s c of None \<Rightarrow> 0 | Some l \<Rightarrow> length l)"

definition no_more :: "tracker \<Rightarrow> tracker \<Rightarrow> bool" where
  "no_more s s' \<longleftrightarrow> (\<forall>c. held s' c \<le> held s c)"

lemma no_more_refl [simp]: "no_more s s"
  by (simp add: no_more_def)

lemma no_more_trans: "no_more s s1 \<Longrightarrow> no_more s1 s2 \<Longrightarrow> no_more s s2"
  unfolding no_more_def using le_trans by blast

lemma no_more_live: "no_more s (snd (tr_live c now s))"
  by (auto simp: no_more_def held_def tr_live_def Let_def length_filter_le split: option.splits list.splits)
     (metis length_Cons length_filter_le filter.simps(2))+

lemma no_more_blocked: "no_more s (snd (inflight_blocked cf c now s))"
  using no_more_live
  by (auto simp: inflight_blocked_def ig_blocked_def Let_def split_beta snd_tr_count split: option.split)

lemma no_more_filter: "no_more s (snd (filter_selectable cf cs t ck s))"
proof (induction cs arbitrary: s)
  case (Cons c cs)
  show ?case using Cons.IH[of s] no_more_trans[OF no_more_blocked Cons.IH]
    by (auto simp: Let_def split_beta)
qed simp

lemma no_more_inject: "no_more s (snd (inject_inflight cs now s))"
proof (induction cs arbitrary: s)
  case (Cons c cs)
  have "no_more s (snd (tr_count (c_id c) now s))" using no_more_live by (simp add: snd_tr_count)
  from no_more_trans[OF this Cons.IH] show ?case by (simp add: Let_def split_beta)
qed simp

lemma no_more_wait: "no_more s (snd (shortest_wait cf cs t tr k s r))"
proof (induction cs arbitrary: s r)
  case (Cons c cs)
  note n = no_more_trans[OF no_more_blocked Cons.IH]
  show ?case using Cons.IH[of s r] n
    by (auto simp: Let_def split_beta no_more_blocked split: option.split)
qed simp

lemma no_more_select:
  assumes "select_cred cf t tried a ck s = (r, s')"
  shows "no_more (en_tracker s) (en_tracker s')"
proof -
  have sel: "no_more (en_tracker s) (snd (selectable cf cs t ck (en_tracker s)))" for cs
    using no_more_filter no_more_trans[OF no_more_filter no_more_inject]
    by (simp add: selectable_def Let_def split_beta)
  have ch: "en_tracker (snd (choose_cred n cf cs t tried a ck x)) = en_tracker x" for n cs x
    using choose_cred_frame[of n cf cs t tried a ck x] by (cases "choose_cred n cf cs t tried a ck x") simp
  show ?thesis using assms sel by (auto simp: select_cred_def Let_def split_beta ch split: if_splits)
qed

lemma no_more_pick_now:
  "pick_now n cf t a ck tried s = Some (r, tried', s') \<Longrightarrow> no_more (en_tracker s) (en_tracker s')"
proof (induction n arbitrary: tried s)
  case (Suc n)
  obtain q s1 where q: "select_cred cf t tried a ck s = (q, s1)" by fastforce
  note n1 = no_more_select[OF q]
  show ?case
  proof (cases "\<exists>cid. q = Inr (Some cid) \<and> safe_credential_data cid (en_store s1) = None")
    case True
    then obtain cid where "pick_now n cf t a ck (insert cid tried) (drop_probe cid s1) = Some (r, tried', s')"
      using Suc.prems q by auto
    from no_more_trans[OF n1] Suc.IH[OF this] show ?thesis by simp
  next
    case False
    with Suc.prems q n1 show ?thesis by (auto split: sum.splits option.splits)
  qed
qed simp

lemma no_more_pick:
  assumes "pick cf t others a ck tried s = Some (r, tried', ck', s')" "\<And>x. en_tracker (others x) = en_tracker x"
  shows "no_more (en_tracker s) (en_tracker s')"
proof -
  obtain q tr s1 where p1: "pick_now (pick_rounds s) cf t a ck tried s = Some (q, tr, s1)"
    using assms(1) by (auto simp: pick_def split: option.splits)
  note n1 = no_more_pick_now[OF p1]
  show ?thesis
  proof (cases "q = Inr None")
    case False
    with assms(1) p1 n1 show ?thesis by (auto simp: pick_def split: sum.splits option.splits)
  next
    case True
    obtain w s2 where w: "wait_short_cooldown cf t tr ck s1 = (w, s2)" by fastforce
    then have "no_more (en_tracker s1) (en_tracker s2)"
      using no_more_wait by (auto simp: wait_short_cooldown_def Let_def split_beta split: if_splits option.splits)
    note n2 = no_more_trans[OF n1 this]
    show ?thesis
    proof (cases w)
      case None
      with assms(1) p1 True w n2 show ?thesis by (simp add: pick_def)
    next
      case (Some n)
      with assms(1) p1 True w obtain q2 tr2 where
        "pick_now (pick_rounds (others s2)) cf t a (advance n ck) tr (others s2) = Some (q2, tr2, s')"
        by (auto simp: pick_def split: option.splits)
      from no_more_pick_now[OF this] n2 show ?thesis using no_more_trans assms(2) by metis
    qed
  qed
qed

lemma no_more_acquire_release: "no_more s (tr_release c (tr_acquire c now s))"
proof -
  define s1 where "s1 = snd (tr_live c now s)"
  define live where "live = fst (tr_live c now s)"
  have n: "no_more s s1" unfolding s1_def by (rule no_more_live)
  have "length live \<le> held s c"
    unfolding live_def fst_tr_live by (auto simp: live_at_def held_def length_filter_le split: option.split)
  moreover have "held (tr_release c (tr_acquire c now s)) d = (if d = c then length live else held s1 d)" for d
    by (auto simp: tr_acquire_def split_beta tr_release_def held_def Let_def live_def s1_def butlast_append
        split: list.splits dest: arg_cong[of _ _ butlast])
  ultimately show ?thesis using n by (simp add: no_more_def)
qed

text \<open>The rest of the process leaves the leases alone while the request runs.\<close>

definition quiet_input :: "attempt_input \<Rightarrow> bool" where
  "quiet_input ai \<longleftrightarrow> (\<forall>s. en_tracker (ai_wait ai s) = en_tracker s \<and> en_tracker (ai_sleep ai s) = en_tracker s
     \<and> en_tracker (ai_during ai s) = en_tracker s
     \<and> en_tracker (pe_during (ai_probe ai) s) = en_tracker s \<and> en_probe_leases (pe_during (ai_probe ai) s) = en_probe_leases s)"

lemma quiet_inputD:
  assumes "quiet_input ai"
  shows "en_tracker (ai_wait ai s) = en_tracker s" "en_tracker (ai_sleep ai s) = en_tracker s"
    "en_tracker (ai_during ai s) = en_tracker s"
    "en_tracker (pe_during (ai_probe ai) s) = en_tracker s \<and> en_probe_leases (pe_during (ai_probe ai) s) = en_probe_leases s"
  using assms by (simp_all add: quiet_input_def)

lemma obtain_no_more:
  assumes "obtain_cred cf t aff ai l s = Some (r, l1, ck, s1)" "quiet_input ai"
  shows "no_more (en_tracker s) (en_tracker s1)"
proof (cases "pinned_ready l (en_store s)")
  case (Some p)
  with assms(1) show ?thesis by (auto simp: obtain_cred_def)
next
  case None
  with assms(1) obtain q tried ck2 where "pick cf t (ai_wait ai) aff (ai_clock ai) (lp_tried l) s = Some (q, tried, ck2, s1)"
    by (auto simp: obtain_cred_def Let_def split: option.splits sum.splits prod.splits)
  from no_more_pick[OF this quiet_inputD(1)[OF assms(2)]] show ?thesis .
qed

lemma attempt_no_more:
  assumes "en_tracker s3 = en_tracker (ai_during ai (lease cf ck c s1))" "quiet_input ai"
  shows "no_more (en_tracker s1) (en_tracker (release cf c s3))"
  using assms no_more_acquire_release by (simp add: release_tracker lease_tracker quiet_inputD)

lemma stop_tracker [simp]:
  "en_tracker (snd (exhausted_pick cf t now l s)) = en_tracker s"
  "en_tracker (snd (stream_stop a l s)) = en_tracker s"
  by (auto simp: exhausted_pick_def stream_stop_def add_row_def)

lemma account_gone_tracker [simp]: "en_tracker (account_gone cf sk ck m l s) = en_tracker s"
  by (simp add: account_gone_def add_row_def confirm_probe_def Let_def split: option.split)

lemma release_tracker_cong: "en_tracker x = en_tracker y \<Longrightarrow> en_tracker (release cf c x) = en_tracker (release cf c y)"
  by (simp add: release_tracker)

definition round_state :: "((outcome \<times> engine) + engine) \<Rightarrow> engine" where
  "round_state r = (case r of Inl p \<Rightarrow> snd p | Inr s' \<Rightarrow> s')"

lemma after_tracker:
  assumes "quiet_input ai"
  shows "en_tracker (round_state (stream_after cf sk ai a b l s)) = en_tracker (release cf (at_cred a) s)"
proof (cases b)
  case (Flow f)
  then show ?thesis
    by (cases f) (simp_all add: stream_after_def Let_def round_state_def quiet_inputD[OF assms] split: option.split)
qed (simp_all add: stream_after_def Let_def round_state_def release_tracker)

lemma stop_tracker_complete: "quiet_input ai \<Longrightarrow> en_tracker (snd (complete_stop cf ai a l s)) = en_tracker s"
proof -
  assume q: "quiet_input ai"
  have "en_tracker (snd (credit_if_exhausted (ai_probe ai) ck k c p s)) = en_tracker s" for ck k c p
    using leases.credit[of "ai_probe ai" s s ck k c p] quiet_inputD(4)[OF q] by simp
  then show ?thesis by (simp add: complete_stop_def add_row_def Let_def split_beta split: option.split)
qed

lemma complete_after_tracker:
  assumes "quiet_input ai"
  shows "en_tracker (round_state (complete_after cf ai a b l s)) = en_tracker (release cf (at_cred a) s)"
proof (cases b)
  case (Flow f)
  then show ?thesis
    by (cases f) (simp_all add: complete_after_def Let_def round_state_def quiet_inputD[OF assms]
        stop_tracker_complete[OF assms] split: option.split)
qed (simp_all add: complete_after_def Let_def round_state_def)

lemma stream_round_no_more:
  assumes "stream_round cf sk t raw aff ai l s = Some (r, l')" "quiet_input ai"
  shows "no_more (en_tracker s) (en_tracker (round_state r))"
proof -
  obtain q l1 ck s1 where o: "obtain_cred cf t aff ai l s = Some (q, l1, ck, s1)"
    using assms(1) by (auto simp: stream_round_def split: option.splits)
  note n1 = obtain_no_more[OF o assms(2)]
  consider (no) e where "q = Inl e" | (none) "q = Inr None" | (cred) cd where "q = Inr (Some cd)"
    by (metis option.exhaust sum.exhaust)
  then show ?thesis
  proof cases
    case cred
    obtain ao l2 where a: "start_attempt cf t raw cd l1 s1 = (ao, l2)" by fastforce
    show ?thesis
    proof (cases ao)
      case None
      with assms(1) o n1 cred a show ?thesis by (auto simp: stream_round_def round_state_def)
    next
      case (Some a1)
      obtain b l3 s3 where b: "stream_body cf sk ai a1 l2 (ai_during ai (lease cf ck (at_cred a1) s1)) = (b, l3, s3)"
        using prod_cases3 by blast
      have r: "r = stream_after cf sk ai a1 b l3 s3" using assms(1) o cred a Some b by (auto simp: stream_round_def)
      have "en_tracker s3 = en_tracker (ai_during ai (lease cf ck (at_cred a1) s1))"
        using leases.stream_bodied[where ai = ai, OF quiet_inputD(4)[OF assms(2)], of _ _ cf sk a1 l2] b by (metis snd_conv)
      from no_more_trans[OF n1 attempt_no_more[OF this assms(2)]] show ?thesis
        unfolding r after_tracker[OF assms(2)] .
    qed
  qed (use assms(1) o n1 in \<open>auto simp: stream_round_def round_state_def\<close>)
qed

lemma complete_round_no_more:
  assumes "complete_round cf t raw aff ai l s = Some (r, l')" "quiet_input ai"
  shows "no_more (en_tracker s) (en_tracker (round_state r))"
proof -
  obtain q l1 ck s1 where o: "obtain_cred cf t aff ai l s = Some (q, l1, ck, s1)"
    using assms(1) by (auto simp: complete_round_def split: option.splits)
  note n1 = obtain_no_more[OF o assms(2)]
  consider (no) e where "q = Inl e" | (none) "q = Inr None" | (cred) cd where "q = Inr (Some cd)"
    by (metis option.exhaust sum.exhaust)
  then show ?thesis
  proof cases
    case cred
    obtain ao l2 where a: "start_attempt cf t raw cd l1 s1 = (ao, l2)" by fastforce
    show ?thesis
    proof (cases ao)
      case None
      with assms(1) o n1 cred a show ?thesis by (auto simp: complete_round_def round_state_def)
    next
      case (Some a1)
      obtain b l3 s3 where b: "complete_body cf ai a1 l2 (ai_during ai (lease cf ck (at_cred a1) s1)) = (b, l3, s3)"
        using prod_cases3 by blast
      have r: "r = complete_after cf ai a1 b l3 s3" using assms(1) o cred a Some b by (auto simp: complete_round_def)
      have "en_tracker s3 = en_tracker (ai_during ai (lease cf ck (at_cred a1) s1))"
        using leases.complete_bodied[where ai = ai, OF quiet_inputD(4)[OF assms(2)], of _ _ cf a1 l2] b by (metis snd_conv)
      from no_more_trans[OF n1 attempt_no_more[OF this assms(2)]] show ?thesis
        unfolding r complete_after_tracker[OF assms(2)] .
    qed
  qed (use assms(1) o n1 in \<open>auto simp: complete_round_def round_state_def\<close>)
qed


end
