(* ===== verification/ExecCorners.thy ===== *)
theory ExecCorners
  imports ExecOutcome
begin


section \<open>Probes of other requests\<close>

text \<open>Half-open probes are booked per credential, not per request: while one request probes a
  credential for one model, another request that uses the same credential without a probe of its
  own (for another model, say) takes over that probe. Its success marks the probed key as recovered,
  and its end frees the probe slot of the request that is still running.\<close>

theorem other_request_ends_probe:
  assumes "en_probe_leases s cid = [key]" and "en_pending s cid = None" and "used = lease cf ck cid s"
  shows "(let s' = release cf cid used
     in ho_probing (en_half s') key = None \<and> en_probe_leases s' cid = [])
    \<and> ho_recovered (en_half (release cf cid (finish_success cf ck p cid model truncated used))) key = Some (ck_mono ck)"
proof -
  have l: "en_probe_leases used cid = [key]" "en_half used = en_half s"
    using assms by (simp_all add: lease_def Let_def)
  have c: "en_probe_leases (finish_success cf ck p cid model truncated used) cid = [key]"
    "ho_recovered (en_half (finish_success cf ck p cid model truncated used)) key = Some (ck_mono ck)"
    using l by (simp_all add: finish_success_def Let_def add_row_def confirm_probe_def ho_confirm_def)
  show ?thesis using l c by (simp add: release_def Let_def ho_release_def)
qed

theorem other_request_ends_probe_witness:
  "ho_probing (en_half (release sample_config ''a'' (lease sample_config sample_clock ''a''
     (sample_engine\<lparr>en_probe_leases := (\<lambda>c. [(''a'', ''m1'')]),
                    en_half := (new_half_open 600 120)\<lparr>ho_probing := [(''a'', ''m1'') \<mapsto> 4]\<rparr>\<rparr>)))) (''a'', ''m1'') = None"
proof -
  let ?s = "sample_engine\<lparr>en_probe_leases := (\<lambda>c. [(''a'', ''m1'')]),
                    en_half := (new_half_open 600 120)\<lparr>ho_probing := [(''a'', ''m1'') \<mapsto> 4]\<rparr>\<rparr>"
  have "en_probe_leases ?s ''a'' = [(''a'', ''m1'')]" "en_pending ?s ''a'' = None" by (simp_all add: sample_engine_def)
  from other_request_ends_probe[OF this refl, of sample_config sample_clock] show ?thesis by (simp add: Let_def)
qed

section \<open>The error that ends a request\<close>

text \<open>In the non-streaming loop a timeout and an overflow do not set the class of the last error:
  after an earlier rejection by one upstream, a request that ends with another upstream timing out
  is answered as an invalid request, and no usage row of the timeout is written.\<close>

theorem timeout_after_rejection_reported_invalid:
  assumes "lp_last_kind l = Some INVALID" and "\<not> should_rotate (cf_scheduler cf) (lp_attempts l)"
    and "ai_end ai = EndTimeout" and "collect_events cf a (ai_events ai) [] l = Collected evs"
    and "complete_body cf ai a l s = (r, l', s1)"
  shows "\<exists>s'. complete_after cf ai a r l' s1 = Inl (Exhausted ''invalid_request'', s')
    \<and> length (en_rows s') = length (en_rows s)"
proof -
  have b: "r = Flow (Fall None)" "l' = l\<lparr>lp_last_error := Some (stream_exn (mk_event EvError))\<rparr>"
    "s1 = snd (note_attempt cf (ai_seen ai) a SOFT None l s)"
    using assms(3-5) by (simp_all add: complete_body_def complete_transient_def Let_def split_beta)
  have "length (en_rows s1) = length (en_rows s)"
    unfolding b by (simp add: note_attempt_def split_beta note_rows) (simp add: note_upstream_error_def kind_sets Let_def)
  then show ?thesis using assms(1,2) b
    by (simp add: complete_after_def complete_stop_def Let_def kind_sets)
qed

text \<open>A first-event timeout on the last permitted attempt ends a streaming request with an error
  frame although nothing was sent to the client, so the models that follow in the fallback chain
  are not tried; any other error of that kind moves on to the next model.\<close>

theorem first_event_timeout_skips_fallback:
  assumes "\<not> lp_emitted l" and "lp_last_error l = Some e"
    and "\<not> (case lp_last_kind l of Some k \<Rightarrow> k \<in> set REJECT_KINDS | None \<Rightarrow> False)"
  shows "fst (stream_stop a l s) =
    (case x_class e of StreamTimeout phase \<Rightarrow> ErrorFrame ''no_healthy_credential'' | _ \<Rightarrow> Exhausted ''no_healthy_credential'')"
  using assms by (auto simp: stream_stop_def is_stream_timeout_def terminal_outcome_def split: exn_class.split)

definition sample_attempt :: attempt where
  "sample_attempt = \<lparr>at_target = sample_target, at_provider = ''zen'', at_cred = ''a'', at_data = JObj [],
     at_payload = [(''reasoning_effort'', JStr ''high'')]\<rparr>"

theorem timeout_after_rejection_reported_invalid_witness:
  "\<exists>r l' s1 s'. complete_body sample_config (sample_input [] EndTimeout) sample_attempt
       ((loop0 () :: (unit, unit) loop)\<lparr>lp_last_kind := Some INVALID, lp_attempts := 3\<rparr>) sample_engine = (r, l', s1)
     \<and> complete_after sample_config (sample_input [] EndTimeout) sample_attempt r l' s1
       = Inl (Exhausted ''invalid_request'', s') \<and> en_rows s' = []"
proof -
  let ?l = "(loop0 () :: (unit, unit) loop)\<lparr>lp_last_kind := Some INVALID, lp_attempts := 3\<rparr>"
  obtain r l' s1 where b: "complete_body sample_config (sample_input [] EndTimeout) sample_attempt ?l sample_engine = (r, l', s1)"
    using prod_cases3 by blast
  have "\<not> should_rotate (cf_scheduler sample_config) (lp_attempts ?l)"
    by (simp add: should_rotate_def sample_config_def default_scheduler_def sched_consts)
  moreover have "ai_end (sample_input [] EndTimeout) = EndTimeout"
    "collect_events sample_config sample_attempt (ai_events (sample_input [] EndTimeout)) [] ?l = Collected []"
    by (simp_all add: sample_input_def)
  ultimately obtain s' where "complete_after sample_config (sample_input [] EndTimeout) sample_attempt r l' s1
       = Inl (Exhausted ''invalid_request'', s')" "length (en_rows s') = length (en_rows sample_engine)"
    using timeout_after_rejection_reported_invalid[OF _ _ _ _ b] by auto
  with b show ?thesis by (auto simp: sample_engine_def)
qed

theorem first_event_timeout_skips_fallback_witness:
  "fst (stream_stop sample_attempt ((loop0 () :: (unit, unit) loop)\<lparr>lp_last_error := Some (mk_exn (StreamTimeout ''first_event''))\<rparr>)
      sample_engine) = ErrorFrame ''no_healthy_credential''"
proof -
  let ?e = "mk_exn (StreamTimeout ''first_event'')"
  let ?l = "(loop0 () :: (unit, unit) loop)\<lparr>lp_last_error := Some ?e\<rparr>"
  have l: "\<not> lp_emitted ?l" "lp_last_error ?l = Some ?e" "lp_last_kind ?l = None" by (simp_all add: loop0_def)
  have c: "x_class ?e = StreamTimeout ''first_event''" by (simp add: mk_exn_def)
  show ?thesis using first_event_timeout_skips_fallback[OF l(1,2)] l(3) c by simp
qed

text \<open>The same at the level of a request: the second model would have answered.\<close>

definition chain_config :: config where
  "chain_config = sample_config\<lparr>cf_groups := [(''fast'', [''glm'', ''kimi''])],
     cf_scheduler := default_scheduler\<lparr>sch_max_rotate := 1\<rparr>\<rparr>"

lemma first_event_timeout_run:
  "map_option fst (stream_request chain_config echo_sink (\<lambda>m. ()) [] None sample_target
     [[sample_input [] EndTimeout], [sample_input [content_event, mk_event EvFinish] EndNormal]] sample_engine)
   = Some (ErrorFrame ''no_healthy_credential'')"
  "map_option fst (stream_request chain_config echo_sink (\<lambda>m. ()) [] None sample_target
     [[sample_input [] (EndRaised (mk_exn HttpxTransport))], [sample_input [content_event, mk_event EvFinish] EndNormal]] sample_engine)
   = Some OkDone"
  by code_simp+

section \<open>A refused effort on the last attempt\<close>

text \<open>The retry with a lower reasoning effort is granted on every attempt when the refusal comes as
  an exception, but is dropped on the last permitted attempt when the same refusal comes as an
  event inside the stream.\<close>

theorem effort_retry_dropped_in_stream:
  assumes "\<not> should_rotate (cf_scheduler cf) (lp_attempts l)" and "lp_last_kind l = None" and "lp_last_error l = None"
    and "event_error_kind ev = INVALID" and "classify e = Some INVALID"
    and "x_detail e = map_option codes (ev_error_message ev)" and "lower_effort a (x_detail e) l = Some lower"
    and "stream_error_event cf ck pe a ev l s = (w, l1, s1)" and "stream_exception cf ck pe a e l s = (f, l2, s2)"
  shows "(\<exists>s'. stream_after cf sk ai a (Flow (Fall w)) l1 s1 = Inl (Exhausted ''no_healthy_credential'', s'))
    \<and> (\<exists>s'. stream_after cf sk ai a (Flow f) l2 s2 = Inr s')
    \<and> lp_pinned l2 = Some (at_cred a, at_data a) \<and> lp_cap l2 = Some lower"
proof -
  have ev: "w = None" "l1 = retry_lower a lower l"
    using assms(4,6-8) by (auto simp: stream_error_event_def credit_if_exhausted_def Let_def kind_sets)
  have ex: "f = Continue" "l2 = retry_lower a lower l"
    using assms(5-7,9) by (auto simp: stream_exception_def credit_if_exhausted_def Let_def kind_sets)
  have "\<not> lp_emitted l" using assms(7) by (simp add: lower_effort_def split: if_splits)
  then show ?thesis using assms(1-3) ev ex
    by (auto simp: stream_after_def Let_def rotates_def retry_lower_def stream_stop_def is_stream_timeout_def terminal_outcome_def)
qed

definition effort_config :: config where
  "effort_config = sample_config\<lparr>cf_scheduler := default_scheduler\<lparr>sch_max_rotate := 1\<rparr>\<rparr>"

definition unit_sink :: "(unit, unit) sink" where
  "unit_sink = \<lparr>sk_translate = (\<lambda>x ev. Inr ([], x)), sk_finish = (\<lambda>x. Inr ([], x)),
     sk_usage_known = (\<lambda>x. False), sk_done_sent = (\<lambda>x. False)\<rparr>"

definition effort_event :: event where
  "effort_event = (error_event INVALID)\<lparr>ev_error_message := Some ''unsupported effort''\<rparr>"

definition effort_exn :: exn where
  "effort_exn = (mk_exn UpstreamHttp)\<lparr>x_kind := Some INVALID, x_detail := Some (codes ''unsupported effort'')\<rparr>"

lemma effort_message_recognised: "is_effort_rejection (Some (codes ''unsupported effort''))"
proof -
  let ?m = "codes ''unsupported effort''"
  have "concat (map lower_code ?m) = ?m" by (simp add: codes_def lower_code_def)
  moreover have "py_contains ?m ?m" by (cases ?m) (simp_all add: codes_def)
  moreover have "?m \<in> set EFFORT_REJECTION_MARKERS" by (simp add: EFFORT_REJECTION_MARKERS_def)
  moreover have "?m \<noteq> []" by (simp add: codes_def)
  ultimately show ?thesis by (auto simp: is_effort_rejection_def list_ex_iff)
qed

theorem effort_retry_dropped_in_stream_witness:
  "let l = (loop0 () :: (unit, unit) loop)\<lparr>lp_attempts := 1\<rparr>;
       (f, l2, s2) = stream_exception effort_config sample_clock no_probe sample_attempt effort_exn l sample_engine;
       (w, l1, s1) = stream_error_event effort_config sample_clock no_probe sample_attempt effort_event l sample_engine;
       ai = sample_input [] EndNormal
   in (\<exists>s'. stream_after effort_config unit_sink ai sample_attempt (Flow (Fall w)) l1 s1 = Inl (Exhausted ''no_healthy_credential'', s'))
    \<and> (\<exists>s'. stream_after effort_config unit_sink ai sample_attempt (Flow f) l2 s2 = Inr s')"
proof -
  let ?l = "(loop0 () :: (unit, unit) loop)\<lparr>lp_attempts := 1\<rparr>"
  obtain w l1 s1 where ev: "stream_error_event effort_config sample_clock no_probe sample_attempt effort_event ?l sample_engine = (w, l1, s1)"
    using prod_cases3 by blast
  obtain f l2 s2 where ex: "stream_exception effort_config sample_clock no_probe sample_attempt effort_exn ?l sample_engine = (f, l2, s2)"
    using prod_cases3 by blast
  have a: "\<not> should_rotate (cf_scheduler effort_config) (lp_attempts ?l)" by code_simp
  have k: "event_error_kind effort_event = INVALID" "classify effort_exn = Some INVALID"
    "lp_last_kind ?l = None" "lp_last_error ?l = None" by code_simp+
  have d: "x_detail effort_exn = map_option codes (ev_error_message effort_event)" by code_simp
  have "lower_effort sample_attempt (x_detail effort_exn) ?l = downgrade_effort ''high''"
    by (simp add: lower_effort_def downgrade_payload_def sample_attempt_def effort_exn_def loop0_def effort_message_recognised payload_effort_def jget_def)
  moreover have "downgrade_effort ''high'' = Some ''medium''" by code_simp
  ultimately have lo: "lower_effort sample_attempt (x_detail effort_exn) ?l = Some ''medium''" by simp
  show ?thesis
    using effort_retry_dropped_in_stream[OF a k(3,4,1,2) d lo ev ex, of unit_sink "sample_input [] EndNormal"]
    unfolding Let_def ev ex prod.case by blast
qed

section \<open>The rotation budget and queueing\<close>

text \<open>A queue restart gives back one attempt, but the restarted round is not charged one: each
  further queueing of the same credential lowers the count below what was spent, so that up to
  three more credentials than the rotation budget allows are tried afterwards.\<close>

theorem queue_restart_refunds_unspent_attempts:
  assumes "plan_for a w l = Some p" and "safe_credential_data (at_cred a) (en_store s) \<noteq> None"
    and "lp_queue_rounds l < QUEUE_MAX_ROUNDS - 1"
  shows "\<exists>l1 p'. obtain_cred cf t affinity_id ai (restart_loop p l) s = Some (Inr (Some (at_cred a, at_data a)), l1, ai_clock ai, s)
    \<and> plan_for a w' l1 = Some p' \<and> qr_attempts p' = lp_attempts l - 2"
proof -
  have e: "\<not> lp_emitted l" and p: "qr_pinned p = (at_cred a, at_data a)" "qr_attempts p = lp_attempts l - 1"
    "qr_rounds p = lp_queue_rounds l + 1"
    using assms(1) by (auto simp: plan_for_def plan_queue_restart_def queue_wait_def Let_def split: option.splits if_splits)
  have "pinned_ready (restart_loop p l) (en_store s) = Some (at_cred a, at_data a)"
    using assms(2) p by (simp add: pinned_ready_def restart_loop_def)
  moreover have "\<exists>p'. plan_for a w' ((restart_loop p l)\<lparr>lp_pinned := None\<rparr>) = Some p' \<and> qr_attempts p' = lp_attempts l - 2"
    using assms(3) e p by (simp add: plan_for_def plan_queue_restart_def queue_wait_def restart_loop_def Let_def)
  ultimately show ?thesis by (simp add: obtain_cred_def)
qed

definition queue_event :: event where
  "queue_event = error_event QUEUE"

lemma queue_refund_run:
  "map_option fst (complete_model effort_config sample_target [] None
     [sample_input [queue_event] EndNormal, sample_input [queue_event] EndNormal, sample_input [error_event SOFT] EndNormal,
      sample_input [content_event, mk_event EvFinish] EndNormal] (loop0 () :: (unit, unit) loop) sample_engine) = Some OkDone"
  "map_option fst (complete_model effort_config sample_target [] None
     [sample_input [error_event SOFT] EndNormal,
      sample_input [content_event, mk_event EvFinish] EndNormal] (loop0 () :: (unit, unit) loop) sample_engine)
   = Some (Exhausted ''no_healthy_credential'')"
  by code_simp+

theorem queue_restart_refunds_unspent_attempts_witness:
  "\<exists>p l1 p'. plan_for sample_attempt None ((loop0 () :: (unit, unit) loop)\<lparr>lp_attempts := 1\<rparr>) = Some p
     \<and> plan_for sample_attempt None l1 = Some p' \<and> qr_attempts p' = - 1
     \<and> obtain_cred effort_config sample_target None (sample_input [] EndNormal)
        (restart_loop p ((loop0 () :: (unit, unit) loop)\<lparr>lp_attempts := 1\<rparr>)) sample_engine
        = Some (Inr (Some (''a'', JObj [])), l1, sample_clock, sample_engine)"
proof -
  let ?l = "(loop0 () :: (unit, unit) loop)\<lparr>lp_attempts := 1\<rparr>"
  obtain p where p: "plan_for sample_attempt None ?l = Some p"
    by (simp add: plan_for_def plan_queue_restart_def queue_wait_def loop0_def QUEUE_MAX_ROUNDS_def Let_def)
  have d: "safe_credential_data (at_cred sample_attempt) (en_store sample_engine) \<noteq> None" by code_simp
  have q: "lp_queue_rounds ?l < QUEUE_MAX_ROUNDS - 1" by (simp add: loop0_def QUEUE_MAX_ROUNDS_def)
  have "at_cred sample_attempt = ''a''" "at_data sample_attempt = JObj []" "ai_clock (sample_input [] EndNormal) = sample_clock"
    by (simp_all add: sample_attempt_def sample_input_def)
  with queue_restart_refunds_unspent_attempts[OF p d q, where cf = effort_config and t = sample_target
      and affinity_id = None and ai = "sample_input [] EndNormal" and w' = None] p
  show ?thesis by auto
qed

section \<open>An unregistered member of the chain\<close>

text \<open>The check before a request accepts a fallback chain when any of its models has a registered
  upstream; but when the first one has none, the request ends there with a missing provider, and
  the model that could have served it is not tried.\<close>

theorem unregistered_member_ends_chain:
  assumes "resolve_target cf model binding = Inr t" and "fallback_chain cf t = m # ms"
    and "registered cf m = []" and "m' \<in> set ms" and "registered cf m' \<noteq> []"
  shows "preflight cf model binding = Inr t
    \<and> map_option fst (stream_request cf sk fresh raw affinity_id t ((ai # ais) # inputs) s) = Some NoProvider
    \<and> map_option fst (complete_request cf raw affinity_id t ((ai # ais) # inputs) s) = Some NoProvider"
proof (intro conjI)
  show "preflight cf model binding = Inr t"
    using assms by (auto simp: preflight_def list_ex_iff)
  have pk: "pick cf m f af ck tr s = Some (Inl ''NoProviderForModel'', tr, ck, s)" for f af ck tr
    using assms(3) by (simp add: pick_def pick_rounds_def select_cred_def)
  show "map_option fst (stream_request cf sk fresh raw affinity_id t ((ai # ais) # inputs) s) = Some NoProvider"
    using assms(2) by (simp add: stream_request_def stream_round_def obtain_cred_def pinned_ready_def pk next_loop_def loop0_def)
  show "map_option fst (complete_request cf raw affinity_id t ((ai # ais) # inputs) s) = Some NoProvider"
    using assms(2) by (simp add: complete_request_def complete_round_def obtain_cred_def pinned_ready_def pk loop0_def)
qed

definition member_config :: config where
  "member_config = sample_config\<lparr>cf_groups := [(''fast'', [''glm@trae'', ''kimi''])]\<rparr>"

theorem unregistered_member_ends_chain_witness:
  "preflight member_config (Some ''fast'') None = Inr \<lparr>mt_model = ''fast'', mt_providers = KNOWN_PROVIDERS, mt_forced = False\<rparr>
   \<and> map_option fst (complete_request member_config [] None \<lparr>mt_model = ''fast'', mt_providers = KNOWN_PROVIDERS, mt_forced = False\<rparr>
       [[sample_input [] EndNormal], []] sample_engine) = Some NoProvider"
proof -
  let ?t = "\<lparr>mt_model = ''fast'', mt_providers = KNOWN_PROVIDERS, mt_forced = False\<rparr>"
  let ?m = "\<lparr>mt_model = ''glm'', mt_providers = [''trae''], mt_forced = True\<rparr>"
  let ?k = "\<lparr>mt_model = ''kimi'', mt_providers = KNOWN_PROVIDERS, mt_forced = False\<rparr>"
  have r: "resolve_target member_config (Some ''fast'') None = Inr ?t" by code_simp
  have c: "fallback_chain member_config ?t = [?m, ?k]" by code_simp
  have n: "registered member_config ?m = []" "registered member_config ?k \<noteq> []" by code_simp+
  show ?thesis
    using unregistered_member_ends_chain[OF r c n(1) _ n(2), where sk = unit_sink and fresh = "\<lambda>m. ()" and raw = "[]"
      and affinity_id = None and ai = "sample_input [] EndNormal" and ais = "[]" and inputs = "[[]]" and s = sample_engine]
    by (simp del: map_option_eq_Some)
qed

end
