(* ===== verification/Dsml.thy ===== *)
theory Dsml
  imports ProviderBase
begin

text \<open>
  \<^verbatim>\<open>src/compat/openai/dsml.py\<close>: tool calls that leak into the visible text as DSML markup are
  read back. Texts are lists of code points. Each regular expression of the module is a matcher
  that tries one position and returns the match and the rest of the text; \<open>scan\<close> is
  \<^verbatim>\<open>finditer\<close> and \<^verbatim>\<open>sub("")\<close> at once. The classes \<^verbatim>\<open>\w\<close> and \<^verbatim>\<open>\s\<close> are exact on the
  code points below 256 and on the CJK ideographs; other letters count as separators.
\<close>

section \<open>Matchers\<close>

type_synonym 'm matcher = "utext \<Rightarrow> ('m \<times> utext) option"

definition BAR :: nat where "BAR = 65372"

definition is_word_code :: "nat \<Rightarrow> bool" where
  "is_word_code n \<longleftrightarrow> (48 \<le> n \<and> n \<le> 57) \<or> (65 \<le> n \<and> n \<le> 90) \<or> n = 95 \<or> (97 \<le> n \<and> n \<le> 122)
     \<or> n \<in> {170, 178, 179, 181, 185, 186, 188, 189, 190}
     \<or> (192 \<le> n \<and> n \<le> 255 \<and> n \<noteq> 215 \<and> n \<noteq> 247) \<or> (13312 \<le> n \<and> n \<le> 19903) \<or> (19968 \<le> n \<and> n \<le> 40959)"

definition eat :: "utext \<Rightarrow> utext \<Rightarrow> utext option" where
  "eat p s = (if take (length p) s = p then Some (drop (length p) s) else None)"

text \<open>One or two bars; what follows a bar group in every pattern is not a bar.\<close>

fun eat_bars :: "utext \<Rightarrow> utext option" where
  "eat_bars [] = None"
| "eat_bars (b # s) = (if b \<noteq> BAR then None else case s of [] \<Rightarrow> Some [] | c # s' \<Rightarrow> if c = BAR then Some s' else Some s)"

definition match_tag_start :: "utext \<Rightarrow> utext \<Rightarrow> utext option" where
  "match_tag_start lead s =
     Option.bind (eat lead s) (\<lambda>s1. Option.bind (eat_bars s1) (\<lambda>s2. Option.bind (eat (codes ''DSML'') s2) eat_bars))"

definition match_open :: "utext \<Rightarrow> utext option" where
  "match_open = match_tag_start (codes ''<'')"

definition match_close :: "utext \<Rightarrow> utext option" where
  "match_close = match_tag_start (codes ''</'')"

text \<open>The closing tag, and \<^verbatim>\<open>(.*?)\<close> up to it.\<close>

definition close_tag :: "utext \<Rightarrow> utext \<Rightarrow> utext option" where
  "close_tag tag s = Option.bind (match_close s) (eat (tag @ codes ''>''))"

fun find_close :: "utext \<Rightarrow> utext \<Rightarrow> (utext \<times> utext) option" where
  "find_close tag [] = None"
| "find_close tag (c # s) =
     (case close_tag tag (c # s) of
        Some r \<Rightarrow> Some ([], r)
      | None \<Rightarrow> (case find_close tag s of Some (body, r) \<Rightarrow> Some (c # body, r) | None \<Rightarrow> None))"

text \<open>
  \<^verbatim>\<open>OPEN tag\b([^>]*?)(?:/>|>(.*?)CLOSE tag>)\<close>: the attributes reach to the first \<^verbatim>\<open>>\<close>; a slash
  before it closes the element at once.
\<close>

definition element :: "utext \<Rightarrow> (utext \<times> utext option) matcher" where
  "element tag s =
     (case Option.bind (match_open s) (eat tag) of
        None \<Rightarrow> None
      | Some r \<Rightarrow>
          (let attrs = takeWhile (\<lambda>c. c \<noteq> 62) r; r1 = dropWhile (\<lambda>c. c \<noteq> 62) r
           in if r = [] \<or> is_word_code (hd r) \<or> r1 = [] then None
              else if attrs \<noteq> [] \<and> last attrs = 47 then Some ((butlast attrs, None), tl r1)
              else (case find_close tag (tl r1) of
                      Some (body, r2) \<Rightarrow> Some ((attrs, Some body), r2)
                    | None \<Rightarrow> None)))"

definition tool_block :: "utext matcher" where
  "tool_block s =
     Option.bind (Option.bind (match_open s) (eat (codes ''tool_calls>''))) (find_close (codes ''tool_calls''))"

text \<open>\<^verbatim>\<open>(\w+)\s*=\s*"([^"]*)"\<close>.\<close>

definition attribute :: "(utext \<times> utext) matcher" where
  "attribute s =
     (let key = takeWhile is_word_code s; r = dropWhile is_space_code (dropWhile is_word_code s)
      in if key = [] \<or> r = [] \<or> hd r \<noteq> 61 then None
         else (let r1 = dropWhile is_space_code (tl r)
               in if r1 = [] \<or> hd r1 \<noteq> 34 then None
                  else (let v = takeWhile (\<lambda>c. c \<noteq> 34) (tl r1); r2 = dropWhile (\<lambda>c. c \<noteq> 34) (tl r1)
                        in if r2 = [] then None else Some ((key, v), tl r2))))"

text \<open>All matches from left to right, and the text without them; the counter is the number of
  characters of the last match still to be passed over.\<close>

fun scan :: "'m matcher \<Rightarrow> nat \<Rightarrow> utext \<Rightarrow> 'm list \<times> utext" where
  "scan m n [] = ([], [])"
| "scan m (Suc n) (c # s) = scan m n s"
| "scan m 0 (c # s) =
     (case m (c # s) of
        Some (x, r) \<Rightarrow> (let (xs, v) = scan m (length s - length r) s in (x # xs, v))
      | None \<Rightarrow> (let (xs, v) = scan m 0 s in (xs, c # v)))"

text \<open>The first match: the text before it, the matched text, its parts, the text after it.\<close>

fun search :: "'m matcher \<Rightarrow> utext \<Rightarrow> (utext \<times> utext \<times> 'm \<times> utext) option" where
  "search m [] = None"
| "search m (c # s) =
     (case m (c # s) of
        Some (x, r) \<Rightarrow> Some ([], take (length (c # s) - length r) (c # s), x, r)
      | None \<Rightarrow> (case search m s of Some (pre, hit, x, r) \<Rightarrow> Some (c # pre, hit, x, r) | None \<Rightarrow> None))"

section \<open>Reading calls\<close>

text \<open>
  A parameter value as it enters \<^verbatim>\<open>json.dumps\<close>: the string itself, or what \<^verbatim>\<open>json.loads\<close> makes
  of it (the string again when it does not parse).
\<close>

datatype pvalue = Verbatim utext | Decoded utext

record dcall =
  dc_name :: utext
  dc_params :: "(utext, pvalue) odict"

definition attrs_of :: "utext \<Rightarrow> (utext, utext) odict" where
  "attrs_of raw = foldl (\<lambda>d (k, v). od_set k v d) [] (fst (scan attribute 0 raw))"

definition decode_value :: "utext \<Rightarrow> bool \<Rightarrow> pvalue" where
  "decode_value v is_string = (if is_string then Verbatim v else Decoded v)"

definition add_param :: "(utext, pvalue) odict \<Rightarrow> utext \<times> utext option \<Rightarrow> (utext, pvalue) odict" where
  "add_param d m =
     (let attrs = attrs_of (fst m); string = od_get attrs (codes ''string'')
      in case od_get attrs (codes ''name'') of
           None \<Rightarrow> d
         | Some key \<Rightarrow>
             if key = [] then d
             else (case snd m of
                     None \<Rightarrow> od_set key (Verbatim (case string of None \<Rightarrow> [] | Some v \<Rightarrow> v)) d
                   | Some raw \<Rightarrow> od_set key (decode_value raw (string = Some (codes ''true''))) d))"

definition add_nested :: "(utext, pvalue) odict \<Rightarrow> utext \<times> utext option \<Rightarrow> (utext, pvalue) odict" where
  "add_nested d m =
     (if snd m \<noteq> None then d
      else (let attrs = attrs_of (fst m)
            in case od_get attrs (codes ''name'') of
                 None \<Rightarrow> d
               | Some key \<Rightarrow>
                   if key = [] then d
                   else od_set key (Verbatim (case od_get attrs (codes ''string'') of None \<Rightarrow> [] | Some v \<Rightarrow> v)) d))"

definition params_of :: "utext \<Rightarrow> (utext, pvalue) odict" where
  "params_of body =
     (if body = [] then []
      else foldl add_nested (foldl add_param [] (fst (scan (element (codes ''parameter'')) 0 body)))
             (fst (scan (element (codes ''invoke'')) 0 body)))"

definition call_of :: "utext \<times> utext option \<Rightarrow> dcall list" where
  "call_of m =
     (let attrs = attrs_of (fst m)
      in case od_get attrs (codes ''name'') of
           None \<Rightarrow> []
         | Some name \<Rightarrow>
             if name = [] then []
             else [\<lparr>dc_name = name,
                    dc_params = (case snd m of
                        None \<Rightarrow> (case od_get attrs (codes ''string'') of None \<Rightarrow> [] | Some v \<Rightarrow> [(codes ''value'', Verbatim v)])
                      | Some body \<Rightarrow> params_of body)\<rparr>])"

definition parse_invokes :: "utext \<Rightarrow> dcall list" where
  "parse_invokes block = concat (map call_of (fst (scan (element (codes ''invoke'')) 0 block)))"

text \<open>The bare invokes are cut out one by one, each search starting again at the front.\<close>

fun strip_invokes :: "nat \<Rightarrow> utext \<Rightarrow> dcall list \<times> utext" where
  "strip_invokes 0 s = ([], s)"
| "strip_invokes (Suc n) s =
     (case search (element (codes ''invoke'')) s of
        None \<Rightarrow> ([], s)
      | Some (pre, hit, _, post) \<Rightarrow>
          (let (calls, v) = strip_invokes n (pre @ post) in (parse_invokes hit @ calls, v)))"

text \<open>The calls carry their position as index and id; both are left to the reader of the list.\<close>

definition dsml_extract :: "utext \<Rightarrow> dcall list \<times> utext" where
  "dsml_extract s =
     (if s = [] \<or> \<not> py_contains (codes ''DSML'') s then ([], s)
      else
        (let (blocks, rest) = scan tool_block 0 s;
             calls = concat (map parse_invokes blocks);
             (more_calls, visible) = strip_invokes (length s) (if calls \<noteq> [] then rest else s)
         in if calls @ more_calls = [] then ([], s) else (calls @ more_calls, visible)))"

section \<open>The stream filter\<close>

fun drop_at_most :: "nat \<Rightarrow> (nat \<Rightarrow> bool) \<Rightarrow> utext \<Rightarrow> utext" where
  "drop_at_most (Suc n) p (c # s) = (if p c then drop_at_most n p s else c # s)"
| "drop_at_most n p s = s"

text \<open>\<^verbatim>\<open>$\<close> also matches before a final line feed.\<close>

definition partial_at :: "utext \<Rightarrow> bool" where
  "partial_at s =
     (case eat (codes ''<'') s of
        None \<Rightarrow> False
      | Some r \<Rightarrow>
          drop_at_most 2 ((=) BAR) (drop_at_most 4 (\<lambda>c. c \<in> set (codes ''DSML'')) (drop_at_most 2 ((=) BAR) r)) \<in> {[], [10]})"

fun anywhere :: "(utext \<Rightarrow> bool) \<Rightarrow> utext \<Rightarrow> bool" where
  "anywhere p [] = p []"
| "anywhere p (c # s) = (p (c # s) \<or> anywhere p s)"

definition partial_marker :: "utext \<Rightarrow> bool" where
  "partial_marker s = anywhere partial_at s"

definition looks_like_marker :: "utext \<Rightarrow> bool" where
  "looks_like_marker s = ((py_contains (codes ''DSML'') s \<and> BAR \<in> set s) \<or> partial_marker s)"

text \<open>The text from the last opening marker on.\<close>

fun last_open :: "utext \<Rightarrow> utext option" where
  "last_open [] = None"
| "last_open (c # s) =
     (case last_open s of Some t \<Rightarrow> Some t | None \<Rightarrow> if match_open (c # s) \<noteq> None then Some (c # s) else None)"

definition open_marker_tail :: "utext \<Rightarrow> utext option" where
  "open_marker_tail s =
     (case last_open s of
        None \<Rightarrow> None
      | Some t \<Rightarrow>
          if py_contains (codes ''/>'') t \<or> anywhere (\<lambda>u. match_close u \<noteq> None) t then None else Some t)"

record filter_state =
  df_buffer :: utext
  df_recovered :: bool

definition new_filter :: filter_state where
  "new_filter = \<lparr>df_buffer = [], df_recovered = False\<rparr>"

definition feed :: "utext \<Rightarrow> filter_state \<Rightarrow> (utext \<times> dcall list) \<times> filter_state" where
  "feed s f =
     (if s = [] then (([], []), f)
      else if df_buffer f = [] \<and> \<not> looks_like_marker s then ((s, []), f)
      else
        (let b = df_buffer f @ s; (calls, visible) = dsml_extract b
         in if calls \<noteq> [] then ((visible, calls), f\<lparr>df_buffer := visible, df_recovered := True\<rparr>)
            else if open_marker_tail b \<noteq> None \<or> partial_marker b then (([], []), f\<lparr>df_buffer := b\<rparr>)
            else ((b, []), f\<lparr>df_buffer := []\<rparr>)))"

definition flush :: "filter_state \<Rightarrow> utext \<times> filter_state" where
  "flush f = (df_buffer f, f\<lparr>df_buffer := []\<rparr>)"

text \<open>A whole stream: what becomes visible, and the calls read back.\<close>

fun feed_all :: "utext list \<Rightarrow> filter_state \<Rightarrow> (utext \<times> dcall list) \<times> filter_state" where
  "feed_all [] f = (([], []), f)"
| "feed_all (s # ss) f =
     (let ((out, calls), f1) = feed s f; ((out', calls'), f2) = feed_all ss f1
      in ((out @ out', calls @ calls'), f2))"

section \<open>Nothing is swallowed\<close>

text \<open>The stream filter never loses text: as long as no call is read back, what it has let through
  followed by what it still holds is exactly what it was fed, and the final flush releases the rest.\<close>

theorem filter_loses_nothing:
  assumes "feed_all ss new_filter = ((out, []), f)"
  shows "out @ fst (flush f) = concat ss"
proof -
  have step: "fst (fst (feed s f)) @ df_buffer (snd (feed s f)) = df_buffer f @ s"
    if "snd (fst (feed s f)) = []" for s f
    using that by (auto simp: feed_def Let_def split: prod.splits if_splits)
  have "out @ df_buffer f = df_buffer g @ concat ss" if "feed_all ss g = ((out, []), f)" for g
    using that
  proof (induction ss arbitrary: g out)
    case (Cons s ss)
    obtain o1 c1 g1 where f1: "feed s g = ((o1, c1), g1)" by (metis prod.collapse)
    obtain o2 c2 g2 where f2: "feed_all ss g1 = ((o2, c2), g2)" by (metis prod.collapse)
    from Cons.prems f1 f2 have e: "out = o1 @ o2" "c1 = []" "c2 = []" "g2 = f" by auto
    have "o2 @ df_buffer f = df_buffer g1 @ concat ss" using Cons.IH f2 e by blast
    moreover have "o1 @ df_buffer g1 = df_buffer g @ s" using step[of s g] f1 e by simp
    ultimately show ?case using e(1) by (metis append.assoc concat.simps(2))
  qed auto
  from this[OF assms] show ?thesis by (simp add: flush_def new_filter_def)
qed

section \<open>Text around a call\<close>

text \<open>Text that was held back together with a call is delivered twice: the filter hands it out
  with the call and keeps it in its buffer, from where the next piece of text or the end of the
  stream releases it again.\<close>

theorem text_beside_call_repeated:
  assumes "looks_like_marker s" and "dsml_extract s = (calls, v)" and "calls \<noteq> []"
  shows "\<exists>f. feed_all [s] new_filter = ((v, calls), f) \<and> fst (flush f) = v"
proof -
  have "s \<noteq> []" using assms(2,3) by (auto simp: dsml_extract_def)
  then show ?thesis using assms
    by (simp add: feed_def new_filter_def flush_def)
qed

section \<open>Scanning\<close>

lemma scan_skip: "scan m (length u) (u @ w) = scan m 0 w"
  by (induction u) simp_all

lemma scan_hit:
  assumes "m s = Some (x, r)" "s = u @ r" "u \<noteq> []"
  shows "scan m 0 s = (x # fst (scan m 0 r), snd (scan m 0 r))"
proof -
  obtain c u' where u: "u = c # u'" using assms(3) by (cases u) auto
  with assms(2) have s: "s = c # (u' @ r)" by simp
  then show ?thesis using assms(1) scan_skip[of m u' r] by (simp add: split_beta)
qed

lemma scan_miss: "m (c # s) = None \<Longrightarrow> scan m 0 (c # s) = (fst (scan m 0 s), c # snd (scan m 0 s))"
  by (simp add: split_beta)

definition marks :: "'m matcher \<Rightarrow> bool" where
  "marks m \<longleftrightarrow> (\<forall>c s. c \<noteq> 60 \<longrightarrow> m (c # s) = None)"

lemma scan_free:
  assumes "marks m" "60 \<notin> set u"
  shows "scan m 0 (u @ w) = (fst (scan m 0 w), u @ snd (scan m 0 w))"
  using assms(2)
proof (induction u)
  case (Cons c u)
  then have "m (c # (u @ w)) = None" using assms(1) by (auto simp: marks_def)
  with Cons show ?case by (simp add: scan_miss del: scan.simps)
qed simp

lemma search_free: "marks m \<Longrightarrow> 60 \<notin> set u \<Longrightarrow> search m u = None"
  by (induction u) (auto simp: marks_def)

lemma eat_append [simp]: "eat p (p @ s) = Some s"
  by (simp add: eat_def)

lemma code_lt: "codes ''<'' = [60]" "codes ''</'' = [60, 47]" "codes ''>'' = [62]"
  by (simp_all add: codes_def)

lemma match_open_miss [simp]: "c \<noteq> 60 \<Longrightarrow> match_open (c # s) = None"
  by (simp add: match_open_def match_tag_start_def code_lt eat_def)

lemma match_close_miss [simp]: "c \<noteq> 60 \<Longrightarrow> match_close (c # s) = None"
  by (simp add: match_close_def match_tag_start_def code_lt eat_def)

lemma marks_element [simp]: "marks (element tag)" and marks_block [simp]: "marks tool_block"
  by (simp_all add: marks_def element_def tool_block_def)

text \<open>The two delimiters.\<close>

definition open_mark :: utext where "open_mark = [60, BAR, BAR] @ codes ''DSML'' @ [BAR, BAR]"
definition close_mark :: utext where "close_mark = [60, 47, BAR, BAR] @ codes ''DSML'' @ [BAR, BAR]"

lemma open_mark [simp]: "match_open (open_mark @ s) = Some s" "match_close (open_mark @ s) = None"
  by (simp_all add: open_mark_def match_open_def match_close_def match_tag_start_def code_lt eat_def codes_def BAR_def)

lemma close_mark [simp]: "match_close (close_mark @ s) = Some s" "match_open (close_mark @ s) = None"
  by (simp_all add: close_mark_def match_open_def match_close_def match_tag_start_def code_lt eat_def codes_def BAR_def)

lemma find_close_free:
  assumes "60 \<notin> set u"
  shows "find_close tag (u @ w) = map_option (\<lambda>(b, r). (u @ b, r)) (find_close tag w)"
  using assms
proof (induction u)
  case (Cons c u)
  then have "close_tag tag (c # (u @ w)) = None" by (simp add: close_tag_def)
  with Cons show ?case by (simp split: option.split prod.split)
qed (simp add: option.map_ident case_prod_unfold)

lemma mark_cons: "\<exists>t. open_mark = 60 # t \<and> 60 \<notin> set t" "\<exists>t. close_mark = 60 # t \<and> 60 \<notin> set t"
  by (simp_all add: open_mark_def close_mark_def codes_def BAR_def)

lemma find_close_open: "find_close tag (open_mark @ w) = map_option (\<lambda>(b, r). (open_mark @ b, r)) (find_close tag w)"
proof -
  obtain t where t: "open_mark = 60 # t" "60 \<notin> set t" using mark_cons by blast
  have "close_tag tag (60 # (t @ w)) = None" using open_mark(2)[of w, unfolded t(1)] by (simp add: close_tag_def)
  with find_close_free[OF t(2), of tag w] show ?thesis unfolding t(1) by (auto split: option.split)
qed

lemma find_close_other:
  assumes "eat (tag @ codes ''>'') w = None"
  shows "find_close tag (close_mark @ w) = map_option (\<lambda>(b, r). (close_mark @ b, r)) (find_close tag w)"
proof -
  obtain t where t: "close_mark = 60 # t" "60 \<notin> set t" using mark_cons by blast
  have "close_tag tag (60 # (t @ w)) = None" using close_mark(1)[of w, unfolded t(1)] assms by (simp add: close_tag_def)
  with find_close_free[OF t(2), of tag w] show ?thesis unfolding t(1) by (auto split: option.split)
qed

lemma find_close_this: "find_close tag (close_mark @ tag @ codes ''>'' @ w) = Some ([], w)"
proof -
  obtain t where t: "close_mark = 60 # t" "60 \<notin> set t" using mark_cons by blast
  have "close_tag tag (60 # (t @ (tag @ codes ''>'' @ w))) = Some w"
    using close_mark(1)[of "tag @ codes ''>'' @ w", unfolded t(1)] eat_append[of "tag @ codes ''>''" w] by (simp add: close_tag_def)
  then show ?thesis unfolding t(1) by simp
qed


section \<open>Rendering\<close>

definition quoted :: "string \<Rightarrow> utext \<Rightarrow> utext" where
  "quoted key v = codes key @ [61, 34] @ v @ [34]"

definition render_param :: "utext \<times> utext \<Rightarrow> utext" where
  "render_param kv = open_mark @ codes ''parameter '' @ quoted ''name'' (fst kv) @ codes '' '' @ quoted ''string'' (codes ''true'') @ [62]
     @ snd kv @ close_mark @ codes ''parameter>''"

definition render_call :: "utext \<times> (utext \<times> utext) list \<Rightarrow> utext" where
  "render_call c = open_mark @ codes ''invoke '' @ quoted ''name'' (fst c) @ [62]
     @ concat (map render_param (snd c)) @ close_mark @ codes ''invoke>''"

definition render_block :: "(utext \<times> (utext \<times> utext) list) list \<Rightarrow> utext" where
  "render_block cs = open_mark @ codes ''tool_calls>'' @ concat (map render_call cs) @ close_mark @ codes ''tool_calls>''"

definition plain_name :: "utext \<Rightarrow> bool" where
  "plain_name n \<longleftrightarrow> n \<noteq> [] \<and> set n \<inter> {34, 60, 62} = {}"

definition plain_call :: "utext \<times> (utext \<times> utext) list \<Rightarrow> bool" where
  "plain_call c \<longleftrightarrow> plain_name (fst c) \<and> distinct (map fst (snd c))
     \<and> (\<forall>(k, v) \<in> set (snd c). plain_name k \<and> 60 \<notin> set v)"

definition call_for :: "utext \<times> (utext \<times> utext) list \<Rightarrow> dcall" where
  "call_for c = \<lparr>dc_name = fst c, dc_params = map (\<lambda>(k, v). (k, Verbatim v)) (snd c)\<rparr>"

lemma attribute_quoted:
  assumes "34 \<notin> set v" "key \<noteq> []" "\<forall>c \<in> set key. is_word_code c"
  shows "attribute (key @ [61, 34] @ v @ 34 # w) = Some ((key, v), w)"
proof -
  have w: "\<not> is_word_code 61" "\<not> is_space_code 61" "\<not> is_space_code 34"
    by (simp_all add: is_word_code_def is_space_code_def)
  have tk: "takeWhile is_word_code (key @ [61, 34] @ v @ 34 # w) = key"
    "dropWhile is_word_code (key @ [61, 34] @ v @ 34 # w) = [61, 34] @ v @ 34 # w"
    using assms(3) w(1) by (simp_all add: takeWhile_tail dropWhile_append)
  have tv: "takeWhile (\<lambda>c. c \<noteq> 34) (v @ 34 # w) = v" "dropWhile (\<lambda>c. c \<noteq> 34) (v @ 34 # w) = 34 # w"
    using assms(1) by (simp_all add: takeWhile_append dropWhile_append)
  show ?thesis by (simp only: attribute_def tk) (use assms w tv in \<open>simp add: Let_def\<close>)
qed

lemma word_keys: "\<forall>c \<in> set (codes ''name''). is_word_code c" "\<forall>c \<in> set (codes ''string''). is_word_code c"
  by (simp_all add: codes_def is_word_code_def)

lemma attribute_blank: "attribute (32 # s) = None"
  by (simp add: attribute_def is_word_code_def)

lemma scan_blank: "scan attribute 0 (32 # s) = (fst (scan attribute 0 s), 32 # snd (scan attribute 0 s))"
  by (rule scan_miss) (rule attribute_blank)

lemma scan_quoted:
  assumes "34 \<notin> set v" "key \<in> {''name'', ''string''}"
  shows "scan attribute 0 (quoted key v @ w) = ((codes key, v) # fst (scan attribute 0 w), snd (scan attribute 0 w))"
proof -
  have k: "codes key \<noteq> []" "\<forall>c \<in> set (codes key). is_word_code c" using assms(2) word_keys by (auto simp: codes_def)
  have "attribute (quoted key v @ w) = Some ((codes key, v), w)"
    using attribute_quoted[OF assms(1) k] by (simp add: quoted_def)
  moreover have "quoted key v \<noteq> []" by (simp add: quoted_def)
  ultimately show ?thesis by (intro scan_hit[where u = "quoted key v"]) simp_all
qed

lemma attrs_name: "34 \<notin> set n \<Longrightarrow> attrs_of (32 # quoted ''name'' n) = [(codes ''name'', n)]"
  using scan_quoted[of n "''name''" "[]"] scan_blank[of "quoted ''name'' n"]
  by (simp add: attrs_of_def od_set_def)

lemma attrs_param:
  assumes "34 \<notin> set n"
  shows "attrs_of (32 # quoted ''name'' n @ 32 # quoted ''string'' (codes ''true'')) = [(codes ''name'', n), (codes ''string'', codes ''true'')]"
proof -
  have t: "34 \<notin> set (codes ''true'')" by (simp add: codes_def)
  have ne: "codes ''name'' \<noteq> codes ''string''" by (simp add: codes_def)
  have "scan attribute 0 (32 # quoted ''name'' n @ 32 # quoted ''string'' (codes ''true''))
      = ([(codes ''name'', n), (codes ''string'', codes ''true'')], [32, 32])"
    using scan_quoted[OF assms, of "''name''" "32 # quoted ''string'' (codes ''true'')"] scan_quoted[OF t, of "''string''" "[]"]
    by (simp add: scan_blank del: scan.simps(3))
  with ne show ?thesis by (simp add: attrs_of_def od_set_def)
qed

lemma element_long:
  assumes "62 \<notin> set a" "a = 32 # b @ [34]" "find_close tag w = Some (body, r)"
  shows "element tag (open_mark @ tag @ a @ 62 # w) = Some ((a, Some body), r)"
proof -
  have t: "takeWhile (\<lambda>c. c \<noteq> 62) (a @ 62 # w) = a" "dropWhile (\<lambda>c. c \<noteq> 62) (a @ 62 # w) = 62 # w"
    using assms(1) by (simp_all add: takeWhile_append dropWhile_append)
  have h: "a @ 62 # w \<noteq> []" "\<not> is_word_code (hd (a @ 62 # w))" "last a \<noteq> 47"
    using assms(2) by (simp_all add: is_word_code_def)
  show ?thesis by (simp only: element_def open_mark Option.bind.simps eat_append option.case t Let_def)
    (use h assms(3) in simp)
qed


abbreviation "name_attr n \<equiv> 32 # quoted ''name'' n"
abbreviation "param_attr n \<equiv> 32 # quoted ''name'' n @ 32 # quoted ''string'' (codes ''true'')"

lemma tag_codes: "codes ''parameter '' = codes ''parameter'' @ [32]" "codes ''invoke '' = codes ''invoke'' @ [32]"
    "codes '' '' = [32]" "codes ''parameter>'' = codes ''parameter'' @ codes ''>''" "codes ''invoke>'' = codes ''invoke'' @ codes ''>''"
    "codes ''tool_calls>'' = codes ''tool_calls'' @ codes ''>''"
  by (simp_all add: codes_def)

lemma render_param_append: "render_param (k, v) @ w =
    open_mark @ codes ''parameter'' @ param_attr k @ 62 # v @ close_mark @ codes ''parameter'' @ codes ''>'' @ w"
  by (simp add: render_param_def tag_codes)

lemma render_call_append: "render_call (n, ps) @ w =
    open_mark @ codes ''invoke'' @ name_attr n @ 62 # concat (map render_param ps) @ close_mark @ codes ''invoke'' @ codes ''>'' @ w"
  by (simp add: render_call_def tag_codes)

lemma no_lt: "60 \<notin> set (codes ''parameter'')" "60 \<notin> set (codes ''invoke'')" "60 \<notin> set (codes ''>'')" "60 \<notin> set (codes ''tool_calls'')"
  "60 \<notin> set (codes ''name'')" "60 \<notin> set (codes ''string'')" "60 \<notin> set (codes ''true'')"
  by (simp_all add: codes_def)

lemma attr_free:
  assumes "plain_name n"
  shows "60 \<notin> set (name_attr n)" "60 \<notin> set (param_attr n)" "62 \<notin> set (name_attr n)" "62 \<notin> set (param_attr n)" "34 \<notin> set n"
  using assms by (auto simp: plain_name_def quoted_def codes_def)

lemma other_tags:
  "eat (codes ''invoke'' @ codes ''>'') (codes ''parameter'' @ w) = None"
  "eat (codes ''tool_calls'' @ codes ''>'') (codes ''parameter'' @ w) = None"
  "eat (codes ''tool_calls'' @ codes ''>'') (codes ''invoke'' @ w) = None"
  "eat (codes ''invoke'') (codes ''parameter'' @ w) = None"
  by (simp_all add: eat_def codes_def)

lemma map_option_pair: "map_option (\<lambda>(b, r). (u @ b, r)) (Some (b', r')) = Some (u @ b', r')"
  by simp

lemma find_close_param:
  assumes "plain_name k" "60 \<notin> set v" "tag \<in> {codes ''invoke'', codes ''tool_calls''}"
  shows "find_close tag (render_param (k, v) @ w) = map_option (\<lambda>(b, r). (render_param (k, v) @ b, r)) (find_close tag w)"
proof -
  have e: "eat (tag @ codes ''>'') (codes ''parameter'' @ codes ''>'' @ w) = None" using assms(3) other_tags by auto
  have f1: "60 \<notin> set (codes ''parameter'' @ param_attr k @ 62 # v)" using assms(1,2) attr_free no_lt by auto
  have f2: "60 \<notin> set (codes ''parameter'' @ codes ''>'')" using no_lt by auto
  have r: "render_param (k, v) @ w = open_mark @ (codes ''parameter'' @ param_attr k @ 62 # v) @ close_mark @ (codes ''parameter'' @ codes ''>'') @ w" for w
    by (simp add: render_param_append)
  show ?thesis unfolding r find_close_open find_close_free[OF f1] find_close_other[OF e[folded append_assoc]]
      find_close_free[OF f2] by (cases "find_close tag w") (simp_all add: split_beta r[symmetric])
qed


lemma find_close_params:
  assumes "\<forall>(k, v) \<in> set ps. plain_name k \<and> 60 \<notin> set v" "tag \<in> {codes ''invoke'', codes ''tool_calls''}"
  shows "find_close tag (concat (map render_param ps) @ w) = map_option (\<lambda>(b, r). (concat (map render_param ps) @ b, r)) (find_close tag w)"
  using assms(1)
proof (induction ps)
  case (Cons p ps)
  obtain k v where p: "p = (k, v)" by (cases p)
  with Cons have "plain_name k" "60 \<notin> set v" by auto
  from find_close_param[OF this assms(2)] Cons p show ?case
    by (cases "find_close tag w") (simp_all add: split_beta)
qed (simp add: option.map_ident case_prod_unfold)

lemma find_close_call:
  assumes "plain_call c"
  shows "find_close (codes ''tool_calls'') (render_call c @ w)
    = map_option (\<lambda>(b, r). (render_call c @ b, r)) (find_close (codes ''tool_calls'') w)"
proof -
  obtain n ps where c: "c = (n, ps)" by (cases c)
  let ?t = "codes ''tool_calls''"
  have e: "eat (?t @ codes ''>'') (codes ''invoke'' @ codes ''>'' @ w) = None" using other_tags by auto
  have f1: "60 \<notin> set (codes ''invoke'' @ name_attr n @ [62])" using assms c attr_free no_lt by (auto simp: plain_call_def)
  have f2: "60 \<notin> set (codes ''invoke'' @ codes ''>'')" using no_lt by auto
  have ps: "\<forall>(k, v) \<in> set ps. plain_name k \<and> 60 \<notin> set v" using assms c by (simp add: plain_call_def)
  have r: "render_call c @ w = open_mark @ (codes ''invoke'' @ name_attr n @ [62]) @ concat (map render_param ps) @ close_mark @ (codes ''invoke'' @ codes ''>'') @ w" for w
    by (simp add: c render_call_append)
  show ?thesis unfolding r find_close_open find_close_free[OF f1] find_close_params[OF ps insertI2[OF singletonI]]
      find_close_other[OF e[folded append_assoc]] find_close_free[OF f2]
    by (cases "find_close ?t w") (simp_all add: split_beta r[symmetric])
qed

lemma find_close_calls:
  assumes "\<forall>c \<in> set cs. plain_call c"
  shows "find_close (codes ''tool_calls'') (concat (map render_call cs) @ w)
    = map_option (\<lambda>(b, r). (concat (map render_call cs) @ b, r)) (find_close (codes ''tool_calls'') w)"
  using assms
proof (induction cs)
  case (Cons c cs)
  with find_close_call[of c] show ?case by (cases "find_close (codes ''tool_calls'') w") (simp_all add: split_beta)
qed (simp add: option.map_ident case_prod_unfold)

lemma tool_block_rendered:
  assumes "\<forall>c \<in> set cs. plain_call c"
  shows "tool_block (render_block cs @ w) = Some (concat (map render_call cs), w)"
proof -
  have t: "render_block cs @ w = open_mark @ codes ''tool_calls>'' @ concat (map render_call cs) @ close_mark @ codes ''tool_calls'' @ codes ''>'' @ w"
    by (simp add: render_block_def tag_codes)
  show ?thesis unfolding t tool_block_def open_mark Option.bind.simps eat_append find_close_calls[OF assms] find_close_this by simp
qed

lemma element_param:
  assumes "plain_name k" "60 \<notin> set v"
  shows "element (codes ''parameter'') (render_param (k, v) @ w) = Some ((param_attr k, Some v), w)"
proof -
  have "find_close (codes ''parameter'') (v @ close_mark @ codes ''parameter'' @ codes ''>'' @ w) = Some (v, w)"
    unfolding find_close_free[OF assms(2)] find_close_this by simp
  moreover have "\<exists>b. param_attr k = 32 # b @ [34]" by (simp add: quoted_def)
  ultimately show ?thesis unfolding render_param_append using element_long attr_free(4)[OF assms(1)] by blast
qed

lemma element_call:
  assumes "plain_call (n, ps)"
  shows "element (codes ''invoke'') (render_call (n, ps) @ w) = Some ((name_attr n, Some (concat (map render_param ps))), w)"
proof -
  have "find_close (codes ''invoke'') (concat (map render_param ps) @ close_mark @ codes ''invoke'' @ codes ''>'' @ w)
      = Some (concat (map render_param ps), w)"
    using assms by (subst find_close_params) (auto simp: plain_call_def find_close_this)
  moreover have "\<exists>b. name_attr n = 32 # b @ [34]" by (simp add: quoted_def)
  moreover have "62 \<notin> set (name_attr n)" using assms attr_free(3) by (simp add: plain_call_def)
  ultimately show ?thesis unfolding render_call_append using element_long by blast
qed

lemma scan_params:
  assumes "\<forall>(k, v) \<in> set ps. plain_name k \<and> 60 \<notin> set v"
  shows "fst (scan (element (codes ''parameter'')) 0 (concat (map render_param ps))) = map (\<lambda>(k, v). (param_attr k, Some v)) ps"
  using assms
proof (induction ps)
  case (Cons p ps)
  obtain k v where p: "p = (k, v)" by (cases p)
  with Cons have "plain_name k" "60 \<notin> set v" by auto
  from element_param[OF this] have
    "scan (element (codes ''parameter'')) 0 (render_param (k, v) @ concat (map render_param ps))
      = ((param_attr k, Some v) # fst (scan (element (codes ''parameter'')) 0 (concat (map render_param ps))),
         snd (scan (element (codes ''parameter'')) 0 (concat (map render_param ps))))"
    by (intro scan_hit[where u = "render_param (k, v)"]) (simp_all add: render_param_def open_mark_def)
  with Cons p show ?case by simp
qed simp

lemma scan_calls:
  assumes "\<forall>c \<in> set cs. plain_call c"
  shows "fst (scan (element (codes ''invoke'')) 0 (concat (map render_call cs)))
    = map (\<lambda>(n, ps). (name_attr n, Some (concat (map render_param ps)))) cs"
  using assms
proof (induction cs)
  case (Cons c cs)
  obtain n ps where c: "c = (n, ps)" by (cases c)
  with Cons have "plain_call (n, ps)" by auto
  from element_call[OF this] have
    "scan (element (codes ''invoke'')) 0 (render_call (n, ps) @ concat (map render_call cs))
      = ((name_attr n, Some (concat (map render_param ps))) # fst (scan (element (codes ''invoke'')) 0 (concat (map render_call cs))),
         snd (scan (element (codes ''invoke'')) 0 (concat (map render_call cs))))"
    by (intro scan_hit[where u = "render_call (n, ps)"]) (simp_all add: render_call_def open_mark_def)
  with Cons c show ?case by simp
qed simp

lemma scan_marked_miss:
  assumes "element tag (m @ w) = None" "m = 60 # t" "60 \<notin> set t"
  shows "fst (scan (element tag) 0 (m @ w)) = fst (scan (element tag) 0 w)"
  using assms scan_miss[of "element tag" 60 "t @ w"] scan_free[OF marks_element assms(3)] by simp

lemma no_invoke_in_params:
  assumes "\<forall>(k, v) \<in> set ps. plain_name k \<and> 60 \<notin> set v"
  shows "fst (scan (element (codes ''invoke'')) 0 (concat (map render_param ps))) = []"
  using assms
proof (induction ps)
  case (Cons p ps)
  obtain k v where p: "p = (k, v)" by (cases p)
  with Cons have plain: "plain_name k" "60 \<notin> set v" by auto
  let ?s = "\<lambda>s. fst (scan (element (codes ''invoke'')) 0 s)"
  let ?rest = "concat (map render_param ps)"
  have f1: "60 \<notin> set (codes ''parameter'' @ param_attr k @ 62 # v)" using plain attr_free no_lt by auto
  have f2: "60 \<notin> set (codes ''parameter'' @ codes ''>'')" using no_lt by auto
  have skip_open: "?s (open_mark @ codes ''parameter'' @ w) = ?s (codes ''parameter'' @ w)" for w
    using mark_cons(1) by (elim exE conjE) (rule scan_marked_miss; simp add: element_def other_tags)
  have skip_close: "?s (close_mark @ w) = ?s w" for w
    using mark_cons(2) by (elim exE conjE) (rule scan_marked_miss; simp add: element_def)
  have "?s (render_param (k, v) @ ?rest) = ?s ((codes ''parameter'' @ param_attr k @ 62 # v) @ close_mark @ (codes ''parameter'' @ codes ''>'') @ ?rest)"
    unfolding render_param_append skip_open by simp
  also have "\<dots> = ?s (close_mark @ (codes ''parameter'' @ codes ''>'') @ ?rest)" by (simp only: scan_free[OF marks_element f1] fst_conv)
  also have "\<dots> = ?s ?rest" by (simp only: skip_close scan_free[OF marks_element f2] fst_conv)
  finally show ?case using Cons p by simp
qed simp


lemma key_codes: "codes ''name'' \<noteq> codes ''string''" "codes ''string'' \<noteq> codes ''name''" "codes ''true'' = codes ''true''"
  by (simp_all add: codes_def)

lemma od_set_fresh: "k \<notin> fst ` set d \<Longrightarrow> od_set k v d = d @ [(k, v)]"
  by (induction d) (auto simp: od_set_def)

lemma add_params:
  assumes "\<forall>(k, v) \<in> set ps. plain_name k \<and> 60 \<notin> set v" "distinct (map fst d @ map fst ps)"
  shows "foldl add_param d (map (\<lambda>(k, v). (param_attr k, Some v)) ps) = d @ map (\<lambda>(k, v). (k, Verbatim v)) ps"
  using assms
proof (induction ps arbitrary: d)
  case (Cons p ps)
  obtain k v where p: "p = (k, v)" by (cases p)
  with Cons have k: "plain_name k" by auto
  have a: "attrs_of (param_attr k) = [(codes ''name'', k), (codes ''string'', codes ''true'')]"
    by (rule attrs_param[OF attr_free(5)[OF k]])
  have "add_param d (param_attr k, Some v) = od_set k (Verbatim v) d"
    using k a key_codes by (simp add: add_param_def decode_value_def plain_name_def Let_def)
  moreover have "od_set k (Verbatim v) d = d @ [(k, Verbatim v)]"
    using Cons.prems(2) p by (intro od_set_fresh) auto
  ultimately show ?case using Cons.IH[of "d @ [(k, Verbatim v)]"] Cons.prems p by simp
qed simp

lemma params_of_rendered:
  assumes "\<forall>(k, v) \<in> set ps. plain_name k \<and> 60 \<notin> set v" "distinct (map fst ps)"
  shows "params_of (concat (map render_param ps)) = map (\<lambda>(k, v). (k, Verbatim v)) ps"
proof (cases "concat (map render_param ps) = []")
  case True
  then have "ps = []" by (cases ps) (auto simp: render_param_def open_mark_def)
  then show ?thesis by (simp add: params_of_def)
next
  case False
  have "foldl add_param [] (map (\<lambda>(k, v). (param_attr k, Some v)) ps) = map (\<lambda>(k, v). (k, Verbatim v)) ps"
    using add_params[OF assms(1), of "[]"] assms(2) by simp
  with False show ?thesis
    by (simp only: params_of_def if_False scan_params[OF assms(1)] no_invoke_in_params[OF assms(1)] foldl.simps)
qed

lemma parse_rendered:
  assumes "\<forall>c \<in> set cs. plain_call c"
  shows "parse_invokes (concat (map render_call cs)) = map call_for cs"
proof -
  have "call_of (name_attr n, Some (concat (map render_param ps))) = [call_for (n, ps)]" if "plain_call (n, ps)" for n ps
  proof -
    have "attrs_of (name_attr n) = [(codes ''name'', n)]" using that by (simp add: plain_call_def attrs_name attr_free(5))
    moreover have "params_of (concat (map render_param ps)) = map (\<lambda>(k, v). (k, Verbatim v)) ps"
      using that by (intro params_of_rendered) (simp_all add: plain_call_def)
    moreover have "n \<noteq> []" using that by (simp add: plain_call_def plain_name_def)
    ultimately show ?thesis by (simp only: call_of_def call_for_def fst_conv snd_conv Let_def) simp
  qed
  then have "\<forall>c \<in> set cs. call_of ((\<lambda>(n, ps). (name_attr n, Some (concat (map render_param ps)))) c) = [call_for c]"
    using assms by auto
  then have "concat (map (call_of \<circ> (\<lambda>(n, ps). (name_attr n, Some (concat (map render_param ps))))) cs) = map call_for cs"
    by (induction cs) auto
  then show ?thesis by (simp add: parse_invokes_def scan_calls[OF assms])
qed

lemma py_contains_mid: "py_contains n (a @ n @ b)"
proof (induction a)
  case Nil
  then show ?case by (cases n; cases b) auto
qed auto

lemma block_read_back:
  assumes "\<forall>c \<in> set cs. plain_call c" and "cs \<noteq> []" and "60 \<notin> set pre" and "60 \<notin> set post"
  shows "dsml_extract (pre @ render_block cs @ post) = (map call_for cs, pre @ post)"
proof -
  let ?s = "pre @ render_block cs @ post"
  have post: "scan tool_block 0 post = ([], post)"
    using scan_free[OF marks_block assms(4), of "[]"] by simp
  have "scan tool_block 0 (render_block cs @ post) = ([concat (map render_call cs)], post)"
    by (subst scan_hit[where u = "render_block cs" and m = tool_block, OF tool_block_rendered[OF assms(1)] refl])
      (simp_all add: post, simp add: render_block_def open_mark_def)
  then have scan: "scan tool_block 0 ?s = ([concat (map render_call cs)], pre @ post)"
    by (simp add: scan_free[OF marks_block assms(3)])
  have "?s = (pre @ [60, BAR, BAR]) @ codes ''DSML'' @ ([BAR, BAR] @ drop (length open_mark) (render_block cs) @ post)"
    by (simp add: render_block_def open_mark_def)
  then have "py_contains (codes ''DSML'') ?s" using py_contains_mid by metis
  moreover have "?s \<noteq> []" by (simp add: render_block_def open_mark_def)
  moreover have "strip_invokes n (pre @ post) = ([], pre @ post)" for n
    using search_free[OF marks_element, of "pre @ post"] assms(3,4) by (cases n) simp_all
  ultimately show ?thesis using assms(2) scan parse_rendered[OF assms(1)] by (simp add: dsml_extract_def)
qed


definition sample_calls :: "(utext \<times> (utext \<times> utext) list) list" where
  "sample_calls = [(codes ''shell'', [(codes ''command'', codes ''ls -l'')])]"

lemma sample_calls_plain: "\<forall>c \<in> set sample_calls. plain_call c" "sample_calls \<noteq> []"
  by (simp_all add: sample_calls_def plain_call_def plain_name_def codes_def)


lemma sample_marker: "looks_like_marker (codes ''Hi '' @ render_block sample_calls @ [])"
proof -
  have "codes ''Hi '' @ render_block sample_calls @ [] = (codes ''Hi '' @ [60, BAR, BAR]) @ codes ''DSML'' @
      ([BAR, BAR] @ drop (length open_mark) (render_block sample_calls))"
    by (simp add: render_block_def open_mark_def)
  then have "py_contains (codes ''DSML'') (codes ''Hi '' @ render_block sample_calls @ [])"
    using py_contains_mid by metis
  then show ?thesis by (simp add: looks_like_marker_def render_block_def open_mark_def)
qed

theorem text_beside_call_repeated_witness:
  "\<exists>f. feed_all [codes ''Hi '' @ render_block sample_calls @ []] new_filter = ((codes ''Hi '', map call_for sample_calls), f)
     \<and> fst (flush f) = codes ''Hi ''"
proof -
  have "map call_for sample_calls \<noteq> []" by (simp add: sample_calls_def)
  moreover have "dsml_extract (codes ''Hi '' @ render_block sample_calls @ []) = (map call_for sample_calls, codes ''Hi '')"
    using block_read_back[OF sample_calls_plain, of "codes ''Hi ''" "[]"] by (simp add: codes_def)
  ultimately show ?thesis using text_beside_call_repeated[OF sample_marker] by blast
qed

lemma drop_at_most_numeral [simp]:
  "drop_at_most (numeral k) p (c # s) = (if p c then drop_at_most (pred_numeral k) p s else c # s)"
  "drop_at_most n p [] = []"
  by (simp add: numeral_eq_Suc) (cases n; simp)

theorem filter_loses_nothing_witness:
  "fst (flush (snd (feed_all [[97, 60], [98]] new_filter))) = []
   \<and> fst (fst (feed_all [[97, 60], [98]] new_filter)) = [97, 60, 98]"
proof -
  let ?r = "feed_all [[97, 60], [98]] new_filter"
  have r: "?r = (([97, 60, 98], []), \<lparr>df_buffer = [], df_recovered = False\<rparr>)"
    by (simp add: feed_def new_filter_def looks_like_marker_def partial_marker_def partial_at_def eat_def codes_def
        BAR_def dsml_extract_def open_marker_tail_def match_open_def match_tag_start_def)
  from filter_loses_nothing[OF r] r show ?thesis by (simp add: flush_def)
qed

end
