(* ===== verification/ChatStream.thy ===== *)
theory ChatStream
  imports Dsml
begin

text \<open>
  \<^verbatim>\<open>src/compat/openai/response.py\<close>: the neutral events become the frames of the chat protocol,
  one by one (\<^verbatim>\<open>StreamTranslator\<close>) or at once (\<^verbatim>\<open>aggregate\<close>). A frame is its payload without
  the completion id, the time stamp and the model name; the JSON text around it is left out.
  \<open>enc\<close> is the \<^verbatim>\<open>function\<close> object of a call read back from DSML, that is its name and
  \<^verbatim>\<open>json.dumps\<close> of its parameters; \<open>valid\<close> tells whether a text is a JSON object. Entries of a
  tool call list are objects (the parsers of the providers drop all others), their \<^verbatim>\<open>function\<close>
  member, if any, an object, and arguments texts.
\<close>

section \<open>Tool call positions\<close>

record index_state =
  ti_index :: "string \<rightharpoonup> int"
  ti_id :: "int \<rightharpoonup> string"
  ti_used :: "int list"
  ti_seq :: int

definition new_index_state :: index_state where
  "new_index_state = \<lparr>ti_index = Map.empty, ti_id = Map.empty, ti_used = [], ti_seq = 0\<rparr>"

definition obj_of :: "json \<Rightarrow> jobject" where
  "obj_of v = (case v of JObj d \<Rightarrow> d | _ \<Rightarrow> [])"

definition str_of :: "json \<Rightarrow> string" where
  "str_of v = (case v of JStr s \<Rightarrow> s | _ \<Rightarrow> [])"

text \<open>\<^verbatim>\<open>_bind\<close>; a missing id is made up once per position.\<close>

definition bind_id :: "int \<Rightarrow> string \<Rightarrow> jobject \<Rightarrow> index_state \<Rightarrow> jobject \<times> index_state" where
  "bind_id index tool_id item st =
     (if tool_id \<noteq> [] then
        (item, st\<lparr>ti_index := (ti_index st)(tool_id \<mapsto> index),
                  ti_id := (case ti_id st index of None \<Rightarrow> (ti_id st)(index \<mapsto> tool_id) | Some _ \<Rightarrow> ti_id st)\<rparr>)
      else
        (case ti_id st index of
           Some existing \<Rightarrow> (od_set ''id'' (JStr existing) item, st)
         | None \<Rightarrow>
             (let n = ti_seq st + 1; made = ''call_'' @ py_str index @ ''_'' @ py_str n
              in (od_set ''id'' (JStr made) item, st\<lparr>ti_seq := n, ti_id := (ti_id st)(index \<mapsto> made)\<rparr>))))"

text \<open>\<^verbatim>\<open>while candidate in self.used: candidate += 1\<close>; the fuel is the number of used positions.\<close>

fun first_unused :: "nat \<Rightarrow> int \<Rightarrow> int list \<Rightarrow> int" where
  "first_unused 0 c used = c"
| "first_unused (Suc n) c used = (if c \<in> set used then first_unused n (c + 1) used else c)"

definition use_index :: "int \<Rightarrow> index_state \<Rightarrow> index_state" where
  "use_index i st = st\<lparr>ti_used := List.insert i (ti_used st)\<rparr>"

definition resolve_call :: "json \<Rightarrow> index_state \<Rightarrow> (jobject \<times> int) \<times> index_state" where
  "resolve_call tc st =
     (let item = obj_of tc; tool_id = str_of (jget item ''id'')
      in case jget item ''index'' of
           JInt index \<Rightarrow>
             (let (item1, st1) = bind_id index tool_id item (use_index index st) in ((item1, index), st1))
         | _ \<Rightarrow>
             (case (if tool_id \<noteq> [] then ti_index st tool_id else None) of
                Some resolved \<Rightarrow> ((od_set ''index'' (JInt resolved) item, resolved), st)
              | None \<Rightarrow>
                  (let c = first_unused (length (ti_used st)) 0 (ti_used st);
                       (item1, st1) = bind_id c tool_id item (use_index c st)
                   in ((od_set ''index'' (JInt c) item1, c), st1))))"

fun resolve_calls :: "json list \<Rightarrow> index_state \<Rightarrow> (jobject \<times> int) list \<times> index_state" where
  "resolve_calls [] st = ([], st)"
| "resolve_calls (tc # tcs) st =
     (let (r, st1) = resolve_call tc st; (rs, st2) = resolve_calls tcs st1 in (r # rs, st2))"

section \<open>The streaming translator\<close>

record delta =
  d_role :: bool
  d_content :: "utext option"
  d_reasoning :: "utext option"
  d_calls :: "(jobject \<times> int) list"

definition no_delta :: delta where
  "no_delta = \<lparr>d_role = False, d_content = None, d_reasoning = None, d_calls = []\<rparr>"

datatype frame =
    Delta delta
  | Final string
  | UsageFrame jobject
  | ErrorEvent string "int option"
  | DoneFrame

record translator =
  tl_sent_role :: bool
  tl_tools :: index_state
  tl_finished :: bool
  tl_usage :: "usage option"
  tl_done_sent :: bool
  tl_filter :: filter_state

definition new_translator :: translator where
  "new_translator = \<lparr>tl_sent_role = False, tl_tools = new_index_state, tl_finished = False, tl_usage = None,
     tl_done_sent = False, tl_filter = new_filter\<rparr>"

definition int_or_null :: "int option \<Rightarrow> json" where
  "int_or_null n = (case n of None \<Rightarrow> JNull | Some i \<Rightarrow> JInt i)"

definition or_zero :: "int option \<Rightarrow> int" where
  "or_zero n = (case n of None \<Rightarrow> 0 | Some i \<Rightarrow> i)"

definition usage_payload :: "usage option \<Rightarrow> jobject" where
  "usage_payload u =
     (let get = (\<lambda>f. int_or_null (Option.bind u f))
      in [(''prompt_tokens'', get u_input), (''completion_tokens'', get u_output),
          (''total_tokens'', (case u of None \<Rightarrow> JNull | Some x \<Rightarrow> JInt (or_zero (u_input x) + or_zero (u_output x)))),
          (''prompt_tokens_details'', JObj [(''cached_tokens'', get u_cached)]),
          (''completion_tokens_details'', JObj [(''reasoning_tokens'', get u_reasoning)])])"

text \<open>A call read back from DSML, with its position in the list it was found in.\<close>

fun number_calls :: "(dcall \<Rightarrow> json) \<Rightarrow> int \<Rightarrow> dcall list \<Rightarrow> json list" where
  "number_calls enc i [] = []"
| "number_calls enc i (c # cs) =
     JObj [(''type'', JStr ''function''), (''function'', enc c), (''index'', JInt i),
           (''id'', JStr (''call_dsml_'' @ py_str i))] # number_calls enc (i + 1) cs"

definition truthy_text :: "utext option \<Rightarrow> utext option" where
  "truthy_text t = (if t = Some [] then None else t)"

text \<open>\<^verbatim>\<open>or "stop"\<close>.\<close>

definition reason_or_stop :: "string option \<Rightarrow> string" where
  "reason_or_stop r = (case r of None \<Rightarrow> ''stop'' | Some s \<Rightarrow> if s = [] then ''stop'' else s)"

definition close_frames :: "string \<Rightarrow> translator \<Rightarrow> frame list \<times> translator" where
  "close_frames reason st =
     (let (pending, fs) = flush (tl_filter st);
          st1 = st\<lparr>tl_filter := fs\<rparr>;
          text_frames = (if pending = [] then []
                         else [Delta (no_delta\<lparr>d_role := \<not> tl_sent_role st, d_content := Some pending\<rparr>)]);
          st2 = (if pending = [] then st1 else st1\<lparr>tl_sent_role := True\<rparr>);
          reason1 = (if df_recovered fs \<and> reason = ''stop'' then ''tool_calls'' else reason)
      in (text_frames @ [Final reason1]
            @ (case tl_usage st2 of None \<Rightarrow> [] | Some u \<Rightarrow> [UsageFrame (usage_payload (Some u))]) @ [DoneFrame],
          st2\<lparr>tl_done_sent := True\<rparr>))"

definition translate :: "(dcall \<Rightarrow> json) \<Rightarrow> event \<Rightarrow> translator \<Rightarrow> frame list \<times> translator" where
  "translate enc ev st =
     (case ev_kind ev of
        EvError \<Rightarrow>
          ([ErrorEvent (case ev_error_message ev of None \<Rightarrow> ''upstream error'' | Some m \<Rightarrow> if m = [] then ''upstream error'' else m)
              (ev_error_code ev)], st)
      | EvUsage \<Rightarrow> ([], st\<lparr>tl_usage := ev_usage ev\<rparr>)
      | EvFinish \<Rightarrow> close_frames (reason_or_stop (ev_finish_reason ev)) (st\<lparr>tl_finished := True\<rparr>)
      | kind \<Rightarrow>
          (let raw = truthy_text (ev_content ev);
               ((visible, found), fs) =
                 (case raw of Some s \<Rightarrow> if kind = EvContent then feed s (tl_filter st) else ((s, []), tl_filter st)
                  | None \<Rightarrow> (([], []), tl_filter st));
               st0 = st\<lparr>tl_filter := fs\<rparr>;
               calls = (if kind = EvToolCalls then (case ev_tool_calls ev of None \<Rightarrow> [] | Some l \<Rightarrow> l) else []);
               some_calls = (ev_tool_calls ev \<notin> {None, Some []});
               recovered = number_calls enc 0 found
           in if kind = EvContent \<and> raw \<noteq> None \<and> visible = [] \<and> found = [] then ([], st0)
              else
                (let role = (\<not> tl_sent_role st0 \<and> (visible \<noteq> [] \<or> some_calls \<or> found \<noteq> []));
                     st1 = (if role then st0\<lparr>tl_sent_role := True\<rparr> else st0);
                     (own, ti) = resolve_calls calls (tl_tools st1);
                     d = no_delta\<lparr>d_role := role,
                           d_content := (if kind = EvContent \<and> visible \<noteq> [] then Some visible
                                         else if role then Some [] else None),
                           d_reasoning := (if kind = EvReasoning then raw else None),
                           d_calls := own\<rparr>;
                     (back, ti2) = resolve_calls recovered ti
                 in ((if d = no_delta then [] else [Delta d])
                       @ (if recovered = [] then [] else [Delta (no_delta\<lparr>d_calls := back\<rparr>)]),
                     st1\<lparr>tl_tools := ti2\<rparr>))))"

definition finish :: "translator \<Rightarrow> frame list \<times> translator" where
  "finish st = (if tl_finished st then ([], st) else close_frames ''stop'' st)"

fun translate_all :: "(dcall \<Rightarrow> json) \<Rightarrow> event list \<Rightarrow> translator \<Rightarrow> frame list \<times> translator" where
  "translate_all enc [] st = ([], st)"
| "translate_all enc (ev # evs) st =
     (let (fs, st1) = translate enc ev st; (gs, st2) = translate_all enc evs st1 in (fs @ gs, st2))"

definition whole_stream :: "(dcall \<Rightarrow> json) \<Rightarrow> event list \<Rightarrow> frame list" where
  "whole_stream enc evs =
     (let (fs, st) = translate_all enc evs new_translator; (gs, st') = finish st in fs @ gs)"

section \<open>The aggregation\<close>

record collected =
  ag_content :: utext
  ag_reasoning :: utext
  ag_tools :: index_state
  ag_calls :: "(int, jobject) odict"
  ag_usage :: "usage option"
  ag_reason :: string

definition no_events :: collected where
  "no_events = \<lparr>ag_content = [], ag_reasoning = [], ag_tools = new_index_state, ag_calls = [], ag_usage = None,
     ag_reason = ''stop''\<rparr>"

text \<open>A later fragment of a call adds its arguments to the first one.\<close>

definition merge_call :: "jobject \<times> int \<Rightarrow> (int, jobject) odict \<Rightarrow> (int, jobject) odict" where
  "merge_call r calls =
     (case od_get calls (snd r) of
        None \<Rightarrow> od_set (snd r) (fst r) calls
      | Some current \<Rightarrow>
          (let fn = obj_of (jget current ''function'')
           in case jget (obj_of (jget (fst r) ''function'')) ''arguments'' of
                JStr fragment \<Rightarrow>
                  od_set (snd r)
                    (od_set ''function''
                      (JObj (od_set ''arguments'' (JStr (str_of (jget fn ''arguments'') @ fragment)) fn)) current) calls
              | _ \<Rightarrow> if od_get current ''function'' = None
                     then od_set (snd r) (od_set ''function'' (JObj []) current) calls else calls))"

definition collect_event :: "event \<Rightarrow> collected \<Rightarrow> collected" where
  "collect_event ev st =
     (case ev_kind ev of
        EvUsage \<Rightarrow> st\<lparr>ag_usage := ev_usage ev\<rparr>
      | EvFinish \<Rightarrow> st\<lparr>ag_reason := reason_or_stop (ev_finish_reason ev)\<rparr>
      | EvContent \<Rightarrow> (case truthy_text (ev_content ev) of None \<Rightarrow> st | Some s \<Rightarrow> st\<lparr>ag_content := ag_content st @ s\<rparr>)
      | EvReasoning \<Rightarrow> (case truthy_text (ev_content ev) of None \<Rightarrow> st | Some s \<Rightarrow> st\<lparr>ag_reasoning := ag_reasoning st @ s\<rparr>)
      | EvToolCalls \<Rightarrow>
          (let (rs, ti) = resolve_calls (case ev_tool_calls ev of None \<Rightarrow> [] | Some l \<Rightarrow> l) (ag_tools st)
           in st\<lparr>ag_tools := ti, ag_calls := foldl (\<lambda>m r. merge_call r m) (ag_calls st) rs\<rparr>)
      | EvError \<Rightarrow> st)"

definition is_valid_arguments :: "(string \<Rightarrow> bool) \<Rightarrow> json \<Rightarrow> bool" where
  "is_valid_arguments valid arguments =
     (case arguments of JNull \<Rightarrow> True | JStr s \<Rightarrow> s = [] \<or> valid s | _ \<Rightarrow> False)"

record completion =
  cp_content :: "utext option"
  cp_reasoning :: "utext option"
  cp_calls :: "jobject list"
  cp_reason :: string
  cp_usage :: jobject

datatype aggregation = Failed event | BadArguments string | Completion completion

text \<open>The position after the last call; \<^verbatim>\<open>max(tool_calls) + 1\<close>.\<close>

definition next_index :: "(int, jobject) odict \<Rightarrow> int" where
  "next_index calls = (if calls = [] then 0 else Max (fst ` set calls) + 1)"

definition aggregate :: "(dcall \<Rightarrow> json) \<Rightarrow> (string \<Rightarrow> bool) \<Rightarrow> event list \<Rightarrow> aggregation" where
  "aggregate enc valid evs =
     (case find (\<lambda>ev. ev_kind ev = EvError) evs of
        Some ev \<Rightarrow> Failed ev
      | None \<Rightarrow>
          (let st = foldl (\<lambda>s ev. collect_event ev s) no_events evs;
               (found, visible) = dsml_extract (ag_content st);
               start = next_index (ag_calls st);
               back = number_calls enc 0 found;
               calls = ag_calls st @ zip (map (\<lambda>i. start + int i) [0..<length back])
                         (map (\<lambda>(i, c). od_set ''index'' (JInt (start + int i)) (obj_of c)) (enumerate 0 back));
               reason = (if found \<noteq> [] \<and> ag_reason st = ''stop'' then ''tool_calls'' else ag_reason st);
               ordered = map snd (sort_key fst calls)
           in case find (\<lambda>c. \<not> is_valid_arguments valid (jget (obj_of (jget c ''function'')) ''arguments'')) ordered of
                Some c \<Rightarrow> BadArguments (let n = str_of (jget (obj_of (jget c ''function'')) ''name'') in if n = [] then ''-'' else n)
              | None \<Rightarrow>
                  Completion \<lparr>cp_content = truthy_text (Some visible), cp_reasoning = truthy_text (Some (ag_reasoning st)),
                    cp_calls = ordered, cp_reason = reason, cp_usage = usage_payload (ag_usage st)\<rparr>))"

section \<open>What a client reads\<close>

definition text_of :: "frame list \<Rightarrow> utext" where
  "text_of fs = concat (map (\<lambda>f. case f of Delta d \<Rightarrow> (case d_content d of None \<Rightarrow> [] | Some s \<Rightarrow> s) | _ \<Rightarrow> []) fs)"

definition reasoning_of :: "frame list \<Rightarrow> utext" where
  "reasoning_of fs = concat (map (\<lambda>f. case f of Delta d \<Rightarrow> (case d_reasoning d of None \<Rightarrow> [] | Some s \<Rightarrow> s) | _ \<Rightarrow> []) fs)"

definition calls_of :: "frame list \<Rightarrow> (jobject \<times> int) list" where
  "calls_of fs = concat (map (\<lambda>f. case f of Delta d \<Rightarrow> d_calls d | _ \<Rightarrow> []) fs)"

definition finals_of :: "frame list \<Rightarrow> string list" where
  "finals_of fs = concat (map (\<lambda>f. case f of Final r \<Rightarrow> [r] | _ \<Rightarrow> []) fs)"

definition usages_of :: "frame list \<Rightarrow> jobject list" where
  "usages_of fs = concat (map (\<lambda>f. case f of UsageFrame u \<Rightarrow> [u] | _ \<Rightarrow> []) fs)"

lemmas reading = text_of_def reasoning_of_def calls_of_def finals_of_def usages_of_def

definition merged :: "(jobject \<times> int) list \<Rightarrow> (int, jobject) odict" where
  "merged rs = foldl (\<lambda>m r. merge_call r m) [] rs"

text \<open>The text and the calls of one event.\<close>

definition piece :: "event \<Rightarrow> utext" where
  "piece ev = (if ev_kind ev = EvContent then (case truthy_text (ev_content ev) of None \<Rightarrow> [] | Some s \<Rightarrow> s) else [])"

definition thought :: "event \<Rightarrow> utext" where
  "thought ev = (if ev_kind ev = EvReasoning then (case truthy_text (ev_content ev) of None \<Rightarrow> [] | Some s \<Rightarrow> s) else [])"

definition fragments :: "event \<Rightarrow> json list" where
  "fragments ev = (if ev_kind ev = EvToolCalls then (case ev_tool_calls ev of None \<Rightarrow> [] | Some l \<Rightarrow> l) else [])"

definition data_event :: "event \<Rightarrow> bool" where
  "data_event ev \<longleftrightarrow> ev_kind ev \<notin> {EvError, EvFinish}"

lemma translate_step:
  assumes "data_event ev" and "snd (fst (feed (piece ev) (tl_filter st))) = []"
    and "translate enc ev st = (fs, st')"
  shows "text_of fs = fst (fst (feed (piece ev) (tl_filter st)))" and "reasoning_of fs = thought ev"
    and "(calls_of fs, tl_tools st') = resolve_calls (fragments ev) (tl_tools st)"
    and "tl_usage st' = (if ev_kind ev = EvUsage then ev_usage ev else tl_usage st)"
    and "tl_filter st' = snd (feed (piece ev) (tl_filter st))"
    and "tl_finished st' = tl_finished st" and "\<forall>f \<in> set fs. \<exists>d. f = Delta d"
proof -
  obtain out ff where fd: "feed (piece ev) (tl_filter st) = ((out, []), ff)" using assms(2) by (metis prod.collapse)
  obtain own ti where rc: "resolve_calls (fragments ev) (tl_tools st) = (own, ti)" by fastforce
  have nil: "feed [] g = (([], []), g)" for g by (simp add: feed_def)
  show "text_of fs = fst (fst (feed (piece ev) (tl_filter st)))" "reasoning_of fs = thought ev"
    "(calls_of fs, tl_tools st') = resolve_calls (fragments ev) (tl_tools st)"
    "tl_usage st' = (if ev_kind ev = EvUsage then ev_usage ev else tl_usage st)"
    "tl_filter st' = snd (feed (piece ev) (tl_filter st))"
    "tl_finished st' = tl_finished st" "\<forall>f \<in> set fs. \<exists>d. f = Delta d"
    using assms(1,3) fd rc nil
    by (cases "ev_kind ev"; cases "truthy_text (ev_content ev)";
        auto simp: translate_def data_event_def piece_def thought_def fragments_def reading no_delta_def Let_def
          split: if_splits)+
qed


lemma resolve_calls_append:
  "resolve_calls (a @ b) st = (let (rs, st1) = resolve_calls a st; (ss, st2) = resolve_calls b st1 in (rs @ ss, st2))"
  by (induction a arbitrary: st) (simp_all add: split_beta Let_def)

lemma reading_append: "text_of (a @ b) = text_of a @ text_of b" "reasoning_of (a @ b) = reasoning_of a @ reasoning_of b"
  "calls_of (a @ b) = calls_of a @ calls_of b" "finals_of (a @ b) = finals_of a @ finals_of b"
  "usages_of (a @ b) = usages_of a @ usages_of b"
  by (simp_all add: reading)

lemma translate_run:
  assumes "\<forall>ev \<in> set evs. data_event ev"
    and "feed_all (map piece evs) (tl_filter st) = ((out, []), ff)"
    and "translate_all enc evs st = (fs, st')"
  shows "text_of fs = out \<and> tl_filter st' = ff \<and> reasoning_of fs = concat (map thought evs)
    \<and> (calls_of fs, tl_tools st') = resolve_calls (concat (map fragments evs)) (tl_tools st)
    \<and> tl_usage st' = foldl (\<lambda>u ev. if ev_kind ev = EvUsage then ev_usage ev else u) (tl_usage st) evs
    \<and> tl_finished st' = tl_finished st \<and> (\<forall>f \<in> set fs. \<exists>d. f = Delta d)"
  using assms
proof (induction evs arbitrary: st out fs st')
  case (Cons ev evs)
  obtain gs st1 where t1: "translate enc ev st = (gs, st1)" by fastforce
  obtain hs st2 where t2: "translate_all enc evs st1 = (hs, st2)" by fastforce
  obtain o1 c1 f1 where fd: "feed (piece ev) (tl_filter st) = ((o1, c1), f1)" by (metis prod.collapse)
  obtain o2 c2 f2 where fa: "feed_all (map piece evs) f1 = ((o2, c2), f2)" by (metis prod.collapse)
  have e: "c1 = []" "c2 = []" "out = o1 @ o2" "f2 = ff" using Cons.prems(2) fd fa by auto
  have fs: "fs = gs @ hs" "st' = st2" using Cons.prems(3) t1 t2 by auto
  have ev: "data_event ev" using Cons.prems(1) by simp
  note step = translate_step[OF ev _ t1, unfolded fd fst_conv snd_conv, OF e(1)]
  have "tl_filter st1 = f1" by (rule step(5))
  with fa e have "feed_all (map piece evs) (tl_filter st1) = ((o2, []), ff)" by simp
  from Cons.IH[OF _ this t2] Cons.prems(1) have ih: "text_of hs = o2" "tl_filter st2 = ff" "reasoning_of hs = concat (map thought evs)"
    "(calls_of hs, tl_tools st2) = resolve_calls (concat (map fragments evs)) (tl_tools st1)"
    "tl_usage st2 = foldl (\<lambda>u ev. if ev_kind ev = EvUsage then ev_usage ev else u) (tl_usage st1) evs"
    "tl_finished st2 = tl_finished st1" "\<forall>f \<in> set hs. \<exists>d. f = Delta d" by auto
  have "(calls_of fs, tl_tools st2) = resolve_calls (concat (map fragments (ev # evs))) (tl_tools st)"
    using step(3)[symmetric] ih(4)[symmetric] by (simp add: fs(1) reading_append resolve_calls_append)
  with step(1,2,4,6,7) ih fs e(3) show ?case by (auto simp: reading_append)
qed (simp add: reading)

lemma collect_run:
  assumes "\<forall>ev \<in> set evs. data_event ev"
  shows "foldl (\<lambda>s ev. collect_event ev s) c evs =
    c\<lparr>ag_content := ag_content c @ concat (map piece evs), ag_reasoning := ag_reasoning c @ concat (map thought evs),
      ag_tools := snd (resolve_calls (concat (map fragments evs)) (ag_tools c)),
      ag_calls := foldl (\<lambda>m r. merge_call r m) (ag_calls c) (fst (resolve_calls (concat (map fragments evs)) (ag_tools c))),
      ag_usage := foldl (\<lambda>u ev. if ev_kind ev = EvUsage then ev_usage ev else u) (ag_usage c) evs\<rparr>"
  using assms
proof (induction evs arbitrary: c)
  case (Cons ev evs)
  have "collect_event ev c =
    c\<lparr>ag_content := ag_content c @ piece ev, ag_reasoning := ag_reasoning c @ thought ev,
      ag_tools := snd (resolve_calls (fragments ev) (ag_tools c)),
      ag_calls := foldl (\<lambda>m r. merge_call r m) (ag_calls c) (fst (resolve_calls (fragments ev) (ag_tools c))),
      ag_usage := (if ev_kind ev = EvUsage then ev_usage ev else ag_usage c)\<rparr>"
    using Cons.prems by (cases "ev_kind ev"; cases "truthy_text (ev_content ev)")
      (simp_all add: collect_event_def data_event_def piece_def thought_def fragments_def split_beta Let_def)
  with Cons show ?case by (simp add: resolve_calls_append split_beta Let_def)
qed simp


lemma close_frames_reading:
  assumes "close_frames reason st = (fs, st')" "df_recovered (tl_filter st) = False"
  shows "text_of fs = df_buffer (tl_filter st)" "reasoning_of fs = []" "calls_of fs = []" "finals_of fs = [reason]"
    "usages_of fs = (case tl_usage st of None \<Rightarrow> [] | Some u \<Rightarrow> [usage_payload (Some u)])"
    "\<exists>gs. fs = gs @ [DoneFrame] \<and> DoneFrame \<notin> set gs" "tl_finished st' = tl_finished st"
  using assms
  by (cases "df_buffer (tl_filter st) = []"; cases "tl_usage st";
      auto simp: close_frames_def flush_def reading no_delta_def Let_def)+

lemma feed_all_recovered:
  assumes "feed_all ss g = ((out, []), f)"
  shows "df_recovered f = df_recovered g"
  using assms
proof (induction ss arbitrary: g out)
  case (Cons s ss)
  obtain o1 c1 g1 where f1: "feed s g = ((o1, c1), g1)" by (metis prod.collapse)
  obtain o2 c2 g2 where f2: "feed_all ss g1 = ((o2, c2), g2)" by (metis prod.collapse)
  from Cons.prems f1 f2 have "c1 = []" "c2 = []" "g2 = f" by auto
  moreover from this f1 have "df_recovered g1 = df_recovered g"
    by (auto simp: feed_def Let_def split: prod.splits if_splits)
  ultimately show ?case using Cons.IH f2 by metis
qed simp


section \<open>A run as witness\<close>

definition text_event :: "utext \<Rightarrow> event" where
  "text_event s = (mk_event EvContent)\<lparr>ev_content := Some s\<rparr>"

definition tool_event :: "json list \<Rightarrow> event" where
  "tool_event l = (mk_event EvToolCalls)\<lparr>ev_tool_calls := Some l\<rparr>"

definition finish_event :: event where
  "finish_event = (mk_event EvFinish)\<lparr>ev_finish_reason := Some ''stop''\<rparr>"

lemma plain_text_feed: "feed [104, 105] new_filter = (([104, 105], []), new_filter)"
  by (simp add: feed_def new_filter_def looks_like_marker_def partial_marker_def partial_at_def eat_def codes_def BAR_def)



section \<open>End markers\<close>

text \<open>The number of end markers of a chat stream is the number of finish events the upstream sent,
  and one when it sent none: the stream is always terminated, and a second finish event would
  terminate it a second time.\<close>

theorem end_marker_count:
  "length (filter (\<lambda>f. f = DoneFrame) (whole_stream enc evs)) = max 1 (length (filter (\<lambda>ev. ev_kind ev = EvFinish) evs))"
proof -
  let ?done = "\<lambda>fs. length (filter (\<lambda>f. f = DoneFrame) fs)"
  have close: "?done (fst (close_frames r st)) = 1" "tl_finished (snd (close_frames r st)) = tl_finished st" for r st
    by (simp_all add: close_frames_def flush_def Let_def split: option.split)
  have one: "?done (fst (translate enc ev st)) = (if ev_kind ev = EvFinish then 1 else 0)"
    "tl_finished (snd (translate enc ev st)) = (tl_finished st \<or> ev_kind ev = EvFinish)" for ev st
    using close[of "reason_or_stop (ev_finish_reason ev)" "st\<lparr>tl_finished := True\<rparr>"]
    by (cases "ev_kind ev"; simp add: translate_def Let_def split_beta)+
  have all: "?done (fst (translate_all enc evs st)) = length (filter (\<lambda>ev. ev_kind ev = EvFinish) evs)
      \<and> tl_finished (snd (translate_all enc evs st)) = (tl_finished st \<or> (\<exists>ev \<in> set evs. ev_kind ev = EvFinish))" for evs st
    by (induction evs arbitrary: st) (auto simp: split_beta Let_def one)
  have new: "\<not> tl_finished new_translator" by (simp add: new_translator_def)
  show ?thesis
    using all[of evs new_translator] new close(1)[of "''stop''"]
    by (auto simp: whole_stream_def finish_def Let_def split_beta filter_empty_conv Suc_le_eq max_def)
qed

section \<open>Ids of tool calls\<close>

lemma py_str_plain: "CHR ''_'' \<notin> set (py_str n)" "CHR ''-'' \<notin> set (dec_nat k)"
proof -
  have d: "c \<in> set (dec_nat k) \<Longrightarrow> c \<noteq> CHR ''_'' \<and> c \<noteq> CHR ''-''" for c k
    using dec_nat_digits[of c k] by auto
  then show "CHR ''_'' \<notin> set (py_str n)" "CHR ''-'' \<notin> set (dec_nat k)" by (auto simp: py_str_def)
qed

lemma py_str_inj: "py_str m = py_str n \<longleftrightarrow> m = n"
proof -
  have "dec_nat a \<noteq> CHR ''-'' # s" for a s using py_str_plain(2)[of a] by auto
  then show ?thesis by (auto simp: py_str_def dec_nat_inj dest: sym split: if_splits)
qed

definition made_id :: "int \<Rightarrow> int \<Rightarrow> string" where
  "made_id index n = ''call_'' @ py_str index @ ''_'' @ py_str n"

lemma made_id_index: "made_id i n = made_id j m \<Longrightarrow> i = j"
proof -
  have "takeWhile (\<lambda>c. c \<noteq> CHR ''_'') (py_str i @ CHR ''_'' # s) = py_str i" for i s
    using py_str_plain(1)[of i] by (simp add: takeWhile_append)
  then show "made_id i n = made_id j m \<Longrightarrow> i = j" by (simp add: made_id_def) (metis py_str_inj)
qed

definition ids_made :: "index_state \<Rightarrow> bool" where
  "ids_made st \<longleftrightarrow> (\<forall>i s. ti_id st i = Some s \<longrightarrow> (\<exists>n. s = made_id i n))"

definition no_id :: "json \<Rightarrow> bool" where
  "no_id tc \<longleftrightarrow> str_of (jget (obj_of tc) ''id'') = []"

lemma bind_made:
  assumes "bind_id i [] item st = (item', st')" "ids_made st"
  shows "ids_made st' \<and> (\<exists>s. ti_id st' i = Some s \<and> jget item' ''id'' = JStr s) \<and> ti_id st \<subseteq>\<^sub>m ti_id st'"
proof -
  have b: "bind_id i [] item st = (case ti_id st i of
      Some e \<Rightarrow> (od_set ''id'' (JStr e) item, st)
    | None \<Rightarrow> (od_set ''id'' (JStr (made_id i (ti_seq st + 1))) item,
        st\<lparr>ti_seq := ti_seq st + 1, ti_id := (ti_id st)(i \<mapsto> made_id i (ti_seq st + 1))\<rparr>))"
    by (simp add: bind_id_def made_id_def Let_def split: option.split)
  show ?thesis using assms(1) assms(2) unfolding b
    by (auto simp: ids_made_def jget_def map_le_def split: option.splits if_splits)
qed

lemma resolve_made:
  assumes "resolve_call tc st = ((item, i), st')" "no_id tc" "ids_made st"
  shows "ids_made st' \<and> (\<exists>s. ti_id st' i = Some s \<and> jget item ''id'' = JStr s) \<and> ti_id st \<subseteq>\<^sub>m ti_id st'"
proof -
  have use: "ids_made (use_index k st)" "ti_id (use_index k st) = ti_id st" for k
    using assms(3) by (simp_all add: ids_made_def use_index_def)
  have keep: "jget (od_set ''index'' v d) ''id'' = jget d ''id''" for v d by (simp add: jget_def)
  show ?thesis
    using assms(1,2) bind_made[OF _ use(1)] unfolding use(2)
    by (auto simp: resolve_call_def no_id_def keep Let_def split: json.splits prod.splits)
qed

text \<open>Fragments of tool calls that come without ids get ids by position: two fragments of one
  stream carry the same id exactly when they belong to the same position.\<close>

theorem made_ids_follow_positions:
  assumes "resolve_calls tcs new_index_state = (rs, st)" and "\<forall>tc \<in> set tcs. no_id tc"
    and "(a, i) \<in> set rs" and "(b, j) \<in> set rs"
  shows "jget a ''id'' = jget b ''id'' \<longleftrightarrow> i = j"
proof -
  have run: "ids_made st' \<and> ti_id st0 \<subseteq>\<^sub>m ti_id st' \<and> (\<forall>(item, i) \<in> set rs. \<exists>s. ti_id st' i = Some s \<and> jget item ''id'' = JStr s)"
    if "resolve_calls tcs st0 = (rs, st')" "\<forall>tc \<in> set tcs. no_id tc" "ids_made st0" for tcs st0 rs st'
    using that
  proof (induction tcs arbitrary: st0 rs st')
    case (Cons tc tcs)
    obtain item k st1 where r: "resolve_call tc st0 = ((item, k), st1)" by (metis prod.collapse)
    obtain ss st2 where rest: "resolve_calls tcs st1 = (ss, st2)" by fastforce
    from Cons.prems r rest have e: "rs = (item, k) # ss" "st' = st2" by auto
    note one = resolve_made[OF r _ Cons.prems(3)]
    have tail: "ids_made st2 \<and> ti_id st1 \<subseteq>\<^sub>m ti_id st2 \<and> (\<forall>(item, i) \<in> set ss. \<exists>s. ti_id st2 i = Some s \<and> jget item ''id'' = JStr s)"
      using Cons.IH[OF rest] Cons.prems(2) one e by simp
    obtain s where "ti_id st1 k = Some s" "jget item ''id'' = JStr s" using one Cons.prems(2) by auto
    moreover from this tail have "ti_id st2 k = Some s" by (metis domI map_le_def)
    moreover have "ti_id st0 \<subseteq>\<^sub>m ti_id st2" using one Cons.prems(2) tail map_le_trans by auto
    ultimately show ?case using tail e by auto
  qed simp
  have "ids_made new_index_state" by (simp add: ids_made_def new_index_state_def)
  from run[OF assms(1,2) this] assms(3,4) obtain s t where
    "ids_made st" "ti_id st i = Some s" "jget a ''id'' = JStr s" "ti_id st j = Some t" "jget b ''id'' = JStr t" by blast
  then show ?thesis unfolding ids_made_def by (metis json.inject(4) made_id_index option.inject)
qed

theorem made_ids_follow_positions_witness:
  "\<exists>a b st. resolve_calls [JObj [(''index'', JInt 0)], JObj []] new_index_state = ([(a, 0), (b, 1)], st)
     \<and> jget a ''id'' \<noteq> jget b ''id''"
proof -
  obtain a b st where r: "resolve_calls [JObj [(''index'', JInt 0)], JObj []] new_index_state = ([(a, 0), (b, 1)], st)"
    by (simp add: resolve_call_def bind_id_def new_index_state_def use_index_def obj_of_def jget_def str_of_def Let_def)
  have n: "\<forall>tc \<in> set [JObj [(''index'', JInt 0)], JObj []]. no_id tc" by (simp add: no_id_def obj_of_def jget_def str_of_def)
  from made_ids_follow_positions[OF r n, of a 0 b 1] r show ?thesis by auto
qed


section \<open>Calls read back twice\<close>

text \<open>The calls read back from two blocks of one stream get the same position and the same id
  when the blocks arrive in separate pieces, so that a client merges two calls into one.\<close>

theorem recovered_calls_collide:
  assumes "looks_like_marker s" and "dsml_extract s = ([c], [])" and "looks_like_marker t" and "dsml_extract t = ([d], [])"
  shows "map snd (calls_of (whole_stream enc [text_event s, text_event t])) = [0, 0]
    \<and> map (\<lambda>r. jget (fst r) ''id'') (calls_of (whole_stream enc [text_event s, text_event t]))
       = [JStr ''call_dsml_0'', JStr ''call_dsml_0'']
    \<and> length (merged (calls_of (whole_stream enc [text_event s, text_event t]))) = 1"
proof -
  have ne: "s \<noteq> []" "t \<noteq> []" using assms(2,4) by (auto simp: dsml_extract_def)
  have f: "feed s g = (([], [c]), g\<lparr>df_buffer := [], df_recovered := True\<rparr>)" if "df_buffer g = []" for g
    using that assms(1,2) ne(1) by (simp add: feed_def)
  have g: "feed t h = (([], [d]), h\<lparr>df_buffer := [], df_recovered := True\<rparr>)" if "df_buffer h = []" for h
    using that assms(3,4) ne(2) by (simp add: feed_def)
  have zero: "py_str 0 = ''0''" by code_simp
  have k: "ev_kind (text_event u) = EvContent" "ev_content (text_event u) = Some u" "ev_tool_calls (text_event u) = None" for u
    by (simp_all add: text_event_def mk_event_def)
  let ?j = "\<lambda>x. JObj [(''type'', JStr ''function''), (''function'', enc x), (''index'', JInt 0), (''id'', JStr ''call_dsml_0'')]"
  have r: "resolve_call (?j x) ti = (([(''type'', JStr ''function''), (''function'', enc x), (''index'', JInt 0), (''id'', JStr ''call_dsml_0'')], 0),
      snd (bind_id 0 ''call_dsml_0'' (obj_of (?j x)) (use_index 0 ti)))" for x ti
    by (simp add: resolve_call_def obj_of_def jget_def str_of_def bind_id_def Let_def)
  define ti1 where "ti1 = snd (bind_id 0 ''call_dsml_0'' (obj_of (?j c)) (use_index 0 new_index_state))"
  have calls: "calls_of (whole_stream enc [text_event s, text_event t]) =
      map (\<lambda>x. ([(''type'', JStr ''function''), (''function'', enc x), (''index'', JInt 0), (''id'', JStr ''call_dsml_0'')], 0)) [c, d]"
    using ne by (simp add: whole_stream_def translate_def k truthy_text_def new_translator_def new_filter_def f g zero r
        calls_of_def no_delta_def finish_def close_frames_def flush_def Let_def)
  show ?thesis unfolding calls by (simp add: jget_def merged_def merge_call_def od_set_def Let_def split: json.split)
qed


theorem recovered_calls_collide_witness:
  "length (merged (calls_of (whole_stream (\<lambda>c. JNull) [text_event (render_block sample_calls), text_event (render_block sample_calls)]))) = 1"
proof -
  have e: "dsml_extract (render_block sample_calls) = ([call_for (hd sample_calls)], [])"
    using block_read_back[OF sample_calls_plain, of "[]" "[]"] by (simp add: sample_calls_def)
  have "py_contains (codes ''DSML'') (render_block sample_calls)"
    using py_contains_mid[of "codes ''DSML''" "[60, BAR, BAR]" "[BAR, BAR] @ drop (length open_mark) (render_block sample_calls)"]
    by (simp add: render_block_def open_mark_def)
  then have m: "looks_like_marker (render_block sample_calls)"
    by (simp add: looks_like_marker_def render_block_def open_mark_def)
  from recovered_calls_collide[OF m e m e, of "\<lambda>c. JNull"] show ?thesis by blast
qed

end
