(* ===== verification/ChatExec.thy ===== *)
theory ChatExec
  imports ExecOutcome ChatStream
begin

text \<open>
  The executor with the translator of the chat protocol as its sink: \<^verbatim>\<open>Executor.stream\<close> makes one
  \<^verbatim>\<open>StreamTranslator\<close> per model of the chain and keeps it over the retries with other
  credentials.
\<close>

definition chat_sink :: "(dcall \<Rightarrow> json) \<Rightarrow> (translator, frame) sink" where
  "chat_sink enc = \<lparr>sk_translate = (\<lambda>x ev. Inr (translate enc ev x)), sk_finish = (\<lambda>x. Inr (finish x)),
     sk_usage_known = (\<lambda>x. tl_usage x \<noteq> None), sk_done_sent = tl_done_sent\<rparr>"

text \<open>\<open>aggregate_end\<close> of the non-streaming loop is the outcome of \<open>aggregate\<close>.\<close>

definition bad_tools :: "(dcall \<Rightarrow> json) \<Rightarrow> (string \<Rightarrow> bool) \<Rightarrow> event list \<Rightarrow> bool" where
  "bad_tools enc valid evs = (case aggregate enc valid evs of BadArguments _ \<Rightarrow> True | _ \<Rightarrow> False)"

lemma aggregate_end_refines:
  assumes "cf_bad_tools cf = bad_tools enc valid"
  shows "aggregate_end cf evs = (case aggregate enc valid evs of
      Failed ev \<Rightarrow> AggError ev | BadArguments _ \<Rightarrow> AggBadTools | Completion _ \<Rightarrow> AggOk)"
proof (cases "find (\<lambda>ev. ev_kind ev = EvError) evs")
  case None
  then have "aggregate enc valid evs \<noteq> Failed ev" for ev
    by (simp add: aggregate_def Let_def split_beta split: option.split)
  with None show ?thesis by (simp add: aggregate_end_def assms bad_tools_def split: aggregation.split)
qed (simp add: aggregate_end_def aggregate_def)

text \<open>Text that the translator holds back because it may be the beginning of a marker survives a
  change of credential: the attempt counts as one without output, so the executor goes on with the
  next credential, and that credential's answer is delivered behind the text of the first one.\<close>

theorem held_text_survives_rotation:
  assumes "looks_like_marker s" and "dsml_extract s = ([], s)" and "open_marker_tail s \<noteq> None \<or> partial_marker s"
    and "lp_sink l = new_translator" and "event_error_kind err = SOFT" and "ev_kind err = EvError" and "\<not> cf_hide_reasoning cf"
    and "stream_events cf (chat_sink enc) ck pe a [text_event s, err] l \<sigma> = (w, l', \<sigma>')"
    and "dsml_extract (s @ t) = ([], s @ t)" and "open_marker_tail (s @ t) = None" and "\<not> partial_marker (s @ t)" and "t \<noteq> []"
  shows "w = Broken None \<and> lp_emitted l' = lp_emitted l \<and> lp_frames l' = lp_frames l
    \<and> text_of (fst (translate enc (text_event t) (lp_sink l'))) = s @ t"
proof -
  have s: "s \<noteq> []" using assms(1,3) by (auto simp: open_marker_tail_def looks_like_marker_def partial_marker_def partial_at_def eat_def codes_def)
  have k: "ev_kind (text_event u) = EvContent" "ev_content (text_event u) = Some u" "ev_tool_calls (text_event u) = None" for u
    by (simp_all add: text_event_def mk_event_def)
  have f: "feed s new_filter = (([], []), \<lparr>df_buffer = s, df_recovered = False\<rparr>)"
    using s assms(1-3) by (auto simp: feed_def new_filter_def)
  have g: "feed t \<lparr>df_buffer = s, df_recovered = False\<rparr> = ((s @ t, []), \<lparr>df_buffer = [], df_recovered = False\<rparr>)"
    using s assms(9-12) by (simp add: feed_def)
  have tr: "translate enc (text_event s) new_translator = ([], new_translator\<lparr>tl_filter := \<lparr>df_buffer = s, df_recovered = False\<rparr>\<rparr>)"
    using s f by (simp add: translate_def k truthy_text_def new_translator_def)
  have run: "w = Broken None \<and> lp_emitted l' = lp_emitted l \<and> lp_frames l' = lp_frames l \<and>
      lp_sink l' = new_translator\<lparr>tl_filter := \<lparr>df_buffer = s, df_recovered = False\<rparr>\<rparr>"
    using assms(4-8) tr
    by (auto simp: k chat_sink_def put_frames_def stream_error_event_def credit_if_exhausted_def note_attempt_def kind_sets Let_def
        split: prod.splits)
  have "text_of (fst (translate enc (text_event t) (new_translator\<lparr>tl_filter := \<lparr>df_buffer = s, df_recovered = False\<rparr>\<rparr>))) = s @ t"
    using assms(12) g s by (simp add: translate_def k truthy_text_def new_translator_def no_delta_def text_of_def Let_def)
  with run show ?thesis by simp
qed

definition held_loop :: "(translator, frame) loop" where
  "held_loop = loop0 new_translator"

definition chat_attempt :: attempt where
  "chat_attempt = \<lparr>at_target = sample_target, at_provider = ''zen'', at_cred = ''a'', at_data = JObj [], at_payload = []\<rparr>"

theorem held_text_survives_rotation_witness:
  "\<exists>l' s'. stream_events sample_config (chat_sink (\<lambda>c. JNull)) sample_clock no_probe chat_attempt
       [text_event [97, 60], error_event SOFT] held_loop sample_engine = (Broken None, l', s')
     \<and> lp_frames l' = [] \<and> text_of (fst (translate (\<lambda>c. JNull) (text_event [98]) (lp_sink l'))) = [97, 60, 98]"
proof -
  have d: "BAR \<noteq> 60" "BAR \<noteq> 97" "BAR \<noteq> 98" "codes ''DSML'' = [68, 83, 77, 76]" "codes ''<'' = [60]" "codes ''</'' = [60, 47]"
    "codes ''/>'' = [47, 62]" by (simp_all add: BAR_def codes_def)
  note defs = d looks_like_marker_def partial_marker_def partial_at_def eat_def dsml_extract_def open_marker_tail_def
    match_open_def match_tag_start_def
  have 1: "looks_like_marker [97, 60]" "dsml_extract [97, 60] = ([], [97, 60])" "partial_marker [97, 60]"
    "dsml_extract [97, 60, 98] = ([], [97, 60, 98])" "open_marker_tail [97, 60, 98] = None" "\<not> partial_marker [97, 60, 98]"
    by (simp_all add: defs)
  have 2: "lp_sink held_loop = new_translator" "event_error_kind (error_event SOFT) = SOFT" "ev_kind (error_event SOFT) = EvError"
    "\<not> cf_hide_reasoning sample_config" "lp_frames held_loop = []"
    by (simp_all add: held_loop_def loop0_def event_error_kind_def error_event_def mk_event_def sample_config_def)
  obtain w l' s' where r: "stream_events sample_config (chat_sink (\<lambda>c. JNull)) sample_clock no_probe chat_attempt
       [text_event [97, 60], error_event SOFT] held_loop sample_engine = (w, l', s')" using prod_cases3 by blast
  show ?thesis
    using held_text_survives_rotation[OF 1(1,2) disjI2[OF 1(3)] 2(1-4) r, of "[98]"] 1 2(5) r by auto
qed

end
