(* ===== verification/Continuation.thy ===== *)
theory Continuation
  imports ProviderBase
begin

text \<open>
  \<^verbatim>\<open>src/engine/continuation.py\<close>: a stream whose output was cut off at the length limit is
  continued with the same credential, and the executor sees one longer stream. The upstream is a
  list of rounds, one for each call of \<^verbatim>\<open>stream_chat\<close>, each with the events it delivered before
  it ended; \<open>None\<close> means that the list was too short. Texts enter the next request as JSON
  strings.
\<close>

definition CONTINUE_PROMPT :: string where
  "CONTINUE_PROMPT = ''Output limit reached. Continue exactly where you left off.''"

definition continues :: "string option \<Rightarrow> bool" where
  "continues finish_reason = (finish_reason = Some ''length'')"

definition json_text :: "utext \<Rightarrow> json" where
  "json_text s = JStr (map char_of s)"

definition extend_payload :: "jobject \<Rightarrow> utext \<Rightarrow> utext \<Rightarrow> jobject" where
  "extend_payload payload content reasoning =
     (let body = (case jget payload ''messages'' of
            JList messages \<Rightarrow>
              od_set ''messages''
                (JList (messages @
                   [JObj ([(''role'', JStr ''assistant''), (''content'', json_text content)]
                      @ (if reasoning \<noteq> [] then [(''reasoning_content'', json_text reasoning)] else [])),
                    JObj [(''role'', JStr ''user''), (''content'', JStr CONTINUE_PROMPT)]])) payload
          | _ \<Rightarrow> payload)
      in od_del ''max_tokens'' (od_del ''max_completion_tokens'' body))"

text \<open>\<^verbatim>\<open>not any((...))\<close>: a count of zero is as good as none.\<close>

definition zero_or_none :: "'a::zero option \<Rightarrow> bool" where
  "zero_or_none n = (n \<in> {None, Some 0})"

definition usage_is_empty :: "usage \<Rightarrow> bool" where
  "usage_is_empty u = (zero_or_none (u_input u) \<and> zero_or_none (u_output u) \<and> zero_or_none (u_reasoning u)
     \<and> zero_or_none (u_cached u) \<and> zero_or_none (u_credit u))"

definition opt_sum :: "'a::plus option \<Rightarrow> 'a option \<Rightarrow> 'a option" where
  "opt_sum l r = (case l of None \<Rightarrow> r | Some x \<Rightarrow> (case r of None \<Rightarrow> l | Some y \<Rightarrow> Some (x + y)))"

definition add_usage :: "usage \<Rightarrow> usage option \<Rightarrow> usage" where
  "add_usage t p =
     (case p of None \<Rightarrow> t
      | Some q \<Rightarrow>
          \<lparr>u_input = opt_sum (u_input t) (u_input q), u_output = opt_sum (u_output t) (u_output q),
           u_reasoning = opt_sum (u_reasoning t) (u_reasoning q), u_cached = opt_sum (u_cached t) (u_cached q),
           u_credit = opt_sum (u_credit t) (u_credit q), u_estimated = (u_estimated t \<or> u_estimated q)\<rparr>)"

text \<open>The local variables of the wrapper over one round.\<close>

record round_state =
  rd_reason :: "string option"
  rd_usage :: usage
  rd_content :: utext
  rd_reasoning :: utext

definition nonempty_text :: "event \<Rightarrow> utext" where
  "nonempty_text ev = (case ev_content ev of None \<Rightarrow> [] | Some s \<Rightarrow> s)"

fun read_round :: "event list \<Rightarrow> round_state \<Rightarrow> event list \<times> round_state" where
  "read_round [] st = ([], st)"
| "read_round (ev # evs) st =
     (if ev_kind ev = EvFinish then read_round evs (st\<lparr>rd_reason := ev_finish_reason ev\<rparr>)
      else if ev_kind ev = EvUsage then read_round evs (st\<lparr>rd_usage := add_usage (rd_usage st) (ev_usage ev)\<rparr>)
      else
        (let st1 = (case ev_kind ev of
                EvContent \<Rightarrow> st\<lparr>rd_content := rd_content st @ nonempty_text ev\<rparr>
              | EvReasoning \<Rightarrow> st\<lparr>rd_reasoning := rd_reasoning st @ nonempty_text ev\<rparr>
              | _ \<Rightarrow> st);
             (out, st2) = read_round evs st1
         in (ev # out, st2)))"

definition usage_events :: "usage \<Rightarrow> event list" where
  "usage_events u = (if usage_is_empty u then [] else [(mk_event EvUsage)\<lparr>ev_usage := Some u\<rparr>])"

text \<open>The events the executor sees and the payloads that were sent upstream.\<close>

fun continuation ::
    "int \<Rightarrow> int \<Rightarrow> jobject \<Rightarrow> round_state \<Rightarrow> event list list \<Rightarrow> (event list \<times> jobject list) option" where
  "continuation limit finished payload st [] = None"
| "continuation limit finished payload st (evs # rounds) =
     (let (out, st1) = read_round evs st
      in if \<not> continues (rd_reason st1) \<or> finished \<ge> limit
         then Some (out @ usage_events (rd_usage st1) @ [(mk_event EvFinish)\<lparr>ev_finish_reason := rd_reason st1\<rparr>], [payload])
         else
           (case continuation limit (finished + 1) (extend_payload payload (rd_content st1) (rd_reasoning st1))
                   (st1\<lparr>rd_content := [], rd_reasoning := []\<rparr>) rounds of
              None \<Rightarrow> None
            | Some (more_out, payloads) \<Rightarrow> Some (out @ usage_events (rd_usage st1) @ more_out, payload # payloads)))"

definition round0 :: round_state where
  "round0 = \<lparr>rd_reason = None, rd_usage = empty_usage, rd_content = [], rd_reasoning = []\<rparr>"

section \<open>Properties\<close>

definition passed :: "event \<Rightarrow> bool" where
  "passed ev \<longleftrightarrow> ev_kind ev \<notin> {EvFinish, EvUsage}"

lemma read_round_out: "fst (read_round evs st) = filter passed evs"
  by (induction evs arbitrary: st) (auto simp: passed_def Let_def split_beta)

lemma usage_events_filtered: "filter passed (usage_events u) = []" "\<forall>ev \<in> set (usage_events u). ev_kind ev = EvUsage"
  by (simp_all add: usage_events_def passed_def mk_event_def)

lemma continuation_run:
  assumes "continuation limit n payload st rounds = Some (out, sent)"
  shows "length sent \<le> length rounds \<and> sent \<noteq> [] \<and> int (length sent) \<le> max 0 (limit - n) + 1
    \<and> filter passed out = concat (map (filter passed) (take (length sent) rounds))
    \<and> (\<exists>front reason. out = front @ [(mk_event EvFinish)\<lparr>ev_finish_reason := reason\<rparr>] \<and> (\<forall>ev \<in> set front. ev_kind ev \<noteq> EvFinish))"
  using assms
proof (induction limit n payload st rounds arbitrary: out sent rule: continuation.induct)
  case (2 limit n payload st evs rounds)
  obtain o1 st1 where r: "read_round evs st = (o1, st1)" by fastforce
  have o1: "o1 = filter passed evs" using read_round_out[of evs st] r by simp
  have o1f: "\<forall>ev \<in> set o1. ev_kind ev \<noteq> EvFinish" by (auto simp: o1 passed_def)
  have uf: "\<forall>ev \<in> set (usage_events (rd_usage st1)). ev_kind ev \<noteq> EvFinish"
    using usage_events_filtered(2)[of "rd_usage st1"] by auto
  show ?case
  proof (cases "\<not> continues (rd_reason st1) \<or> n \<ge> limit")
    case True
    then have e: "out = o1 @ usage_events (rd_usage st1) @ [(mk_event EvFinish)\<lparr>ev_finish_reason := rd_reason st1\<rparr>]" "sent = [payload]"
      using "2.prems" r by auto
    have "\<exists>front reason. out = front @ [(mk_event EvFinish)\<lparr>ev_finish_reason := reason\<rparr>] \<and> (\<forall>ev \<in> set front. ev_kind ev \<noteq> EvFinish)"
      by (rule exI[of _ "o1 @ usage_events (rd_usage st1)"]) (use e o1f uf in auto)
    moreover have "filter passed out = filter passed evs"
      by (simp add: e o1 usage_events_filtered(1)) (simp add: passed_def mk_event_def)
    ultimately show ?thesis by (simp add: e)
  next
    case False
    with "2.prems" r obtain o2 s2 where c: "continuation limit (n + 1) (extend_payload payload (rd_content st1) (rd_reasoning st1))
        (st1\<lparr>rd_content := [], rd_reasoning := []\<rparr>) rounds = Some (o2, s2)"
      and e: "out = o1 @ usage_events (rd_usage st1) @ o2" "sent = payload # s2"
      by (auto split: option.splits)
    from "2.IH"[OF r[symmetric] refl False c] have ih: "length s2 \<le> length rounds" "s2 \<noteq> []" "int (length s2) \<le> max 0 (limit - (n + 1)) + 1"
      "filter passed o2 = concat (map (filter passed) (take (length s2) rounds))" by blast+
    from "2.IH"[OF r[symmetric] refl False c] obtain front reason where f: "o2 = front @ [(mk_event EvFinish)\<lparr>ev_finish_reason := reason\<rparr>]"
      "\<forall>ev \<in> set front. ev_kind ev \<noteq> EvFinish" by blast
    have "\<exists>front reason. out = front @ [(mk_event EvFinish)\<lparr>ev_finish_reason := reason\<rparr>] \<and> (\<forall>ev \<in> set front. ev_kind ev \<noteq> EvFinish)"
      by (rule exI[of _ "o1 @ usage_events (rd_usage st1) @ front"]) (use e f o1f uf in auto)
    moreover have "filter passed out = concat (map (filter passed) (take (length sent) (evs # rounds)))"
      by (simp add: e ih(4) o1 usage_events_filtered(1))
    moreover have "int (length sent) \<le> max 0 (limit - n) + 1" using ih(3) False e by simp
    ultimately show ?thesis using ih(1) by (simp add: e)
  qed
qed simp

text \<open>A continued stream ends after at most one more round than the limit allows, passes every
  content, reasoning, tool and error event of its rounds on in order and unchanged, and ends with
  exactly one finish event.\<close>

theorem continuation_faithful:
  assumes "continuation limit 0 payload round0 rounds = Some (out, sent)"
  shows "int (length sent) \<le> max 0 limit + 1
    \<and> filter passed out = concat (map (filter passed) (take (length sent) rounds))
    \<and> (\<exists>front reason. out = front @ [(mk_event EvFinish)\<lparr>ev_finish_reason := reason\<rparr>] \<and> (\<forall>ev \<in> set front. ev_kind ev \<noteq> EvFinish))"
  using continuation_run[OF assms] by simp

text \<open>The wrapper ends: as many rounds as the limit, and one more, are enough for any upstream.\<close>

theorem continuation_ends:
  assumes "nat limit < length rounds"
  shows "\<exists>out sent. continuation limit 0 payload round0 rounds = Some (out, sent)"
proof -
  have "\<exists>out sent. continuation limit n payload st rounds = Some (out, sent)"
    if "nat (limit - n) < length rounds" for n payload st
    using that
  proof (induction rounds arbitrary: n payload st)
    case (Cons evs rounds)
    obtain o1 st1 where r: "read_round evs st = (o1, st1)" by fastforce
    show ?case
    proof (cases "\<not> continues (rd_reason st1) \<or> n \<ge> limit")
      case False
      then have "nat (limit - (n + 1)) < length rounds" using Cons.prems by auto
      from Cons.IH[OF this] r False show ?thesis by (fastforce split: option.split)
    qed (simp add: r)
  qed simp
  from this[of 0] assms show ?thesis by simp
qed

text \<open>A round that breaks off without a finish event inherits the finish reason of the round before
  it: after a first round cut off at the length limit it is continued again, and the stream ends with
  a finish event of its own, so that the executor never sees that the last round was cut short.\<close>

theorem broken_round_keeps_reason:
  assumes "\<forall>ev \<in> set evs. ev_kind ev \<noteq> EvFinish" and "continues (rd_reason st)" and "n < limit"
  shows "continuation limit n payload st (evs # rounds)
    = (case continuation limit (n + 1) (extend_payload payload (rd_content (snd (read_round evs st))) (rd_reasoning (snd (read_round evs st))))
             ((snd (read_round evs st))\<lparr>rd_content := [], rd_reasoning := []\<rparr>) rounds of
         None \<Rightarrow> None
       | Some (out, sent) \<Rightarrow> Some (filter passed evs @ usage_events (rd_usage (snd (read_round evs st))) @ out, payload # sent))"
proof -
  have "rd_reason (snd (read_round evs st)) = rd_reason st" if "\<forall>ev \<in> set evs. ev_kind ev \<noteq> EvFinish" for st
    using that
  proof (induction evs arbitrary: st)
    case (Cons ev evs)
    then show ?case by (cases "ev_kind ev") (simp_all add: Let_def split_beta)
  qed simp
  from this[OF assms(1), of st] assms(2,3) read_round_out[of evs st] show ?thesis
    by (simp add: split_beta Let_def split: option.split)
qed

section \<open>Witnesses\<close>

definition cut_round :: "event list" where
  "cut_round = [(mk_event EvContent)\<lparr>ev_content := Some [97]\<rparr>, (mk_event EvFinish)\<lparr>ev_finish_reason := Some ''length''\<rparr>]"

definition last_round :: "event list" where
  "last_round = [(mk_event EvContent)\<lparr>ev_content := Some [98]\<rparr>, (mk_event EvFinish)\<lparr>ev_finish_reason := Some ''stop''\<rparr>]"

lemma sample_continuation:
  "map_option (\<lambda>(out, sent). (map ev_kind out, length sent)) (continuation 2 0 [] round0 [cut_round, last_round])
     = Some ([EvContent, EvContent, EvFinish], 2)"
  by code_simp

theorem continuation_faithful_witness:
  "\<exists>out sent. continuation 2 0 [] round0 [cut_round, last_round] = Some (out, sent) \<and> int (length sent) \<le> 3
     \<and> length (filter passed out) = 2"
proof -
  obtain out sent where r: "continuation 2 0 [] round0 [cut_round, last_round] = Some (out, sent)" "length sent = 2"
    using sample_continuation by auto
  from continuation_faithful[OF r(1)] r show ?thesis
    by (auto simp: cut_round_def last_round_def passed_def mk_event_def)
qed

theorem continuation_ends_witness:
  "\<exists>out sent. continuation 1 0 [] round0 [cut_round, cut_round] = Some (out, sent)"
  by (rule continuation_ends) simp

theorem broken_round_keeps_reason_witness:
  "map_option (\<lambda>(out, sent). length sent) (continuation 2 1 [] (round0\<lparr>rd_reason := Some ''length''\<rparr>) [[], []]) = Some 2"
proof -
  have c: "continues (rd_reason (round0\<lparr>rd_reason := Some ''length''\<rparr>))" by (simp add: continues_def)
  show ?thesis
    by (subst broken_round_keeps_reason[OF _ c]) (simp_all add: continues_def round0_def)
qed

end
