(* ===== verification/AnthropicStream.thy ===== *)
theory AnthropicStream
  imports ProviderBase
begin

text \<open>
  \<^verbatim>\<open>src/compat/anthropic/response.py\<close>: the neutral events become the frames of the Anthropic
  Messages protocol, a sequence of content blocks of which at most one is open. A frame is its
  payload; the message id and generated call ids (random) are left out: a tool block has the
  upstream's id or \<open>None\<close>. The second half of the file checks the frames with the automaton of the
  protocol.
\<close>

section \<open>The translator\<close>

datatype block = TextBlock | ThinkingBlock | ToolBlock "string option" string

datatype block_delta = TextDelta utext | ThinkingDelta utext | JsonDelta string | SignatureDelta

datatype aframe =
    MessageStart
  | BlockStart int block
  | BlockDelta int block_delta
  | BlockStop int
  | MessageDelta string "(string \<times> int) list"
  | MessageStop
  | ErrorFrame string string

datatype open_kind = OText | OThinking | OTool

record atranslator =
  an_usage :: "usage option"
  an_done :: bool
  an_started :: bool
  an_next :: int
  an_open :: "(int \<times> open_kind) option"
  an_tools :: "(int, int) odict"

definition new_atranslator :: atranslator where
  "new_atranslator = \<lparr>an_usage = None, an_done = False, an_started = False, an_next = 0, an_open = None, an_tools = []\<rparr>"

definition stop_reason :: "string \<Rightarrow> string" where
  "stop_reason r =
     (if r = ''length'' then ''max_tokens'' else if r = ''tool_calls'' then ''tool_use'' else ''end_turn'')"

definition error_type_of :: "string \<Rightarrow> string" where
  "error_type_of code =
     (if code = ''invalid_request'' then ''invalid_request_error''
      else if code = ''no_healthy_credential'' then ''overloaded_error''
      else ''api_error'')"

definition count_or_zero :: "int option \<Rightarrow> int" where
  "count_or_zero n = (case n of None \<Rightarrow> 0 | Some i \<Rightarrow> i)"

definition ausage_payload :: "usage option \<Rightarrow> (string \<times> int) list" where
  "ausage_payload u =
     (case u of
        None \<Rightarrow> [(''input_tokens'', 0), (''output_tokens'', 0)]
      | Some x \<Rightarrow>
          (let payload = [(''input_tokens'', count_or_zero (u_input x)), (''output_tokens'', count_or_zero (u_output x))]
           in if u_cached x \<notin> {None, Some 0} \<and> u_input x \<noteq> None
              then od_set ''cache_read_input_tokens'' (the (u_cached x))
                     (od_set ''input_tokens'' (max 0 (the (u_input x) - the (u_cached x))) payload)
              else payload))"

definition start_message :: "atranslator \<Rightarrow> aframe list \<times> atranslator" where
  "start_message st = (if an_started st then ([], st) else ([MessageStart], st\<lparr>an_started := True\<rparr>))"

definition close_open :: "atranslator \<Rightarrow> aframe list \<times> atranslator" where
  "close_open st =
     (case an_open st of
        None \<Rightarrow> ([], st)
      | Some (i, k) \<Rightarrow>
          ((if k = OThinking then [BlockDelta i SignatureDelta] else []) @ [BlockStop i], st\<lparr>an_open := None\<rparr>))"

definition open_block :: "open_kind \<Rightarrow> block \<Rightarrow> atranslator \<Rightarrow> aframe list \<times> atranslator" where
  "open_block k b st =
     ([BlockStart (an_next st) b], st\<lparr>an_open := Some (an_next st, k), an_next := an_next st + 1\<rparr>)"

text \<open>\<^verbatim>\<open>_text\<close> and \<^verbatim>\<open>_thinking\<close>, which differ only in the block.\<close>

definition chunk_frames :: "open_kind \<Rightarrow> block \<Rightarrow> block_delta \<Rightarrow> atranslator \<Rightarrow> aframe list \<times> atranslator" where
  "chunk_frames k b d st =
     (let (f1, s1) = start_message st;
          (f2, s2) = (if map_option snd (an_open s1) \<noteq> Some k
                      then (let (g1, t1) = close_open s1; (g2, t2) = open_block k b t1 in (g1 @ g2, t2))
                      else ([], s1))
      in (f1 @ f2 @ [BlockDelta (fst (the (an_open s2))) d], s2))"

definition fn_of :: "jobject \<Rightarrow> jobject" where
  "fn_of delta = (case jget delta ''function'' of JObj f \<Rightarrow> f | _ \<Rightarrow> [])"

definition text_or_empty :: "json \<Rightarrow> string" where
  "text_or_empty v = (case v of JStr s \<Rightarrow> s | _ \<Rightarrow> [])"

definition call_key :: "jobject \<Rightarrow> (int, int) odict \<Rightarrow> int" where
  "call_key delta tools =
     (case jget delta ''index'' of JInt i \<Rightarrow> i | _ \<Rightarrow> if tools = [] then 0 else Max (fst ` set tools) + 1)"

definition tool_frames :: "jobject \<Rightarrow> atranslator \<Rightarrow> aframe list \<times> atranslator" where
  "tool_frames delta st =
     (let key = call_key delta (an_tools st);
          fragment = text_or_empty (jget (fn_of delta) ''arguments'');
          call_id = text_or_empty (jget delta ''id'');
          (f1, s1) =
            (case od_get (an_tools st) key of
               Some b \<Rightarrow> ([], st)
             | None \<Rightarrow>
                 (let (g1, t1) = close_open st;
                      (g2, t2) = open_block OTool (ToolBlock (if call_id = [] then None else Some call_id)
                                    (text_or_empty (jget (fn_of delta) ''name''))) t1
                  in (g1 @ g2, t2\<lparr>an_tools := od_set key (an_next t1) (an_tools t2)\<rparr>)))
      in (f1 @ (if fragment = [] then [] else [BlockDelta (the (od_get (an_tools s1) key)) (JsonDelta fragment)]), s1))"

fun tools_frames :: "jobject list \<Rightarrow> atranslator \<Rightarrow> aframe list \<times> atranslator" where
  "tools_frames [] st = ([], st)"
| "tools_frames (d # ds) st =
     (let (f, s1) = tool_frames d st; (g, s2) = tools_frames ds s1 in (f @ g, s2))"

definition close_message :: "string \<Rightarrow> atranslator \<Rightarrow> aframe list \<times> atranslator" where
  "close_message reason st =
     (if an_done st then ([], st)
      else
        (let (f1, s1) = start_message st; (f2, s2) = close_open s1
         in (f1 @ f2 @ [MessageDelta (stop_reason reason) (ausage_payload (an_usage s2)), MessageStop],
             s2\<lparr>an_done := True\<rparr>)))"

definition fail_message :: "string \<Rightarrow> string \<Rightarrow> atranslator \<Rightarrow> aframe list \<times> atranslator" where
  "fail_message message code st =
     (if an_done st then ([], st) else ([ErrorFrame (error_type_of code) message], st\<lparr>an_done := True\<rparr>))"

definition atranslate :: "event \<Rightarrow> atranslator \<Rightarrow> aframe list \<times> atranslator" where
  "atranslate ev st =
     (case ev_kind ev of
        EvUsage \<Rightarrow> ([], st\<lparr>an_usage := ev_usage ev\<rparr>)
      | EvError \<Rightarrow>
          fail_message (case ev_error_message ev of None \<Rightarrow> ''upstream error'' | Some m \<Rightarrow> if m = [] then ''upstream error'' else m)
            ''upstream_error'' st
      | EvContent \<Rightarrow>
          (case ev_content ev of
             None \<Rightarrow> ([], st)
           | Some s \<Rightarrow> if s = [] then ([], st) else chunk_frames OText TextBlock (TextDelta s) st)
      | EvReasoning \<Rightarrow>
          (case ev_content ev of
             None \<Rightarrow> ([], st)
           | Some s \<Rightarrow> if s = [] then ([], st) else chunk_frames OThinking ThinkingBlock (ThinkingDelta s) st)
      | EvToolCalls \<Rightarrow>
          (case ev_tool_calls ev of
             None \<Rightarrow> ([], st)
           | Some l \<Rightarrow>
               if l = [] then ([], st)
               else (let (f1, s1) = start_message st;
                         (f2, s2) = tools_frames (map (\<lambda>v. case v of JObj d \<Rightarrow> d | _ \<Rightarrow> []) l) s1
                     in (f1 @ f2, s2)))
      | EvFinish \<Rightarrow> close_message (case ev_finish_reason ev of None \<Rightarrow> ''stop'' | Some r \<Rightarrow> if r = [] then ''stop'' else r) st)"

definition afinish :: "atranslator \<Rightarrow> aframe list \<times> atranslator" where
  "afinish st = close_message ''stop'' st"

fun atranslate_all :: "event list \<Rightarrow> atranslator \<Rightarrow> aframe list \<times> atranslator" where
  "atranslate_all [] st = ([], st)"
| "atranslate_all (ev # evs) st =
     (let (f, s1) = atranslate ev st; (g, s2) = atranslate_all evs s1 in (f @ g, s2))"

definition amessage :: "event list \<Rightarrow> aframe list" where
  "amessage evs = (let (f, s1) = atranslate_all evs new_atranslator; (g, s2) = afinish s1 in f @ g)"

section \<open>The protocol\<close>

text \<open>What a client has seen: not started, between blocks or in a block (with the number of blocks so
  far), the final delta, or the end.\<close>

datatype reader = Fresh | Between int | Inside int | Closing | Ended

fun read_frame :: "reader \<Rightarrow> aframe \<Rightarrow> reader option" where
  "read_frame Fresh MessageStart = Some (Between 0)"
| "read_frame (Between n) (BlockStart i b) = (if i = n then Some (Inside n) else None)"
| "read_frame (Inside n) (BlockDelta i d) = (if i = n then Some (Inside n) else None)"
| "read_frame (Inside n) (BlockStop i) = (if i = n then Some (Between (n + 1)) else None)"
| "read_frame (Between n) (MessageDelta r u) = Some Closing"
| "read_frame Closing MessageStop = Some Ended"
| "read_frame r f = None"

fun read_frames :: "reader \<Rightarrow> aframe list \<Rightarrow> reader option" where
  "read_frames r [] = Some r"
| "read_frames r (f # fs) = (case read_frame r f of None \<Rightarrow> None | Some r1 \<Rightarrow> read_frames r1 fs)"

text \<open>
  The upstream's side, without the translator: which piece continues which. \<open>cur\<close> is the piece
  whose block is open, \<open>seen\<close> are the positions of the calls so far.
\<close>

datatype atom = AText | AThinking | ATool "int option" bool

definition tool_atom :: "json \<Rightarrow> atom" where
  "tool_atom v =
     (let d = (case v of JObj d \<Rightarrow> d | _ \<Rightarrow> [])
      in ATool (case jget d ''index'' of JInt i \<Rightarrow> Some i | _ \<Rightarrow> None) (text_or_empty (jget (fn_of d) ''arguments'') \<noteq> []))"

definition atoms :: "event \<Rightarrow> atom list" where
  "atoms ev =
     (case ev_kind ev of
        EvContent \<Rightarrow> if ev_content ev \<in> {None, Some []} then [] else [AText]
      | EvReasoning \<Rightarrow> if ev_content ev \<in> {None, Some []} then [] else [AThinking]
      | EvToolCalls \<Rightarrow> (case ev_tool_calls ev of None \<Rightarrow> [] | Some l \<Rightarrow> map tool_atom l)
      | _ \<Rightarrow> [])"

datatype current = CNothing | CText | CThinking | CTool int

type_synonym order = "int list \<times> current"

fun order_step :: "order \<Rightarrow> atom \<Rightarrow> order option" where
  "order_step (seen, cur) AText = Some (seen, CText)"
| "order_step (seen, cur) AThinking = Some (seen, CThinking)"
| "order_step (seen, cur) (ATool pos arguments) =
     (let key = (case pos of Some i \<Rightarrow> i | None \<Rightarrow> if seen = [] then 0 else Max (set seen) + 1)
      in if key \<notin> set seen then Some (seen @ [key], CTool key)
         else if arguments \<and> cur \<noteq> CTool key then None else Some (seen, cur))"

fun order_run :: "order \<Rightarrow> atom list \<Rightarrow> order option" where
  "order_run s [] = Some s"
| "order_run s (a # as) = (case order_step s a of None \<Rightarrow> None | Some s1 \<Rightarrow> order_run s1 as)"

definition in_order :: "event list \<Rightarrow> bool" where
  "in_order evs \<longleftrightarrow> order_run ([], CNothing) (concat (map atoms evs)) \<noteq> None"

definition plain_event :: "event \<Rightarrow> bool" where
  "plain_event ev \<longleftrightarrow> ev_kind ev \<notin> {EvError, EvFinish}"

section \<open>When the frames are well formed\<close>

definition cur_of :: "(int, int) odict \<Rightarrow> (int \<times> open_kind) option \<Rightarrow> current \<Rightarrow> bool" where
  "cur_of tools opened cur \<longleftrightarrow>
     (case opened of
        None \<Rightarrow> cur = CNothing
      | Some (i, OText) \<Rightarrow> cur = CText \<and> i \<notin> snd ` set tools
      | Some (i, OThinking) \<Rightarrow> cur = CThinking \<and> i \<notin> snd ` set tools
      | Some (i, OTool) \<Rightarrow> (\<exists>k. cur = CTool k \<and> od_get tools k = Some i))"

definition tools_wf :: "(int, int) odict \<Rightarrow> int \<Rightarrow> bool" where
  "tools_wf tools n \<longleftrightarrow> (\<forall>i \<in> snd ` set tools. i < n)
     \<and> (\<forall>k k' i. od_get tools k = Some i \<longrightarrow> od_get tools k' = Some i \<longrightarrow> k = k')"

definition reader_of :: "atranslator \<Rightarrow> reader \<Rightarrow> bool" where
  "reader_of st r \<longleftrightarrow>
     (if an_started st then (case an_open st of None \<Rightarrow> r = Between (an_next st) | Some (i, _) \<Rightarrow> r = Inside i \<and> an_next st = i + 1)
      else r = Fresh \<and> an_next st = 0 \<and> an_open st = None)"

definition agrees :: "atranslator \<Rightarrow> reader \<Rightarrow> order \<Rightarrow> bool" where
  "agrees st r s \<longleftrightarrow> \<not> an_done st \<and> reader_of st r \<and> map fst (an_tools st) = fst s
     \<and> tools_wf (an_tools st) (an_next st) \<and> cur_of (an_tools st) (an_open st) (snd s)"

definition agree :: "atranslator \<Rightarrow> reader option \<Rightarrow> order option \<Rightarrow> bool" where
  "agree st x y \<longleftrightarrow> (case x of None \<Rightarrow> y = None | Some r \<Rightarrow> (case y of None \<Rightarrow> False | Some s \<Rightarrow> agrees st r s))"

lemma read_frames_append: "read_frames r (a @ b) = (case read_frames r a of None \<Rightarrow> None | Some r1 \<Rightarrow> read_frames r1 b)"
  by (induction a arbitrary: r) (simp_all split: option.split)

lemma order_run_append: "order_run s (a @ b) = (case order_run s a of None \<Rightarrow> None | Some s1 \<Rightarrow> order_run s1 b)"
  by (induction a arbitrary: s) (simp_all split: option.split)

lemma agrees_start:
  assumes "agrees st r s" "start_message st = (f, st')"
  shows "\<exists>r'. read_frames r f = Some r' \<and> agrees st' r' s \<and> an_started st' \<and> an_open st' = an_open st
    \<and> an_next st' = an_next st \<and> an_tools st' = an_tools st"
  using assms by (auto simp: start_message_def agrees_def reader_of_def split: if_splits)

lemma agrees_close:
  assumes "agrees st r s" "an_started st" "close_open st = (f, st')"
  shows "read_frames r f = Some (Between (an_next st)) \<and> an_open st' = None \<and> an_next st' = an_next st
    \<and> an_tools st' = an_tools st \<and> an_started st' \<and> \<not> an_done st'"
  using assms by (auto simp: close_open_def agrees_def reader_of_def split: option.splits if_splits)

lemma tools_wf_mono: "tools_wf t n \<Longrightarrow> n \<le> m \<Longrightarrow> tools_wf t m"
  by (force simp: tools_wf_def)

lemma od_get_value: "od_get d k = Some v \<Longrightarrow> v \<in> snd ` set d"
  by (metis image_eqI map_of_SomeD snd_conv)

lemma od_set_values: "snd ` set (od_set k v d) \<subseteq> insert v (snd ` set d)"
  by (induction d) (auto simp: od_set_def)

lemma tools_wf_below: "tools_wf t n \<Longrightarrow> (k, n) \<in> set t \<Longrightarrow> False"
  by (force simp: tools_wf_def)

lemma tools_wf_add: "tools_wf t n \<Longrightarrow> tools_wf (od_set k n t) (n + 1)"
  using od_set_values[of k n t] by (fastforce simp: tools_wf_def dest: od_get_value)

lemma chunk_agrees:
  assumes "agrees st r s" "chunk_frames k b d st = (f, st')" "k \<noteq> OTool"
    and "cur = (if k = OText then CText else CThinking)"
  shows "\<exists>r'. read_frames r f = Some r' \<and> agrees st' r' (fst s, cur) \<and> an_started st'"
proof -
  obtain f1 s1 where 1: "start_message st = (f1, s1)" by fastforce
  from agrees_start[OF assms(1) 1] obtain r1 where r1: "read_frames r f1 = Some r1" "agrees s1 r1 s" "an_started s1" by blast
  show ?thesis
  proof (cases "map_option snd (an_open s1) = Some k")
    case True
    then obtain i where o: "an_open s1 = Some (i, k)" by auto
    with r1 have "r1 = Inside i" by (simp add: agrees_def reader_of_def)
    moreover have "snd s = cur" using r1(2) o assms(3,4) by (cases k) (auto simp: agrees_def cur_of_def)
    moreover have "f = f1 @ [BlockDelta i d]" "st' = s1" using assms(2) 1 True o by (auto simp: chunk_frames_def Let_def)
    ultimately show ?thesis using r1 by (auto simp: read_frames_append)
  next
    case False
    obtain g1 t1 where c: "close_open s1 = (g1, t1)" by fastforce
    note close = agrees_close[OF r1(2,3) c]
    have fs: "f = f1 @ g1 @ [BlockStart (an_next t1) b, BlockDelta (an_next t1) d]"
      "st' = t1\<lparr>an_open := Some (an_next t1, k), an_next := an_next t1 + 1\<rparr>"
      using assms(2) 1 False c by (simp_all add: chunk_frames_def open_block_def Let_def split_beta)
    have "agrees st' (Inside (an_next t1)) (fst s, cur)"
      using close r1(2) assms(3,4)
      by (cases k) (auto simp: fs agrees_def reader_of_def cur_of_def intro: tools_wf_mono dest: tools_wf_below)
    then show ?thesis using close r1(1) by (auto simp: fs read_frames_append)
  qed
qed


lemma od_keys_set_new: "k \<notin> fst ` set d \<Longrightarrow> map fst (od_set k v d) = map fst d @ [k]"
  by (induction d) (auto simp: od_set_def)

lemma od_get_none: "od_get d k = None \<longleftrightarrow> k \<notin> set (map fst d)"
  by (simp add: map_of_eq_None_iff)

lemma tool_agrees:
  assumes "agrees st r s" "an_started st" "tool_frames d st = (f, st')"
    and a: "a = ATool (case jget d ''index'' of JInt i \<Rightarrow> Some i | _ \<Rightarrow> None) (text_or_empty (jget (fn_of d) ''arguments'') \<noteq> [])"
  shows "agree st' (read_frames r f) (order_step s a) \<and> an_started st'"
proof -
  obtain seen cur where s: "s = (seen, cur)" by (cases s)
  define key where "key = call_key d (an_tools st)"
  have seen: "map fst (an_tools st) = seen" using assms(1) by (simp add: agrees_def s)
  then have ne: "an_tools st = [] \<longleftrightarrow> seen = []" "fst ` set (an_tools st) = set seen" by (auto simp flip: set_map)
  have key: "(case (case jget d ''index'' of JInt i \<Rightarrow> Some i | _ \<Rightarrow> None) of Some i \<Rightarrow> i
      | None \<Rightarrow> if seen = [] then 0 else Max (set seen) + 1) = key"
    by (simp add: key_def call_key_def ne split: json.split)
  let ?frag = "text_or_empty (jget (fn_of d) ''arguments'')"
  show ?thesis
  proof (cases "od_get (an_tools st) key")
    case None
    then have new: "key \<notin> set seen" using seen od_get_none by metis
    obtain g1 t1 where c: "close_open st = (g1, t1)" by fastforce
    note close = agrees_close[OF assms(1,2) c]
    have fs: "st' = t1\<lparr>an_open := Some (an_next t1, OTool), an_next := an_next t1 + 1, an_tools := od_set key (an_next t1) (an_tools t1)\<rparr>"
      "\<exists>b. f = g1 @ [BlockStart (an_next t1) b] @ (if ?frag = [] then [] else [BlockDelta (an_next t1) (JsonDelta ?frag)])"
      using assms(3) None c by (auto simp: tool_frames_def key_def[symmetric] open_block_def Let_def)
    have "agrees st' (Inside (an_next t1)) (seen @ [key], CTool key)"
      using close assms(1) new ne seen
      by (auto simp: fs(1) s agrees_def reader_of_def cur_of_def od_keys_set_new intro: tools_wf_add)
    moreover have "read_frames r f = Some (Inside (an_next t1))" using fs(2) close by (auto simp: read_frames_append)
    moreover have "order_step s a = Some (seen @ [key], CTool key)" using new key by (simp add: s a Let_def)
    ultimately show ?thesis using close by (simp add: agree_def fs(1))
  next
    case (Some b)
    then have old: "key \<in> set seen" using seen od_get_none[of "an_tools st" key] by auto
    have fs: "st' = st" "f = (if ?frag = [] then [] else [BlockDelta b (JsonDelta ?frag)])"
      using assms(3) Some by (auto simp: tool_frames_def key_def[symmetric] Let_def)
    have step: "order_step s a = (if ?frag \<noteq> [] \<and> cur \<noteq> CTool key then None else Some (seen, cur))"
      using old key by (simp add: s a Let_def)
    have wf: "tools_wf (an_tools st) (an_next st)" "cur_of (an_tools st) (an_open st) cur" "reader_of st r"
      using assms(1) by (simp_all add: agrees_def s)
    have opened: "cur = CTool key \<longleftrightarrow> r = Inside b"
    proof
      assume "cur = CTool key"
      with wf(2) Some have "\<exists>k. an_open st = Some (b, k)"
        by (auto simp: cur_of_def split: option.splits open_kind.splits) (metis open_kind.exhaust)
      with wf(3) assms(2) show "r = Inside b" by (auto simp: reader_of_def)
    next
      assume "r = Inside b"
      with wf(3) assms(2) obtain k where o: "an_open st = Some (b, k)" by (auto simp: reader_of_def split: option.splits)
      with wf(1,2) Some show "cur = CTool key"
        by (auto simp: cur_of_def tools_wf_def dest: od_get_value split: open_kind.splits)
    qed
    show ?thesis
    proof (cases "?frag = [] \<or> cur = CTool key")
      case True
      then have "read_frames r f = Some r" using opened by (auto simp: fs(2))
      with True step assms(1,2) show ?thesis by (auto simp: agree_def fs(1) s)
    next
      case False
      then have "read_frames r f = None" using opened wf(3) assms(2)
        by (auto simp: fs(2) reader_of_def split: option.splits if_splits)
      with False step assms(2) show ?thesis by (simp add: agree_def fs(1))
    qed
  qed
qed


lemma agree_none [simp]: "agree st None y \<longleftrightarrow> y = None" and agree_some [simp]: "agree st (Some r) (Some s) = agrees st r s"
    and agree_mixed [simp]: "\<not> agree st (Some r) None"
  by (simp_all add: agree_def)

lemma tools_started: "an_started st \<Longrightarrow> an_started (snd (tools_frames ds st))"
proof (induction ds arbitrary: st)
  case (Cons d ds)
  have "an_started (snd (tool_frames d st))" using Cons.prems
    by (auto simp: tool_frames_def open_block_def close_open_def Let_def split: option.splits prod.splits)
  from Cons.IH[OF this] show ?case by (simp add: split_beta Let_def)
qed simp

lemma tools_agree:
  assumes "agrees st r s" "an_started st" "tools_frames (map (\<lambda>v. case v of JObj d \<Rightarrow> d | _ \<Rightarrow> []) l) st = (f, st')"
  shows "agree st' (read_frames r f) (order_run s (map tool_atom l)) \<and> an_started st'"
  using assms
proof (induction l arbitrary: st r s f st')
  case (Cons v l)
  let ?d = "case v of JObj d \<Rightarrow> d | _ \<Rightarrow> []"
  obtain f1 s1 where 1: "tool_frames ?d st = (f1, s1)" by fastforce
  obtain f2 s2 where 2: "tools_frames (map (\<lambda>v. case v of JObj d \<Rightarrow> d | _ \<Rightarrow> []) l) s1 = (f2, s2)" by fastforce
  have f: "f = f1 @ f2" "st' = s2" using Cons.prems(3) 1 2 by auto
  have one: "agree s1 (read_frames r f1) (order_step s (tool_atom v)) \<and> an_started s1"
    using tool_agrees[OF Cons.prems(1,2) 1] by (simp add: tool_atom_def Let_def)
  show ?case
  proof (cases "order_step s (tool_atom v)")
    case None
    with one have "read_frames r f1 = None" by (cases "read_frames r f1") auto
    moreover have "an_started s2" using tools_started[of s1 "map (\<lambda>v. case v of JObj d \<Rightarrow> d | _ \<Rightarrow> []) l"] one 2 by simp
    ultimately show ?thesis using None one 2 by (simp add: f read_frames_append)
  next
    case (Some t)
    with one obtain r1 where "read_frames r f1 = Some r1" "agrees s1 r1 t" by (cases "read_frames r f1") auto
    with Cons.IH[OF _ _ 2] one Some show ?thesis by (simp add: f read_frames_append)
  qed
qed simp

lemma event_agrees:
  assumes "agrees st r s" "plain_event ev" "atranslate ev st = (f, st')"
  shows "agree st' (read_frames r f) (order_run s (atoms ev))"
proof -
  obtain seen cur where s: "s = (seen, cur)" by (cases s)
  have usage: "agrees (st\<lparr>an_usage := u\<rparr>) r s" for u
    using assms(1) by (cases "an_open st"; cases "an_started st") (auto simp: agrees_def reader_of_def)
  consider "atoms ev = []" | (words) t where "ev_kind ev = EvContent" "ev_content ev = Some t" "t \<noteq> []"
    | (think) t where "ev_kind ev = EvReasoning" "ev_content ev = Some t" "t \<noteq> []"
    | (tool) l where "ev_kind ev = EvToolCalls" "ev_tool_calls ev = Some l" "l \<noteq> []"
  proof (cases "ev_kind ev")
    case EvContent
    then show ?thesis using that by (cases "ev_content ev"; cases "ev_content ev = Some []") (auto simp: atoms_def)
  next
    case EvReasoning
    then show ?thesis using that by (cases "ev_content ev"; cases "ev_content ev = Some []") (auto simp: atoms_def)
  next
    case EvToolCalls
    then show ?thesis using that by (cases "ev_tool_calls ev") (auto simp: atoms_def)
  qed (use that in \<open>auto simp: atoms_def\<close>)
  then show ?thesis
  proof cases
    case 1
    then have "f = [] \<and> (st' = st \<or> st' = st\<lparr>an_usage := ev_usage ev\<rparr>)" using assms(2,3)
      by (cases "ev_kind ev"; cases "ev_content ev"; cases "ev_tool_calls ev")
        (auto simp: atoms_def atranslate_def plain_event_def split: if_splits)
    then show ?thesis using assms(1) usage 1 by auto
  next
    case words
    then have "chunk_frames OText TextBlock (TextDelta t) st = (f, st')" using assms(3) by (simp add: atranslate_def)
    from chunk_agrees[OF assms(1) this _ refl] words show ?thesis by (auto simp: atoms_def s)
  next
    case think
    then have "chunk_frames OThinking ThinkingBlock (ThinkingDelta t) st = (f, st')" using assms(3) by (simp add: atranslate_def)
    from chunk_agrees[OF assms(1) this _ refl] think show ?thesis by (auto simp: atoms_def s)
  next
    case tool
    obtain f1 s1 where 1: "start_message st = (f1, s1)" by fastforce
    obtain f2 s2 where 2: "tools_frames (map (\<lambda>v. case v of JObj d \<Rightarrow> d | _ \<Rightarrow> []) l) s1 = (f2, s2)" by fastforce
    have f: "f = f1 @ f2" "st' = s2" using assms(3) tool 1 2 by (auto simp: atranslate_def)
    from agrees_start[OF assms(1) 1] obtain r1 where "read_frames r f1 = Some r1" "agrees s1 r1 s" "an_started s1" by blast
    with tools_agree[OF _ _ 2] tool show ?thesis by (simp add: f atoms_def read_frames_append)
  qed
qed

lemma events_agree:
  assumes "agrees st r s" "\<forall>ev \<in> set evs. plain_event ev" "atranslate_all evs st = (f, st')"
  shows "agree st' (read_frames r f) (order_run s (concat (map atoms evs)))"
  using assms
proof (induction evs arbitrary: st r s f st')
  case (Cons ev evs)
  obtain f1 s1 where 1: "atranslate ev st = (f1, s1)" by fastforce
  obtain f2 s2 where 2: "atranslate_all evs s1 = (f2, s2)" by fastforce
  have f: "f = f1 @ f2" "st' = s2" using Cons.prems(3) 1 2 by auto
  have one: "agree s1 (read_frames r f1) (order_run s (atoms ev))"
    using event_agrees[OF Cons.prems(1) _ 1] Cons.prems(2) by simp
  show ?case
  proof (cases "order_run s (atoms ev)")
    case None
    with one have "read_frames r f1 = None" by (cases "read_frames r f1") auto
    with None show ?thesis by (simp add: f read_frames_append order_run_append)
  next
    case (Some t)
    with one obtain r1 where "read_frames r f1 = Some r1" "agrees s1 r1 t" by (cases "read_frames r f1") auto
    with Cons.IH[OF _ _ 2] Cons.prems(2) Some show ?thesis by (simp add: f read_frames_append order_run_append)
  qed
qed simp

lemma close_ends:
  assumes "agrees st r s" "close_message reason st = (f, st')"
  shows "read_frames r f = Some Ended"
proof -
  obtain f1 s1 where 1: "start_message st = (f1, s1)" by fastforce
  from agrees_start[OF assms(1) 1] obtain r1 where r1: "read_frames r f1 = Some r1" "agrees s1 r1 s" "an_started s1" by blast
  obtain f2 s2 where 2: "close_open s1 = (f2, s2)" by fastforce
  have "\<not> an_done st" using assms(1) by (simp add: agrees_def)
  with assms(2) 1 2 agrees_close[OF r1(2,3) 2] r1(1) show ?thesis by (auto simp: close_message_def read_frames_append)
qed

text \<open>C19. The frames of an answer obey the Anthropic protocol - one message start, content blocks that
  are opened in order, fed while open and closed before the next, a final delta and the message
  stop - exactly when the upstream never sends arguments for a call after another piece of content
  has begun. Calls whose arguments arrive interleaved break the protocol.\<close>

theorem anthropic_frames_wellformed_iff:
  assumes "\<forall>ev \<in> set evs. plain_event ev"
  shows "read_frames Fresh (amessage evs) = Some Ended \<longleftrightarrow> in_order evs"
proof -
  obtain f st where t: "atranslate_all evs new_atranslator = (f, st)" by fastforce
  obtain g st' where c: "close_message ''stop'' st = (g, st')" by fastforce
  have m: "amessage evs = f @ g" using t c by (simp add: amessage_def afinish_def)
  have "agrees new_atranslator Fresh ([], CNothing)"
    by (simp add: agrees_def new_atranslator_def reader_of_def tools_wf_def cur_of_def)
  from events_agree[OF this assms t] have a: "agree st (read_frames Fresh f) (order_run ([], CNothing) (concat (map atoms evs)))" .
  show ?thesis
  proof (cases "order_run ([], CNothing) (concat (map atoms evs))")
    case None
    with a show ?thesis by (cases "read_frames Fresh f") (auto simp: m in_order_def read_frames_append)
  next
    case (Some s)
    with a obtain r where "read_frames Fresh f = Some r" "agrees st r s" by (cases "read_frames Fresh f") auto
    with close_ends[OF _ c] Some show ?thesis by (simp add: m in_order_def read_frames_append)
  qed
qed

definition fragment :: "int \<Rightarrow> string \<Rightarrow> json" where
  "fragment i s = JObj [(''index'', JInt i), (''function'', JObj [(''arguments'', JStr s)])]"

definition call_event :: "json list \<Rightarrow> event" where
  "call_event l = (mk_event EvToolCalls)\<lparr>ev_tool_calls := Some l\<rparr>"

theorem anthropic_frames_wellformed_iff_witness:
  "read_frames Fresh (amessage [call_event [fragment 0 ''a'', fragment 1 ''b'']]) = Some Ended
   \<and> read_frames Fresh (amessage [call_event [fragment 0 ''a'', fragment 1 ''b''], call_event [fragment 0 ''c'']]) \<noteq> Some Ended"
proof -
  have p: "plain_event (call_event l)" for l by (simp add: plain_event_def call_event_def mk_event_def)
  have o1: "in_order [call_event [fragment 0 ''a'', fragment 1 ''b'']]"
    "\<not> in_order [call_event [fragment 0 ''a'', fragment 1 ''b''], call_event [fragment 0 ''c'']]" by code_simp+
  show ?thesis
    using anthropic_frames_wellformed_iff[of "[call_event [fragment 0 ''a'', fragment 1 ''b'']]"]
      anthropic_frames_wellformed_iff[of "[call_event [fragment 0 ''a'', fragment 1 ''b''], call_event [fragment 0 ''c'']]"] o1 p
    by simp
qed

end
