(* ===== verification/ResponsesStream.thy ===== *)
theory ResponsesStream
  imports ProviderBase
begin

text \<open>
  \<^verbatim>\<open>src/compat/responses/response.py\<close>: the neutral events become the events of the Responses
  protocol. The output items are a list (an output index is a position in it); an item is its kind
  with its text, its arguments and its status. Generated ids and the constant fields of the
  response object are left out. A frame is a sequence number with an event.
\<close>

section \<open>The translator\<close>

datatype item_body = Message utext | Reasoned utext | FunctionCall "string option" string string

record item =
  it_body :: item_body
  it_completed :: bool

datatype revent =
    Created "item list"
  | ItemAdded nat item
  | PartAdded nat
  | OutputDelta nat utext
  | OutputDone nat utext
  | PartDone nat utext
  | SummaryPartAdded nat
  | SummaryDelta nat utext
  | SummaryDone nat utext
  | SummaryPartDone nat utext
  | ArgumentsDelta nat string
  | ArgumentsDone nat string
  | ItemDone nat item
  | CompletedWith "item list" "(string \<times> int) list"
  | IncompleteWith string "item list" "(string \<times> int) list"
  | FailedWith string string "item list"

type_synonym rframe = "nat \<times> revent"

record rtranslator =
  re_usage :: "usage option"
  re_done :: bool
  re_sequence :: nat
  re_created :: bool
  re_items :: "item list"
  re_text :: "(nat \<times> utext) option"
  re_reasoning :: "(nat \<times> utext) option"
  re_tools :: "(int, nat \<times> string) odict"

definition new_rtranslator :: rtranslator where
  "new_rtranslator = \<lparr>re_usage = None, re_done = False, re_sequence = 0, re_created = False, re_items = [],
     re_text = None, re_reasoning = None, re_tools = []\<rparr>"

text \<open>\<^verbatim>\<open>_emit\<close>, for a list of events.\<close>

definition emit :: "revent list \<Rightarrow> rtranslator \<Rightarrow> rframe list \<times> rtranslator" where
  "emit evs st = (zip [re_sequence st..<re_sequence st + length evs] evs, st\<lparr>re_sequence := re_sequence st + length evs\<rparr>)"

definition seq :: "(rtranslator \<Rightarrow> rframe list \<times> rtranslator) \<Rightarrow> (rtranslator \<Rightarrow> rframe list \<times> rtranslator)
    \<Rightarrow> rtranslator \<Rightarrow> rframe list \<times> rtranslator" where
  "seq f g st = (let (a, s1) = f st; (b, s2) = g s1 in (a @ b, s2))"

definition count0 :: "int option \<Rightarrow> int" where
  "count0 n = (case n of None \<Rightarrow> 0 | Some i \<Rightarrow> i)"

definition rusage_payload :: "usage option \<Rightarrow> (string \<times> int) list" where
  "rusage_payload u =
     (let f = (\<lambda>get. count0 (Option.bind u get))
      in [(''input_tokens'', f u_input), (''cached_tokens'', f u_cached), (''output_tokens'', f u_output),
          (''reasoning_tokens'', f u_reasoning), (''total_tokens'', f u_input + f u_output)])"

definition error_code_for :: "string \<Rightarrow> string" where
  "error_code_for code =
     (if code = ''no_healthy_credential'' then ''server_is_overloaded'' else code)"

definition created_event :: "rtranslator \<Rightarrow> rframe list \<times> rtranslator" where
  "created_event st =
     (if re_created st then ([], st) else emit [Created (re_items st)] (st\<lparr>re_created := True\<rparr>))"

definition in_progress :: "item_body \<Rightarrow> item" where
  "in_progress b = \<lparr>it_body = b, it_completed = False\<rparr>"

definition add_item :: "item_body \<Rightarrow> rtranslator \<Rightarrow> rtranslator" where
  "add_item b st = st\<lparr>re_items := re_items st @ [in_progress b]\<rparr>"

definition content_frames :: "utext \<Rightarrow> rtranslator \<Rightarrow> rframe list \<times> rtranslator" where
  "content_frames chunk st =
     (case re_text st of
        Some (i, t) \<Rightarrow> emit [OutputDelta i chunk] (st\<lparr>re_text := Some (i, t @ chunk)\<rparr>)
      | None \<Rightarrow>
          (let i = length (re_items st)
           in emit [ItemAdded i (in_progress (Message [])), PartAdded i, OutputDelta i chunk]
                ((add_item (Message []) st)\<lparr>re_text := Some (i, chunk)\<rparr>)))"

definition reasoning_frames :: "utext \<Rightarrow> rtranslator \<Rightarrow> rframe list \<times> rtranslator" where
  "reasoning_frames chunk st =
     (case re_reasoning st of
        Some (i, t) \<Rightarrow> emit [SummaryDelta i chunk] (st\<lparr>re_reasoning := Some (i, t @ chunk)\<rparr>)
      | None \<Rightarrow>
          (let i = length (re_items st)
           in emit [ItemAdded i (in_progress (Reasoned [])), SummaryPartAdded i, SummaryDelta i chunk]
                ((add_item (Reasoned []) st)\<lparr>re_reasoning := Some (i, chunk)\<rparr>)))"

definition fn_obj :: "jobject \<Rightarrow> jobject" where
  "fn_obj delta = (case jget delta ''function'' of JObj f \<Rightarrow> f | _ \<Rightarrow> [])"

definition str_or :: "json \<Rightarrow> string" where
  "str_or v = (case v of JStr s \<Rightarrow> s | _ \<Rightarrow> [])"

definition slot_key :: "jobject \<Rightarrow> (int, nat \<times> string) odict \<Rightarrow> int" where
  "slot_key delta slots =
     (case jget delta ''index'' of JInt i \<Rightarrow> i | _ \<Rightarrow> if slots = [] then 0 else Max (fst ` set slots) + 1)"

definition set_name :: "string \<Rightarrow> item \<Rightarrow> item" where
  "set_name n it = (case it_body it of FunctionCall c _ a \<Rightarrow> it\<lparr>it_body := FunctionCall c n a\<rparr> | _ \<Rightarrow> it)"

definition tool_delta_frames :: "jobject \<Rightarrow> rtranslator \<Rightarrow> rframe list \<times> rtranslator" where
  "tool_delta_frames delta st =
     (let key = slot_key delta (re_tools st);
          name = str_or (jget (fn_obj delta) ''name'');
          call_id = str_or (jget delta ''id'');
          fragment = str_or (jget (fn_obj delta) ''arguments'');
          (added, s1) =
            (case od_get (re_tools st) key of
               None \<Rightarrow>
                 (let i = length (re_items st); b = FunctionCall (if call_id = [] then None else Some call_id) name []
                  in ([ItemAdded i (in_progress b)], (add_item b st)\<lparr>re_tools := od_set key (i, []) (re_tools st)\<rparr>))
             | Some (i, a) \<Rightarrow>
                 ([], if name \<noteq> [] then st\<lparr>re_items := (re_items st)[i := set_name name (re_items st ! i)]\<rparr> else st));
          (i, a) = the (od_get (re_tools s1) key)
      in if fragment = [] then emit added s1
         else emit (added @ [ArgumentsDelta i fragment]) (s1\<lparr>re_tools := od_set key (i, a @ fragment) (re_tools s1)\<rparr>))"

fun tool_deltas :: "jobject list \<Rightarrow> rtranslator \<Rightarrow> rframe list \<times> rtranslator" where
  "tool_deltas [] st = ([], st)"
| "tool_deltas (d # ds) st = seq (tool_delta_frames d) (tool_deltas ds) st"

definition completed :: "item_body \<Rightarrow> item" where
  "completed b = \<lparr>it_body = b, it_completed = True\<rparr>"

definition close_text :: "rtranslator \<Rightarrow> rframe list \<times> rtranslator" where
  "close_text st =
     (case re_text st of
        None \<Rightarrow> ([], st)
      | Some (i, t) \<Rightarrow> emit [OutputDone i t, PartDone i t] (st\<lparr>re_items := (re_items st)[i := completed (Message t)]\<rparr>))"

definition close_reasoning :: "rtranslator \<Rightarrow> rframe list \<times> rtranslator" where
  "close_reasoning st =
     (case re_reasoning st of
        None \<Rightarrow> ([], st)
      | Some (i, t) \<Rightarrow> emit [SummaryDone i t, SummaryPartDone i t] (st\<lparr>re_items := (re_items st)[i := completed (Reasoned t)]\<rparr>))"

definition set_arguments :: "string \<Rightarrow> item \<Rightarrow> item" where
  "set_arguments a it = (case it_body it of FunctionCall c n _ \<Rightarrow> completed (FunctionCall c n a) | _ \<Rightarrow> it)"

fun close_tools :: "(int \<times> nat \<times> string) list \<Rightarrow> rtranslator \<Rightarrow> rframe list \<times> rtranslator" where
  "close_tools [] st = ([], st)"
| "close_tools ((k, i, a) # slots) st =
     seq (\<lambda>s. emit [ArgumentsDone i a] (s\<lparr>re_items := (re_items s)[i := set_arguments a (re_items s ! i)]\<rparr>)) (close_tools slots) st"

definition close_items :: "rtranslator \<Rightarrow> rframe list \<times> rtranslator" where
  "close_items st =
     (let items = map (\<lambda>it. it\<lparr>it_completed := True\<rparr>) (re_items st)
      in emit (map (\<lambda>(i, it). ItemDone i it) (enumerate 0 items)) (st\<lparr>re_items := items\<rparr>))"

definition final_event :: "string \<Rightarrow> rtranslator \<Rightarrow> revent" where
  "final_event reason st =
     (if reason = ''length'' then IncompleteWith ''max_output_tokens'' (re_items st) (rusage_payload (re_usage st))
      else if reason = ''content_filter'' then IncompleteWith ''content_filter'' (re_items st) (rusage_payload (re_usage st))
      else CompletedWith (re_items st) (rusage_payload (re_usage st)))"

definition close_response :: "string \<Rightarrow> rtranslator \<Rightarrow> rframe list \<times> rtranslator" where
  "close_response reason st =
     (if re_done st then ([], st)
      else seq created_event (seq close_text (seq close_reasoning (seq (\<lambda>s. close_tools (re_tools s) s)
             (seq close_items (\<lambda>s. emit [final_event reason s] (s\<lparr>re_done := True\<rparr>)))))) st)"

definition fail_response :: "string \<Rightarrow> string \<Rightarrow> rtranslator \<Rightarrow> rframe list \<times> rtranslator" where
  "fail_response message code st =
     (if re_done st then ([], st)
      else seq created_event (\<lambda>s. emit [FailedWith code message (re_items s)] (s\<lparr>re_done := True\<rparr>)) st)"

definition rtranslate :: "event \<Rightarrow> rtranslator \<Rightarrow> rframe list \<times> rtranslator" where
  "rtranslate ev st =
     (case ev_kind ev of
        EvUsage \<Rightarrow> ([], st\<lparr>re_usage := ev_usage ev\<rparr>)
      | EvError \<Rightarrow>
          fail_response (case ev_error_message ev of None \<Rightarrow> ''upstream error'' | Some m \<Rightarrow> if m = [] then ''upstream error'' else m)
            ''upstream_error'' st
      | EvContent \<Rightarrow>
          (case ev_content ev of
             None \<Rightarrow> ([], st)
           | Some s \<Rightarrow> if s = [] then ([], st) else seq created_event (content_frames s) st)
      | EvReasoning \<Rightarrow>
          (case ev_content ev of
             None \<Rightarrow> ([], st)
           | Some s \<Rightarrow> if s = [] then ([], st) else seq created_event (reasoning_frames s) st)
      | EvToolCalls \<Rightarrow>
          (case ev_tool_calls ev of
             None \<Rightarrow> ([], st)
           | Some l \<Rightarrow> if l = [] then ([], st)
                       else seq created_event (tool_deltas (map (\<lambda>v. case v of JObj d \<Rightarrow> d | _ \<Rightarrow> []) l)) st)
      | EvFinish \<Rightarrow> close_response (case ev_finish_reason ev of None \<Rightarrow> ''stop'' | Some r \<Rightarrow> if r = [] then ''stop'' else r) st)"

definition rfinish :: "rtranslator \<Rightarrow> rframe list \<times> rtranslator" where
  "rfinish st = close_response ''stop'' st"

fun rtranslate_all :: "event list \<Rightarrow> rtranslator \<Rightarrow> rframe list \<times> rtranslator" where
  "rtranslate_all [] st = ([], st)"
| "rtranslate_all (ev # evs) st = seq (rtranslate ev) (rtranslate_all evs) st"

definition response_stream :: "event list \<Rightarrow> rframe list" where
  "response_stream evs = fst (seq (rtranslate_all evs) rfinish new_rtranslator)"

section \<open>What a client rebuilds\<close>

text \<open>A client that only reads the deltas; names of calls may still change, so they are left out of
  the comparison.\<close>

fun grow :: "revent \<Rightarrow> item_body list \<Rightarrow> item_body list" where
  "grow (ItemAdded i it) bs = bs @ [it_body it]"
| "grow (OutputDelta i s) bs = (case bs ! i of Message t \<Rightarrow> bs[i := Message (t @ s)] | _ \<Rightarrow> bs)"
| "grow (SummaryDelta i s) bs = (case bs ! i of Reasoned t \<Rightarrow> bs[i := Reasoned (t @ s)] | _ \<Rightarrow> bs)"
| "grow (ArgumentsDelta i s) bs = (case bs ! i of FunctionCall c n a \<Rightarrow> bs[i := FunctionCall c n (a @ s)] | _ \<Rightarrow> bs)"
| "grow _ bs = bs"

definition rebuild :: "item_body list \<Rightarrow> rframe list \<Rightarrow> item_body list" where
  "rebuild bs fs = foldl (\<lambda>b f. grow (snd f) b) bs fs"

fun unnamed :: "item_body \<Rightarrow> item_body" where
  "unnamed (FunctionCall c n a) = FunctionCall c [] a"
| "unnamed b = b"

fun is_delta :: "revent \<Rightarrow> bool" where
  "is_delta (ItemDone i it) = False"
| "is_delta (CompletedWith out u) = False"
| "is_delta (IncompleteWith r out u) = False"
| "is_delta (FailedWith c m out) = False"
| "is_delta _ = True"

definition numbered :: "rtranslator \<Rightarrow> rframe list \<Rightarrow> rtranslator \<Rightarrow> bool" where
  "numbered st fs st' \<longleftrightarrow> map fst fs = [re_sequence st..<re_sequence st'] \<and> re_sequence st \<le> re_sequence st'"

text \<open>The items that still grow, and the state they are in.\<close>

definition index_of :: "(nat \<times> 'a) option \<Rightarrow> nat set" where
  "index_of x = fst ` set_option x"

definition call_state :: "item list \<Rightarrow> item_body list \<Rightarrow> nat \<Rightarrow> string \<Rightarrow> bool" where
  "call_state items bs i a \<longleftrightarrow> i < length items
     \<and> (\<exists>c n n' b. bs ! i = FunctionCall c n a \<and> it_body (items ! i) = FunctionCall c n' b)"

definition parts :: "item list \<Rightarrow> (nat \<times> utext) option \<Rightarrow> (nat \<times> utext) option \<Rightarrow> (int, nat \<times> string) odict \<Rightarrow> item_body list \<Rightarrow> bool"
  where
  "parts items words thoughts slots bs \<longleftrightarrow> length bs = length items
     \<and> {..<length bs} \<subseteq> index_of words \<union> index_of thoughts \<union> (fst \<circ> snd) ` set slots
     \<and> (\<forall>(i, t) \<in> set_option words. i < length bs \<and> bs ! i = Message t)
     \<and> (\<forall>(i, t) \<in> set_option thoughts. i < length bs \<and> bs ! i = Reasoned t)
     \<and> od_wf slots \<and> distinct (map (fst \<circ> snd) slots)
     \<and> (\<forall>(k, i, a) \<in> set slots. call_state items bs i a)"

definition tracked :: "rtranslator \<Rightarrow> item_body list \<Rightarrow> bool" where
  "tracked st bs \<longleftrightarrow> \<not> re_done st \<and> parts (re_items st) (re_text st) (re_reasoning st) (re_tools st) bs"

definition keeps :: "(rtranslator \<Rightarrow> rframe list \<times> rtranslator) \<Rightarrow> bool" where
  "keeps f \<longleftrightarrow> (\<forall>st bs fs st'. tracked st bs \<longrightarrow> f st = (fs, st') \<longrightarrow>
     numbered st fs st' \<and> tracked st' (rebuild bs fs) \<and> (\<forall>x \<in> set fs. is_delta (snd x)))"

lemma numbered_append: "numbered a f b \<Longrightarrow> numbered b g c \<Longrightarrow> numbered a (f @ g) c"
proof -
  have "[a..<b] @ [b..<c] = [a..<c]" if "a \<le> b" "b \<le> c" for a b c :: nat
    using upt_add_eq_append[OF that(1), of "c - b"] that(2) by simp
  then show "numbered a f b \<Longrightarrow> numbered b g c \<Longrightarrow> numbered a (f @ g) c" unfolding numbered_def by auto
qed

lemma tracked_update [simp]:
  "tracked (st\<lparr>re_sequence := n\<rparr>) b = tracked st b" "tracked (st\<lparr>re_created := c\<rparr>) b = tracked st b"
  "tracked (st\<lparr>re_usage := u\<rparr>) b = tracked st b"
  by (simp_all add: tracked_def)

lemma rebuild_append [simp]: "rebuild bs (f @ g) = rebuild (rebuild bs f) g"
  by (simp add: rebuild_def)

lemma numbered_emit: "re_sequence s = re_sequence st \<Longrightarrow> emit evs s = (fs, st') \<Longrightarrow> numbered st fs st'"
  by (auto simp: emit_def numbered_def)

lemma keeps_seq: "keeps f \<Longrightarrow> keeps g \<Longrightarrow> keeps (seq f g)"
  unfolding keeps_def
proof (intro allI impI)
  fix st bs fs st'
  assume f: "\<forall>st bs fs st'. tracked st bs \<longrightarrow> f st = (fs, st') \<longrightarrow>
      numbered st fs st' \<and> tracked st' (rebuild bs fs) \<and> (\<forall>x \<in> set fs. is_delta (snd x))"
    and g: "\<forall>st bs fs st'. tracked st bs \<longrightarrow> g st = (fs, st') \<longrightarrow>
      numbered st fs st' \<and> tracked st' (rebuild bs fs) \<and> (\<forall>x \<in> set fs. is_delta (snd x))"
    and t: "tracked st bs" and e: "seq f g st = (fs, st')"
  obtain a s1 where 1: "f st = (a, s1)" by fastforce
  obtain b s2 where 2: "g s1 = (b, s2)" by fastforce
  have fs: "fs = a @ b" "st' = s2" using e 1 2 by (auto simp: seq_def)
  from f t 1 have A: "numbered st a s1" "tracked s1 (rebuild bs a)" "\<forall>x \<in> set a. is_delta (snd x)" by blast+
  from g A(2) 2 have B: "numbered s1 b s2" "tracked s2 (rebuild (rebuild bs a) b)" "\<forall>x \<in> set b. is_delta (snd x)" by blast+
  show "numbered st fs st' \<and> tracked st' (rebuild bs fs) \<and> (\<forall>x \<in> set fs. is_delta (snd x))"
    using numbered_append[OF A(1) B(1)] A(3) B(2,3) by (auto simp: fs)
qed

lemma rebuild_zip: "length ns = length evs \<Longrightarrow> rebuild bs (zip ns evs) = foldl (\<lambda>b e. grow e b) bs evs"
  by (induction ns evs arbitrary: bs rule: list_induct2) (simp_all add: rebuild_def)

lemma keeps_emit:
  assumes "emit evs s = (fs, st')" "re_sequence s = re_sequence st"
    and "tracked s (foldl (\<lambda>b e. grow e b) bs evs)" "\<forall>e \<in> set evs. is_delta e"
  shows "numbered st fs st' \<and> tracked st' (rebuild bs fs) \<and> (\<forall>x \<in> set fs. is_delta (snd x))"
  using assms numbered_emit[OF assms(2,1)] by (auto simp: emit_def rebuild_zip dest: set_zip_rightD)

lemma keeps_created: "keeps created_event"
  unfolding keeps_def created_event_def
proof (intro allI impI)
  fix st bs fs st'
  assume t: "tracked st bs" and e: "(if re_created st then ([], st) else emit [Created (re_items st)] (st\<lparr>re_created := True\<rparr>)) = (fs, st')"
  show "numbered st fs st' \<and> tracked st' (rebuild bs fs) \<and> (\<forall>x \<in> set fs. is_delta (snd x))"
  proof (cases "re_created st")
    case False
    with e have "emit [Created (re_items st)] (st\<lparr>re_created := True\<rparr>) = (fs, st')" by simp
    from keeps_emit[OF this, of st bs] t show ?thesis by simp
  qed (use t e in \<open>auto simp: numbered_def rebuild_def\<close>)
qed

lemma keepsI:
  assumes "\<And>st bs fs st'. tracked st bs \<Longrightarrow> f st = (fs, st') \<Longrightarrow>
      numbered st fs st' \<and> tracked st' (rebuild bs fs) \<and> (\<forall>x \<in> set fs. is_delta (snd x))"
  shows "keeps f"
  unfolding keeps_def using assms by blast

lemma call_state_append:
  "call_state items bs i a \<Longrightarrow> length bs = length items \<Longrightarrow> call_state (items @ [x]) (bs @ [y]) i a"
  by (auto simp: call_state_def nth_append)

lemma call_state_other:
  "call_state items bs i a \<Longrightarrow> i \<noteq> j \<Longrightarrow> call_state items (bs[j := y]) i a"
  by (auto simp: call_state_def)

lemma parts_new_message:
  assumes "parts items None th slots bs"
  shows "parts (items @ [in_progress (Message [])]) (Some (length items, t)) th slots (bs @ [Message t])"
  using assms unfolding parts_def
  by (auto simp: index_of_def nth_append lessThan_Suc intro!: call_state_append)

lemma parts_new_reasoned:
  assumes "parts items w None slots bs"
  shows "parts (items @ [in_progress (Reasoned [])]) w (Some (length items, t)) slots (bs @ [Reasoned t])"
  using assms unfolding parts_def
  by (auto simp: index_of_def nth_append lessThan_Suc intro!: call_state_append)

lemma parts_not_call: "parts items w th slots bs \<Longrightarrow> (k, i, a) \<in> set slots \<Longrightarrow> bs ! i \<noteq> Message t \<and> bs ! i \<noteq> Reasoned t"
  by (auto simp: parts_def call_state_def)

lemma parts_update:
  assumes "parts items w th slots bs" and "index_of w' = index_of w" "index_of th' = index_of th"
    and "\<forall>(j, t) \<in> set_option w'. j < length bs \<and> (bs[i := y]) ! j = Message t"
    and "\<forall>(j, t) \<in> set_option th'. j < length bs \<and> (bs[i := y]) ! j = Reasoned t"
    and "\<And>k j a. (k, j, a) \<in> set slots \<Longrightarrow> j \<noteq> i"
  shows "parts items w' th' slots (bs[i := y])"
proof -
  have "\<forall>(k, j, a) \<in> set slots. call_state items (bs[i := y]) j a"
    using assms(1,6) call_state_other unfolding parts_def by fast
  then show ?thesis unfolding parts_def assms(2,3) length_list_update
    using assms(1)[unfolded parts_def] assms(4,5) by blast
qed

lemma index_of_Some [simp]: "index_of (Some (i, t)) = {i}" "index_of None = {}"
  by (simp_all add: index_of_def)

lemma parts_message:
  assumes "parts items (Some (i, t)) th slots bs"
  shows "parts items (Some (i, t @ c)) th slots (bs[i := Message (t @ c)])" "bs ! i = Message t" "i < length bs"
proof -
  have th: "\<forall>(j, t) \<in> set_option th. j < length bs \<and> bs ! j = Reasoned t" using assms unfolding parts_def by blast
  have b: "bs ! i = Message t" "i < length bs" using assms by (auto simp: parts_def)
  then show "bs ! i = Message t" "i < length bs" by simp_all
  have "j \<noteq> i" if "(k, j, a) \<in> set slots" for k j a using parts_not_call[OF assms that] b by metis
  moreover have "j \<noteq> i" if "(j, u) \<in> set_option th" for j u using assms b that by (auto simp: parts_def)
  ultimately show "parts items (Some (i, t @ c)) th slots (bs[i := Message (t @ c)])"
    by (intro parts_update[OF assms]) (use b th in auto)
qed

lemma parts_reasoned:
  assumes "parts items w (Some (i, t)) slots bs"
  shows "parts items w (Some (i, t @ c)) slots (bs[i := Reasoned (t @ c)])" "bs ! i = Reasoned t" "i < length bs"
proof -
  have th: "\<forall>(j, t) \<in> set_option w. j < length bs \<and> bs ! j = Message t" using assms unfolding parts_def by blast
  have b: "bs ! i = Reasoned t" "i < length bs" using assms by (auto simp: parts_def)
  then show "bs ! i = Reasoned t" "i < length bs" by simp_all
  have "j \<noteq> i" if "(k, j, a) \<in> set slots" for k j a using parts_not_call[OF assms that] b by metis
  moreover have "j \<noteq> i" if "(j, u) \<in> set_option w" for j u using assms b that by (auto simp: parts_def)
  ultimately show "parts items w (Some (i, t @ c)) slots (bs[i := Reasoned (t @ c)])"
    by (intro parts_update[OF assms]) (use b th in auto)
qed

lemma keeps_content: "keeps (content_frames c)"
proof (rule keepsI)
  fix st bs fs st'
  assume t: "tracked st bs" and e: "content_frames c st = (fs, st')"
  show "numbered st fs st' \<and> tracked st' (rebuild bs fs) \<and> (\<forall>x \<in> set fs. is_delta (snd x))"
  proof (cases "re_text st")
    case None
    let ?i = "length (re_items st)"
    have "length bs = ?i" using t by (simp add: tracked_def parts_def)
    then have "tracked ((add_item (Message []) st)\<lparr>re_text := Some (?i, c)\<rparr>)
        (foldl (\<lambda>b e. grow e b) bs [ItemAdded ?i (in_progress (Message [])), PartAdded ?i, OutputDelta ?i c])"
      using t None parts_new_message[of "re_items st" "re_reasoning st" "re_tools st" bs c]
      by (simp add: tracked_def add_item_def in_progress_def nth_append list_update_append)
    with None e keeps_emit[of _ _ fs st' st bs] show ?thesis
      by (auto simp: content_frames_def Let_def add_item_def)
  next
    case (Some p)
    obtain i t' where p: "p = (i, t')" by (cases p)
    have "tracked (st\<lparr>re_text := Some (i, t' @ c)\<rparr>) (foldl (\<lambda>b e. grow e b) bs [OutputDelta i c])"
      using t Some p parts_message(1)[of "re_items st" i t' "re_reasoning st" "re_tools st" bs c]
        parts_message(2,3)[of "re_items st" i t' "re_reasoning st" "re_tools st" bs] by (simp add: tracked_def)
    with Some p e keeps_emit[of _ _ fs st' st bs] show ?thesis by (auto simp: content_frames_def)
  qed
qed

lemma keeps_reasoning: "keeps (reasoning_frames c)"
proof (rule keepsI)
  fix st bs fs st'
  assume t: "tracked st bs" and e: "reasoning_frames c st = (fs, st')"
  show "numbered st fs st' \<and> tracked st' (rebuild bs fs) \<and> (\<forall>x \<in> set fs. is_delta (snd x))"
  proof (cases "re_reasoning st")
    case None
    let ?i = "length (re_items st)"
    have "length bs = ?i" using t by (simp add: tracked_def parts_def)
    then have "tracked ((add_item (Reasoned []) st)\<lparr>re_reasoning := Some (?i, c)\<rparr>)
        (foldl (\<lambda>b e. grow e b) bs [ItemAdded ?i (in_progress (Reasoned [])), SummaryPartAdded ?i, SummaryDelta ?i c])"
      using t None parts_new_reasoned[of "re_items st" "re_text st" "re_tools st" bs c]
      by (simp add: tracked_def add_item_def in_progress_def nth_append list_update_append)
    with None e keeps_emit[of _ _ fs st' st bs] show ?thesis
      by (auto simp: reasoning_frames_def Let_def add_item_def)
  next
    case (Some p)
    obtain i t' where p: "p = (i, t')" by (cases p)
    have "tracked (st\<lparr>re_reasoning := Some (i, t' @ c)\<rparr>) (foldl (\<lambda>b e. grow e b) bs [SummaryDelta i c])"
      using t Some p parts_reasoned(1)[of "re_items st" "re_text st" i t' "re_tools st" bs c]
        parts_reasoned(2,3)[of "re_items st" "re_text st" i t' "re_tools st" bs] by (simp add: tracked_def)
    with Some p e keeps_emit[of _ _ fs st' st bs] show ?thesis by (auto simp: reasoning_frames_def)
  qed
qed

lemma od_set_new: "od_get d k = None \<Longrightarrow> od_set k v d = d @ [(k, v)]"
  by (induction d) (auto simp: od_set_def split: if_splits)

lemma od_set_old: "od_wf d \<Longrightarrow> od_get d k = Some w \<Longrightarrow> od_set k v d = map (\<lambda>p. if fst p = k then (k, v) else p) d"
proof (induction d)
  case (Cons p d)
  have "map (\<lambda>p. if fst p = k then (k, v) else p) d = d" if "k \<notin> fst ` set d"
    using that by (intro map_idI) force
  with Cons show ?case by (cases p) (auto simp: od_set_def od_wf_def od_keys_def)
qed simp

lemma parts_new_call:
  assumes "parts items w th slots bs" "od_get slots k = None"
  shows "parts (items @ [in_progress (FunctionCall c n [])]) w th (od_set k (length items, []) slots) (bs @ [FunctionCall c n []])"
proof -
  have wf: "od_wf (od_set k (length items, []) slots)" using assms(1) by (simp add: parts_def)
  have fresh: "length items \<notin> (fst \<circ> snd) ` set slots" and len: "length bs = length items"
    using assms(1) by (auto simp: parts_def call_state_def)
  have "call_state (items @ [in_progress (FunctionCall c n [])]) (bs @ [FunctionCall c n []]) (length items) []"
    using len by (auto simp: call_state_def in_progress_def nth_append)
  moreover have "\<forall>(k, i, a) \<in> set slots. call_state (items @ [in_progress (FunctionCall c n [])]) (bs @ [FunctionCall c n []]) i a"
    using assms(1) len call_state_append unfolding parts_def by fast
  ultimately show ?thesis using wf fresh assms(1) unfolding parts_def od_set_new[OF assms(2)]
    by (auto simp: lessThan_Suc nth_append)
qed

lemma call_state_named: "call_state items bs j a \<Longrightarrow> call_state (items[i := set_name n (items ! i)]) bs j a"
  by (cases "i = j") (auto simp: call_state_def set_name_def)

lemma parts_named: "parts items w th slots bs \<Longrightarrow> parts (items[i := set_name n (items ! i)]) w th slots bs"
  unfolding parts_def length_list_update using call_state_named by fast

lemma parts_call:
  assumes P: "parts items w th slots bs" and k: "od_get slots k = Some (i, a)"
  shows "\<exists>c n. bs ! i = FunctionCall c n a \<and> i < length bs
    \<and> parts items w th (od_set k (i, a @ s) slots) (bs[i := FunctionCall c n (a @ s)])"
proof -
  let ?s = "od_set k (i, a @ s) slots"
  have wf: "od_wf slots" and len: "length bs = length items" and d: "distinct (map (fst \<circ> snd) slots)"
    using P by (simp_all add: parts_def)
  note old = od_set_old[OF wf k, of "(i, a @ s)"]
  have m: "(k, i, a) \<in> set slots" using k by (rule map_of_SomeD)
  then have "call_state items bs i a" using P unfolding parts_def by fast
  then obtain c n n' b where c: "bs ! i = FunctionCall c n a" "i < length bs" "it_body (items ! i) = FunctionCall c n' b"
    using len by (auto simp: call_state_def)
  let ?b = "bs[i := FunctionCall c n (a @ s)]"
  have idx: "map (fst \<circ> snd) ?s = map (fst \<circ> snd) slots"
    unfolding old map_map by (rule map_cong) (use k wf in \<open>auto simp: od_wf_def od_keys_def dest!: map_of_SomeD dest: eq_key_imp_eq_value\<close>)
  have "call_state items ?b j u" if "(l, j, u) \<in> set ?s" for l j u
  proof (cases "l = k")
    case True
    then have "(j, u) = (i, a @ s)" using that unfolding old by auto
    then show ?thesis using c len by (auto simp: call_state_def)
  next
    case False
    then have l: "(l, j, u) \<in> set slots" using that unfolding old by (auto split: if_splits)
    then have "j \<noteq> i" using d m False unfolding distinct_map inj_on_def by fastforce
    moreover have "call_state items bs j u" using P l unfolding parts_def by fast
    ultimately show ?thesis by (intro call_state_other) auto
  qed
  then have calls: "\<forall>(l, j, u) \<in> set ?s. call_state items ?b j u" by blast
  have texts: "\<forall>(j, t) \<in> set_option w. j < length ?b \<and> ?b ! j = Message t"
    "\<forall>(j, t) \<in> set_option th. j < length ?b \<and> ?b ! j = Reasoned t"
    using P c unfolding parts_def by (auto simp: nth_list_update)
  have image: "(fst \<circ> snd) ` set ?s = (fst \<circ> snd) ` set slots" using arg_cong[OF idx, of set] by simp
  have cover: "{..<length ?b} \<subseteq> index_of w \<union> index_of th \<union> (fst \<circ> snd) ` set ?s"
    using P unfolding parts_def image length_list_update by blast
  have "distinct (map (fst \<circ> snd) ?s)" unfolding idx by (rule d)
  then have "parts items w th ?s ?b" unfolding parts_def
    using calls texts cover wf len by simp
  with c show ?thesis by blast
qed


definition slot_for :: "jobject \<Rightarrow> rtranslator \<Rightarrow> revent list \<times> rtranslator" where
  "slot_for delta st =
     (let key = slot_key delta (re_tools st);
          name = str_or (jget (fn_obj delta) ''name'');
          call_id = str_or (jget delta ''id'')
      in case od_get (re_tools st) key of
           None \<Rightarrow>
             (let i = length (re_items st); b = FunctionCall (if call_id = [] then None else Some call_id) name []
              in ([ItemAdded i (in_progress b)], (add_item b st)\<lparr>re_tools := od_set key (i, []) (re_tools st)\<rparr>))
         | Some (i, a) \<Rightarrow>
             ([], if name \<noteq> [] then st\<lparr>re_items := (re_items st)[i := set_name name (re_items st ! i)]\<rparr> else st))"

lemma tool_delta_frames_slot:
  "tool_delta_frames delta st =
     (let key = slot_key delta (re_tools st); fragment = str_or (jget (fn_obj delta) ''arguments'');
          (added, s1) = slot_for delta st; (i, a) = the (od_get (re_tools s1) key)
      in if fragment = [] then emit added s1
         else emit (added @ [ArgumentsDelta i fragment]) (s1\<lparr>re_tools := od_set key (i, a @ fragment) (re_tools s1)\<rparr>))"
  by (simp add: tool_delta_frames_def slot_for_def Let_def)

lemma slot_for_keeps:
  assumes "tracked st bs" and "slot_for delta st = (added, s1)"
  shows "tracked s1 (foldl (\<lambda>b e. grow e b) bs added) \<and> re_sequence s1 = re_sequence st \<and> (\<forall>e \<in> set added. is_delta e)
    \<and> od_get (re_tools s1) (slot_key delta (re_tools st)) \<noteq> None"
proof (cases "od_get (re_tools st) (slot_key delta (re_tools st))")
  case None
  then show ?thesis using assms parts_new_call[of "re_items st" "re_text st" "re_reasoning st" "re_tools st" bs _ _ _]
    by (auto simp: slot_for_def tracked_def add_item_def in_progress_def Let_def)
next
  case (Some p)
  then show ?thesis using assms parts_named[of "re_items st" "re_text st" "re_reasoning st" "re_tools st" bs]
    by (cases p) (auto simp: slot_for_def tracked_def Let_def split: if_splits)
qed

lemma keeps_tool_delta: "keeps (tool_delta_frames d)"
proof (rule keepsI)
  fix st bs fs st'
  assume t: "tracked st bs" and e: "tool_delta_frames d st = (fs, st')"
  let ?k = "slot_key d (re_tools st)" and ?f = "str_or (jget (fn_obj d) ''arguments'')"
  obtain added s1 where o1: "slot_for d st = (added, s1)" by fastforce
  note O = slot_for_keeps[OF t o1]
  then obtain i a where ia: "od_get (re_tools s1) ?k = Some (i, a)" by auto
  show "numbered st fs st' \<and> tracked st' (rebuild bs fs) \<and> (\<forall>x \<in> set fs. is_delta (snd x))"
  proof (cases "?f = []")
    case True
    with e o1 ia have "emit added s1 = (fs, st')" by (simp add: tool_delta_frames_slot Let_def)
    from keeps_emit[OF this] O show ?thesis by blast
  next
    case False
    let ?s = "s1\<lparr>re_tools := od_set ?k (i, a @ ?f) (re_tools s1)\<rparr>"
    let ?b = "foldl (\<lambda>b e. grow e b) bs added"
    from e o1 ia False have m: "emit (added @ [ArgumentsDelta i ?f]) ?s = (fs, st')" by (simp add: tool_delta_frames_slot Let_def)
    have "parts (re_items s1) (re_text s1) (re_reasoning s1) (re_tools s1) ?b" using O by (simp add: tracked_def)
    from parts_call[OF this ia, of ?f] O have "tracked ?s (grow (ArgumentsDelta i ?f) ?b)"
      by (auto simp: tracked_def)
    with keeps_emit[OF m, of st bs] O show ?thesis by simp
  qed
qed

lemma keeps_tool_deltas: "keeps (tool_deltas ds)"
proof (induction ds)
  case Nil
  show ?case by (rule keepsI) (auto simp: numbered_def rebuild_def)
next
  case (Cons d ds)
  from keeps_seq[OF keeps_tool_delta this] show ?case unfolding keeps_def by simp
qed

section \<open>Closing\<close>

definition neutral :: "revent \<Rightarrow> bool" where
  "neutral e \<longleftrightarrow> is_delta e \<and> (\<forall>bs. grow e bs = bs)"

definition ready :: "item_body list \<Rightarrow> (int, nat \<times> string) odict \<Rightarrow> item list \<Rightarrow> bool" where
  "ready bs slots items \<longleftrightarrow> length bs = length items \<and> (\<forall>(k, i, a) \<in> set slots. call_state items bs i a)"

definition settled :: "item_body list \<Rightarrow> item list \<Rightarrow> nat \<Rightarrow> bool" where
  "settled bs items i \<longleftrightarrow> i < length items \<and> unnamed (it_body (items ! i)) = unnamed (bs ! i)"

lemma unnamed_call [simp]: "unnamed b = FunctionCall c [] a \<longleftrightarrow> (\<exists>n. b = FunctionCall c n a)"
  by (cases b) auto

lemma ready_put:
  assumes "ready bs slots items" "unnamed (it_body x) = unnamed (bs ! i)"
  shows "ready bs slots (items[i := x]) \<and> (i < length items \<longrightarrow> settled bs (items[i := x]) i)
    \<and> (\<forall>j. settled bs items j \<longrightarrow> settled bs (items[i := x]) j)"
proof -
  have "call_state (items[i := x]) bs j a" if "call_state items bs j a" for j a
    using that assms(2) by (cases "i = j") (auto simp: call_state_def)
  moreover have "unnamed (it_body (items[i := x] ! j)) = unnamed (bs ! j)"
    if "j < length items" "unnamed (it_body (items ! j)) = unnamed (bs ! j)" for j
    using that assms(2) by (cases "i = j") auto
  ultimately show ?thesis using assms unfolding ready_def settled_def by (intro conjI) (simp, fast, auto)
qed

text \<open>A closing step: no frame of it changes what a client has built up, and items only get closer
  to it.\<close>

definition closes :: "nat set \<Rightarrow> (rtranslator \<Rightarrow> rframe list \<times> rtranslator) \<Rightarrow> (int, nat \<times> string) odict \<Rightarrow> item_body list
    \<Rightarrow> rtranslator \<Rightarrow> bool" where
  "closes I f slots bs st \<longleftrightarrow> (\<forall>fs st'. ready bs slots (re_items st) \<longrightarrow> f st = (fs, st') \<longrightarrow>
     numbered st fs st' \<and> ready bs slots (re_items st') \<and> (\<forall>x \<in> set fs. neutral (snd x))
     \<and> (\<forall>i. i \<in> I \<or> settled bs (re_items st) i \<longrightarrow> settled bs (re_items st') i)
     \<and> rtranslator.truncate st' = rtranslator.truncate (st\<lparr>re_items := re_items st', re_sequence := re_sequence st'\<rparr>))"

lemma closes_emit:
  assumes "\<forall>e \<in> set evs. neutral e" and "ready bs slots (re_items st) \<Longrightarrow> unnamed (it_body x) = unnamed (bs ! i) \<and> i < length (re_items st)"
  shows "closes {i} (\<lambda>s. emit evs (s\<lparr>re_items := (re_items s)[i := x]\<rparr>)) slots bs st"
  unfolding closes_def
proof (intro allI impI)
  fix fs st'
  assume r: "ready bs slots (re_items st)" and e: "emit evs (st\<lparr>re_items := (re_items st)[i := x]\<rparr>) = (fs, st')"
  from ready_put[OF r, of x i] assms(2)[OF r] numbered_emit[OF _ e] e assms(1)
  show "numbered st fs st' \<and> ready bs slots (re_items st') \<and> (\<forall>x \<in> set fs. neutral (snd x))
     \<and> (\<forall>j. j \<in> {i} \<or> settled bs (re_items st) j \<longrightarrow> settled bs (re_items st') j)
     \<and> rtranslator.truncate st' = rtranslator.truncate (st\<lparr>re_items := re_items st', re_sequence := re_sequence st'\<rparr>)"
    by (auto simp: emit_def numbered_def rtranslator.truncate_def dest: set_zip_rightD)
qed


lemma closes_seq:
  assumes "closes I f slots bs st" and "\<And>fs s1. f st = (fs, s1) \<Longrightarrow> ready bs slots (re_items s1) \<Longrightarrow>
     rtranslator.truncate s1 = rtranslator.truncate (st\<lparr>re_items := re_items s1, re_sequence := re_sequence s1\<rparr>) \<Longrightarrow> closes J g slots bs s1"
  shows "closes (I \<union> J) (seq f g) slots bs st"
  unfolding closes_def
proof (intro allI impI)
  fix fs st'
  assume r: "ready bs slots (re_items st)" and e: "seq f g st = (fs, st')"
  obtain a s1 where 1: "f st = (a, s1)" by fastforce
  obtain b s2 where 2: "g s1 = (b, s2)" by fastforce
  have fs: "fs = a @ b" "st' = s2" using e 1 2 by (auto simp: seq_def)
  note A = assms(1)[unfolded closes_def, rule_format, OF r 1]
  then have "closes J g slots bs s1" using assms(2)[OF 1] by blast
  note B = this[unfolded closes_def, rule_format, OF _ 2]
  with A have B: "numbered s1 b s2 \<and> ready bs slots (re_items s2) \<and> (\<forall>x \<in> set b. neutral (snd x))
     \<and> (\<forall>i. i \<in> J \<or> settled bs (re_items s1) i \<longrightarrow> settled bs (re_items s2) i)
     \<and> rtranslator.truncate s2 = rtranslator.truncate (s1\<lparr>re_items := re_items s2, re_sequence := re_sequence s2\<rparr>)" by blast
  show "numbered st fs st' \<and> ready bs slots (re_items st') \<and> (\<forall>x \<in> set fs. neutral (snd x))
     \<and> (\<forall>i. i \<in> I \<union> J \<or> settled bs (re_items st) i \<longrightarrow> settled bs (re_items st') i)
     \<and> rtranslator.truncate st' = rtranslator.truncate (st\<lparr>re_items := re_items st', re_sequence := re_sequence st'\<rparr>)"
    unfolding fs using A B numbered_append[of st a s1 b s2] by (auto simp: rtranslator.truncate_def)
qed

lemma neutral_simps [simp]:
  "neutral (OutputDone i t)" "neutral (PartDone i t)" "neutral (SummaryDone i t)" "neutral (SummaryPartDone i t)" "neutral (ArgumentsDone i s)"
  by (simp_all add: neutral_def)

lemma closes_nothing: "closes {} (\<lambda>s. ([], s)) slots bs st"
  by (simp add: closes_def numbered_def)

lemma closes_text:
  assumes "\<And>i t. re_text st = Some (i, t) \<Longrightarrow> i < length bs \<and> bs ! i = Message t"
  shows "closes (index_of (re_text st)) close_text slots bs st"
proof (cases "re_text st")
  case None
  then show ?thesis using closes_nothing[of slots bs st] by (simp add: closes_def close_text_def)
next
  case (Some p)
  obtain i t where p: "p = (i, t)" by (cases p)
  have "closes {i} (\<lambda>s. emit [OutputDone i t, PartDone i t] (s\<lparr>re_items := (re_items s)[i := completed (Message t)]\<rparr>)) slots bs st"
    by (rule closes_emit) (use assms Some p in \<open>auto simp: completed_def ready_def\<close>)
  then show ?thesis using Some p by (simp add: closes_def close_text_def)
qed

lemma closes_tools:
  assumes "set xs \<subseteq> set slots"
  shows "closes ((fst \<circ> snd) ` set xs) (close_tools xs) slots bs st"
  using assms
proof (induction xs arbitrary: st)
  case Nil
  then show ?case using closes_nothing[of slots bs] by (simp add: closes_def)
next
  case (Cons y xs st)
  obtain k i a where x: "y = (k, i, a)" by (cases y)
  have "closes {i} (\<lambda>s. emit [ArgumentsDone i a] (s\<lparr>re_items := (re_items s)[i := set_arguments a (re_items st ! i)]\<rparr>)) slots bs st"
  proof (rule closes_emit)
    assume "ready bs slots (re_items st)"
    then have "call_state (re_items st) bs i a" using Cons.prems x unfolding ready_def by fastforce
    then show "unnamed (it_body (set_arguments a (re_items st ! i))) = unnamed (bs ! i) \<and> i < length (re_items st)"
      by (auto simp: call_state_def set_arguments_def completed_def)
  qed simp
  then have "closes {i} (\<lambda>s. emit [ArgumentsDone i a] (s\<lparr>re_items := (re_items s)[i := set_arguments a (re_items s ! i)]\<rparr>)) slots bs st"
    by (simp add: closes_def)
  from closes_seq[OF this Cons.IH] Cons.prems show ?case by (simp add: x)
qed


lemma closes_reasoning:
  assumes "\<And>i t. re_reasoning st = Some (i, t) \<Longrightarrow> i < length bs \<and> bs ! i = Reasoned t"
  shows "closes (index_of (re_reasoning st)) close_reasoning slots bs st"
proof (cases "re_reasoning st")
  case None
  then show ?thesis using closes_nothing[of slots bs st] by (simp add: closes_def close_reasoning_def)
next
  case (Some p)
  obtain i t where p: "p = (i, t)" by (cases p)
  have "closes {i} (\<lambda>s. emit [SummaryDone i t, SummaryPartDone i t] (s\<lparr>re_items := (re_items s)[i := completed (Reasoned t)]\<rparr>)) slots bs st"
    by (rule closes_emit) (use assms Some p in \<open>auto simp: completed_def ready_def\<close>)
  then show ?thesis using Some p by (simp add: closes_def close_reasoning_def)
qed

lemma kept_fields:
  assumes "rtranslator.truncate s1 = rtranslator.truncate (st\<lparr>re_items := is, re_sequence := n\<rparr>)"
  shows "re_text s1 = re_text (st :: rtranslator)" "re_reasoning s1 = re_reasoning st" "re_tools s1 = re_tools st" "re_usage s1 = re_usage st"
    "re_done s1 = re_done st"
  using assms by (auto simp: rtranslator.truncate_def)

text \<open>The items when the closing frames are out.\<close>

lemma closes_all:
  assumes "tracked st bs"
    and "seq close_text (seq close_reasoning (\<lambda>s. close_tools (re_tools s) s)) st = (fs, st')"
  shows "numbered st fs st' \<and> (\<forall>x \<in> set fs. neutral (snd x)) \<and> re_usage st' = re_usage st
    \<and> map (unnamed \<circ> it_body) (re_items st') = map unnamed bs"
proof -
  have P: "parts (re_items st) (re_text st) (re_reasoning st) (re_tools st) bs" using assms(1) by (simp add: tracked_def)
  let ?I = "index_of (re_text st) \<union> (index_of (re_reasoning st) \<union> (fst \<circ> snd) ` set (re_tools st))"
  have "closes ?I (seq close_text (seq close_reasoning (\<lambda>s. close_tools (re_tools s) s))) (re_tools st) bs st"
  proof (rule closes_seq)
    show "closes (index_of (re_text st)) close_text (re_tools st) bs st"
      by (rule closes_text) (use P in \<open>auto simp: parts_def\<close>)
  next
    fix fs and s1 :: rtranslator
    assume 1: "rtranslator.truncate s1 = rtranslator.truncate (st\<lparr>re_items := re_items s1, re_sequence := re_sequence s1\<rparr>)"
    show "closes (index_of (re_reasoning st) \<union> (fst \<circ> snd) ` set (re_tools st)) (seq close_reasoning (\<lambda>s. close_tools (re_tools s) s)) (re_tools st) bs s1"
    proof (rule closes_seq)
      show "closes (index_of (re_reasoning st)) close_reasoning (re_tools st) bs s1"
      proof -
        have "i < length bs \<and> bs ! i = Reasoned t" if "re_reasoning s1 = Some (i, t)" for i t
          using that P kept_fields(2)[OF 1] by (auto simp: parts_def)
        then have "closes (index_of (re_reasoning s1)) close_reasoning (re_tools st) bs s1" by (rule closes_reasoning)
        then show ?thesis using kept_fields(2)[OF 1] by simp
      qed
    next
      fix gs and s2 :: rtranslator
      assume 2: "rtranslator.truncate s2 = rtranslator.truncate (s1\<lparr>re_items := re_items s2, re_sequence := re_sequence s2\<rparr>)"
      have "re_tools s2 = re_tools st" using kept_fields[OF 1] kept_fields[OF 2] by simp
      then show "closes ((fst \<circ> snd) ` set (re_tools st)) (\<lambda>s. close_tools (re_tools s) s) (re_tools st) bs s2"
        using closes_tools[of "re_tools st" "re_tools st" bs s2] by (simp add: closes_def)
    qed
  qed
  note C = this[unfolded closes_def, rule_format, OF _ assms(2)]
  have "ready bs (re_tools st) (re_items st)" using P by (simp add: ready_def parts_def)
  note C = C[OF this]
  then have "settled bs (re_items st') i" if "i < length bs" for i
    using that P unfolding parts_def by blast
  then have "map (unnamed \<circ> it_body) (re_items st') = map unnamed bs"
    using C by (intro nth_equalityI) (auto simp: settled_def ready_def)
  with C kept_fields(4) show ?thesis by blast
qed


lemma seq_assoc: "seq (seq f g) h st = seq f (seq g h) st"
  by (simp add: seq_def split_beta Let_def)

fun terminal_output :: "revent \<Rightarrow> item list option" where
  "terminal_output (CompletedWith out u) = Some out"
| "terminal_output (IncompleteWith r out u) = Some out"
| "terminal_output (FailedWith c m out) = Some out"
| "terminal_output _ = None"

fun done_item :: "revent \<Rightarrow> (nat \<times> item) option" where
  "done_item (ItemDone i it) = Some (i, it)"
| "done_item _ = None"

lemma is_delta_plain: "is_delta e \<Longrightarrow> terminal_output e = None \<and> done_item e = None"
  by (cases e) simp_all

lemma rebuild_neutral: "\<forall>x \<in> set fs. neutral (snd x) \<Longrightarrow> rebuild bs fs = bs"
  by (induction fs) (simp_all add: rebuild_def neutral_def)

lemma no_done_items: "\<forall>x \<in> set fs. is_delta (snd x) \<Longrightarrow> List.map_filter (done_item \<circ> snd) fs = []"
  by (induction fs) (auto simp: List.map_filter_def dest: is_delta_plain)

lemma keeps_event: "ev_kind ev \<notin> {EvError, EvFinish} \<Longrightarrow> keeps (rtranslate ev)"
proof -
  assume k: "ev_kind ev \<notin> {EvError, EvFinish}"
  have idle: "keeps (\<lambda>st. ([], st))" by (rule keepsI) (auto simp: numbered_def rebuild_def)
  have u: "keeps (\<lambda>st. ([], st\<lparr>re_usage := v\<rparr>))" for v by (rule keepsI) (auto simp: numbered_def rebuild_def)
  show ?thesis
  proof (cases "ev_kind ev")
    case EvUsage
    then show ?thesis using u[of "ev_usage ev"] by (simp add: keeps_def rtranslate_def)
  next
    case EvContent
    then show ?thesis using idle keeps_seq[OF keeps_created keeps_content]
      by (simp add: keeps_def rtranslate_def split: option.split)
  next
    case EvReasoning
    then show ?thesis using idle keeps_seq[OF keeps_created keeps_reasoning]
      by (simp add: keeps_def rtranslate_def split: option.split)
  next
    case EvToolCalls
    then show ?thesis using idle keeps_seq[OF keeps_created keeps_tool_deltas]
      by (simp add: keeps_def rtranslate_def split: option.split)
  qed (use k in auto)
qed

lemma keeps_events: "\<forall>ev \<in> set evs. ev_kind ev \<notin> {EvError, EvFinish} \<Longrightarrow> keeps (rtranslate_all evs)"
proof (induction evs)
  case Nil
  show ?case by (rule keepsI) (auto simp: numbered_def rebuild_def)
next
  case (Cons ev evs)
  have "keeps (rtranslate ev)" "keeps (rtranslate_all evs)" using Cons keeps_event by auto
  from keeps_seq[OF this] show ?case unfolding keeps_def by simp
qed

lemma translate_all_snoc: "rtranslate_all (evs @ [ev]) st = seq (rtranslate_all evs) (rtranslate ev) st"
  by (induction evs arbitrary: st) (simp_all add: seq_def split_beta Let_def)

text \<open>Closing a response that is still being built.\<close>

lemma close_output:
  assumes "tracked st bs" and "close_response reason st = (fs, st')"
  shows "\<exists>front n final out. fs = front @ [(n, final)] \<and> numbered st fs st' \<and> re_done st'
    \<and> (\<forall>f \<in> set front. terminal_output (snd f) = None) \<and> terminal_output final = Some out
    \<and> map (unnamed \<circ> it_body) out = map unnamed (rebuild bs front) \<and> (\<forall>it \<in> set out. it_completed it)
    \<and> List.map_filter (done_item \<circ> snd) front = enumerate 0 out"
proof -
  let ?parts = "seq close_text (seq close_reasoning (\<lambda>s. close_tools (re_tools s) s))"
  let ?final = "\<lambda>s. emit [final_event reason s] (s\<lparr>re_done := True\<rparr>)"
  obtain c s0 where 0: "created_event st = (c, s0)" by fastforce
  obtain p s1 where 1: "?parts s0 = (p, s1)" by fastforce
  obtain d s2 where 2: "close_items s1 = (d, s2)" by fastforce
  obtain e s3 where 3: "?final s2 = (e, s3)" by fastforce
  have "close_response reason st = seq created_event (seq ?parts (seq close_items ?final)) st"
    using assms(1) by (simp add: close_response_def tracked_def seq_def split_beta Let_def)
  then have fs: "fs = c @ p @ d @ e" "st' = s3" using assms(2) 0 1 2 3 by (auto simp: seq_def)
  from keeps_created assms(1) 0 have A: "numbered st c s0" "tracked s0 (rebuild bs c)" "\<forall>x \<in> set c. is_delta (snd x)"
    unfolding keeps_def by blast+
  from closes_all[OF A(2) 1] have B: "numbered s0 p s1" "\<forall>x \<in> set p. neutral (snd x)"
    "map (unnamed \<circ> it_body) (re_items s1) = map unnamed (rebuild bs c)" by blast+
  let ?out = "map (\<lambda>it. it\<lparr>it_completed := True\<rparr>) (re_items s1)"
  have d: "d = zip [re_sequence s1..<re_sequence s1 + length ?out] (map (\<lambda>(i, it). ItemDone i it) (enumerate 0 ?out))"
    "re_items s2 = ?out" and nd: "numbered s1 d s2"
    using 2 by (auto simp: close_items_def emit_def numbered_def Let_def)
  have ne: "numbered s2 e s3" using 3 by (auto simp: emit_def numbered_def)
  have e: "e = [(re_sequence s2, final_event reason s2)]" "re_done s3" using 3 by (auto simp: emit_def)
  have "terminal_output (final_event reason s2) = Some ?out" using d(2) by (simp add: final_event_def)
  moreover have "\<forall>f \<in> set d. terminal_output (snd f) = None \<and> (\<forall>b. grow (snd f) b = b)"
    unfolding d by (auto dest!: set_zip_rightD)
  moreover have "List.map_filter (done_item \<circ> snd) d = enumerate 0 ?out"
  proof -
    have "List.map_filter (done_item \<circ> snd) (zip ns (map (\<lambda>(i, it). ItemDone i it) xs)) = xs" if "length ns = length xs" for ns :: "nat list" and xs
      using that by (induction ns xs rule: list_induct2) (auto simp: List.map_filter_def)
    then show ?thesis unfolding d by simp
  qed
  moreover have "rebuild b d = b" for b using calculation(2) by (induction d) (simp_all add: rebuild_def)
  moreover have "map (unnamed \<circ> it_body) ?out = map (unnamed \<circ> it_body) (re_items s1)" by simp
  ultimately show ?thesis unfolding fs
    using A B nd ne e numbered_append[OF A(1) numbered_append[OF B(1) numbered_append[OF nd ne]]]
      no_done_items[of c] no_done_items[of p] is_delta_plain rebuild_neutral[OF B(2)]
    by (intro exI[of _ "c @ p @ d"] exI[of _ "re_sequence s2"] exI[of _ "final_event reason s2"] exI[of _ ?out])
      (auto simp: neutral_def List.map_filter_def)
qed


text \<open>C2. A client of the Responses protocol that only reads the increments builds up the same output
  as the final object shows, up to the names of calls; the frames are numbered without gaps, exactly
  one of them ends the response, every item in it is completed, and before it every item is announced
  as done once, in order and with the contents it has in the final object.\<close>

theorem response_deltas_rebuild_output:
  assumes "\<forall>ev \<in> set evs. ev_kind ev \<notin> {EvError, EvFinish}" and "ev_kind fin = EvFinish"
  shows "\<exists>front final out. map snd (response_stream (evs @ [fin])) = map snd front @ [final]
    \<and> map fst (response_stream (evs @ [fin])) = [0..<length front + 1]
    \<and> list_all (\<lambda>f. terminal_output (snd f) = None) front \<and> terminal_output final = Some out
    \<and> map (unnamed \<circ> it_body) out = map unnamed (rebuild [] front) \<and> list_all it_completed out
    \<and> List.map_filter (done_item \<circ> snd) front = enumerate 0 out"
proof -
  obtain a s1 where 1: "rtranslate_all evs new_rtranslator = (a, s1)" by fastforce
  obtain reason where r: "\<And>s. rtranslate fin s = close_response reason s" using assms(2) by (auto simp: rtranslate_def)
  obtain b s2 where 2: "close_response reason s1 = (b, s2)" by fastforce
  have "tracked new_rtranslator []" by (simp add: tracked_def parts_def new_rtranslator_def)
  with keeps_events[OF assms(1)] 1 have A: "numbered new_rtranslator a s1" "tracked s1 (rebuild [] a)" "\<forall>x \<in> set a. is_delta (snd x)"
    unfolding keeps_def by blast+
  from close_output[OF A(2) 2] obtain front n final out where B: "b = front @ [(n, final)]" "numbered s1 b s2" "re_done s2"
      "\<forall>f \<in> set front. terminal_output (snd f) = None" "terminal_output final = Some out"
      "map (unnamed \<circ> it_body) out = map unnamed (rebuild (rebuild [] a) front)" "\<forall>it \<in> set out. it_completed it"
      "List.map_filter (done_item \<circ> snd) front = enumerate 0 out" by blast
  have s: "response_stream (evs @ [fin]) = a @ b"
    using 1 2 r B(3) by (simp add: response_stream_def translate_all_snoc seq_def rfinish_def close_response_def)
  have "numbered new_rtranslator (a @ b) s2" using numbered_append A(1) B(2) by blast
  then have n: "map fst (a @ b) = [0..<re_sequence s2]" by (simp add: numbered_def new_rtranslator_def)
  then have "length (a @ b) = re_sequence s2" by (metis length_map length_upt diff_zero)
  with n have "map fst (a @ b) = [0..<length (a @ front) + 1]" using B(1) by simp
  then show ?thesis unfolding s
    using B A(3) no_done_items[OF A(3)] is_delta_plain
    by (intro exI[of _ "a @ front"] exI[of _ final] exI[of _ out]) (auto simp: list_all_iff List.map_filter_def)
qed

theorem response_deltas_rebuild_output_witness:
  "\<exists>out. map (unnamed \<circ> it_body) out = [Message [72, 105]]
     \<and> terminal_output (snd (last (response_stream ([(mk_event EvContent)\<lparr>ev_content := Some [72]\<rparr>, (mk_event EvContent)\<lparr>ev_content := Some [105]\<rparr>] @ [mk_event EvFinish])))) = Some out"
proof -
  let ?evs = "[(mk_event EvContent)\<lparr>ev_content := Some [72]\<rparr>, (mk_event EvContent)\<lparr>ev_content := Some [105]\<rparr>]"
  have "\<forall>ev \<in> set ?evs. ev_kind ev \<notin> {EvError, EvFinish}" "ev_kind (mk_event EvFinish) = EvFinish" by (simp_all add: mk_event_def)
  from response_deltas_rebuild_output[OF this] obtain front final out where
    r: "map snd (response_stream (?evs @ [mk_event EvFinish])) = map snd front @ [final]" "terminal_output final = Some out"
      "map (unnamed \<circ> it_body) out = map unnamed (rebuild [] front)" by blast
  have v: "map snd (response_stream (?evs @ [mk_event EvFinish])) =
      [Created [], ItemAdded 0 (in_progress (Message [])), PartAdded 0, OutputDelta 0 [72], OutputDelta 0 [105],
       OutputDone 0 [72, 105], PartDone 0 [72, 105], ItemDone 0 (completed (Message [72, 105])),
       CompletedWith [completed (Message [72, 105])] (rusage_payload None)]"
    by code_simp
  with r(1) have f: "map snd front = [Created [], ItemAdded 0 (in_progress (Message [])), PartAdded 0, OutputDelta 0 [72], OutputDelta 0 [105],
       OutputDone 0 [72, 105], PartDone 0 [72, 105], ItemDone 0 (completed (Message [72, 105]))]"
    "final = CompletedWith [completed (Message [72, 105])] (rusage_payload None)" by simp_all
  have "rebuild [] front = foldl (\<lambda>b e. grow e b) [] (map snd front)" by (simp add: rebuild_def foldl_map)
  then have "rebuild [] front = [Message [72, 105]]" by (simp add: f in_progress_def)
  moreover have "terminal_output (snd (last (response_stream (?evs @ [mk_event EvFinish])))) = Some out"
  proof -
    have "response_stream (?evs @ [mk_event EvFinish]) \<noteq> []" using v by force
    then have "snd (last (response_stream (?evs @ [mk_event EvFinish]))) = last (map snd (response_stream (?evs @ [mk_event EvFinish])))"
      by (simp add: last_map)
    then show ?thesis using r(1,2) by simp
  qed
  ultimately show ?thesis using r(3) by auto
qed

end
