(* ===== verification/RateWindow.thy ===== *)
theory RateWindow
  imports Prelude
begin

text \<open>
  What the limiters with a sliding window have in common: the quota guard of the API keys, the login
  throttle and the pacer of the upstream requests. Each keeps a queue of timed events, forgets from
  its head what has left the window, and admits a new event only while the events in the window stay
  within a cap. The locale \<open>rate_limiter\<close> states this contract on a step relation of the limiter; its
  lemma bounds every window of every run, at whatever moment it is looked at.
\<close>

section \<open>Logs\<close>

definition weigh :: "('e \<Rightarrow> int) \<Rightarrow> 'e list \<Rightarrow> int" where
  "weigh w es = sum_list (map w es)"

lemma weigh_simps [simp]:
  "weigh w [] = 0" "weigh w (e # es) = w e + weigh w es" "weigh w (es @ fs) = weigh w es + weigh w fs"
  by (simp_all add: weigh_def)

lemma weigh_rev [simp]: "weigh w (rev es) = weigh w es"
  by (induction es) simp_all

lemma weigh_mono: "(\<And>e. 0 \<le> w e) \<Longrightarrow> (\<And>e. e \<in> set es \<Longrightarrow> P e \<Longrightarrow> Q e) \<Longrightarrow> weigh w (filter P es) \<le> weigh w (filter Q es)"
  by (induction es) (auto simp: add_increasing)

lemma weigh_one: "weigh (\<lambda>_. 1) es = int (length es)"
  by (induction es) simp_all

text \<open>The events of a log, newest first, that fall into the window of length \<open>W\<close> ending at \<open>t\<close>.\<close>

definition in_window :: "('e \<Rightarrow> rat) \<Rightarrow> rat \<Rightarrow> rat \<Rightarrow> 'e list \<Rightarrow> 'e list" where
  "in_window tm W t es = filter (\<lambda>e. t - W < tm e \<and> tm e \<le> t) es"

fun within_cap :: "('e \<Rightarrow> rat) \<Rightarrow> rat \<Rightarrow> ('e \<Rightarrow> int) \<Rightarrow> int \<Rightarrow> 'e list \<Rightarrow> bool" where
  "within_cap tm W w cap [] = True"
| "within_cap tm W w cap (e # old) =
     (within_cap tm W w cap old \<and> (\<forall>x \<in> set old. tm x \<le> tm e)
      \<and> weigh w (filter (\<lambda>x. tm e - W < tm x) old) + w e \<le> cap)"

lemma within_cap_window:
  assumes "within_cap tm W w cap hist" and "\<And>e. 0 \<le> w e" and "0 \<le> cap"
  shows "weigh w (in_window tm W t hist) \<le> cap"
  using assms(1)
proof (induction hist)
  case (Cons e old)
  show ?case
  proof (cases "t - W < tm e \<and> tm e \<le> t")
    case True
    have "weigh w (in_window tm W t old) \<le> weigh w (filter (\<lambda>x. tm e - W < tm x) old)"
      unfolding in_window_def by (rule weigh_mono[OF assms(2)]) (use True in auto)
    with Cons.prems True show ?thesis by (simp add: in_window_def)
  next
    case False
    then have "in_window tm W t (e # old) = in_window tm W t old" by (auto simp: in_window_def)
    with Cons show ?thesis by simp
  qed
qed (simp add: in_window_def assms(3))

lemma within_cap_sorted: "within_cap tm W w cap hist \<Longrightarrow> sorted (map tm (rev hist))"
  by (induction hist) (auto simp: sorted_append)

section \<open>Limiters\<close>

text \<open>A run of a limiter: its clock never goes back; each step may add one event.\<close>

inductive timed_run :: "(rat \<Rightarrow> 's \<Rightarrow> 'e option \<Rightarrow> 's \<Rightarrow> bool) \<Rightarrow> 's \<Rightarrow> rat \<Rightarrow> 's \<Rightarrow> 'e list \<Rightarrow> bool" for step s0 where
  start: "timed_run step s0 t s0 []"
| quiet: "timed_run step s0 t s hist \<Longrightarrow> t \<le> t' \<Longrightarrow> step t' s None s' \<Longrightarrow> timed_run step s0 t' s' hist"
| event: "timed_run step s0 t s hist \<Longrightarrow> t \<le> t' \<Longrightarrow> step t' s (Some e) s' \<Longrightarrow> timed_run step s0 t' s' (e # hist)"

locale rate_limiter =
  fixes tm :: "'e \<Rightarrow> rat" and W :: rat and w :: "'e \<Rightarrow> int" and cap :: int
    and queue :: "'s \<Rightarrow> 'e list" and step :: "rat \<Rightarrow> 's \<Rightarrow> 'e option \<Rightarrow> 's \<Rightarrow> bool"
  assumes width: "0 < W" and weight: "0 \<le> w e" and capacity: "0 \<le> cap"
    and keep: "sorted (map tm (queue s)) \<Longrightarrow> step now s None s' \<Longrightarrow>
      queue s' = queue s \<or> queue s' = filter (\<lambda>e. now - W < tm e) (queue s)"
    and admit: "sorted (map tm (queue s)) \<Longrightarrow> step now s (Some e) s' \<Longrightarrow>
      tm e = now \<and> queue s' = filter (\<lambda>x. now - W < tm x) (queue s) @ [e]
      \<and> weigh w (filter (\<lambda>x. now - W < tm x) (queue s)) + w e \<le> cap"
begin

definition tracks :: "rat \<Rightarrow> 's \<Rightarrow> 'e list \<Rightarrow> bool" where
  "tracks t s hist \<longleftrightarrow> within_cap tm W w cap hist \<and> (\<forall>e \<in> set hist. tm e \<le> t)
     \<and> (\<exists>c \<le> t - W. queue s = filter (\<lambda>e. c < tm e) (rev hist))"

lemma tracks_sorted: "tracks t s hist \<Longrightarrow> sorted (map tm (queue s))"
  using within_cap_sorted unfolding tracks_def by (metis sorted_filter)

lemma tracks_later:
  assumes "tracks t s hist" "t \<le> t'"
  shows "\<exists>c \<le> t' - W. queue s = filter (\<lambda>e. c < tm e) (rev hist)" and "\<forall>e \<in> set hist. tm e \<le> t'"
proof -
  obtain c where "c \<le> t - W" "queue s = filter (\<lambda>e. c < tm e) (rev hist)" using assms(1) unfolding tracks_def by blast
  moreover from this have "c \<le> t' - W" using assms(2) by linarith
  ultimately show "\<exists>c \<le> t' - W. queue s = filter (\<lambda>e. c < tm e) (rev hist)" by blast
  show "\<forall>e \<in> set hist. tm e \<le> t'" using assms unfolding tracks_def by force
qed

lemma tracks_recent:
  "tracks t s hist \<Longrightarrow> t \<le> t' \<Longrightarrow> filter (\<lambda>e. t' - W < tm e) (queue s) = filter (\<lambda>e. t' - W < tm e) (rev hist)"
proof -
  assume "tracks t s hist" "t \<le> t'"
  then obtain c where c: "c \<le> t' - W" "queue s = filter (\<lambda>e. c < tm e) (rev hist)" using tracks_later by blast
  then have "(\<lambda>e. c < tm e \<and> t' - W < tm e) = (\<lambda>e. t' - W < tm e)" by (auto simp: fun_eq_iff)
  with c(2) show ?thesis by simp
qed

lemma tracks_start: "queue s0 = [] \<Longrightarrow> tracks t s0 []"
  by (auto simp: tracks_def)

lemma tracks_keep:
  assumes "tracks t s hist" "t \<le> t'" "step t' s None s'"
  shows "tracks t' s' hist"
proof -
  note L = tracks_later[OF assms(1,2)]
  from keep[OF tracks_sorted[OF assms(1)] assms(3)] show ?thesis
  proof
    assume "queue s' = queue s"
    with L assms(1) show ?thesis unfolding tracks_def by simp
  next
    assume "queue s' = filter (\<lambda>e. t' - W < tm e) (queue s)"
    then have "queue s' = filter (\<lambda>e. t' - W < tm e) (rev hist)" using tracks_recent[OF assms(1,2)] by simp
    with L(2) assms(1) show ?thesis unfolding tracks_def by blast
  qed
qed

lemma tracks_event:
  assumes "tracks t s hist" "t \<le> t'" "step t' s (Some e) s'"
  shows "tracks t' s' (e # hist)"
proof -
  note A = admit[OF tracks_sorted[OF assms(1)] assms(3)] and R = tracks_recent[OF assms(1,2)]
  have "weigh w (filter (\<lambda>x. t' - W < tm x) hist) + w e \<le> cap"
    using A unfolding R by (metis rev_filter weigh_rev)
  moreover have "\<forall>x \<in> set hist. tm x \<le> t'" by (rule tracks_later(2)[OF assms(1,2)])
  ultimately have "within_cap tm W w cap (e # hist)" "\<forall>x \<in> set (e # hist). tm x \<le> t'"
    using assms(1) A by (auto simp: tracks_def)
  moreover have "queue s' = filter (\<lambda>x. t' - W < tm x) (rev (e # hist))" using A R width by simp
  ultimately show ?thesis unfolding tracks_def by blast
qed

lemma run_tracks: "timed_run step s0 t s hist \<Longrightarrow> queue s0 = [] \<Longrightarrow> tracks t s hist"
  by (induction rule: timed_run.induct) (auto intro: tracks_start tracks_keep tracks_event)

text \<open>What every client may rely on: at no moment does a window hold more than the cap.\<close>

lemma window_bounded:
  "timed_run step s0 t s hist \<Longrightarrow> queue s0 = [] \<Longrightarrow> weigh w (in_window tm W t' hist) \<le> cap"
  using run_tracks within_cap_window weight capacity unfolding tracks_def by metis

end

section \<open>Limiters that take an admission back\<close>

text \<open>An admitted event that did not take place is taken out of the queue and of the log.\<close>

definition erase :: "'e \<Rightarrow> 'e list \<Rightarrow> 'e list" where
  "erase e hist = rev (remove1 e (rev hist))"

lemma rev_erase [simp]: "rev (erase e hist) = remove1 e (rev hist)"
  by (simp add: erase_def)

lemma erase_Nil [simp]: "erase e [] = []"
  by (simp add: erase_def)

lemma erase_Cons: "erase e (x # hist) = (if e \<in> set hist then x # erase e hist else if x = e then hist else x # hist)"
  by (simp add: erase_def remove1_append remove1_idem)

lemma set_erase: "set (erase e hist) \<subseteq> set hist"
  using set_remove1_subset[of e "rev hist"] by (simp add: erase_def)

lemma weigh_erase: "(\<And>x. 0 \<le> w x) \<Longrightarrow> weigh w (filter P (erase e hist)) \<le> weigh w (filter P hist)"
  by (induction hist) (auto simp: erase_Cons add_increasing)

lemma within_cap_erase:
  assumes "within_cap tm W w cap hist" and "\<And>x. 0 \<le> w x"
  shows "within_cap tm W w cap (erase e hist)"
  using assms(1)
proof (induction hist)
  case (Cons x old)
  have "weigh w (filter (\<lambda>y. tm x - W < tm y) (erase e old)) \<le> weigh w (filter (\<lambda>y. tm x - W < tm y) old)"
    by (rule weigh_erase) (rule assms(2))
  with Cons set_erase[of e old] show ?case by (auto simp: erase_Cons)
qed (simp add: erase_def)

lemma filter_remove1: "filter P (remove1 e xs) = (if P e then remove1 e (filter P xs) else filter P xs)"
  by (induction xs) auto

text \<open>A run of a limiter that may take admissions back.\<close>

inductive revocable_run ::
  "(rat \<Rightarrow> 's \<Rightarrow> 'e option \<Rightarrow> 's \<Rightarrow> bool) \<Rightarrow> ('e \<Rightarrow> 's \<Rightarrow> 's \<Rightarrow> bool) \<Rightarrow> 's \<Rightarrow> rat \<Rightarrow> 's \<Rightarrow> 'e list \<Rightarrow> bool"
  for step undo s0 where
  start: "revocable_run step undo s0 t s0 []"
| quiet: "revocable_run step undo s0 t s hist \<Longrightarrow> t \<le> t' \<Longrightarrow> step t' s None s' \<Longrightarrow> revocable_run step undo s0 t' s' hist"
| event: "revocable_run step undo s0 t s hist \<Longrightarrow> t \<le> t' \<Longrightarrow> step t' s (Some e) s' \<Longrightarrow> revocable_run step undo s0 t' s' (e # hist)"
| revoke: "revocable_run step undo s0 t s hist \<Longrightarrow> undo e s s' \<Longrightarrow> revocable_run step undo s0 t s' (erase e hist)"

locale revocable_limiter = rate_limiter tm W w cap queue step
  for tm :: "'e \<Rightarrow> rat" and W w cap and queue :: "'s \<Rightarrow> 'e list" and step +
  fixes undo :: "'e \<Rightarrow> 's \<Rightarrow> 's \<Rightarrow> bool"
  assumes undo_queue: "undo e s s' \<Longrightarrow> queue s' = remove1 e (queue s)"
begin

lemma tracks_undo:
  assumes "tracks t s hist" "undo e s s'"
  shows "tracks t s' (erase e hist)"
proof -
  obtain c where c: "c \<le> t - W" "queue s = filter (\<lambda>x. c < tm x) (rev hist)" using assms(1) unfolding tracks_def by blast
  then have "queue s' = filter (\<lambda>x. c < tm x) (rev (erase e hist))"
    using undo_queue[OF assms(2)] by (auto simp: filter_remove1 remove1_idem)
  moreover have "within_cap tm W w cap (erase e hist)" using assms(1) weight by (simp add: tracks_def within_cap_erase)
  ultimately show ?thesis using assms(1) c(1) set_erase[of e hist] unfolding tracks_def by blast
qed

lemma revocable_tracks: "revocable_run step undo s0 t s hist \<Longrightarrow> queue s0 = [] \<Longrightarrow> tracks t s hist"
  by (induction rule: revocable_run.induct) (auto intro: tracks_start tracks_keep tracks_event tracks_undo)

lemma kept_window_bounded:
  "revocable_run step undo s0 t s hist \<Longrightarrow> queue s0 = [] \<Longrightarrow> weigh w (in_window tm W t' hist) \<le> cap"
  using revocable_tracks within_cap_window weight capacity unfolding tracks_def by metis

end

end
