(* ===== verification/PyNum.thy ===== *)
theory PyNum
  imports ProviderBase
begin

text \<open>
  What several parsers of the program share: Python's conversion of an integer to a double, and
  results that are an error or a value, with the two ways the code composes them (one statement
  after the other, and a loop over a list that stops at the first error).
\<close>

section \<open>Doubles\<close>

text \<open>\<^verbatim>\<open>float(n)\<close> and \<^verbatim>\<open>math.isfinite(n)\<close> raise \<^verbatim>\<open>OverflowError\<close> from here on.\<close>

definition FLOAT_OVERFLOW :: int where
  "FLOAT_OVERFLOW = 2 ^ 1024 - 2 ^ 970"

fun bit_width :: "nat \<Rightarrow> nat" where
  "bit_width n = (if n = 0 then 0 else bit_width (n div 2) + 1)"

declare bit_width.simps [simp del]

text \<open>The nearest number with 53 bits; halfway, the one with an even last bit.\<close>

definition round53 :: "nat \<Rightarrow> nat" where
  "round53 a =
     (let e = bit_width a - 53; q = a div 2 ^ e; r = a mod 2 ^ e
      in if 2 * r > 2 ^ e \<or> (2 * r = 2 ^ e \<and> odd q) then (q + 1) * 2 ^ e else q * 2 ^ e)"

definition py_float :: "int \<Rightarrow> rat" where
  "py_float n = of_int (sgn n * int (round53 (nat \<bar>n\<bar>)))"

lemma bit_width_le: "bit_width n \<le> k \<longleftrightarrow> n < 2 ^ k"
proof (induction n arbitrary: k rule: bit_width.induct)
  case (1 n)
  show ?case
  proof (cases "n = 0 \<or> k = 0")
    case True
    then show ?thesis by (auto simp: bit_width.simps[of n])
  next
    case False
    then obtain m where "k = Suc m" by (cases k) auto
    moreover have "bit_width n = Suc (bit_width (n div 2))" using False by (simp add: bit_width.simps[of n])
    moreover have "bit_width (n div 2) \<le> m \<longleftrightarrow> n div 2 < 2 ^ m" using 1 False by blast
    moreover have "n div 2 < 2 ^ m \<longleftrightarrow> n < 2 ^ Suc m" by (simp add: div_less_iff_less_mult mult.commute)
    ultimately show ?thesis by simp
  qed
qed

lemma bit_width_eq: "2 ^ k \<le> n \<Longrightarrow> n < 2 ^ Suc k \<Longrightarrow> bit_width n = Suc k"
  using bit_width_le[of n k] bit_width_le[of n "Suc k"] by linarith

lemma round53_small: "a \<le> 2 ^ 53 \<Longrightarrow> round53 a = a"
proof (cases "a = 2 ^ 53")
  case True
  then have "bit_width a = Suc 53" by (intro bit_width_eq) auto
  with True show ?thesis by (simp add: round53_def Let_def)
next
  case False
  assume "a \<le> 2 ^ 53"
  with False have "a < 2 ^ 53" by simp
  then have "bit_width a - 53 = 0" using bit_width_le[of a 53] by simp
  then show ?thesis by (simp add: round53_def Let_def)
qed

lemma py_float_small: "\<bar>n\<bar> \<le> 2 ^ 53 \<Longrightarrow> py_float n = of_int n"
proof -
  assume "\<bar>n\<bar> \<le> 2 ^ 53"
  then have "round53 (nat \<bar>n\<bar>) = nat \<bar>n\<bar>" by (intro round53_small) (simp add: nat_le_iff)
  then have "sgn n * int (round53 (nat \<bar>n\<bar>)) = n" by (simp add: sgn_mult_abs)
  then show ?thesis by (simp add: py_float_def)
qed

lemma round53_exact: "2 ^ 52 \<le> q \<Longrightarrow> q \<le> 2 ^ 53 \<Longrightarrow> round53 (q * 2 ^ e) = q * 2 ^ e"
proof (cases "q = 2 ^ 53")
  case True
  then have "q * 2 ^ e = 2 ^ (53 + e)" by (simp add: power_add)
  moreover have "bit_width (2 ^ (53 + e)) = Suc (53 + e)" by (rule bit_width_eq) auto
  ultimately have "bit_width (q * 2 ^ e) - 53 = e + 1" by simp
  moreover have "q * 2 ^ e = 2 ^ 52 * 2 ^ (e + 1)" using True by simp
  ultimately show ?thesis by (simp add: round53_def Let_def)
next
  case False
  assume a: "2 ^ 52 \<le> q" "q \<le> 2 ^ 53"
  with False have "q < 2 ^ 53" by simp
  then have "q * 2 ^ e < 2 ^ 53 * 2 ^ e" by simp
  then have "q * 2 ^ e < 2 ^ Suc (52 + e)" by (simp add: power_add)
  moreover have "2 ^ 52 * 2 ^ e \<le> q * 2 ^ e" using a(1) by simp
  then have "2 ^ (52 + e) \<le> q * 2 ^ e" by (simp add: power_add)
  ultimately have "bit_width (q * 2 ^ e) = Suc (52 + e)" by (intro bit_width_eq)
  then show ?thesis by (simp add: round53_def Let_def)
qed

lemma round53_idem: "round53 (round53 a) = round53 a"
proof (cases "bit_width a \<le> 53")
  case True
  then have "a < 2 ^ 53" using bit_width_le by blast
  then have "round53 a = a" by (intro round53_small) simp
  then show ?thesis by simp
next
  case False
  define e where "e = bit_width a - 53"
  define q where "q = a div 2 ^ e"
  have "a < 2 ^ (53 + e)" and "2 ^ (52 + e) \<le> a"
    using False bit_width_le[of a "53 + e"] bit_width_le[of a "52 + e"] by (auto simp: e_def)
  then have "q < 2 ^ 53" "2 ^ 52 \<le> q"
    by (auto simp: q_def power_add div_less_iff_less_mult less_eq_div_iff_mult_less_eq)
  then have "round53 (q * 2 ^ e) = q * 2 ^ e" "round53 ((q + 1) * 2 ^ e) = (q + 1) * 2 ^ e"
    by (intro round53_exact; linarith)+
  moreover have "round53 a \<in> {q * 2 ^ e, (q + 1) * 2 ^ e}"
    by (simp add: round53_def Let_def e_def q_def)
  ultimately show ?thesis by auto
qed

lemma py_float_idem: "py_float \<lfloor>py_float n\<rfloor> = py_float n"
proof (cases "n = 0 \<or> round53 (nat \<bar>n\<bar>) = 0")
  case True
  then have "sgn n * int (round53 (nat \<bar>n\<bar>)) = 0" by auto
  then show ?thesis by (simp only: py_float_def floor_of_int) simp
next
  case False
  define m where "m = sgn n * int (round53 (nat \<bar>n\<bar>))"
  have "nat \<bar>m\<bar> = round53 (nat \<bar>n\<bar>)" "sgn m = sgn n" using False by (auto simp: m_def abs_mult sgn_mult)
  then have "sgn m * int (round53 (nat \<bar>m\<bar>)) = m" by (simp add: round53_idem m_def)
  then show ?thesis by (simp only: py_float_def floor_of_int flip: m_def)
qed

text \<open>\<^verbatim>\<open>int(x)\<close> of a finite double.\<close>

definition py_trunc :: "rat \<Rightarrow> int" where
  "py_trunc r = (if r < 0 then \<lceil>r\<rceil> else \<lfloor>r\<rfloor>)"

lemma py_trunc_int [simp]: "py_trunc (of_int n) = n"
  by (simp add: py_trunc_def)

section \<open>Errors or values\<close>

definition try_bind :: "'e + 'a \<Rightarrow> ('a \<Rightarrow> 'e + 'b) \<Rightarrow> 'e + 'b" where
  "try_bind m f = (case m of Inl e \<Rightarrow> Inl e | Inr x \<Rightarrow> f x)"

definition ensure :: "bool \<Rightarrow> 'e \<Rightarrow> 'e + unit" where
  "ensure b e = (if b then Inr () else Inl e)"

primrec try_map :: "('a \<Rightarrow> 'e + 'b) \<Rightarrow> 'a list \<Rightarrow> 'e + 'b list" where
  "try_map f [] = Inr []"
| "try_map f (x # xs) = try_bind (f x) (\<lambda>y. try_bind (try_map f xs) (\<lambda>ys. Inr (y # ys)))"

lemma try_bind_simps [simp]: "try_bind (Inl e) f = Inl e" "try_bind (Inr x) f = f x"
  by (simp_all add: try_bind_def)

named_theorems try_simps

lemma try_bind_Inr [try_simps]: "try_bind m f = Inr y \<longleftrightarrow> (\<exists>x. m = Inr x \<and> f x = Inr y)"
  by (cases m) simp_all

lemma try_bind_Inl [try_simps]: "try_bind m f = Inl e \<longleftrightarrow> m = Inl e \<or> (\<exists>x. m = Inr x \<and> f x = Inl e)"
  by (cases m) simp_all

lemma try_bind_cong [fundef_cong]:
  "m = n \<Longrightarrow> (\<And>x. n = Inr x \<Longrightarrow> f x = g x) \<Longrightarrow> try_bind m f = try_bind n g"
  by (cases n) simp_all

lemma ensure_Inr [simp]: "ensure b e = Inr u \<longleftrightarrow> b"
  by (simp add: ensure_def)

lemma ensure_Inl [simp]: "ensure b e = Inl e' \<longleftrightarrow> \<not> b \<and> e' = e"
  by (auto simp: ensure_def)

lemma try_map_Inr: "try_map f xs = Inr ys \<longleftrightarrow> list_all2 (\<lambda>x y. f x = Inr y) xs ys"
  by (induction xs arbitrary: ys) (auto simp: try_simps list_all2_Cons1)

lemma try_map_append:
  "try_map f (xs @ ys) = try_bind (try_map f xs) (\<lambda>us. try_bind (try_map f ys) (\<lambda>vs. Inr (us @ vs)))"
proof (induction xs)
  case Nil
  then show ?case by (cases "try_map f ys") simp_all
next
  case (Cons x xs)
  then show ?case by (cases "f x"; cases "try_map f xs"; cases "try_map f ys") simp_all
qed

section \<open>Truth values\<close>

text \<open>\<^verbatim>\<open>bool(v)\<close>, as \<^verbatim>\<open>v or default\<close> reads it.\<close>

fun j_truthy :: "json \<Rightarrow> bool" where
  "j_truthy JNull = False"
| "j_truthy (JBool b) = b"
| "j_truthy (JInt n) = (n \<noteq> 0)"
| "j_truthy (JFloat r) = (r \<noteq> 0)"
| "j_truthy JNonFinite = True"
| "j_truthy (JStr s) = (s \<noteq> [])"
| "j_truthy (JList xs) = (xs \<noteq> [])"
| "j_truthy (JObj d) = (d \<noteq> [])"

text \<open>A string that is not empty, for the checks that accept nothing else.\<close>

definition j_text :: "json \<Rightarrow> string option" where
  "j_text v = (case v of JStr s \<Rightarrow> if s = [] then None else Some s | _ \<Rightarrow> None)"

end
