(* ===== verification/KeyQuota.thy ===== *)
theory KeyQuota
  imports RateWindow LimitGuard PyNum
begin

text \<open>
  \<^verbatim>\<open>src/key_quota.py\<close>: the quota of an API key (or of a user), its parsing, and the admission guard
  with its sliding window and its count of running requests; and the admission of a request against
  both quotas (\<^verbatim>\<open>_admit_quota\<close> in \<^verbatim>\<open>src/api/endpoints.py\<close>). The JSON reader and writer of the
  stored text are parameters (\<open>loads\<close>, \<open>dumps\<close>); the usage of the day is an argument, \<open>None\<close> where
  the query raises. The window length is the constant every guard of the application is built with.
\<close>

section \<open>Quotas\<close>

record key_usage =
  ku_requests :: int
  ku_ok :: int
  ku_failed :: int
  ku_input :: int
  ku_output :: int
  ku_cost :: rat

definition ku_tokens :: "key_usage \<Rightarrow> int" where
  "ku_tokens u = ku_input u + ku_output u"

record key_quota =
  kq_daily_requests :: int
  kq_daily_tokens :: int
  kq_daily_cost :: rat
  kq_rpm :: int
  kq_tpm :: int
  kq_max_concurrency :: int

definition no_quota :: key_quota where
  "no_quota = \<lparr>kq_daily_requests = 0, kq_daily_tokens = 0, kq_daily_cost = 0, kq_rpm = 0, kq_tpm = 0, kq_max_concurrency = 0\<rparr>"

definition kq_is_empty :: "key_quota \<Rightarrow> bool" where
  "kq_is_empty q \<longleftrightarrow> kq_daily_requests q = 0 \<and> kq_daily_tokens q = 0 \<and> kq_daily_cost q = 0
     \<and> kq_rpm q = 0 \<and> kq_tpm q = 0 \<and> kq_max_concurrency q = 0"

definition QUOTA_FIELDS :: "string list" where
  "QUOTA_FIELDS = [''daily_requests'', ''daily_tokens'', ''rpm'', ''tpm'', ''max_concurrency'', ''daily_cost_usd'']"

definition kq_as_dict :: "key_quota \<Rightarrow> jobject" where
  "kq_as_dict q =
     [(''daily_requests'', JInt (kq_daily_requests q)), (''daily_tokens'', JInt (kq_daily_tokens q)), (''rpm'', JInt (kq_rpm q)),
      (''tpm'', JInt (kq_tpm q)), (''max_concurrency'', JInt (kq_max_concurrency q)), (''daily_cost_usd'', JFloat (kq_daily_cost q))]"

text \<open>
  A number beyond the range of a double makes \<^verbatim>\<open>float(value)\<close> raise \<^verbatim>\<open>OverflowError\<close>, which is not
  the \<^verbatim>\<open>ValueError\<close> of the other refusals.
\<close>

datatype quota_fault = NotObject | UnknownField string | NotNumber string | NotFinite string | Negative string | NotInteger string
  | FloatOverflow string

definition positive_number :: "string \<Rightarrow> json \<Rightarrow> quota_fault + rat" where
  "positive_number name v =
     (case v of
        JInt n \<Rightarrow> (if \<bar>n\<bar> \<ge> FLOAT_OVERFLOW then Inl (FloatOverflow name) else if n < 0 then Inl (Negative name) else Inr (py_float n))
      | JFloat r \<Rightarrow> (if r < 0 then Inl (Negative name) else Inr r)
      | JNonFinite \<Rightarrow> Inl (NotFinite name)
      | _ \<Rightarrow> Inl (NotNumber name))"

definition int_field :: "jobject \<Rightarrow> string \<Rightarrow> quota_fault + int" where
  "int_field d name =
     (case od_get d name of
        None \<Rightarrow> Inr 0
      | Some v \<Rightarrow> (case positive_number name v of
            Inl e \<Rightarrow> Inl e
          | Inr r \<Rightarrow> if r = of_int \<lfloor>r\<rfloor> then Inr \<lfloor>r\<rfloor> else Inl (NotInteger name)))"

definition cost_field :: "jobject \<Rightarrow> string \<Rightarrow> quota_fault + rat" where
  "cost_field d name = (case od_get d name of None \<Rightarrow> Inr 0 | Some v \<Rightarrow> positive_number name v)"

definition fields_quota :: "jobject \<Rightarrow> quota_fault + key_quota" where
  "fields_quota d =
     (case filter (\<lambda>k. k \<notin> set QUOTA_FIELDS) (od_keys d) of
        k # ks \<Rightarrow> Inl (UnknownField k)
      | [] \<Rightarrow>
     (case int_field d ''daily_requests'' of Inl e \<Rightarrow> Inl e | Inr a \<Rightarrow>
     (case int_field d ''daily_tokens'' of Inl e \<Rightarrow> Inl e | Inr b \<Rightarrow>
     (case int_field d ''rpm'' of Inl e \<Rightarrow> Inl e | Inr c \<Rightarrow>
     (case int_field d ''tpm'' of Inl e \<Rightarrow> Inl e | Inr t \<Rightarrow>
     (case int_field d ''max_concurrency'' of Inl e \<Rightarrow> Inl e | Inr m \<Rightarrow>
     (case cost_field d ''daily_cost_usd'' of Inl e \<Rightarrow> Inl e | Inr u \<Rightarrow>
        Inr \<lparr>kq_daily_requests = a, kq_daily_tokens = b, kq_daily_cost = u, kq_rpm = c, kq_tpm = t, kq_max_concurrency = m\<rparr>)))))))"

definition parse_key_quota :: "(string \<Rightarrow> json option) \<Rightarrow> json \<Rightarrow> quota_fault + key_quota" where
  "parse_key_quota loads raw =
     (if raw \<in> {JNull, JStr [], JObj []} then Inr no_quota
      else case (case raw of JStr s \<Rightarrow> loads s | _ \<Rightarrow> Some raw) of
             Some (JObj d) \<Rightarrow> fields_quota d
           | _ \<Rightarrow> Inl NotObject)"

text \<open>The reading path turns a refusal into no quota; an overflow is not caught.\<close>

definition load_key_quota :: "(string \<Rightarrow> json option) \<Rightarrow> json \<Rightarrow> quota_fault + key_quota" where
  "load_key_quota loads raw =
     (case parse_key_quota loads raw of
        Inr q \<Rightarrow> Inr q
      | Inl (FloatOverflow n) \<Rightarrow> Inl (FloatOverflow n)
      | Inl _ \<Rightarrow> Inr no_quota)"

definition j_zero :: "json \<Rightarrow> bool" where
  "j_zero v = (v = JInt 0 \<or> v = JFloat 0)"

text \<open>Only the fields that are not zero, in the order of their names (\<^verbatim>\<open>sort_keys=True\<close>).\<close>

definition stored_fields :: "key_quota \<Rightarrow> jobject" where
  "stored_fields q = sort_key fst (filter (\<lambda>(k, v). \<not> j_zero v) (kq_as_dict q))"

definition quota_text :: "(jobject \<Rightarrow> string) \<Rightarrow> key_quota \<Rightarrow> string" where
  "quota_text dumps q = (if stored_fields q = [] then [] else dumps (stored_fields q))"

section \<open>The guard\<close>

definition WINDOW_SECONDS :: seconds where
  "WINDOW_SECONDS = 60"

record quota_guard =
  qg_events :: "string \<rightharpoonup> (seconds \<times> nat) list"
  qg_inflight :: "string \<rightharpoonup> nat"

definition new_guard :: quota_guard where
  "new_guard = \<lparr>qg_events = Map.empty, qg_inflight = Map.empty\<rparr>"

datatype quota_limit = RequestsPerDay | TokensPerDay | CostPerDay | RequestsPerMinute | TokensPerMinute | Concurrent

record exceeded =
  qe_limit :: quota_limit
  qe_retry :: int

definition quota_exceeded :: "quota_limit \<Rightarrow> int \<Rightarrow> exceeded" where
  "quota_exceeded l retry = \<lparr>qe_limit = l, qe_retry = max 1 retry\<rparr>"

record quota_lease =
  le_key :: string
  le_counted :: bool
  le_released :: bool

definition new_lease :: "string \<Rightarrow> bool \<Rightarrow> quota_lease" where
  "new_lease k counted = \<lparr>le_key = k, le_counted = counted, le_released = False\<rparr>"

definition inflight_of :: "quota_guard \<Rightarrow> string \<Rightarrow> nat" where
  "inflight_of g k = (case qg_inflight g k of None \<Rightarrow> 0 | Some n \<Rightarrow> n)"

definition qg_release :: "string \<Rightarrow> quota_guard \<Rightarrow> quota_guard" where
  "qg_release k g =
     (let count = inflight_of g k
      in if count \<le> 1 then g\<lparr>qg_inflight := (qg_inflight g)(k := None)\<rparr>
         else g\<lparr>qg_inflight := (qg_inflight g)(k \<mapsto> count - 1)\<rparr>)"

definition lease_release :: "quota_lease \<Rightarrow> quota_guard \<Rightarrow> quota_lease \<times> quota_guard" where
  "lease_release l g =
     (if le_released l then (l, g)
      else (l\<lparr>le_released := True\<rparr>, if le_counted l then qg_release (le_key l) g else g))"

definition qg_prune :: "string \<Rightarrow> seconds \<Rightarrow> quota_guard \<Rightarrow> (seconds \<times> nat) list \<times> quota_guard" where
  "qg_prune k moment g =
     (case qg_events g k of
        None \<Rightarrow> ([], g)
      | Some events \<Rightarrow>
          (let rest = drop_expired fst (moment - WINDOW_SECONDS) events
           in (rest, g\<lparr>qg_events := (if rest = [] then (qg_events g)(k := None) else (qg_events g)(k \<mapsto> rest))\<rparr>)))"

definition total_tokens :: "(seconds \<times> nat) list \<Rightarrow> int" where
  "total_tokens events = (\<Sum>e\<leftarrow>events. int (snd e))"

definition qg_window_usage :: "string \<Rightarrow> seconds \<Rightarrow> quota_guard \<Rightarrow> (nat \<times> int) \<times> quota_guard" where
  "qg_window_usage k now g = (let (events, g') = qg_prune k now g in ((length events, total_tokens events), g'))"

definition window_retry :: "(seconds \<times> nat) list \<Rightarrow> seconds \<Rightarrow> int" where
  "window_retry events moment =
     (case events of [] \<Rightarrow> 1 | e # _ \<Rightarrow> max 1 \<lceil>fst e + WINDOW_SECONDS - moment\<rceil>)"

text \<open>The verdict of the day; the left side stands for an exception of the usage query.\<close>

definition qg_check_daily :: "(string \<Rightarrow> epoch \<Rightarrow> key_usage option) option \<Rightarrow> string \<Rightarrow> key_quota \<Rightarrow> seconds
    \<Rightarrow> unit + exceeded option" where
  "qg_check_daily src k q moment =
     (if kq_daily_requests q = 0 \<and> kq_daily_tokens q = 0 \<and> kq_daily_cost q = 0 then Inr None
      else case src of
        None \<Rightarrow> Inr None
      | Some usage \<Rightarrow>
          (let start = day_start \<lfloor>moment\<rfloor>; retry = \<lfloor>of_int (start + 86400) - moment\<rfloor>
           in case usage k start of
                None \<Rightarrow> Inl ()
              | Some u \<Rightarrow> Inr
                  (if kq_daily_requests q \<noteq> 0 \<and> ku_requests u \<ge> kq_daily_requests q then Some (quota_exceeded RequestsPerDay retry)
                   else if kq_daily_tokens q \<noteq> 0 \<and> ku_tokens u \<ge> kq_daily_tokens q then Some (quota_exceeded TokensPerDay retry)
                   else if kq_daily_cost q \<noteq> 0 \<and> ku_cost u \<ge> kq_daily_cost q then Some (quota_exceeded CostPerDay retry)
                   else None)))"

definition qg_rate :: "string \<Rightarrow> key_quota \<Rightarrow> nat \<Rightarrow> seconds \<Rightarrow> quota_guard \<Rightarrow> (exceeded + quota_lease) \<times> quota_guard" where
  "qg_rate k q tokens moment g =
     (let (events, g1) = qg_prune k moment g
      in if kq_rpm q \<noteq> 0 \<and> int (length events) \<ge> kq_rpm q
         then (Inl (quota_exceeded RequestsPerMinute (window_retry events moment)), g1)
         else if kq_tpm q \<noteq> 0 \<and> total_tokens events + int tokens > kq_tpm q
         then (Inl (quota_exceeded TokensPerMinute (window_retry events moment)), g1)
         else if kq_max_concurrency q \<noteq> 0 \<and> int (inflight_of g1 k) \<ge> kq_max_concurrency q
         then (Inl (quota_exceeded Concurrent 1), g1)
         else (Inr (new_lease k True),
               g1\<lparr>qg_events := (qg_events g1)(k \<mapsto> events @ [(moment, tokens)]),
                  qg_inflight := (qg_inflight g1)(k \<mapsto> inflight_of g1 k + 1)\<rparr>))"

definition qg_admit :: "(string \<Rightarrow> epoch \<Rightarrow> key_usage option) option \<Rightarrow> string \<Rightarrow> key_quota \<Rightarrow> int \<Rightarrow> seconds \<Rightarrow> quota_guard
    \<Rightarrow> (exceeded + quota_lease) \<times> quota_guard" where
  "qg_admit src k q tokens moment g =
     (if kq_is_empty q then (Inr (new_lease k False), g)
      else case qg_check_daily src k q moment of
             Inl _ \<Rightarrow> (Inr (new_lease k False), g)
           | Inr (Some e) \<Rightarrow> (Inl e, g)
           | Inr None \<Rightarrow> qg_rate k q (nat tokens) moment g)"

text \<open>\<^verbatim>\<open>_admit_quota\<close>: first the key, then the user; a refusal by the second returns the first lease.\<close>

definition admit_quota :: "(string \<Rightarrow> epoch \<Rightarrow> key_usage option) option \<Rightarrow> (string \<Rightarrow> epoch \<Rightarrow> key_usage option) option
    \<Rightarrow> string \<Rightarrow> key_quota \<Rightarrow> string \<Rightarrow> key_quota \<Rightarrow> int \<Rightarrow> seconds \<Rightarrow> quota_guard \<times> quota_guard
    \<Rightarrow> (exceeded + quota_lease \<times> quota_lease) \<times> (quota_guard \<times> quota_guard)" where
  "admit_quota key_src user_src k kq u uq tokens now gs =
     (case qg_admit key_src k kq tokens now (fst gs) of
        (Inl e, g1) \<Rightarrow> (Inl e, (g1, snd gs))
      | (Inr l, g1) \<Rightarrow>
          (case qg_admit user_src u uq tokens now (snd gs) of
             (Inl e, g2) \<Rightarrow> (Inl e, (snd (lease_release l g1), g2))
           | (Inr l2, g2) \<Rightarrow> (Inr (l, l2), (g1, g2))))"


section \<open>Rates\<close>

definition events_of :: "string \<Rightarrow> quota_guard \<Rightarrow> (seconds \<times> nat) list" where
  "events_of k g = (case qg_events g k of None \<Rightarrow> [] | Some es \<Rightarrow> es)"

text \<open>
  One step of the guard as seen from a key whose quota is \<open>q\<close>: a request with that key, a request with
  another key under any quota, the end of any request, or a look at any window. Requests of the key
  that are counted add an event.
\<close>

inductive quota_step :: "string \<Rightarrow> key_quota \<Rightarrow> seconds \<Rightarrow> quota_guard \<Rightarrow> (seconds \<times> nat) option \<Rightarrow> quota_guard \<Rightarrow> bool"
  for k q now g where
  counted: "qg_admit src k q tokens now g = (Inr l, g') \<Longrightarrow> le_counted l \<Longrightarrow> quota_step k q now g (Some (now, nat tokens)) g'"
| refused: "qg_admit src k q tokens now g = (Inl e, g') \<Longrightarrow> quota_step k q now g None g'"
| uncounted: "qg_admit src k q tokens now g = (Inr l, g') \<Longrightarrow> \<not> le_counted l \<Longrightarrow> quota_step k q now g None g'"
| other: "k' \<noteq> k \<Longrightarrow> qg_admit src k' q' tokens now g = (r, g') \<Longrightarrow> quota_step k q now g None g'"
| finished: "quota_step k q now g None (snd (lease_release l g))"
| looked: "quota_step k q now g None (snd (qg_window_usage k' now g))"

lemma prune_events:
  "sorted (map fst (events_of k g)) \<Longrightarrow> qg_prune k' now g = (events, g') \<Longrightarrow>
     events_of k g' = (if k' = k then filter (\<lambda>e. now - WINDOW_SECONDS < fst e) (events_of k g) else events_of k g)
     \<and> (k' = k \<longrightarrow> events = events_of k g')"
  by (auto simp: qg_prune_def events_of_def drop_expired_sorted Let_def split: option.splits if_splits)

lemma release_events [simp]: "events_of k (snd (lease_release l g)) = events_of k g"
  by (simp add: lease_release_def qg_release_def events_of_def Let_def)

lemma rate_events:
  assumes "sorted (map fst (events_of k g))" and "qg_rate k' q tokens now g = (r, g')"
  shows "k' \<noteq> k \<Longrightarrow> events_of k g' = events_of k g"
    and "k' = k \<Longrightarrow> r = Inl e \<Longrightarrow> events_of k g' = filter (\<lambda>e. now - WINDOW_SECONDS < fst e) (events_of k g)"
    and "k' = k \<Longrightarrow> r = Inr l \<Longrightarrow> events_of k g' = filter (\<lambda>e. now - WINDOW_SECONDS < fst e) (events_of k g) @ [(now, tokens)]
      \<and> (kq_rpm q \<noteq> 0 \<longrightarrow> int (length (filter (\<lambda>e. now - WINDOW_SECONDS < fst e) (events_of k g))) < kq_rpm q)
      \<and> (kq_tpm q \<noteq> 0 \<longrightarrow> total_tokens (filter (\<lambda>e. now - WINDOW_SECONDS < fst e) (events_of k g)) + int tokens \<le> kq_tpm q)"
proof -
  obtain events g1 where p: "qg_prune k' now g = (events, g1)" by fastforce
  note P = prune_events[OF assms(1) p]
  show "k' \<noteq> k \<Longrightarrow> events_of k g' = events_of k g"
    using assms(2) P p by (auto simp: qg_rate_def events_of_def split: if_splits)
  show "k' = k \<Longrightarrow> r = Inl e \<Longrightarrow> events_of k g' = filter (\<lambda>e. now - WINDOW_SECONDS < fst e) (events_of k g)"
    using assms(2) P p by (auto simp: qg_rate_def split: if_splits)
  show "k' = k \<Longrightarrow> r = Inr l \<Longrightarrow> events_of k g' = filter (\<lambda>e. now - WINDOW_SECONDS < fst e) (events_of k g) @ [(now, tokens)]
      \<and> (kq_rpm q \<noteq> 0 \<longrightarrow> int (length (filter (\<lambda>e. now - WINDOW_SECONDS < fst e) (events_of k g))) < kq_rpm q)
      \<and> (kq_tpm q \<noteq> 0 \<longrightarrow> total_tokens (filter (\<lambda>e. now - WINDOW_SECONDS < fst e) (events_of k g)) + int tokens \<le> kq_tpm q)"
    using assms(2) P p by (auto simp: qg_rate_def events_of_def split: if_splits)
qed

lemma admit_cases:
  assumes "qg_admit src k q tokens now g = (r, g')"
  shows "g' = g \<and> (\<forall>l. r = Inr l \<longrightarrow> \<not> le_counted l) \<or> qg_rate k q (nat tokens) now g = (r, g')"
proof (cases "qg_check_daily src k q now")
  case (Inl u)
  then have "r = Inr (new_lease k False) \<and> g' = g" using assms by (simp add: qg_admit_def split: if_split_asm)
  then show ?thesis by (simp add: new_lease_def)
next
  case (Inr v)
  then show ?thesis
  proof (cases "kq_is_empty q \<or> v \<noteq> None")
    case True
    with Inr assms have "g' = g \<and> (r = Inr (new_lease k False) \<or> r = Inl (the v))"
      by (cases v) (simp_all add: qg_admit_def split: if_split_asm)
    then show ?thesis by (auto simp: new_lease_def)
  next
    case False
    with Inr assms show ?thesis by (simp add: qg_admit_def)
  qed
qed

lemma quota_step_quiet:
  assumes "sorted (map fst (events_of k g))" and "quota_step k q now g None g'"
  shows "events_of k g' = events_of k g \<or> events_of k g' = filter (\<lambda>e. now - WINDOW_SECONDS < fst e) (events_of k g)"
  using assms(2)
proof cases
  case (refused src tokens e)
  then show ?thesis using admit_cases[OF refused] rate_events(2)[OF assms(1)] by auto
next
  case (uncounted src tokens l)
  then show ?thesis using admit_cases[OF uncounted(1)] by (auto simp: qg_rate_def new_lease_def split: prod.splits if_splits)
next
  case (other k' src q' tokens r)
  then show ?thesis using admit_cases[OF other(2)] rate_events(1)[OF assms(1)] by auto
next
  case (looked k')
  then show ?thesis using prune_events[OF assms(1)] by (cases "qg_prune k' now g") (auto simp: qg_window_usage_def)
qed simp

lemma quota_step_event:
  assumes "sorted (map fst (events_of k g))" and "quota_step k q now g (Some e) g'"
  shows "fst e = now \<and> events_of k g' = filter (\<lambda>e. now - WINDOW_SECONDS < fst e) (events_of k g) @ [e]
    \<and> (kq_rpm q \<noteq> 0 \<longrightarrow> int (length (filter (\<lambda>e. now - WINDOW_SECONDS < fst e) (events_of k g))) < kq_rpm q)
    \<and> (kq_tpm q \<noteq> 0 \<longrightarrow> total_tokens (filter (\<lambda>e. now - WINDOW_SECONDS < fst e) (events_of k g)) + int (snd e) \<le> kq_tpm q)"
  using assms(2)
proof cases
  case (counted src tokens l)
  then have "qg_rate k q (nat tokens) now g = (Inr l, g')" using admit_cases[OF counted(2)] by auto
  from rate_events(3)[OF assms(1) this] counted(1) show ?thesis by simp
qed

text \<open>A quota that is switched off weighs nothing.\<close>

definition request_weight :: "key_quota \<Rightarrow> seconds \<times> nat \<Rightarrow> int" where
  "request_weight q e = (if 0 < kq_rpm q then 1 else 0)"

definition token_weight :: "key_quota \<Rightarrow> seconds \<times> nat \<Rightarrow> int" where
  "token_weight q e = (if 0 < kq_tpm q then int (snd e) else 0)"

lemma weigh_requests: "weigh (request_weight q) es = (if 0 < kq_rpm q then int (length es) else 0)"
  by (induction es) (auto simp: request_weight_def)

lemma weigh_tokens: "weigh (token_weight q) es = (if 0 < kq_tpm q then total_tokens es else 0)"
  by (induction es) (auto simp: token_weight_def total_tokens_def)

interpretation rpm: rate_limiter fst WINDOW_SECONDS "request_weight q" "max 0 (kq_rpm q)" "events_of k" "quota_step k q" for k q
proof
  fix now g e g' assume "sorted (map fst (events_of k g))" "quota_step k q now g (Some e) g'"
  from quota_step_event[OF this] show "fst e = now \<and> events_of k g' = filter (\<lambda>x. now - WINDOW_SECONDS < fst x) (events_of k g) @ [e]
      \<and> weigh (request_weight q) (filter (\<lambda>x. now - WINDOW_SECONDS < fst x) (events_of k g)) + request_weight q e \<le> max 0 (kq_rpm q)"
    by (auto simp: weigh_requests request_weight_def)
qed (auto simp: WINDOW_SECONDS_def request_weight_def dest: quota_step_quiet)

interpretation tpm: rate_limiter fst WINDOW_SECONDS "token_weight q" "max 0 (kq_tpm q)" "events_of k" "quota_step k q" for k q
proof
  fix now g e g' assume "sorted (map fst (events_of k g))" "quota_step k q now g (Some e) g'"
  from quota_step_event[OF this] show "fst e = now \<and> events_of k g' = filter (\<lambda>x. now - WINDOW_SECONDS < fst x) (events_of k g) @ [e]
      \<and> weigh (token_weight q) (filter (\<lambda>x. now - WINDOW_SECONDS < fst x) (events_of k g)) + token_weight q e \<le> max 0 (kq_tpm q)"
    by (auto simp: weigh_tokens token_weight_def)
qed (auto simp: WINDOW_SECONDS_def token_weight_def dest: quota_step_quiet)


definition sample_quota :: key_quota where
  "sample_quota = no_quota\<lparr>kq_rpm := 1\<rparr>"



section \<open>Waiting\<close>

lemma drop_expired_shorter:
  assumes "e # es = events" "fst e \<le> cutoff"
  shows "length (drop_expired fst cutoff events) < length events"
proof -
  have "drop_expired fst cutoff events = drop_expired fst cutoff es" using assms by (auto simp: drop_expired_def)
  moreover have "length (drop_expired fst cutoff es) \<le> length es" by (simp add: drop_expired_def length_dropWhile_le)
  ultimately show ?thesis using assms(1) by auto
qed

text \<open>The waiting time of a refusal for too many requests in a minute is enough: a client that comes
  back after it, when nothing else used the key, is not refused for that reason again.\<close>

theorem retry_after_suffices:
  assumes "qg_rate k q tokens now g = (Inl e, g')" and "qe_limit e = RequestsPerMinute"
    and "int (length (events_of k g)) \<le> kq_rpm q" and "of_int (qe_retry e) \<le> later - now"
  shows "\<forall>e2. fst (qg_rate k q tokens2 later g') = Inl e2 \<longrightarrow> qe_limit e2 \<noteq> RequestsPerMinute"
proof -
  obtain events g1 where p: "qg_prune k now g = (events, g1)" by fastforce
  have r: "kq_rpm q \<noteq> 0" "int (length events) \<ge> kq_rpm q" "g' = g1" "e = quota_exceeded RequestsPerMinute (window_retry events now)"
    using assms(1,2) p by (auto simp: qg_rate_def quota_exceeded_def split: if_splits)
  have ev: "events_of k g1 = events" and le: "length events \<le> length (events_of k g)"
    using p by (auto simp: qg_prune_def events_of_def drop_expired_def Let_def length_dropWhile_le simp del: dropWhile_eq_Nil_conv split: option.splits if_splits)
  obtain events2 g2 where p2: "qg_prune k later g1 = (events2, g2)" by fastforce
  have "int (length events2) < kq_rpm q"
  proof (cases events)
    case Nil
    then have "kq_rpm q < 0" using r by simp
    then show ?thesis using assms(3) by simp
  next
    case (Cons x xs)
    have "qe_retry e \<ge> \<lceil>fst x + WINDOW_SECONDS - now\<rceil>" using r(4) Cons by (simp add: quota_exceeded_def window_retry_def)
    then have "fst x + WINDOW_SECONDS - now \<le> of_int (qe_retry e)" by (simp add: ceiling_le_iff)
    then have "fst x \<le> later - WINDOW_SECONDS" using assms(4) by linarith
    then have "length (drop_expired fst (later - WINDOW_SECONDS) events) < length events" using drop_expired_shorter[of x xs events] Cons by simp
    moreover have "events2 = drop_expired fst (later - WINDOW_SECONDS) events"
      using p2 ev Cons by (auto simp: qg_prune_def events_of_def Let_def split: option.splits)
    ultimately show ?thesis using le assms(3) by simp
  qed
  then show ?thesis unfolding r(3) qg_rate_def p2 by (auto simp: quota_exceeded_def)
qed

theorem retry_after_suffices_witness:
  "fst (qg_rate ''k'' sample_quota 1 70 (new_guard\<lparr>qg_events := [''k'' \<mapsto> [(10, 5)]]\<rparr>)) \<noteq> Inl (quota_exceeded RequestsPerMinute 1)"
proof -
  let ?g = "new_guard\<lparr>qg_events := [''k'' \<mapsto> [(10, 5)]]\<rparr>"
  have r: "qg_rate ''k'' sample_quota 1 20 ?g = (Inl (quota_exceeded RequestsPerMinute 50), ?g)"
    by (simp add: qg_rate_def qg_prune_def drop_expired_def WINDOW_SECONDS_def sample_quota_def no_quota_def window_retry_def new_guard_def Let_def)
  have "qe_limit (quota_exceeded RequestsPerMinute 50) = RequestsPerMinute" "qe_retry (quota_exceeded RequestsPerMinute 50) = 50"
    by (simp_all add: quota_exceeded_def)
  with retry_after_suffices[OF r, of 70 1] have "\<forall>e2. fst (qg_rate ''k'' sample_quota 1 70 ?g) = Inl e2 \<longrightarrow> qe_limit e2 \<noteq> RequestsPerMinute"
    by (simp add: events_of_def sample_quota_def no_quota_def)
  then show ?thesis by (auto simp: quota_exceeded_def)
qed

section \<open>Running requests\<close>

text \<open>
  The guard with the leases it has handed out: \<open>ls\<close> is every lease of the run. A lease may be released
  any number of times (the end of a stream and the error path both do it). The quota of a key is
  \<open>quotas k\<close>.
\<close>

inductive lease_flow :: "(string \<Rightarrow> key_quota) \<Rightarrow> quota_guard \<Rightarrow> quota_lease list \<Rightarrow> bool" for quotas where
  fresh: "lease_flow quotas new_guard []"
| admit: "lease_flow quotas g ls \<Longrightarrow> qg_admit src k (quotas k) tokens now g = (r, g') \<Longrightarrow>
    lease_flow quotas g' (case r of Inl _ \<Rightarrow> ls | Inr l \<Rightarrow> ls @ [l])"
| ends: "lease_flow quotas g ls \<Longrightarrow> i < length ls \<Longrightarrow> lease_release (ls ! i) g = (l', g') \<Longrightarrow> lease_flow quotas g' (ls[i := l'])"
| look: "lease_flow quotas g ls \<Longrightarrow> lease_flow quotas (snd (qg_window_usage k now g)) ls"

definition running :: "string \<Rightarrow> quota_lease list \<Rightarrow> nat" where
  "running k ls = length (filter (\<lambda>l. le_key l = k \<and> le_counted l \<and> \<not> le_released l) ls)"

lemma prune_inflight: "qg_prune k' now g = (events, g') \<Longrightarrow> inflight_of g' k = inflight_of g k"
  by (auto simp: qg_prune_def inflight_of_def Let_def split: option.splits)

lemma release_inflight: "inflight_of (qg_release k' g) k = (if k' = k then inflight_of g k - 1 else inflight_of g k)"
  by (auto simp: qg_release_def inflight_of_def Let_def)

lemma rate_inflight:
  assumes "qg_rate k' q tokens now g = (r, g')"
  shows "inflight_of g' k = inflight_of g k + (if k' = k \<and> (\<exists>l. r = Inr l) then 1 else 0)"
    and "r = Inr l \<Longrightarrow> l = new_lease k' True"
    and "r = Inr l \<Longrightarrow> kq_max_concurrency q \<noteq> 0 \<Longrightarrow> int (inflight_of g k') < kq_max_concurrency q"
proof -
  obtain events g1 where p: "qg_prune k' now g = (events, g1)" by fastforce
  note P = prune_inflight[OF p]
  have a: "inflight_of (g1\<lparr>qg_events := x, qg_inflight := (qg_inflight g1)(k' \<mapsto> inflight_of g1 k' + 1)\<rparr>) k
      = inflight_of g1 k + (if k' = k then 1 else 0)" for x
    by (auto simp: inflight_of_def)
  show "inflight_of g' k = inflight_of g k + (if k' = k \<and> (\<exists>l. r = Inr l) then 1 else 0)"
    using assms p P a by (auto simp: qg_rate_def split: if_split_asm)
  show "r = Inr l \<Longrightarrow> l = new_lease k' True" using assms p by (auto simp: qg_rate_def split: if_split_asm)
  show "r = Inr l \<Longrightarrow> kq_max_concurrency q \<noteq> 0 \<Longrightarrow> int (inflight_of g k') < kq_max_concurrency q"
    using assms p P by (auto simp: qg_rate_def split: if_split_asm)
qed

lemma filter_update_length:
  "i < length xs \<Longrightarrow> length (filter P (xs[i := x])) + (if P (xs ! i) then 1 else 0) = length (filter P xs) + (if P x then 1 else 0)"
proof (induction xs arbitrary: i)
  case (Cons a xs)
  then show ?case using Cons.IH[of "i - 1"] by (cases i) (auto split: if_splits)
qed simp

lemma running_released:
  "i < length ls \<Longrightarrow> running k (ls[i := (ls ! i)\<lparr>le_released := True\<rparr>])
     = running k ls - (if le_key (ls ! i) = k \<and> le_counted (ls ! i) \<and> \<not> le_released (ls ! i) then 1 else 0)"
  using filter_update_length[of i ls "\<lambda>l. le_key l = k \<and> le_counted l \<and> \<not> le_released l" "(ls ! i)\<lparr>le_released := True\<rparr>"]
  by (auto simp: running_def)

lemma running_snoc: "running k (ls @ [new_lease k' c]) = running k ls + (if k' = k \<and> c then 1 else 0)"
  by (simp add: running_def new_lease_def)

text \<open>The count of running requests of every key is exactly the number of its leases not yet
  released, however often and in whatever order leases are released, and it never exceeds the
  limit of concurrent requests of the key.\<close>

theorem running_requests_counted:
  assumes "lease_flow quotas g ls"
  shows "inflight_of g k = running k ls \<and> (0 < kq_max_concurrency (quotas k) \<longrightarrow> int (running k ls) \<le> kq_max_concurrency (quotas k))"
  using assms
proof (induction)
  case fresh
  then show ?case by (simp add: inflight_of_def new_guard_def running_def)
next
  case (admit g ls src k' tokens now r g')
  from admit_cases[OF admit.hyps(2)] show ?case
  proof
    assume "g' = g \<and> (\<forall>l. r = Inr l \<longrightarrow> \<not> le_counted l)"
    then show ?thesis using admit.IH by (cases r) (auto simp: running_def)
  next
    assume R: "qg_rate k' (quotas k') (nat tokens) now g = (r, g')"
    show ?thesis
    proof (cases r)
      case (Inl e)
      then show ?thesis using rate_inflight(1)[OF R, of k] admit.IH by simp
    next
      case (Inr l)
      have l: "l = new_lease k' True" by (rule rate_inflight(2)[OF R Inr])
      show ?thesis using rate_inflight(1)[OF R, of k] rate_inflight(3)[OF R Inr] admit.IH Inr
        by (auto simp: l running_snoc)
    qed
  qed
next
  case (ends g ls i l' g')
  then show ?case
  proof (cases "le_released (ls ! i)")
    case True
    then show ?thesis using ends by (auto simp: lease_release_def)
  next
    case False
    then have "l' = (ls ! i)\<lparr>le_released := True\<rparr>" "g' = (if le_counted (ls ! i) then qg_release (le_key (ls ! i)) g else g)"
      using ends.hyps(3) by (simp_all add: lease_release_def)
    then show ?thesis using ends.IH running_released[OF ends.hyps(2), of k] False by (auto simp: release_inflight)
  qed
next
  case (look g ls k' now)
  then show ?case using prune_inflight by (cases "qg_prune k' now g") (simp add: qg_window_usage_def)
qed

theorem running_requests_counted_witness:
  "inflight_of (snd (qg_admit None ''k'' sample_quota 5 10 new_guard)) ''k'' = running ''k'' [new_lease ''k'' True]"
proof -
  have "qg_admit None ((\<lambda>_. ''k'') ()) ((\<lambda>_. sample_quota) ''k'') 5 10 new_guard = (Inr (new_lease ''k'' True), snd (qg_admit None ''k'' sample_quota 5 10 new_guard))"
    by (simp add: qg_admit_def sample_quota_def no_quota_def kq_is_empty_def qg_check_daily_def qg_rate_def qg_prune_def new_guard_def)
  then have "lease_flow (\<lambda>_. sample_quota) (snd (qg_admit None ''k'' sample_quota 5 10 new_guard)) [new_lease ''k'' True]"
    using lease_flow.admit[OF lease_flow.fresh[of "\<lambda>_. sample_quota"], of None "''k''" 5 10] by fastforce
  from running_requests_counted[OF this, of "''k''"] show ?thesis by blast
qed

section \<open>Two layers\<close>

text \<open>A request that the quota of its user refuses has already used up a place in the minute of its
  key: the lease is returned, but the event stays, so refused requests make the key refuse requests
  of other kinds although nothing was sent.\<close>

theorem user_refusal_uses_key_window:
  assumes "qg_rate k kq (nat tokens) now g = (Inr l, g1)" and "qg_admit ksrc k kq tokens now g = (Inr l, g1)"
    and "qg_admit usrc u uq tokens now h = (Inl e, h1)" and "sorted (map fst (events_of k g))"
  shows "\<exists>gs. admit_quota ksrc usrc k kq u uq tokens now (g, h) = (Inl e, gs) \<and> inflight_of (fst gs) k = inflight_of g k
    \<and> length (events_of k (fst gs)) = length (filter (\<lambda>x. now - WINDOW_SECONDS < fst x) (events_of k g)) + 1"
proof -
  have l: "l = new_lease k True" using rate_inflight(2)[OF assms(1)] by simp
  have "inflight_of g1 k = inflight_of g k + 1" using rate_inflight(1)[OF assms(1), of k] by simp
  then show ?thesis using assms(2,3) rate_events(3)[OF assms(4,1)] release_events[of k l g1]
    by (simp add: admit_quota_def l lease_release_def new_lease_def release_inflight)
qed

definition day_quota :: key_quota where
  "day_quota = no_quota\<lparr>kq_daily_requests := 1\<rparr>"

definition spent_day :: "string \<Rightarrow> epoch \<Rightarrow> key_usage option" where
  "spent_day u t = Some \<lparr>ku_requests = 1, ku_ok = 1, ku_failed = 0, ku_input = 0, ku_output = 0, ku_cost = 0\<rparr>"

theorem user_refusal_uses_key_window_witness:
  "\<exists>e gs. admit_quota None (Some spent_day) ''k'' sample_quota ''u'' day_quota 5 10 (new_guard, new_guard) = (Inl e, gs)
     \<and> length (events_of ''k'' (fst gs)) = 1"
proof -
  let ?g1 = "snd (qg_rate ''k'' sample_quota (nat 5) 10 new_guard)"
  have a: "qg_rate ''k'' sample_quota (nat 5) 10 new_guard = (Inr (new_lease ''k'' True), ?g1)"
    by (simp add: sample_quota_def no_quota_def qg_rate_def qg_prune_def new_guard_def)
  have b: "qg_admit None ''k'' sample_quota 5 10 new_guard = (Inr (new_lease ''k'' True), ?g1)"
    unfolding a[symmetric] by (simp add: qg_admit_def sample_quota_def no_quota_def kq_is_empty_def qg_check_daily_def)
  have c: "qg_admit (Some spent_day) ''u'' day_quota 5 10 new_guard =
      (Inl (quota_exceeded RequestsPerDay \<lfloor>of_int (day_start \<lfloor>10 :: rat\<rfloor> + 86400) - (10 :: rat)\<rfloor>), new_guard)"
    by (simp add: qg_admit_def day_quota_def no_quota_def kq_is_empty_def qg_check_daily_def spent_day_def Let_def)
  have d: "sorted (map fst (events_of ''k'' new_guard))" by (simp add: events_of_def new_guard_def)
  from user_refusal_uses_key_window[OF a b c d] show ?thesis by (fastforce simp: events_of_def new_guard_def)
qed

section \<open>Storing a quota\<close>

definition valid_quota :: "key_quota \<Rightarrow> bool" where
  "valid_quota q \<longleftrightarrow> (\<forall>n \<in> {kq_daily_requests q, kq_daily_tokens q, kq_rpm q, kq_tpm q, kq_max_concurrency q}. 0 \<le> n \<and> n < FLOAT_OVERFLOW \<and> py_float n = of_int n)
     \<and> 0 \<le> kq_daily_cost q"

lemma map_of_filter_values:
  "distinct (map fst d) \<Longrightarrow> map_of (filter (\<lambda>(k, v). P v) d) k = (case map_of d k of None \<Rightarrow> None | Some v \<Rightarrow> if P v then Some v else None)"
proof (induction d)
  case (Cons p d)
  then have "map_of d (fst p) = None" by (cases p) (auto simp: map_of_eq_None_iff)
  with Cons show ?case by (cases p) (auto split: option.splits)
qed simp

lemma map_of_sorted: "distinct (map fst d) \<Longrightarrow> map_of (sort_key f d) = map_of d"
  by (subst map_of_inject_set) (auto simp: distinct_map intro: inj_on_subset)

lemma stored_lookup:
  "od_get (stored_fields q) name
     = (case od_get (kq_as_dict q) name of None \<Rightarrow> None | Some v \<Rightarrow> if \<not> j_zero v then Some v else None)"
proof -
  have d: "distinct (map fst (kq_as_dict q))" by (simp add: kq_as_dict_def)
  then have "distinct (map fst (filter (\<lambda>(k, v). \<not> j_zero v) (kq_as_dict q)))" by (rule distinct_map_filter)
  note sorted = map_of_sorted[OF this, of fst]
  show ?thesis unfolding stored_fields_def sorted by (rule map_of_filter_values[OF d])
qed

lemma stored_int:
  assumes "od_get d name = (if \<not> j_zero (JInt n) then Some (JInt n) else None)" and "0 \<le> n" "n < FLOAT_OVERFLOW" "py_float n = of_int n"
  shows "int_field d name = Inr n"
  using assms by (auto simp: int_field_def j_zero_def positive_number_def)

text \<open>A quota within the range of the numbers that are accepted is read back unchanged from the text it is
  stored as.\<close>

theorem quota_text_roundtrip:
  assumes "valid_quota q" and "loads (dumps (stored_fields q)) = Some (JObj (stored_fields q))" and "dumps (stored_fields q) \<noteq> []"
  shows "load_key_quota loads (JStr (quota_text dumps q)) = Inr q"
proof (cases "stored_fields q = []")
  case True
  then have "filter (\<lambda>(k, v). \<not> j_zero v) (kq_as_dict q) = []" by (metis stored_fields_def set_empty set_sort)
  then have "q = no_quota" by (cases q) (auto simp: kq_as_dict_def j_zero_def no_quota_def split: if_splits)
  with True show ?thesis by (simp add: quota_text_def load_key_quota_def parse_key_quota_def)
next
  case False
  let ?d = "stored_fields q"
  have t: "quota_text dumps q = dumps ?d" using False by (simp add: quota_text_def)
  have u: "filter (\<lambda>k. k \<notin> set QUOTA_FIELDS) (od_keys ?d) = []"
    by (auto simp: filter_empty_conv od_keys_def stored_fields_def kq_as_dict_def QUOTA_FIELDS_def)
  have "int_field ?d ''daily_requests'' = Inr (kq_daily_requests q)" "int_field ?d ''daily_tokens'' = Inr (kq_daily_tokens q)"
    "int_field ?d ''rpm'' = Inr (kq_rpm q)" "int_field ?d ''tpm'' = Inr (kq_tpm q)" "int_field ?d ''max_concurrency'' = Inr (kq_max_concurrency q)"
    using assms(1) by (auto intro!: stored_int simp: stored_lookup valid_quota_def kq_as_dict_def)
  moreover have "cost_field ?d ''daily_cost_usd'' = Inr (kq_daily_cost q)"
    using assms(1) by (auto simp: cost_field_def stored_lookup kq_as_dict_def valid_quota_def positive_number_def j_zero_def)
  ultimately have "fields_quota ?d = Inr q" by (simp add: fields_quota_def u)
  then show ?thesis using assms(2,3) by (simp add: t load_key_quota_def parse_key_quota_def)
qed

text \<open>A number too large for a double, or a quota text holding one, is not refused with the error of a
  bad quota but raises, on the reading path too, where every unreadable quota is meant to count as none.\<close>

theorem huge_quota_escapes:
  assumes "FLOAT_OVERFLOW \<le> n" and "loads s = Some (JObj [(''rpm'', JInt n)])" and "s \<noteq> []"
  shows "load_key_quota loads (JStr s) = Inl (FloatOverflow ''rpm'')"
proof -
  have "int_field [(''rpm'', JInt n)] ''rpm'' = Inl (FloatOverflow ''rpm'')" using assms(1) by (simp add: int_field_def positive_number_def)
  then show ?thesis using assms(2,3)
    by (simp add: load_key_quota_def parse_key_quota_def fields_quota_def od_keys_def QUOTA_FIELDS_def int_field_def)
qed

theorem huge_quota_escapes_witness:
  "load_key_quota (\<lambda>_. Some (JObj [(''rpm'', JInt FLOAT_OVERFLOW)])) (JStr ''{}'') = Inl (FloatOverflow ''rpm'')"
  by (rule huge_quota_escapes[OF order_refl]) simp_all

theorem quota_text_roundtrip_witness:
  "load_key_quota (\<lambda>_. Some (JObj [(''rpm'', JInt 1)])) (JStr (quota_text (\<lambda>_. ''-'') sample_quota)) = Inr sample_quota"
proof (rule quota_text_roundtrip)
  show "valid_quota sample_quota" by (simp add: valid_quota_def sample_quota_def no_quota_def FLOAT_OVERFLOW_def py_float_small)
  show "Some (JObj [(''rpm'', JInt 1)]) = Some (JObj (stored_fields sample_quota))"
    by (simp add: stored_fields_def kq_as_dict_def sample_quota_def no_quota_def j_zero_def)
qed simp

end
