(* ===== verification/LoginThrottle.thy ===== *)
theory LoginThrottle
  imports RateWindow
begin

text \<open>
  \<^verbatim>\<open>src/auth/throttle.py\<close>: the failure windows of the login (all sources, one address, one user
  name), the bound on the number of keys, and the order in which the login handler
  (\<^verbatim>\<open>src/api/admin_auth.py\<close>) asks them around the check of the password. The clock
  (\<^verbatim>\<open>time.monotonic\<close>) is an argument. The bound on concurrent hashes is left out.
\<close>

section \<open>State\<close>

record throttle_limits =
  th_window :: seconds
  th_max_global :: nat
  th_max_ip :: nat
  th_max_user :: nat

definition default_limits :: throttle_limits where
  "default_limits = \<lparr>th_window = 60, th_max_global = 40, th_max_ip = 8, th_max_user = 5\<rparr>"

datatype fail_key = GlobalKey | IpKey string | UserKey string

type_synonym fail_events = "(fail_key, seconds list) odict"

definition MAX_KEYS :: nat where
  "MAX_KEYS = 4096"

definition failures :: "fail_events \<Rightarrow> fail_key \<Rightarrow> seconds list" where
  "failures ev k = (case od_get ev k of None \<Rightarrow> [] | Some q \<Rightarrow> q)"

definition th_prune :: "throttle_limits \<Rightarrow> fail_key \<Rightarrow> seconds \<Rightarrow> fail_events \<Rightarrow> fail_events" where
  "th_prune l k now ev =
     (case od_get ev k of
        None \<Rightarrow> ev
      | Some q \<Rightarrow> if q = [] then ev else od_set k (drop_expired id (now - th_window l) q) ev)"

definition last_or_zero :: "seconds list \<Rightarrow> seconds" where
  "last_or_zero q = (if q = [] then 0 else last q)"

definition th_evict :: "throttle_limits \<Rightarrow> seconds \<Rightarrow> fail_events \<Rightarrow> fail_events" where
  "th_evict l now ev =
     (if length ev \<le> MAX_KEYS then ev
      else
        (let ev1 = filter (\<lambda>(k, q). \<not> (k \<noteq> GlobalKey \<and> (q = [] \<or> last q \<le> now - th_window l))) ev;
             excess = length ev1 - MAX_KEYS;
             oldest = sort_key (\<lambda>(k, q). last_or_zero q) (filter (\<lambda>(k, q). k \<noteq> GlobalKey) ev1)
         in if length ev1 \<le> MAX_KEYS then ev1
            else filter (\<lambda>(k, q). k \<notin> fst ` set (take excess oldest)) ev1))"

text \<open>\<^verbatim>\<open>check\<close> and \<^verbatim>\<open>check_transport_windows\<close>: \<open>True\<close> where \<^verbatim>\<open>ThrottledError\<close> is raised.\<close>

definition full :: "nat \<Rightarrow> fail_events \<Rightarrow> fail_key \<Rightarrow> bool" where
  "full n ev k \<longleftrightarrow> n \<le> length (failures ev k)"

definition check_transport :: "throttle_limits \<Rightarrow> string \<Rightarrow> seconds \<Rightarrow> fail_events \<Rightarrow> bool \<times> fail_events" where
  "check_transport l ip now ev =
     (let ev1 = th_prune l (IpKey ip) now (th_prune l GlobalKey now ev)
      in (full (th_max_global l) ev1 GlobalKey \<or> full (th_max_ip l) ev1 (IpKey ip), ev1))"

definition check_all :: "throttle_limits \<Rightarrow> string \<Rightarrow> string \<Rightarrow> seconds \<Rightarrow> fail_events \<Rightarrow> bool \<times> fail_events" where
  "check_all l ip user now ev =
     (let ev1 = th_prune l (UserKey user) now (th_prune l (IpKey ip) now (th_prune l GlobalKey now ev))
      in (full (th_max_global l) ev1 GlobalKey \<or> full (th_max_ip l) ev1 (IpKey ip)
            \<or> user \<noteq> [] \<and> full (th_max_user l) ev1 (UserKey user), ev1))"

definition add_failure :: "fail_key \<Rightarrow> seconds \<Rightarrow> fail_events \<Rightarrow> fail_events" where
  "add_failure k now ev = od_set k (failures ev k @ [now]) ev"

definition record_failure :: "throttle_limits \<Rightarrow> string \<Rightarrow> string \<Rightarrow> seconds \<Rightarrow> fail_events \<Rightarrow> fail_events" where
  "record_failure l ip user now ev =
     (let ev1 = add_failure (IpKey ip) now (add_failure GlobalKey now ev);
          ev2 = (if user \<noteq> [] then add_failure (UserKey user) now ev1 else ev1)
      in th_evict l now ev2)"

definition record_login :: "string \<Rightarrow> fail_events \<Rightarrow> fail_events" where
  "record_login user ev = (if user \<noteq> [] then od_del (UserKey user) ev else ev)"

section \<open>The login handler\<close>

text \<open>
  The handler runs in two pieces with the hashing of the password between them, during which other
  requests run: the windows of the transport before it, and the rest after it.
\<close>

datatype login_result = Throttled | Unauthorized | LoggedIn

definition login_before :: "throttle_limits \<Rightarrow> string \<Rightarrow> seconds \<Rightarrow> fail_events \<Rightarrow> bool \<times> fail_events" where
  "login_before l ip now ev = check_transport l ip now ev"

definition login_after :: "throttle_limits \<Rightarrow> string \<Rightarrow> string \<Rightarrow> bool \<Rightarrow> seconds \<Rightarrow> fail_events \<Rightarrow> login_result \<times> fail_events" where
  "login_after l ip user verified now ev =
     (if verified then (LoggedIn, record_login user ev)
      else
        (let (stop, ev1) = check_all l ip user now ev
         in if stop then (Throttled, ev1) else (Unauthorized, record_failure l ip user now ev1)))"

definition login :: "throttle_limits \<Rightarrow> string \<Rightarrow> string \<Rightarrow> bool \<Rightarrow> seconds \<Rightarrow> seconds \<Rightarrow> fail_events \<Rightarrow> login_result \<times> fail_events" where
  "login l ip user verified now later ev =
     (let (stop, ev1) = login_before l ip now ev
      in if stop then (Throttled, ev1) else login_after l ip user verified later ev1)"

section \<open>Keys\<close>

lemma prune_failures:
  "failures (th_prune l k now ev) k' = (if k' = k then drop_expired id (now - th_window l) (failures ev k) else failures ev k')"
  by (auto simp: th_prune_def failures_def drop_expired_def split: option.splits)

lemma prune_wf [simp]: "od_wf ev \<Longrightarrow> od_wf (th_prune l k now ev)"
  by (simp add: th_prune_def split: option.splits)

lemma add_failures: "failures (add_failure k now ev) k' = (if k' = k then failures ev k @ [now] else failures ev k')"
  by (auto simp: add_failure_def failures_def)

lemma add_wf [simp]: "od_wf ev \<Longrightarrow> od_wf (add_failure k now ev)"
  by (simp add: add_failure_def)

lemma filter_wf: "od_wf ev \<Longrightarrow> od_wf (filter P ev)"
  by (simp add: od_wf_def od_keys_def distinct_map_filter)

lemma evict_wf [simp]: "od_wf ev \<Longrightarrow> od_wf (th_evict l now ev)"
  by (simp add: th_evict_def Let_def filter_wf)

lemma filter_out_length:
  assumes "od_wf ev" and "set ks \<subseteq> set ev" "distinct ks"
  shows "length (filter (\<lambda>(k, q). k \<notin> fst ` set ks) ev) = length ev - length ks"
proof -
  have inj: "inj_on fst (set ev)" and d: "distinct ev" using assms(1) by (auto simp: od_wf_def od_keys_def distinct_map)
  have "(fst e \<in> fst ` set ks) = (e \<in> set ks)" if "e \<in> set ev" for e
    using that assms(2) inj by (auto simp: inj_on_def)
  then have "filter (\<lambda>(k, q). k \<notin> fst ` set ks) ev = filter (\<lambda>e. e \<notin> set ks) ev"
    unfolding case_prod_beta by (intro filter_cong) auto
  then have "length (filter (\<lambda>(k, q). k \<notin> fst ` set ks) ev) = card (set ev - set ks)"
    using d by (metis distinct_card distinct_filter set_diff_eq set_filter)
  then show ?thesis using assms(2,3) d by (simp add: card_Diff_subset distinct_card)
qed

lemma one_of_a_kind: "od_wf d \<Longrightarrow> length (filter (\<lambda>e. fst e = g) d) \<le> 1"
  by (induction d) (force simp: od_wf_def od_keys_def filter_empty_conv)+

lemma others: "od_wf d \<Longrightarrow> length d - 1 \<le> length (filter (\<lambda>(k, q). k \<noteq> g) d)"
  using one_of_a_kind[of d g] sum_length_filter_compl[of "\<lambda>e. fst e = g" d] unfolding case_prod_beta by linarith

lemma evict_bound:
  assumes "od_wf ev"
  shows "length (th_evict l now ev) \<le> MAX_KEYS"
proof -
  let ?ev1 = "filter (\<lambda>(k, q). \<not> (k \<noteq> GlobalKey \<and> (q = [] \<or> last q \<le> now - th_window l))) ev"
  let ?old = "sort_key (\<lambda>(k, q). last_or_zero q) (filter (\<lambda>(k, q). k \<noteq> GlobalKey) ?ev1)"
  let ?n = "length ?ev1 - MAX_KEYS"
  have wf: "od_wf ?ev1" using assms by (rule filter_wf)
  have "distinct ?ev1" using wf by (auto simp: od_wf_def od_keys_def distinct_map)
  then have d: "distinct ?old" unfolding distinct_sort by (rule distinct_filter)
  have "length ?ev1 - 1 \<le> length ?old" using others[OF wf, of GlobalKey] by (simp only: length_sort)
  then have "?n \<le> length ?old" unfolding MAX_KEYS_def by linarith
  then have "length (filter (\<lambda>(k, q). k \<notin> fst ` set (take ?n ?old)) ?ev1) = length ?ev1 - ?n"
    by (subst filter_out_length[OF wf]) (use d in \<open>auto dest: in_set_takeD\<close>)
  then show ?thesis by (auto simp: th_evict_def Let_def)
qed


section \<open>Runs\<close>

text \<open>
  One piece of a login: the part before the hash, or the part after it, of any request. A failure that
  is answered as such is an event.
\<close>

inductive login_step :: "seconds \<Rightarrow> fail_events \<Rightarrow> seconds option \<Rightarrow> fail_events \<Rightarrow> bool" for now ev where
  before: "login_before default_limits ip now ev = (stop, ev') \<Longrightarrow> login_step now ev None ev'"
| fails: "login_after default_limits ip user verified now ev = (Unauthorized, ev') \<Longrightarrow> login_step now ev (Some now) ev'"
| ends: "login_after default_limits ip user verified now ev = (r, ev') \<Longrightarrow> r \<noteq> Unauthorized \<Longrightarrow> login_step now ev None ev'"

lemma od_set_length: "od_get d k = Some v \<Longrightarrow> length (od_set k w d) = length d"
  by (induction d) (auto simp: od_set_def split: if_splits)

lemma prune_length [simp]: "length (th_prune l k now ev) = length ev"
  by (simp add: th_prune_def od_set_length split: option.split)

lemma check_parts:
  assumes "check_all l ip user now ev = (stop, ev')" and "od_wf ev"
  shows "od_wf ev'" "length ev' = length ev" "failures ev' GlobalKey = drop_expired id (now - th_window l) (failures ev GlobalKey)"
    and "\<not> stop \<Longrightarrow> length (failures ev' GlobalKey) < th_max_global l"
  using assms by (auto simp: check_all_def Let_def prune_failures full_def)

lemma transport_parts:
  assumes "check_transport l ip now ev = (stop, ev')" and "od_wf ev"
  shows "od_wf ev'" "length ev' = length ev" "failures ev' GlobalKey = drop_expired id (now - th_window l) (failures ev GlobalKey)"
  using assms by (auto simp: check_transport_def Let_def prune_failures)

lemma filter_keeps_global:
  "(\<And>q. P (GlobalKey, q)) \<Longrightarrow> failures (filter P ev) GlobalKey = failures ev GlobalKey"
  by (induction ev) (auto simp: failures_def)

lemma evict_global [simp]: "failures (th_evict l now ev) GlobalKey = failures ev GlobalKey"
proof -
  let ?ev1 = "filter (\<lambda>(k, q). \<not> (k \<noteq> GlobalKey \<and> (q = [] \<or> last q \<le> now - th_window l))) ev"
  have 1: "failures ?ev1 GlobalKey = failures ev GlobalKey" by (rule filter_keeps_global) simp
  have 2: "failures (filter (\<lambda>(k, q). k \<notin> fst ` set (take n (sort_key f (filter (\<lambda>(k, q). k \<noteq> GlobalKey) xs)))) xs) GlobalKey
      = failures xs GlobalKey" for n and f :: "fail_key \<times> seconds list \<Rightarrow> rat" and xs
    by (rule filter_keeps_global) (auto dest!: in_set_takeD)
  show ?thesis unfolding th_evict_def Let_def by (simp only: 1 2 simp_thms split: if_split)
qed

lemma record_parts:
  assumes "od_wf ev"
  shows "od_wf (record_failure l ip user now ev)" "length (record_failure l ip user now ev) \<le> MAX_KEYS"
    and "failures (record_failure l ip user now ev) GlobalKey = failures ev GlobalKey @ [now]"
  using assms evict_bound by (simp_all add: record_failure_def Let_def add_failures)

lemma login_record_parts [simp]:
  "od_wf ev \<Longrightarrow> od_wf (record_login user ev)" "length (record_login user ev) \<le> length ev"
  "failures (record_login user ev) GlobalKey = failures ev GlobalKey"
  by (simp_all add: record_login_def length_od_del_le failures_def)

lemma login_step_wf:
  assumes "login_step now ev e ev'" "od_wf ev" "length ev \<le> MAX_KEYS"
  shows "od_wf ev' \<and> length ev' \<le> MAX_KEYS"
  using assms(1)
proof cases
  case (before ip stop)
  then show ?thesis using assms(2,3) transport_parts unfolding login_before_def by metis
next
  case (fails ip user verified)
  then show ?thesis using assms(2,3) check_parts record_parts
    by (auto simp: login_after_def Let_def split: prod.splits if_splits)
next
  case (ends ip user verified r)
  then show ?thesis using assms(2,3) check_parts(1,2) order_trans[OF login_record_parts(2) assms(3)]
    by (auto simp: login_after_def Let_def split: prod.splits if_splits)
qed

lemma login_run_wf: "timed_run login_step [] t ev hist \<Longrightarrow> od_wf ev \<and> length ev \<le> MAX_KEYS"
  by (induction rule: timed_run.induct) (use login_step_wf in \<open>auto simp: MAX_KEYS_def\<close>)

text \<open>However many user names and addresses an attacker makes up, the throttle never holds more than
  4096 keys, and never two entries for one key.\<close>

theorem throttle_keys_bounded:
  assumes "timed_run login_step [] t ev hist"
  shows "od_wf ev \<and> length ev \<le> MAX_KEYS"
  using assms by (rule login_run_wf)

theorem throttle_keys_bounded_witness:
  "length (record_failure default_limits ''1.2.3.4'' ''bob'' 5 []) \<le> MAX_KEYS"
proof -
  have "login_step 5 [] (Some 5) (record_failure default_limits ''1.2.3.4'' ''bob'' 5 [])"
    by (rule login_step.fails[where ip = "''1.2.3.4''" and user = "''bob''" and verified = False])
      (simp add: login_after_def check_all_def th_prune_def full_def failures_def default_limits_def)
  then have "timed_run login_step [] 5 (record_failure default_limits ''1.2.3.4'' ''bob'' 5 []) [5]"
    by (intro timed_run.event[OF timed_run.start order_refl])
  from throttle_keys_bounded[OF this] show ?thesis by blast
qed


interpretation attempts: rate_limiter id "th_window default_limits" "\<lambda>_. 1" "int (th_max_global default_limits)"
  "\<lambda>ev. failures ev GlobalKey" "\<lambda>now ev e ev'. od_wf ev \<and> login_step now ev e ev'"
proof
  fix now ev ev' assume q: "sorted (map id (failures ev GlobalKey))" and s: "od_wf ev \<and> login_step now ev None ev'"
  have wf: "od_wf ev" using s by simp
  note f = drop_expired_sorted[OF q]
  from s have "login_step now ev None ev'" by simp
  then show "failures ev' GlobalKey = failures ev GlobalKey
      \<or> failures ev' GlobalKey = filter (\<lambda>e. now - th_window default_limits < id e) (failures ev GlobalKey)"
  proof cases
    case (before ip stop)
    then show ?thesis using transport_parts(3)[OF _ wf] f unfolding login_before_def by metis
  next
    case (ends ip user verified r)
    then show ?thesis using check_parts(3)[OF _ wf] f
      by (auto simp: login_after_def Let_def split: prod.splits if_splits)
  qed
next
  fix now ev e ev' assume q: "sorted (map id (failures ev GlobalKey))" and s: "od_wf ev \<and> login_step now ev (Some e) ev'"
  have wf: "od_wf ev" using s by simp
  note f = drop_expired_sorted[OF q]
  from s have "login_step now ev (Some e) ev'" by simp
  then show "id e = now \<and> failures ev' GlobalKey = filter (\<lambda>x. now - th_window default_limits < id x) (failures ev GlobalKey) @ [e]
      \<and> weigh (\<lambda>_. 1) (filter (\<lambda>x. now - th_window default_limits < id x) (failures ev GlobalKey)) + 1 \<le> int (th_max_global default_limits)"
  proof cases
    case (fails ip user verified)
    obtain stop ev1 where c: "check_all default_limits ip user now ev = (stop, ev1)" by fastforce
    with fails have "\<not> stop" "ev' = record_failure default_limits ip user now ev1"
      by (auto simp: login_after_def split: if_splits)
    then show ?thesis using fails check_parts[OF c wf] record_parts(3)[of ev1 default_limits ip user now] f
      by (simp add: weigh_one)
  qed
qed (simp_all add: default_limits_def)

text \<open>C21. No more than 40 wrong passwords are answered as such in any minute, whatever addresses and user
  names they come from and however the requests interleave.\<close>

theorem answered_failures_bounded:
  assumes "timed_run login_step [] t ev hist"
  shows "length (in_window id 60 t' hist) \<le> 40"
proof -
  have "timed_run (\<lambda>now ev e ev'. od_wf ev \<and> login_step now ev e ev') [] t ev hist"
    using assms
  proof induction
    case (quiet t s hist t' s')
    show ?case by (rule timed_run.quiet[OF quiet.IH quiet.hyps(2)]) (use login_run_wf[OF quiet.hyps(1)] quiet.hyps(3) in simp)
  next
    case (event t s hist t' e s')
    show ?case by (rule timed_run.event[OF event.IH event.hyps(2)]) (use login_run_wf[OF event.hyps(1)] event.hyps(3) in simp)
  qed (rule timed_run.start)
  from attempts.window_bounded[OF this, of t'] show ?thesis
    by (simp add: weigh_one default_limits_def failures_def)
qed

theorem answered_failures_bounded_witness:
  "length (in_window id 60 7 [5]) \<le> 40"
proof -
  have "login_step 5 [] (Some 5) (record_failure default_limits ''1.2.3.4'' ''bob'' 5 [])"
    by (rule login_step.fails[where ip = "''1.2.3.4''" and user = "''bob''" and verified = False])
      (simp add: login_after_def check_all_def th_prune_def full_def failures_def default_limits_def)
  then have "timed_run login_step [] 5 (record_failure default_limits ''1.2.3.4'' ''bob'' 5 []) [5]"
    by (intro timed_run.event[OF timed_run.start order_refl])
  from answered_failures_bounded[OF this, of 7] show ?thesis .
qed

section \<open>Guessing one password\<close>

text \<open>Guesses for one user from one address, one after the other at one moment.\<close>

fun guesses :: "string \<Rightarrow> string \<Rightarrow> seconds \<Rightarrow> bool list \<Rightarrow> fail_events \<Rightarrow> login_result list" where
  "guesses ip user t [] ev = []"
| "guesses ip user t (right # rest) ev =
     (let (r, ev') = login default_limits ip user right t t ev in r # guesses ip user t rest ev')"

definition guessed :: "string \<Rightarrow> string \<Rightarrow> seconds \<Rightarrow> nat \<Rightarrow> fail_events" where
  "guessed ip user t n =
     (if n = 0 then [] else [(GlobalKey, replicate n t), (IpKey ip, replicate n t), (UserKey user, replicate n t)])"

lemma guessed_failures:
  "user \<noteq> [] \<Longrightarrow> failures (guessed ip user t n) k = (if k \<in> {GlobalKey, IpKey ip, UserKey user} then replicate n t else [])"
  by (auto simp: guessed_def failures_def)

lemma guessed_prune: "th_prune default_limits k t (guessed ip user t n) = guessed ip user t n"
  by (auto simp: guessed_def th_prune_def drop_expired_def default_limits_def od_set_def)

lemma guessed_record:
  assumes "user \<noteq> []"
  shows "record_failure default_limits ip user t (guessed ip user t n) = guessed ip user t (Suc n)"
  using assms
  by (auto simp: record_failure_def guessed_def add_failure_def failures_def od_set_def th_evict_def MAX_KEYS_def
      replicate_append_same)

lemma guess_step:
  assumes "user \<noteq> []" "n \<le> 5"
  shows "login default_limits ip user right t t (guessed ip user t n)
    = (if right then (LoggedIn, record_login user (guessed ip user t n))
       else if n = 5 then (Throttled, guessed ip user t 5) else (Unauthorized, guessed ip user t (Suc n)))"
  using assms
  by (simp add: login_def login_before_def check_transport_def guessed_prune full_def guessed_failures login_after_def check_all_def
      guessed_record default_limits_def[THEN arg_cong[where f = th_max_ip]] default_limits_def[THEN arg_cong[where f = th_max_global]]
      default_limits_def[THEN arg_cong[where f = th_max_user]])

lemma guess_run:
  assumes "user \<noteq> []" "n \<le> 5"
  shows "last (guesses ip user t (replicate k False @ [True]) (guessed ip user t n)) = LoggedIn"
  using assms(2)
proof (induction k arbitrary: n)
  case 0
  then show ?case using guess_step[OF assms(1) 0, of ip True] by simp
next
  case (Suc k)
  have ne: "guesses ip user t (replicate k False @ [True]) ev \<noteq> []" for ev by (cases k) (simp_all add: split_beta Let_def)
  show ?case using Suc.IH[of "Suc n"] Suc.IH[of 5] Suc.prems guess_step[OF assms(1) Suc.prems, of ip False t] ne
    by (auto split: if_splits)
qed

text \<open>The throttle does not limit the number of passwords an attacker can try for one user: after the
  fifth wrong one the answers change to a refusal, but refused guesses are still checked and no
  longer counted, so the address is never stopped, and the right password, after any number of wrong
  ones within the same minute, logs in.\<close>

theorem one_user_guesses_unlimited:
  assumes "user \<noteq> []"
  shows "last (guesses ip user t (replicate k False @ [True]) []) = LoggedIn"
  using guess_run[OF assms, of 0] by (simp add: guessed_def)

theorem one_user_guesses_unlimited_witness:
  "last (guesses ''1.2.3.4'' ''bob'' 5 (replicate 100000 False @ [True]) []) = LoggedIn"
  by (rule one_user_guesses_unlimited) simp

end
