(* ===== verification/Accounts.thy ===== *)
theory Accounts
  imports ProviderBase
begin

text \<open>
  The accounts of the administration: \<^verbatim>\<open>UserRepository\<close> in \<^verbatim>\<open>src/db/repo.py\<close>, the roles
  (\<^verbatim>\<open>src/auth/rbac.py\<close>), the signed session cookie (\<^verbatim>\<open>src/auth/session.py\<close>), the user store and the
  password hashes (\<^verbatim>\<open>src/auth/users.py\<close>), the start-up (\<^verbatim>\<open>src/auth/bootstrap.py\<close>), the check of a
  session (\<^verbatim>\<open>principal_from_request\<close> in \<^verbatim>\<open>src/api/deps.py\<close>) and the handlers that change accounts
  (\<^verbatim>\<open>src/api/admin_users.py\<close>, \<^verbatim>\<open>activate.py\<close>, \<^verbatim>\<open>admin_auth.py\<close>). The handlers run between two awaits,
  so each piece of one is a step. Parameters: the keyed hash (\<open>mac\<close>), base64 with JSON
  (\<open>enc\<close>, \<open>dec\<close>), the password hash (\<open>kdf\<close>) and base64 of bytes (\<open>b64\<close>, \<open>unb64\<close>). Audit rows and log
  lines are left out.
\<close>

section \<open>The table\<close>

record user_row =
  ur_name :: string
  ur_hash :: string
  ur_role :: string
  ur_enabled :: bool
  ur_must_change :: bool
  ur_epoch :: int
  ur_activation :: "string option"
  ur_activation_expires :: "epoch option"
  ur_created :: epoch
  ur_updated :: epoch
  ur_created_by :: "string option"
  ur_models :: string
  ur_quota :: string

type_synonym users = "user_row list"

definition usr_get :: "string \<Rightarrow> users \<Rightarrow> user_row option" where
  "usr_get u db = List.find (\<lambda>r. ur_name r = u) db"

text \<open>An \<^verbatim>\<open>UPDATE\<close> of one user; the flag is \<^verbatim>\<open>rowcount > 0\<close>.\<close>

definition usr_update :: "string \<Rightarrow> (user_row \<Rightarrow> user_row) \<Rightarrow> users \<Rightarrow> bool \<times> users" where
  "usr_update u f db = (list_ex (\<lambda>r. ur_name r = u) db, map (\<lambda>r. if ur_name r = u then f r else r) db)"

definition usr_new :: "string \<Rightarrow> string \<Rightarrow> string \<Rightarrow> bool \<Rightarrow> bool \<Rightarrow> string option \<Rightarrow> string option \<Rightarrow> epoch option \<Rightarrow> epoch \<Rightarrow> user_row" where
  "usr_new u hash role enabled must creator digest expires now =
     \<lparr>ur_name = u, ur_hash = hash, ur_role = role, ur_enabled = enabled, ur_must_change = must, ur_epoch = 0,
      ur_activation = digest, ur_activation_expires = expires, ur_created = now, ur_updated = now, ur_created_by = creator,
      ur_models = [], ur_quota = []\<rparr>"

text \<open>The name is the primary key: a second insert raises (\<open>None\<close>).\<close>

definition usr_create :: "user_row \<Rightarrow> users \<Rightarrow> users option" where
  "usr_create r db = (if usr_get (ur_name r) db = None then Some (db @ [r]) else None)"

definition usr_upsert_imported :: "string \<Rightarrow> string \<Rightarrow> epoch \<Rightarrow> users \<Rightarrow> bool \<times> users" where
  "usr_upsert_imported u hash now db =
     (if usr_get u db \<noteq> None then (False, db)
      else (True, db @ [usr_new u hash ''viewer'' True False None None None now]))"

definition usr_update_role :: "string \<Rightarrow> string \<Rightarrow> bool \<Rightarrow> epoch \<Rightarrow> users \<Rightarrow> bool \<times> users" where
  "usr_update_role u role bump now =
     usr_update u (\<lambda>r. r\<lparr>ur_role := role, ur_epoch := ur_epoch r + (if bump then 1 else 0), ur_updated := now\<rparr>)"

definition usr_set_enabled :: "string \<Rightarrow> bool \<Rightarrow> epoch \<Rightarrow> users \<Rightarrow> bool \<times> users" where
  "usr_set_enabled u enabled now =
     usr_update u (\<lambda>r. r\<lparr>ur_enabled := enabled, ur_epoch := ur_epoch r + 1, ur_updated := now\<rparr>)"

definition usr_set_password :: "string \<Rightarrow> string \<Rightarrow> bool \<Rightarrow> epoch \<Rightarrow> users \<Rightarrow> bool \<times> users" where
  "usr_set_password u hash must now =
     usr_update u (\<lambda>r. r\<lparr>ur_hash := hash, ur_must_change := must, ur_epoch := ur_epoch r + 1, ur_activation := None,
       ur_activation_expires := None, ur_updated := now\<rparr>)"

definition usr_set_activation :: "string \<Rightarrow> string \<Rightarrow> epoch \<Rightarrow> epoch \<Rightarrow> users \<Rightarrow> bool \<times> users" where
  "usr_set_activation u digest expires now =
     usr_update u (\<lambda>r. r\<lparr>ur_activation := Some digest, ur_activation_expires := Some expires, ur_updated := now\<rparr>)"

definition usr_set_policy :: "string \<Rightarrow> string \<Rightarrow> string \<Rightarrow> epoch \<Rightarrow> users \<Rightarrow> bool \<times> users" where
  "usr_set_policy u models quota now = usr_update u (\<lambda>r. r\<lparr>ur_models := models, ur_quota := quota, ur_updated := now\<rparr>)"

definition usr_find_activation :: "string \<Rightarrow> users \<Rightarrow> user_row option" where
  "usr_find_activation digest db = List.find (\<lambda>r. ur_activation r = Some digest) db"

definition usr_delete :: "string \<Rightarrow> users \<Rightarrow> bool \<times> users" where
  "usr_delete u db = (list_ex (\<lambda>r. ur_name r = u) db, filter (\<lambda>r. ur_name r \<noteq> u) db)"

definition active_admin :: "user_row \<Rightarrow> bool" where
  "active_admin r \<longleftrightarrow> ur_role r = ''admin'' \<and> ur_enabled r"

definition usr_count_admins :: "users \<Rightarrow> nat" where
  "usr_count_admins db = length (filter active_admin db)"

definition usr_count_pending :: "users \<Rightarrow> nat" where
  "usr_count_pending db = length (filter (\<lambda>r. ur_activation r \<noteq> None) db)"

section \<open>Roles\<close>

definition ROLES :: "string list" where
  "ROLES = [''admin'', ''operator'', ''viewer'']"

record principal =
  pr_name :: string
  pr_admin :: bool
  pr_role :: string

text \<open>\<^verbatim>\<open>Principal(...)\<close> with its \<^verbatim>\<open>__post_init__\<close>.\<close>

definition mk_principal :: "string \<Rightarrow> bool \<Rightarrow> string \<Rightarrow> principal" where
  "mk_principal u admin role =
     (if role = [] \<and> admin then \<lparr>pr_name = u, pr_admin = True, pr_role = ''admin''\<rparr>
      else if role \<noteq> [] \<and> \<not> admin then \<lparr>pr_name = u, pr_admin = (role = ''admin''), pr_role = role\<rparr>
      else \<lparr>pr_name = u, pr_admin = admin, pr_role = role\<rparr>)"

definition is_operator :: "principal \<Rightarrow> bool" where
  "is_operator p \<longleftrightarrow> pr_admin p \<or> pr_role p = ''operator''"

definition require_admin :: "principal \<Rightarrow> bool" where
  "require_admin p \<longleftrightarrow> pr_admin p"

definition require_operator :: "principal \<Rightarrow> bool" where
  "require_operator p \<longleftrightarrow> is_operator p"

section \<open>Session cookies\<close>

definition session_payload :: "string \<Rightarrow> int \<Rightarrow> int \<Rightarrow> int \<Rightarrow> jobject" where
  "session_payload u ep issued ttl =
     [(''ep'', JInt ep), (''exp'', JInt (issued + ttl)), (''iat'', JInt issued), (''u'', JStr u)]"

definition create_session_token :: "(string \<Rightarrow> string \<Rightarrow> string) \<Rightarrow> (jobject \<Rightarrow> string) \<Rightarrow> string \<Rightarrow> string \<Rightarrow> int \<Rightarrow> int \<Rightarrow> int \<Rightarrow> string" where
  "create_session_token mac enc u secret ep issued ttl =
     (let body = enc (session_payload u ep issued ttl) in body @ ''.'' @ mac body secret)"

definition is_ascii :: "string \<Rightarrow> bool" where
  "is_ascii s \<longleftrightarrow> list_all (\<lambda>c. of_char c < (128 :: nat)) s"

text \<open>The fields of a payload whose signature is right.\<close>

definition session_fields :: "json \<Rightarrow> int \<Rightarrow> (string \<times> int \<times> int option) option" where
  "session_fields payload now =
     (case payload of
        JObj d \<Rightarrow>
          (case jget d ''u'' of
             JStr u \<Rightarrow> if u = [] then None else
               (case jget d ''exp'' of
                  JInt expires \<Rightarrow> if expires < now then None else
                    (case (case od_get d ''ep'' of None \<Rightarrow> JInt 0 | Some v \<Rightarrow> v) of
                       JInt ep \<Rightarrow> if ep < 0 then None else
                         (case jget d ''iat'' of
                            JNull \<Rightarrow> Some (u, ep, None)
                          | JInt iat \<Rightarrow> if iat < 0 then None else Some (u, ep, Some iat)
                          | _ \<Rightarrow> None)
                     | _ \<Rightarrow> None)
                | _ \<Rightarrow> None)
           | _ \<Rightarrow> None)
      | _ \<Rightarrow> None)"

definition verify_session_token :: "(string \<Rightarrow> string \<Rightarrow> string) \<Rightarrow> (string \<Rightarrow> json option) \<Rightarrow> string \<Rightarrow> string \<Rightarrow> int
    \<Rightarrow> (string \<times> int \<times> int option) option" where
  "verify_session_token mac dec token secret now =
     (if token = [] \<or> CHR ''.'' \<notin> set token then None
      else
        (let (body, _, signature) = py_partition (CHR ''.'') token
         in if \<not> is_ascii body \<or> \<not> is_ascii signature \<or> mac body secret \<noteq> signature then None
            else (case dec body of None \<Rightarrow> None | Some payload \<Rightarrow> session_fields payload now)))"

definition SESSION_CLOCK_SLACK_SECONDS :: int where
  "SESSION_CLOCK_SLACK_SECONDS = 60"

definition usr_session_valid :: "string \<Rightarrow> int \<Rightarrow> int option \<Rightarrow> users \<Rightarrow> bool" where
  "usr_session_valid u ep issued db =
     (case usr_get u db of
        None \<Rightarrow> False
      | Some r \<Rightarrow> ur_enabled r \<and> ur_epoch r = ep
          \<and> (case issued of None \<Rightarrow> True | Some iat \<Rightarrow> iat \<ge> ur_created r - SESSION_CLOCK_SLACK_SECONDS))"

definition usr_role_of :: "string \<Rightarrow> users \<Rightarrow> string option" where
  "usr_role_of u db = map_option ur_role (usr_get u db)"

definition usr_must_change :: "string \<Rightarrow> users \<Rightarrow> bool" where
  "usr_must_change u db = (case usr_get u db of None \<Rightarrow> False | Some r \<Rightarrow> ur_must_change r)"

definition PASSWORD_CHANGE_ALLOWLIST :: "(string \<times> string) list" where
  "PASSWORD_CHANGE_ALLOWLIST =
     [(''GET'', ''/api/auth/session''), (''POST'', ''/api/auth/password''), (''POST'', ''/api/auth/logout'')]"

datatype session_result = NoSession | ChangeRequired | Signed principal

definition principal_from_request :: "(string \<Rightarrow> string \<Rightarrow> string) \<Rightarrow> (string \<Rightarrow> json option) \<Rightarrow> string \<Rightarrow> string \<Rightarrow> int
    \<Rightarrow> string \<times> string \<Rightarrow> users \<Rightarrow> session_result" where
  "principal_from_request mac dec token secret now route db =
     (case verify_session_token mac dec token secret now of
        None \<Rightarrow> NoSession
      | Some (u, ep, issued) \<Rightarrow>
          if \<not> usr_session_valid u ep issued db then NoSession
          else
            (let role = usr_role_of u db
             in if usr_must_change u db \<and> route \<notin> set PASSWORD_CHANGE_ALLOWLIST then ChangeRequired
                else Signed (mk_principal u (role = Some ''admin'') (case role of None \<Rightarrow> [] | Some x \<Rightarrow> x))))"

section \<open>Handlers\<close>

datatype admin_error = Forbidden | InvalidUser | LastAdmin | SelfTarget

type_synonym handler = "users \<Rightarrow> (admin_error + unit) \<times> users"

definition ACTIVATION_TTL_SECONDS :: int where
  "ACTIVATION_TTL_SECONDS = 24 * 3600"

definition would_lock_out :: "string \<Rightarrow> users \<Rightarrow> bool" where
  "would_lock_out u db =
     (case usr_get u db of None \<Rightarrow> False | Some r \<Rightarrow> active_admin r \<and> usr_count_admins db \<le> 1)"

definition h_create_user :: "principal \<Rightarrow> string \<Rightarrow> string \<Rightarrow> string \<Rightarrow> string \<Rightarrow> epoch \<Rightarrow> handler" where
  "h_create_user p raw role hash digest now db =
     (let u = py_strip raw
      in if \<not> require_admin p then (Inl Forbidden, db)
         else if u = [] \<or> role \<notin> set ROLES \<or> usr_get u db \<noteq> None then (Inl InvalidUser, db)
         else (Inr (), db @ [usr_new u hash role True False (Some (pr_name p)) (Some digest) (Some (now + ACTIVATION_TTL_SECONDS)) now]))"

definition h_update_user :: "principal \<Rightarrow> string \<Rightarrow> string \<Rightarrow> epoch \<Rightarrow> handler" where
  "h_update_user p u role now db =
     (if \<not> require_admin p then (Inl Forbidden, db)
      else if role \<notin> set ROLES \<or> usr_get u db = None then (Inl InvalidUser, db)
      else if role \<noteq> ''admin'' \<and> would_lock_out u db then (Inl LastAdmin, db)
      else if pr_name p = u then (Inl SelfTarget, db)
      else (Inr (), snd (usr_update_role u role True now db)))"

definition h_disable_user :: "principal \<Rightarrow> string \<Rightarrow> epoch \<Rightarrow> handler" where
  "h_disable_user p u now db =
     (if \<not> require_admin p then (Inl Forbidden, db)
      else if usr_get u db = None then (Inl InvalidUser, db)
      else if would_lock_out u db then (Inl LastAdmin, db)
      else if pr_name p = u then (Inl SelfTarget, db)
      else (Inr (), snd (usr_set_enabled u False now db)))"

definition h_enable_user :: "principal \<Rightarrow> string \<Rightarrow> epoch \<Rightarrow> handler" where
  "h_enable_user p u now db =
     (if \<not> require_admin p then (Inl Forbidden, db)
      else if usr_get u db = None then (Inl InvalidUser, db)
      else (Inr (), snd (usr_set_enabled u True now db)))"

definition h_reset_password :: "principal \<Rightarrow> string \<Rightarrow> string \<Rightarrow> string \<Rightarrow> epoch \<Rightarrow> handler" where
  "h_reset_password p u hash digest now db =
     (if \<not> require_admin p then (Inl Forbidden, db)
      else if usr_get u db = None then (Inl InvalidUser, db)
      else (Inr (), snd (usr_set_activation u digest (now + ACTIVATION_TTL_SECONDS) now (snd (usr_set_password u hash True now db)))))"

definition h_set_policy :: "principal \<Rightarrow> string \<Rightarrow> string option \<Rightarrow> string option \<Rightarrow> epoch \<Rightarrow> handler" where
  "h_set_policy p u models quota now db =
     (if \<not> require_admin p then (Inl Forbidden, db)
      else if usr_get u db = None then (Inl InvalidUser, db)
      else case (models, quota) of
             (Some m, Some q) \<Rightarrow> (Inr (), snd (usr_set_policy u m q now db))
           | _ \<Rightarrow> (Inl InvalidUser, db))"

definition MIN_PASSWORD_LENGTH :: nat where
  "MIN_PASSWORD_LENGTH = 8"

definition lookup_activation :: "string \<Rightarrow> int \<Rightarrow> users \<Rightarrow> user_row option" where
  "lookup_activation digest now db =
     (case usr_find_activation digest db of
        None \<Rightarrow> None
      | Some r \<Rightarrow> (case ur_activation_expires r of None \<Rightarrow> None | Some t \<Rightarrow> if t < now then None else Some r))"

definition h_activate :: "(string \<Rightarrow> string) \<Rightarrow> (string \<Rightarrow> string) \<Rightarrow> string \<Rightarrow> string \<Rightarrow> epoch \<Rightarrow> handler" where
  "h_activate sha hash token password now db =
     (if length password < MIN_PASSWORD_LENGTH \<or> token = [] then (Inl InvalidUser, db)
      else case lookup_activation (sha token) now db of
             None \<Rightarrow> (Inl InvalidUser, db)
           | Some r \<Rightarrow> (Inr (), snd (usr_set_password (ur_name r) (hash password) False now db)))"

text \<open>The last piece of \<^verbatim>\<open>change_password\<close>, after the old password has been verified and the new one hashed.\<close>

definition h_change_password :: "principal \<Rightarrow> string \<Rightarrow> epoch \<Rightarrow> handler" where
  "h_change_password p hash now db = (Inr (), snd (usr_set_password (pr_name p) hash False now db))"

text \<open>The last piece of the login and of the password change: a cookie for the epoch of this moment.\<close>

definition issue_session :: "(string \<Rightarrow> string \<Rightarrow> string) \<Rightarrow> (jobject \<Rightarrow> string) \<Rightarrow> string \<Rightarrow> string \<Rightarrow> int \<Rightarrow> users \<Rightarrow> string" where
  "issue_session mac enc u secret now db =
     create_session_token mac enc u secret (case usr_get u db of None \<Rightarrow> 0 | Some r \<Rightarrow> ur_epoch r) now (12 * 3600)"

section \<open>Updates\<close>

lemma get_update:
  assumes "\<And>r. ur_name (f r) = ur_name r"
  shows "usr_get v (snd (usr_update u f db)) = (if v = u then map_option f (usr_get u db) else usr_get v db)"
  by (induction db) (auto simp: usr_get_def usr_update_def assms)

lemma get_Some: "usr_get u db = Some r \<Longrightarrow> r \<in> set db \<and> ur_name r = u"
  by (auto simp: usr_get_def find_Some_iff)

lemma get_snoc: "usr_get u (db @ [r]) = (case usr_get u db of Some x \<Rightarrow> Some x | None \<Rightarrow> if ur_name r = u then Some r else None)"
  by (induction db) (auto simp: usr_get_def split: option.splits)

lemma names_update: "(\<And>r. ur_name (f r) = ur_name r) \<Longrightarrow> map ur_name (snd (usr_update u f db)) = map ur_name db"
  by (simp add: usr_update_def)

lemma count_snoc: "usr_count_admins (db @ [r]) = usr_count_admins db + (if active_admin r then 1 else 0)"
  by (simp add: usr_count_admins_def)

lemma count_update:
  assumes "distinct (map ur_name db)" "usr_get u db = Some r"
  shows "usr_count_admins (snd (usr_update u f db)) + (if active_admin r then 1 else 0)
    = usr_count_admins db + (if active_admin (f r) then 1 else 0)"
  using assms
proof (induction db)
  case (Cons x db)
  show ?case
  proof (cases "ur_name x = u")
    case True
    then have "map (\<lambda>r. if ur_name r = u then f r else r) db = db" using Cons.prems(1) by (intro map_idI) (auto simp: image_iff)
    with True Cons.prems show ?thesis by (auto simp: usr_update_def usr_get_def usr_count_admins_def)
  next
    case False
    with Cons show ?thesis by (auto simp: usr_update_def usr_get_def usr_count_admins_def)
  qed
qed (simp add: usr_get_def)

lemma count_positive: "usr_get u db = Some r \<Longrightarrow> active_admin r \<Longrightarrow> 0 < usr_count_admins db"
  using get_Some[of u db r] by (auto simp: usr_count_admins_def filter_empty_conv)

lemma names_new: "usr_get u db = None \<Longrightarrow> u \<notin> set (map ur_name db)"
  by (auto simp: usr_get_def find_None_iff)

lemmas users_ops = usr_update_role_def usr_set_enabled_def usr_set_password_def usr_set_activation_def usr_set_policy_def
lemmas handlers = h_create_user_def h_update_user_def h_disable_user_def h_enable_user_def h_reset_password_def h_set_policy_def
  h_activate_def h_change_password_def

section \<open>Runs of the administration\<close>

text \<open>
  A step is one handler, called with any principal and any input. Deleting an account is not among
  them: only an operator's command line tool does it.
\<close>

inductive acct_step :: "users \<Rightarrow> users \<Rightarrow> bool" where
  creates: "h_create_user p raw role hash digest now db = (r, db') \<Longrightarrow> acct_step db db'"
| updates: "h_update_user p u role now db = (r, db') \<Longrightarrow> acct_step db db'"
| disables: "h_disable_user p u now db = (r, db') \<Longrightarrow> acct_step db db'"
| enables: "h_enable_user p u now db = (r, db') \<Longrightarrow> acct_step db db'"
| resets: "h_reset_password p u hash digest now db = (r, db') \<Longrightarrow> acct_step db db'"
| policies: "h_set_policy p u models quota now db = (r, db') \<Longrightarrow> acct_step db db'"
| activates: "h_activate sha hashes token password now db = (r, db') \<Longrightarrow> acct_step db db'"
| changes: "h_change_password p hash now db = (r, db') \<Longrightarrow> acct_step db db'"

inductive acct_run :: "users \<Rightarrow> users \<Rightarrow> bool" for db where
  acct_none: "acct_run db db"
| acct_more: "acct_run db db1 \<Longrightarrow> acct_step db1 db2 \<Longrightarrow> acct_run db db2"

text \<open>What every step does to the table: it leaves it alone, appends one fresh account, or updates one
  account in a way that keeps its name and does not lower its epoch.\<close>

definition tame :: "(user_row \<Rightarrow> user_row) \<Rightarrow> bool" where
  "tame f \<longleftrightarrow> (\<forall>r. ur_name (f r) = ur_name r \<and> ur_epoch r \<le> ur_epoch (f r))"

lemma update_twice: "(\<And>r. ur_name (f r) = ur_name r) \<Longrightarrow> snd (usr_update u g (snd (usr_update u f db))) = snd (usr_update u (g \<circ> f) db)"
  by (auto simp: usr_update_def)

lemma acct_step_shape:
  assumes "acct_step db db'"
  shows "db' = db \<or> (\<exists>r. usr_get (ur_name r) db = None \<and> db' = db @ [r])
    \<or> (\<exists>u f r. tame f \<and> usr_get u db = Some r \<and> db' = snd (usr_update u f db)
         \<and> (active_admin r \<and> \<not> active_admin (f r) \<longrightarrow> 1 < usr_count_admins db))"
  using assms
proof cases
  case (creates p raw role hash digest now r)
  then show ?thesis by (auto simp: h_create_user_def usr_new_def Let_def split: if_splits)
next
  case (updates p u role now r)
  then show ?thesis
    by (fastforce simp: h_update_user_def would_lock_out_def usr_update_role_def tame_def active_admin_def split: if_splits option.splits)
next
  case (disables p u now r)
  then show ?thesis
    by (fastforce simp: h_disable_user_def would_lock_out_def usr_set_enabled_def tame_def active_admin_def split: if_splits option.splits)
next
  case (enables p u now r)
  then show ?thesis by (fastforce simp: h_enable_user_def usr_set_enabled_def tame_def active_admin_def split: if_splits)
next
  case (resets p u hash digest now r)
  then show ?thesis
    by (fastforce simp: h_reset_password_def usr_set_password_def usr_set_activation_def update_twice tame_def active_admin_def split: if_splits)
next
  case (policies p u models quota now r)
  then show ?thesis by (fastforce simp: h_set_policy_def usr_set_policy_def tame_def active_admin_def split: if_splits option.splits)
next
  case (activates sha hashes token password now r)
  then show ?thesis
  proof (cases "length password < MIN_PASSWORD_LENGTH \<or> token = [] \<or> lookup_activation (sha token) now db = None")
    case False
    then obtain x where x: "lookup_activation (sha token) now db = Some x" by auto
    then have "x \<in> set db" by (auto simp: lookup_activation_def usr_find_activation_def find_Some_iff split: option.splits if_splits)
    then have "usr_get (ur_name x) db \<noteq> None" by (auto simp: usr_get_def find_None_iff)
    then obtain y where "usr_get (ur_name x) db = Some y" by auto
    moreover have "db' = snd (usr_set_password (ur_name x) (hashes password) False now db)"
      using activates x False by (auto simp: h_activate_def)
    ultimately show ?thesis by (fastforce simp: usr_set_password_def tame_def active_admin_def)
  qed (use activates in \<open>auto simp: h_activate_def split: if_splits\<close>)
next
  case (changes p hash now r)
  then show ?thesis
  proof (cases "usr_get (pr_name p) db")
    case None
    then have "db' = db" using changes names_new[OF None]
      by (auto simp: h_change_password_def usr_set_password_def usr_update_def image_iff intro!: map_idI)
    then show ?thesis by simp
  next
    case (Some y)
    then show ?thesis using changes by (fastforce simp: h_change_password_def usr_set_password_def tame_def active_admin_def)
  qed
qed

lemma acct_step_inv:
  assumes "acct_step db db'" "distinct (map ur_name db)" "0 < usr_count_admins db"
  shows "distinct (map ur_name db') \<and> 0 < usr_count_admins db'"
  using acct_step_shape[OF assms(1)]
proof (elim disjE exE conjE)
  fix r assume "usr_get (ur_name r) db = None" "db' = db @ [r]"
  then show ?thesis using assms(2,3) names_new[of "ur_name r" db] by (simp add: count_snoc)
next
  fix u f r assume f: "tame f" "usr_get u db = Some r" "db' = snd (usr_update u f db)"
    "active_admin r \<and> \<not> active_admin (f r) \<longrightarrow> 1 < usr_count_admins db"
  have "map ur_name db' = map ur_name db" using f(1) by (auto simp: f(3) tame_def intro!: names_update)
  moreover have "0 < usr_count_admins db'" using count_update[OF assms(2) f(2), of f] f(4) assms(3) unfolding f(3)[symmetric]
    by (auto split: if_splits)
  ultimately show ?thesis using assms(2) by metis
qed (use assms in simp)

text \<open>C22. Whatever the administrators do through the interface, in any order, there is always an active
  administrator left, and no two accounts share a name.\<close>

theorem last_admin_is_kept:
  assumes "acct_run db db'" and "distinct (map ur_name db)" and "0 < usr_count_admins db"
  shows "0 < usr_count_admins db' \<and> distinct (map ur_name db')"
  using assms(1) by induction (use assms(2,3) acct_step_inv in blast)+

definition sample_admin :: "string \<Rightarrow> user_row" where
  "sample_admin u = (usr_new u ''h'' ''admin'' True False None None None 100)"

theorem last_admin_is_kept_witness:
  "0 < usr_count_admins (snd (h_disable_user (mk_principal ''ann'' True []) ''bob'' 200 [sample_admin ''ann'', sample_admin ''bob'']))"
proof -
  have "acct_run [sample_admin ''ann'', sample_admin ''bob''] (snd (h_disable_user (mk_principal ''ann'' True []) ''bob'' 200 [sample_admin ''ann'', sample_admin ''bob'']))"
    by (rule acct_more[OF acct_none disables], rule prod.collapse[symmetric])
  from last_admin_is_kept[OF this] show ?thesis by (simp add: sample_admin_def usr_new_def usr_count_admins_def active_admin_def)
qed

section \<open>Revocation\<close>

lemma epoch_run:
  assumes "acct_run db db'" and "usr_get u db = Some r"
  shows "\<exists>r'. usr_get u db' = Some r' \<and> ur_epoch r \<le> ur_epoch r'"
  using assms
proof induction
  case (acct_more db1 db2)
  then obtain r1 where r1: "usr_get u db1 = Some r1" "ur_epoch r \<le> ur_epoch r1" by blast
  from acct_step_shape[OF acct_more.hyps(2)] show ?case
  proof (elim disjE exE conjE)
    fix v f x assume "tame f" "db2 = snd (usr_update v f db1)"
    then have "usr_get u db2 = Some (if u = v then f r1 else r1)" using r1 get_update[of f u v db1] by (auto simp: tame_def)
    then show ?thesis using r1 \<open>tame f\<close> by (auto simp: tame_def intro: order_trans)
  qed (use r1 in \<open>auto simp: get_snoc\<close>)
qed auto

text \<open>The successful changes that are meant to end the sessions of an account.\<close>

inductive revokes :: "string \<Rightarrow> users \<Rightarrow> users \<Rightarrow> bool" for u db db' where
  role_changed: "h_update_user p u role now db = (Inr (), db') \<Longrightarrow> revokes u db db'"
| disabled: "h_disable_user p u now db = (Inr (), db') \<Longrightarrow> revokes u db db'"
| reset: "h_reset_password p u hash digest now db = (Inr (), db') \<Longrightarrow> revokes u db db'"
| changed: "pr_name p = u \<Longrightarrow> h_change_password p hash now db = (Inr (), db') \<Longrightarrow> revokes u db db'"

lemma revokes_epoch:
  assumes "revokes u db db'" "usr_get u db = Some r"
  shows "\<exists>r'. usr_get u db' = Some r' \<and> ur_epoch r' = ur_epoch r + 1"
  using assms(1)
  by cases (use assms(2) in \<open>auto simp: handlers users_ops get_update split: if_splits\<close>)

text \<open>C24. Once the role of an account was changed, the account disabled or its password set, no cookie issued
  before is accepted again, whatever happens to the accounts afterwards.\<close>

theorem revoked_sessions_stay_out:
  assumes "usr_get u db = Some r" and "revokes u db db1" and "acct_run db1 db2"
    and "verify_session_token mac dec token secret now = Some (u, ep, issued)" and "ep \<le> ur_epoch r"
  shows "principal_from_request mac dec token secret now route db2 = NoSession"
proof -
  obtain r1 where r1: "usr_get u db1 = Some r1" "ur_epoch r1 = ur_epoch r + 1" using revokes_epoch[OF assms(2,1)] by blast
  obtain r2 where "usr_get u db2 = Some r2" "ur_epoch r1 \<le> ur_epoch r2" using epoch_run[OF assms(3) r1(1)] by blast
  with r1 assms(5) have "\<not> usr_session_valid u ep issued db2" by (simp add: usr_session_valid_def)
  with assms(4) show ?thesis by (simp add: principal_from_request_def)
qed


section \<open>Cookies\<close>

definition readable :: "(string \<Rightarrow> string \<Rightarrow> string) \<Rightarrow> (jobject \<Rightarrow> string) \<Rightarrow> (string \<Rightarrow> json option) \<Rightarrow> string \<Rightarrow> jobject \<Rightarrow> bool" where
  "readable mac enc dec secret d \<longleftrightarrow> dec (enc d) = Some (JObj d) \<and> CHR ''.'' \<notin> set (enc d) \<and> is_ascii (enc d)
     \<and> is_ascii (mac (enc d) secret)"

lemma session_fields_payload:
  assumes "u \<noteq> []" "0 \<le> ep" "0 \<le> issued" "now \<le> issued + ttl"
  shows "session_fields (JObj (session_payload u ep issued ttl)) now = Some (u, ep, Some issued)"
  using assms by (simp add: session_fields_def session_payload_def jget_def)

lemma verify_created:
  assumes "readable mac enc dec secret (session_payload u ep issued ttl)"
    and "u \<noteq> []" "0 \<le> ep" "0 \<le> issued" "now \<le> issued + ttl"
  shows "verify_session_token mac dec (create_session_token mac enc u secret ep issued ttl) secret now = Some (u, ep, Some issued)"
proof -
  let ?b = "enc (session_payload u ep issued ttl)"
  have "takeWhile (\<lambda>x. x \<noteq> CHR ''.'') (?b @ CHR ''.'' # mac ?b secret) = ?b"
    "dropWhile (\<lambda>x. x \<noteq> CHR ''.'') (?b @ CHR ''.'' # mac ?b secret) = CHR ''.'' # mac ?b secret"
    using assms(1) by (auto simp: readable_def takeWhile_append dropWhile_append3 dropWhile_append2)
  then show ?thesis using assms(1) session_fields_payload[OF assms(2-5)]
    by (simp add: verify_session_token_def create_session_token_def py_partition_def readable_def Let_def)
qed

lemma issued_accepted:
  assumes "usr_get u db = Some r" "ur_enabled r" "ur_created r \<le> issued + SESSION_CLOCK_SLACK_SECONDS" "\<not> ur_must_change r"
    and "u \<noteq> []" "0 \<le> ur_epoch r" "0 \<le> issued" "now \<le> issued + 12 * 3600"
    and "readable mac enc dec secret (session_payload u (ur_epoch r) issued (12 * 3600))"
  shows "principal_from_request mac dec (issue_session mac enc u secret issued db) secret now route db
    = Signed (mk_principal u (ur_role r = ''admin'') (ur_role r))"
  using verify_created[OF assms(9,5-8)] assms(1-4)
  by (simp add: principal_from_request_def issue_session_def usr_session_valid_def usr_role_of_def usr_must_change_def)

text \<open>C23. A cookie gives exactly the rights its account has in the table at the moment of the request - the
  role is never the one of the moment it was issued - and only while the account exists, is enabled
  and has the epoch of the cookie; and a fresh cookie is accepted.\<close>

theorem session_rights_are_current:
  assumes "principal_from_request mac dec token secret now route db = Signed p"
  shows "\<exists>r ep issued. usr_get (pr_name p) db = Some r \<and> ur_enabled r \<and> ur_epoch r = ep
    \<and> verify_session_token mac dec token secret now = Some (pr_name p, ep, issued)
    \<and> pr_admin p = (ur_role r = ''admin'') \<and> pr_role p = ur_role r
    \<and> (ur_must_change r \<longrightarrow> route \<in> set PASSWORD_CHANGE_ALLOWLIST)"
proof -
  obtain u ep issued where v: "verify_session_token mac dec token secret now = Some (u, ep, issued)"
    using assms by (auto simp: principal_from_request_def split: option.splits)
  with assms have s: "usr_session_valid u ep issued db" by (auto simp: principal_from_request_def split: if_splits)
  then obtain r where r: "usr_get u db = Some r" "ur_enabled r" "ur_epoch r = ep"
    by (auto simp: usr_session_valid_def split: option.splits)
  have "p = mk_principal u (ur_role r = ''admin'') (ur_role r) \<and> (ur_must_change r \<longrightarrow> route \<in> set PASSWORD_CHANGE_ALLOWLIST)"
    using assms v s r by (auto simp: principal_from_request_def usr_role_of_def usr_must_change_def Let_def split: if_splits)
  moreover have "pr_name (mk_principal u (ur_role r = ''admin'') (ur_role r)) = u \<and> pr_admin (mk_principal u (ur_role r = ''admin'') (ur_role r)) = (ur_role r = ''admin'')
      \<and> pr_role (mk_principal u (ur_role r = ''admin'') (ur_role r)) = ur_role r"
    by (auto simp: mk_principal_def)
  ultimately show ?thesis using r v by auto
qed

text \<open>A text codec that is right for one payload.\<close>

definition one_enc :: "jobject \<Rightarrow> string" where "one_enc d = ''abc''"
definition one_dec :: "string \<Rightarrow> jobject \<Rightarrow> string \<Rightarrow> json option" where "one_dec c d s = (if s = c then Some (JObj d) else None)"
definition one_mac :: "string \<Rightarrow> string \<Rightarrow> string" where "one_mac body secret = ''sig''"

lemma one_readable: "readable one_mac one_enc (one_dec ''abc'' d) secret d"
  by (simp add: readable_def one_enc_def one_dec_def one_mac_def is_ascii_def)

theorem session_rights_are_current_witness:
  "\<exists>r. usr_get ''ann'' [sample_admin ''ann''] = Some r \<and> ur_enabled r \<and> ur_role r = ''admin''"
proof -
  let ?d = "session_payload ''ann'' 0 1000 (12 * 3600)"
  have "usr_get ''ann'' [sample_admin ''ann''] = Some (sample_admin ''ann'')" by (simp add: usr_get_def sample_admin_def usr_new_def)
  from issued_accepted[OF this, of 1000 2000 one_mac one_enc "one_dec ''abc'' ?d" "''s''" "(''GET'', ''/'')"] one_readable[of ?d "''s''"]
  have "principal_from_request one_mac (one_dec ''abc'' ?d) (issue_session one_mac one_enc ''ann'' ''s'' 1000 [sample_admin ''ann'']) ''s'' 2000
      (''GET'', ''/'') [sample_admin ''ann''] = Signed (mk_principal ''ann'' True ''admin'')"
    by (simp add: sample_admin_def usr_new_def SESSION_CLOCK_SLACK_SECONDS_def)
  from session_rights_are_current[OF this] show ?thesis by (auto simp: mk_principal_def)
qed

theorem revoked_sessions_stay_out_witness:
  "principal_from_request one_mac (one_dec ''abc'' (session_payload ''bob'' 0 1000 (12 * 3600)))
     (create_session_token one_mac one_enc ''bob'' ''s'' 0 1000 (12 * 3600)) ''s'' 2000 (''GET'', ''/'')
     (snd (h_disable_user (mk_principal ''ann'' True []) ''bob'' 1500 [sample_admin ''ann'', sample_admin ''bob''])) = NoSession"
proof (rule revoked_sessions_stay_out)
  let ?db = "[sample_admin ''ann'', sample_admin ''bob'']"
  show "usr_get ''bob'' ?db = Some (sample_admin ''bob'')" by (simp add: usr_get_def sample_admin_def usr_new_def)
  have "h_disable_user (mk_principal ''ann'' True []) ''bob'' 1500 ?db = (Inr (), snd (h_disable_user (mk_principal ''ann'' True []) ''bob'' 1500 ?db))"
    by (simp add: h_disable_user_def mk_principal_def require_admin_def usr_get_def sample_admin_def usr_new_def would_lock_out_def
        active_admin_def usr_count_admins_def)
  then show "revokes ''bob'' ?db (snd (h_disable_user (mk_principal ''ann'' True []) ''bob'' 1500 ?db))" by (rule revokes.disabled)
  show "acct_run (snd (h_disable_user (mk_principal ''ann'' True []) ''bob'' 1500 ?db)) (snd (h_disable_user (mk_principal ''ann'' True []) ''bob'' 1500 ?db))"
    by (rule acct_none)
  show "verify_session_token one_mac (one_dec ''abc'' (session_payload ''bob'' 0 1000 (12 * 3600)))
     (create_session_token one_mac one_enc ''bob'' ''s'' 0 1000 (12 * 3600)) ''s'' 2000 = Some (''bob'', 0, Some 1000)"
    by (rule verify_created[OF one_readable]) simp_all
qed (simp add: sample_admin_def usr_new_def)

section \<open>Passwords\<close>

definition PBKDF2_MIN_ITERATIONS :: int where "PBKDF2_MIN_ITERATIONS = 600000"
definition PBKDF2_MAX_ITERATIONS :: int where "PBKDF2_MAX_ITERATIONS = 1000000"

text \<open>\<^verbatim>\<open>_parse_hash\<close>; the hash function \<open>kdf\<close> has the password, the salt and the iterations as arguments.\<close>

definition digits :: "string \<Rightarrow> bool" where
  "digits s \<longleftrightarrow> s \<noteq> [] \<and> list_all (\<lambda>c. CHR ''0'' \<le> c \<and> c \<le> CHR ''9'') s"

definition dec_value :: "string \<Rightarrow> int" where
  "dec_value s = foldl (\<lambda>n c. n * 10 + (of_char c - 48)) 0 s"

definition parse_hash :: "(string \<Rightarrow> 'b option) \<Rightarrow> string \<Rightarrow> (int \<times> 'b \<times> 'b) option" where
  "parse_hash unb64 h =
     (case py_split (CHR ''$'') h of
        [algorithm, iterations, salt, digest] \<Rightarrow>
          (if algorithm \<noteq> ''pbkdf2_sha256'' \<or> \<not> digits iterations
              \<or> \<not> (PBKDF2_MIN_ITERATIONS \<le> dec_value iterations \<and> dec_value iterations \<le> PBKDF2_MAX_ITERATIONS) then None
           else case (unb64 salt, unb64 digest) of
                  (Some s, Some d) \<Rightarrow> Some (dec_value iterations, s, d)
                | _ \<Rightarrow> None)
      | _ \<Rightarrow> None)"

definition verify_password :: "(string \<Rightarrow> 'b \<Rightarrow> int \<Rightarrow> 'b) \<Rightarrow> (string \<Rightarrow> 'b option) \<Rightarrow> string \<Rightarrow> string \<Rightarrow> bool" where
  "verify_password kdf unb64 password h =
     (case parse_hash unb64 h of None \<Rightarrow> False | Some (n, salt, expected) \<Rightarrow> kdf password salt n = expected)"

text \<open>A user who is missing or disabled is answered like a wrong password (after a hash of equal cost).\<close>

definition usr_verify :: "(string \<Rightarrow> 'b \<Rightarrow> int \<Rightarrow> 'b) \<Rightarrow> (string \<Rightarrow> 'b option) \<Rightarrow> string \<Rightarrow> string \<Rightarrow> users \<Rightarrow> bool" where
  "usr_verify kdf unb64 u password db =
     (case usr_get u db of None \<Rightarrow> False | Some r \<Rightarrow> ur_enabled r \<and> verify_password kdf unb64 password (ur_hash r))"

text \<open>The hashing of a login runs beside other requests, and the cookie is made for the epoch of the
  moment after it: a login with the old password that was checked just before the password was
  changed gets a cookie that the change does not end.\<close>

theorem old_password_outlives_change:
  assumes "usr_verify kdf unb64 u old db" and "usr_get u db = Some r"
    and "pr_name p = u" "h_change_password p hash now db = (ok, db1)" and "\<not> verify_password kdf unb64 old hash"
    and "ur_created r \<le> issued + SESSION_CLOCK_SLACK_SECONDS" "u \<noteq> []" "0 \<le> ur_epoch r" "0 \<le> issued" "later \<le> issued + 12 * 3600"
    and "readable mac enc dec secret (session_payload u (ur_epoch r + 1) issued (12 * 3600))"
  shows "\<not> usr_verify kdf unb64 u old db1
    \<and> principal_from_request mac dec (issue_session mac enc u secret issued db1) secret later route db1
        = Signed (mk_principal u (ur_role r = ''admin'') (ur_role r))"
proof -
  let ?r = "r\<lparr>ur_hash := hash, ur_must_change := False, ur_epoch := ur_epoch r + 1, ur_activation := None,
       ur_activation_expires := None, ur_updated := now\<rparr>"
  have g: "usr_get u db1 = Some ?r" using assms(2,3,4) by (auto simp: h_change_password_def usr_set_password_def get_update)
  have "ur_enabled r" using assms(1,2) by (simp add: usr_verify_def)
  with issued_accepted[OF g, of issued later mac enc dec secret route] assms(5-11) g show ?thesis
    by (simp add: usr_verify_def)
qed


definition pw_kdf :: "string \<Rightarrow> string \<Rightarrow> int \<Rightarrow> string" where "pw_kdf password salt n = password"

theorem old_password_outlives_change_witness:
  "usr_verify pw_kdf Some ''bob'' ''old'' [(sample_admin ''bob'')\<lparr>ur_hash := ''pbkdf2_sha256$600000$s$old''\<rparr>]
   \<and> \<not> usr_verify pw_kdf Some ''bob'' ''old'' (snd (h_change_password (mk_principal ''bob'' True []) ''pbkdf2_sha256$600000$s$new'' 900
        [(sample_admin ''bob'')\<lparr>ur_hash := ''pbkdf2_sha256$600000$s$old''\<rparr>]))"
proof -
  let ?db = "[(sample_admin ''bob'')\<lparr>ur_hash := ''pbkdf2_sha256$600000$s$old''\<rparr>]" and ?p = "mk_principal ''bob'' True []"
  have h: "verify_password pw_kdf Some ''old'' ''pbkdf2_sha256$600000$s$old''"
    "\<not> verify_password pw_kdf Some ''old'' ''pbkdf2_sha256$600000$s$new''"
    by (simp_all add: verify_password_def parse_hash_def digits_def dec_value_def PBKDF2_MIN_ITERATIONS_def PBKDF2_MAX_ITERATIONS_def pw_kdf_def)
  have v: "usr_verify pw_kdf Some ''bob'' ''old'' ?db" using h(1) by (simp add: usr_verify_def usr_get_def sample_admin_def usr_new_def)
  have g: "usr_get ''bob'' ?db = Some ((sample_admin ''bob'')\<lparr>ur_hash := ''pbkdf2_sha256$600000$s$old''\<rparr>)"
    by (simp add: usr_get_def sample_admin_def usr_new_def)
  have "\<not> usr_verify pw_kdf Some ''bob'' ''old'' (snd (h_change_password ?p ''pbkdf2_sha256$600000$s$new'' 900 ?db))"
    by (rule conjunct1[OF old_password_outlives_change[OF v g _ surjective_pairing h(2), where issued = 1000 and later = 2000 and mac = one_mac
          and enc = one_enc and dec = "one_dec ''abc'' (session_payload ''bob'' 1 1000 (12 * 3600))" and secret = "''s''"]])
      (simp_all add: mk_principal_def sample_admin_def usr_new_def SESSION_CLOCK_SLACK_SECONDS_def one_readable)
  with v show ?thesis by blast
qed

section \<open>Start-up\<close>

text \<open>\<^verbatim>\<open>users.txt\<close>: the lines of the file to its records, the last one winning; \<open>None\<close> is \<^verbatim>\<open>UsersFileError\<close>.\<close>

fun file_records :: "string list \<Rightarrow> (string, string) odict \<Rightarrow> (string, string) odict option" where
  "file_records [] acc = Some acc"
| "file_records (raw # rest) acc =
     (let line = py_strip raw
      in if line = [] \<or> py_startswith line ''#'' then file_records rest acc
         else if CHR '':'' \<notin> set line then None
         else (let (u, _, h) = py_partition (CHR '':'') line
               in if py_strip u = [] then None else file_records rest (od_set (py_strip u) (py_strip h) acc)))"

definition load_users_file :: "string list \<Rightarrow> (string, string) odict option" where
  "load_users_file lines = (case file_records lines [] of Some [] \<Rightarrow> None | r \<Rightarrow> r)"

fun import_into :: "epoch \<Rightarrow> (string, string) odict \<Rightarrow> users \<Rightarrow> users" where
  "import_into now [] db = db"
| "import_into now ((u, h) # rest) db = import_into now rest (snd (usr_upsert_imported u h now db))"

definition promote :: "epoch \<Rightarrow> string \<Rightarrow> users \<Rightarrow> users" where
  "promote now u db =
     (case usr_get u db of
        None \<Rightarrow> db
      | Some r \<Rightarrow> if ur_role r \<noteq> ''admin'' then snd (usr_update_role u ''admin'' False now db) else db)"

text \<open>\<^verbatim>\<open>bootstrap_users\<close>; the outer \<open>None\<close> is an error that stops the start.\<close>

definition bootstrap_users :: "string list option \<Rightarrow> string list \<Rightarrow> epoch \<Rightarrow> users \<Rightarrow> users option" where
  "bootstrap_users file admins now db =
     (case (case file of None \<Rightarrow> Some db | Some lines \<Rightarrow> map_option (\<lambda>records. import_into now records db) (load_users_file lines)) of
        None \<Rightarrow> None
      | Some db1 \<Rightarrow>
          (let db2 = (if usr_count_admins db1 > 0 then db1 else fold (promote now) (sort (remdups admins)) db1)
           in if db2 = [] \<or> usr_count_admins db2 = 0 then None else Some db2))"

lemma import_keeps: "usr_get u db = Some r \<Longrightarrow> usr_get u (import_into now records db) = Some r"
  by (induction now records db rule: import_into.induct) (auto simp: usr_upsert_imported_def get_snoc)

lemma import_fresh:
  "usr_get u db = None \<Longrightarrow> usr_get u (import_into now records db)
     = (case od_get records u of None \<Rightarrow> None | Some h \<Rightarrow> Some (usr_new u h ''viewer'' True False None None None now))"
proof (induction now records db rule: import_into.induct)
  case (2 now v h rest db)
  show ?case
  proof (cases "v = u")
    case True
    then have "usr_get u (snd (usr_upsert_imported v h now db)) = Some (usr_new u h ''viewer'' True False None None None now)"
      using 2(2) by (simp add: usr_upsert_imported_def get_snoc usr_new_def)
    then show ?thesis using True by (simp add: import_keeps)
  next
    case False
    then have "usr_get u (snd (usr_upsert_imported v h now db)) = None"
      using 2(2) by (simp add: usr_upsert_imported_def get_snoc usr_new_def)
    with 2 False show ?thesis by simp
  qed
qed simp

lemma import_count: "usr_count_admins db \<le> usr_count_admins (import_into now records db)"
  by (induction now records db rule: import_into.induct)
    (auto simp: usr_upsert_imported_def count_snoc active_admin_def usr_new_def split: if_splits)

text \<open>A start that succeeds leaves an active administrator; while there already is one, nobody's role
  changes and no account is replaced: the environment cannot undo what the administrators decided.\<close>

theorem bootstrap_respects_accounts:
  assumes "bootstrap_users file admins now db = Some db'"
  shows "0 < usr_count_admins db' \<and> (0 < usr_count_admins db \<and> usr_get u db = Some r \<longrightarrow> usr_get u db' = Some r)"
proof -
  obtain db1 where db1: "(case file of None \<Rightarrow> Some db | Some lines \<Rightarrow> map_option (\<lambda>records. import_into now records db) (load_users_file lines)) = Some db1"
    using assms by (auto simp: bootstrap_users_def split: option.splits)
  then have "usr_count_admins db \<le> usr_count_admins db1" "usr_get u db = Some r \<longrightarrow> usr_get u db1 = Some r"
    using import_count import_keeps by (auto split: option.splits)
  with assms db1 show ?thesis by (auto simp: bootstrap_users_def Let_def split: if_splits)
qed

theorem bootstrap_respects_accounts_witness:
  "\<exists>db'. bootstrap_users (Some [''bob:h'']) [''bob''] 500 [sample_admin ''ann''] = Some db' \<and> 0 < usr_count_admins db'"
proof -
  have "load_users_file [''bob:h''] = Some [(''bob'', ''h'')]" by code_simp
  then have b: "bootstrap_users (Some [''bob:h'']) [''bob''] 500 [sample_admin ''ann'']
      = Some [sample_admin ''ann'', usr_new ''bob'' ''h'' ''viewer'' True False None None None 500]"
    by (simp add: bootstrap_users_def usr_upsert_imported_def usr_get_def sample_admin_def usr_new_def usr_count_admins_def active_admin_def)
  from bootstrap_respects_accounts[OF this, of "''ann''" "sample_admin ''ann''"] b show ?thesis by blast
qed

text \<open>The user file is imported at every start, not only into an empty table: an account that was
  deleted comes back, enabled and with its old password, as long as its line is still in the file.\<close>

theorem deleted_account_returns:
  assumes "load_users_file lines = Some records" "od_get records u = Some h"
    and "bootstrap_users (Some lines) admins now (snd (usr_delete u db)) = Some db'" and "0 < usr_count_admins (snd (usr_delete u db))"
  shows "usr_get u db' = Some (usr_new u h ''viewer'' True False None None None now)"
proof -
  have n: "usr_get u (snd (usr_delete u db)) = None" by (simp add: usr_delete_def usr_get_def find_None_iff)
  have "0 < usr_count_admins (import_into now records (snd (usr_delete u db)))" using import_count assms(4) less_le_trans by blast
  then have "db' = import_into now records (snd (usr_delete u db))"
    using assms(1,3) by (auto simp: bootstrap_users_def Let_def split: if_splits)
  with import_fresh[OF n, of now records] assms(2) show ?thesis by simp
qed

theorem deleted_account_returns_witness:
  "usr_get ''bob'' (the (bootstrap_users (Some [''bob:h'']) [] 500 (snd (usr_delete ''bob'' [sample_admin ''ann'', sample_admin ''bob'']))))
     = Some (usr_new ''bob'' ''h'' ''viewer'' True False None None None 500)"
proof -
  have l: "load_users_file [''bob:h''] = Some [(''bob'', ''h'')]" by code_simp
  then have "\<exists>db'. bootstrap_users (Some [''bob:h'']) [] 500 (snd (usr_delete ''bob'' [sample_admin ''ann'', sample_admin ''bob''])) = Some db'"
    by (simp add: bootstrap_users_def usr_upsert_imported_def usr_get_def sample_admin_def usr_new_def usr_count_admins_def active_admin_def usr_delete_def)
  then obtain db' where b: "bootstrap_users (Some [''bob:h'']) [] 500 (snd (usr_delete ''bob'' [sample_admin ''ann'', sample_admin ''bob''])) = Some db'" by blast
  from deleted_account_returns[OF l _ b, of "''h''"] b show ?thesis
    by (simp add: usr_delete_def usr_count_admins_def sample_admin_def usr_new_def active_admin_def)
qed

section \<open>Activation\<close>

text \<open>An activation link works once: the same link is refused afterwards, whatever password comes with
  it, unless another account carries the same digest.\<close>

theorem activation_works_once:
  assumes "h_activate sha hash token password now db = (Inr (), db1)"
    and "\<And>r r'. r \<in> set db \<Longrightarrow> r' \<in> set db \<Longrightarrow> ur_activation r = Some (sha token) \<Longrightarrow> ur_activation r' = Some (sha token) \<Longrightarrow> ur_name r = ur_name r'"
  shows "fst (h_activate sha hash2 token password2 later db1) = Inl InvalidUser"
proof -
  obtain r where r: "lookup_activation (sha token) now db = Some r" "db1 = snd (usr_set_password (ur_name r) (hash password) False now db)"
    using assms(1) by (auto simp: h_activate_def split: if_splits option.splits)
  then have m: "r \<in> set db" "ur_activation r = Some (sha token)"
    by (auto simp: lookup_activation_def usr_find_activation_def find_Some_iff split: option.splits if_splits)
  have "usr_find_activation (sha token) db1 = None"
    unfolding usr_find_activation_def find_None_iff r(2) using assms(2)[OF _ m(1) _ m(2)] by (auto simp: usr_set_password_def usr_update_def)
  then show ?thesis by (simp add: h_activate_def lookup_activation_def)
qed

theorem activation_works_once_witness:
  "fst (h_activate id id ''tok'' ''password2'' 300 (snd (h_activate id id ''tok'' ''password1'' 200 [(sample_admin ''bob'')\<lparr>ur_activation := Some ''tok'', ur_activation_expires := Some 900\<rparr>])))
     = Inl InvalidUser"
proof (rule activation_works_once)
  show "h_activate id id ''tok'' ''password1'' 200 [(sample_admin ''bob'')\<lparr>ur_activation := Some ''tok'', ur_activation_expires := Some 900\<rparr>]
    = (Inr (), snd (h_activate id id ''tok'' ''password1'' 200 [(sample_admin ''bob'')\<lparr>ur_activation := Some ''tok'', ur_activation_expires := Some 900\<rparr>]))"
    by (simp add: h_activate_def MIN_PASSWORD_LENGTH_def lookup_activation_def usr_find_activation_def)
qed simp

end
