(* ===== verification/ChatRequest.thy ===== *)
theory ChatRequest
  imports PyNum
begin

text \<open>
  \<^verbatim>\<open>src/compat/openai/request.py\<close>: what the gateway checks of a chat request before it forwards
  it. A request body is a JSON value; \<open>Inl\<close> is the exception a check ends with, the 400 of the
  module or the \<open>OverflowError\<close> of a conversion to a double. Message texts of the errors are left
  out. Strings are the ones of \<open>json\<close>.
\<close>

section \<open>Checks\<close>

datatype req_fault = InvalidRequest | OverflowError

definition MAX_TEMPERATURE :: rat where "MAX_TEMPERATURE = 1000"
definition MAX_OUTPUT_TOKENS :: int where "MAX_OUTPUT_TOKENS = 4000000"
definition MAX_PENALTY_ABS :: rat where "MAX_PENALTY_ABS = 2"
definition MAX_CHOICES :: int where "MAX_CHOICES = 1"
definition SAMPLING_PENALTY_KEYS :: "string list" where
  "SAMPLING_PENALTY_KEYS = [''presence_penalty'', ''frequency_penalty'']"

definition require_finite_number :: "json \<Rightarrow> req_fault + rat" where
  "require_finite_number v =
     (case v of
        JInt n \<Rightarrow> (if \<bar>n\<bar> \<ge> FLOAT_OVERFLOW then Inl OverflowError else Inr (py_float n))
      | JFloat r \<Rightarrow> Inr r
      | _ \<Rightarrow> Inl InvalidRequest)"

definition require_positive_int :: "json \<Rightarrow> int \<Rightarrow> req_fault + int" where
  "require_positive_int v maximum =
     (case v of
        JInt n \<Rightarrow> (if n \<le> 0 \<or> n > maximum then Inl InvalidRequest else Inr n)
      | _ \<Rightarrow> Inl InvalidRequest)"

definition validate_n :: "jobject \<Rightarrow> req_fault + unit" where
  "validate_n d =
     (case od_get d ''n'' of None \<Rightarrow> Inr () | Some v \<Rightarrow> ensure (v = JInt MAX_CHOICES) InvalidRequest)"

text \<open>\<^verbatim>\<open>if key in raw: raw[key] = check(raw[key])\<close>, once per key.\<close>

definition normalize_key :: "(json \<Rightarrow> req_fault + json) \<Rightarrow> string \<Rightarrow> jobject \<Rightarrow> req_fault + jobject" where
  "normalize_key check key d =
     (case od_get d key of None \<Rightarrow> Inr d | Some v \<Rightarrow> try_bind (check v) (\<lambda>w. Inr (od_set key w d)))"

primrec normalize_keys :: "(string \<times> (json \<Rightarrow> req_fault + json)) list \<Rightarrow> jobject \<Rightarrow> req_fault + jobject" where
  "normalize_keys [] d = Inr d"
| "normalize_keys (c # cs) d = try_bind (normalize_key (snd c) (fst c) d) (normalize_keys cs)"

definition checked_temperature :: "json \<Rightarrow> req_fault + json" where
  "checked_temperature v =
     try_bind (require_finite_number v) (\<lambda>r. if r > MAX_TEMPERATURE then Inl InvalidRequest else Inr (JFloat r))"

definition checked_float :: "json \<Rightarrow> req_fault + json" where
  "checked_float v = try_bind (require_finite_number v) (\<lambda>r. Inr (JFloat r))"

definition checked_penalty :: "json \<Rightarrow> req_fault + json" where
  "checked_penalty v =
     try_bind (require_finite_number v) (\<lambda>r. if \<bar>r\<bar> > MAX_PENALTY_ABS then Inl InvalidRequest else Inr (JFloat r))"

definition checked_seed :: "json \<Rightarrow> req_fault + json" where
  "checked_seed v =
     (case v of
        JInt n \<Rightarrow> (if \<bar>n\<bar> \<ge> FLOAT_OVERFLOW then Inl OverflowError else Inr (JInt n))
      | JFloat r \<Rightarrow> Inr (JInt (py_trunc r))
      | _ \<Rightarrow> Inl InvalidRequest)"

definition NUMERIC_CHECKS :: "(string \<times> (json \<Rightarrow> req_fault + json)) list" where
  "NUMERIC_CHECKS =
     [(''temperature'', checked_temperature), (''top_p'', checked_float)]
     @ map (\<lambda>k. (k, checked_penalty)) SAMPLING_PENALTY_KEYS @ [(''seed'', checked_seed)]"

definition validate_bias :: "jobject \<Rightarrow> req_fault + unit" where
  "validate_bias d =
     (case od_get d ''logit_bias'' of
        None \<Rightarrow> Inr ()
      | Some (JObj bias) \<Rightarrow> try_bind (try_map (\<lambda>(_, v). require_finite_number v) bias) (\<lambda>_. Inr ())
      | Some _ \<Rightarrow> Inl InvalidRequest)"

definition validate_numeric_fields :: "jobject \<Rightarrow> req_fault + jobject" where
  "validate_numeric_fields d =
     try_bind (normalize_keys NUMERIC_CHECKS d) (\<lambda>d1.
     try_bind (validate_n d1) (\<lambda>_.
     try_bind (validate_bias d1) (\<lambda>_. Inr d1)))"

text \<open>The parts of a list that are images must name their address.\<close>

definition image_url_ok :: "json \<Rightarrow> bool" where
  "image_url_ok part =
     (case part of
        JObj p \<Rightarrow>
          jget p ''type'' \<noteq> JStr ''image_url''
          \<or> (case jget p ''image_url'' of
                JObj img \<Rightarrow> (case jget img ''url'' of JStr u \<Rightarrow> u \<noteq> [] | _ \<Rightarrow> False)
              | _ \<Rightarrow> False)
      | _ \<Rightarrow> True)"

definition parts_ok :: "json \<Rightarrow> bool" where
  "parts_ok message =
     (case message of
        JObj m \<Rightarrow> (case jget m ''content'' of JList parts \<Rightarrow> list_all image_url_ok parts | _ \<Rightarrow> True)
      | _ \<Rightarrow> True)"

definition validate_content_parts :: "json list \<Rightarrow> req_fault + unit" where
  "validate_content_parts messages = ensure (list_all parts_ok messages) InvalidRequest"

definition opt_field :: "string \<Rightarrow> json option \<Rightarrow> jobject" where
  "opt_field k v = (case v of None \<Rightarrow> [] | Some w \<Rightarrow> [(k, w)])"

definition j_string :: "json \<Rightarrow> string option" where
  "j_string v = (case v of JStr s \<Rightarrow> Some s | _ \<Rightarrow> None)"

definition j_bool :: "json \<Rightarrow> bool option" where
  "j_bool v = (case v of JBool b \<Rightarrow> Some b | _ \<Rightarrow> None)"

definition normalize_schema :: "jobject \<Rightarrow> req_fault + jobject" where
  "normalize_schema schema =
     (case jget schema ''name'' of
        JStr name \<Rightarrow>
          if name = [] then Inl InvalidRequest
          else (case od_get schema ''schema'' of
                  None \<Rightarrow> Inl InvalidRequest
                | Some s \<Rightarrow>
                    Inr ([(''name'', JStr name), (''schema'', s)]
                         @ opt_field ''description'' (map_option JStr (j_string (jget schema ''description'')))
                         @ opt_field ''strict'' (map_option JBool (j_bool (jget schema ''strict'')))))
      | _ \<Rightarrow> Inl InvalidRequest)"

definition normalize_response_format :: "json \<Rightarrow> req_fault + json" where
  "normalize_response_format v =
     (case v of
        JObj d \<Rightarrow>
          if jget d ''type'' \<in> {JStr ''text'', JStr ''json_object''} then Inr (JObj [(''type'', jget d ''type'')])
          else if jget d ''type'' \<noteq> JStr ''json_schema'' then Inl InvalidRequest
          else (case jget d ''json_schema'' of
                  JObj schema \<Rightarrow>
                    try_bind (normalize_schema schema)
                      (\<lambda>n. Inr (JObj [(''type'', JStr ''json_schema''), (''json_schema'', JObj n)]))
                | _ \<Rightarrow> Inl InvalidRequest)
      | _ \<Rightarrow> Inl InvalidRequest)"

section \<open>The request\<close>

record chat_request =
  rq_model :: string
  rq_messages :: "json list"
  rq_stream :: bool
  rq_raw :: jobject

definition message_ok :: "json \<Rightarrow> bool" where
  "message_ok m = (case m of JObj d \<Rightarrow> (case jget d ''role'' of JStr _ \<Rightarrow> True | _ \<Rightarrow> False) | _ \<Rightarrow> False)"

definition message_list :: "jobject \<Rightarrow> req_fault + json list" where
  "message_list d =
     (case jget d ''messages'' of JList ms \<Rightarrow> (if ms = [] then Inl InvalidRequest else Inr ms) | _ \<Rightarrow> Inl InvalidRequest)"

definition model_field :: "jobject \<Rightarrow> req_fault + string" where
  "model_field d = (case jget d ''model'' of JNull \<Rightarrow> Inr [] | JStr m \<Rightarrow> Inr m | _ \<Rightarrow> Inl InvalidRequest)"

definition stream_field :: "jobject \<Rightarrow> req_fault + bool" where
  "stream_field d =
     (case od_get d ''stream'' of None \<Rightarrow> Inr False | Some (JBool b) \<Rightarrow> Inr b | Some _ \<Rightarrow> Inl InvalidRequest)"

definition output_limit_ok :: "jobject \<Rightarrow> string \<Rightarrow> req_fault + unit" where
  "output_limit_ok d key =
     (case jget d key of JNull \<Rightarrow> Inr () | v \<Rightarrow> try_bind (require_positive_int v MAX_OUTPUT_TOKENS) (\<lambda>_. Inr ()))"

definition response_format_field :: "jobject \<Rightarrow> req_fault + jobject" where
  "response_format_field d =
     (case jget d ''response_format'' of
        JNull \<Rightarrow> Inr d
      | v \<Rightarrow> try_bind (normalize_response_format v) (\<lambda>w. Inr (od_set ''response_format'' w d)))"

definition parse_chat_request :: "json \<Rightarrow> req_fault + chat_request" where
  "parse_chat_request body =
     (case body of
        JObj d \<Rightarrow>
          try_bind (message_list d) (\<lambda>ms.
          try_bind (ensure (list_all message_ok ms) InvalidRequest) (\<lambda>_.
          try_bind (model_field d) (\<lambda>model.
          try_bind (stream_field d) (\<lambda>stream.
          try_bind (validate_numeric_fields d) (\<lambda>raw.
          try_bind (validate_content_parts ms) (\<lambda>_.
          try_bind (output_limit_ok raw ''max_tokens'') (\<lambda>_.
          try_bind (output_limit_ok raw ''max_completion_tokens'') (\<lambda>_.
          try_bind (response_format_field raw) (\<lambda>raw1.
            Inr \<lparr>rq_model = model, rq_messages = ms, rq_stream = stream, rq_raw = raw1\<rparr>)))))))))
      | _ \<Rightarrow> Inl InvalidRequest)"

section \<open>What is forwarded\<close>

lemma od_set_same: "od_get d k = Some v \<Longrightarrow> od_set k v d = d"
  by (induction d) (auto simp: od_set_def split: if_splits)

definition settled_key :: "(string \<times> (json \<Rightarrow> req_fault + json)) \<Rightarrow> jobject \<Rightarrow> bool" where
  "settled_key c d \<longleftrightarrow> (case od_get d (fst c) of None \<Rightarrow> True | Some v \<Rightarrow> snd c v = Inr v)"

lemma normalize_key_settled: "settled_key c d \<Longrightarrow> normalize_key (snd c) (fst c) d = Inr d"
  by (auto simp: settled_key_def normalize_key_def od_set_same split: option.splits)

lemma normalize_keys_settled: "\<forall>c \<in> set cs. settled_key c d \<Longrightarrow> normalize_keys cs d = Inr d"
  by (induction cs) (simp_all add: normalize_key_settled)

lemma normalize_key_other:
  "normalize_key check k d = Inr d' \<Longrightarrow> k' \<noteq> k \<Longrightarrow> od_get d' k' = od_get d k'"
  by (auto simp: normalize_key_def try_simps split: option.splits)

lemma normalize_keys_other:
  "normalize_keys cs d = Inr d' \<Longrightarrow> k' \<notin> fst ` set cs \<Longrightarrow> od_get d' k' = od_get d k'"
  by (induction cs arbitrary: d) (auto simp: try_simps normalize_key_other)

lemma normalize_key_settles:
  "normalize_key (snd c) (fst c) d = Inr d' \<Longrightarrow> (\<And>v w. od_get d (fst c) = Some v \<Longrightarrow> snd c v = Inr w \<Longrightarrow> snd c w = Inr w)
    \<Longrightarrow> settled_key c d'"
  by (auto simp: normalize_key_def settled_key_def try_simps split: option.splits)

lemma normalize_keys_settles:
  "normalize_keys cs d = Inr d' \<Longrightarrow> distinct (map fst cs)
    \<Longrightarrow> (\<And>c v w. c \<in> set cs \<Longrightarrow> od_get d (fst c) = Some v \<Longrightarrow> snd c v = Inr w \<Longrightarrow> snd c w = Inr w)
    \<Longrightarrow> \<forall>c \<in> set cs. settled_key c d'"
proof (induction cs arbitrary: d)
  case (Cons c cs)
  then obtain d1 where d1: "normalize_key (snd c) (fst c) d = Inr d1" "normalize_keys cs d1 = Inr d'"
    by (auto simp: try_simps)
  have "settled_key c d1" using normalize_key_settles[OF d1(1)] Cons.prems(3) by simp
  moreover have c: "fst c \<notin> fst ` set cs" using Cons.prems(2) by (metis distinct.simps(2) image_set list.simps(9))
  then have "od_get d' (fst c) = od_get d1 (fst c)" by (rule normalize_keys_other[OF d1(2)])
  ultimately have "settled_key c d'" by (simp add: settled_key_def)
  moreover have "od_get d1 (fst e) = od_get d (fst e)" if "e \<in> set cs" for e
    using normalize_key_other[OF d1(1)] c that by (metis imageI)
  then have "\<forall>c \<in> set cs. settled_key c d'" using Cons.prems(2,3) by (intro Cons.IH[OF d1(2)]) auto
  ultimately show ?case by simp
qed simp

text \<open>Every double is below the bound, so that its integer part is accepted again.\<close>

definition double_range :: "json \<Rightarrow> bool" where
  "double_range v = (case v of JFloat r \<Rightarrow> \<bar>r\<bar> < of_int FLOAT_OVERFLOW | _ \<Rightarrow> True)"

lemma py_trunc_le: "\<bar>r\<bar> < of_int n \<Longrightarrow> \<bar>py_trunc r\<bar> < n"
  unfolding py_trunc_def by (cases "r < 0") (simp_all, linarith+)

lemma seed_in_range [simp]: "\<bar>r\<bar> < of_int FLOAT_OVERFLOW \<Longrightarrow> (FLOAT_OVERFLOW \<le> \<bar>py_trunc r\<bar>) = False"
  by (simp add: not_le py_trunc_le)

lemma numeric_checks_keep:
  "c \<in> set NUMERIC_CHECKS \<Longrightarrow> double_range v \<Longrightarrow> snd c v = Inr w \<Longrightarrow> snd c w = Inr w"
  by (auto simp: NUMERIC_CHECKS_def SAMPLING_PENALTY_KEYS_def checked_temperature_def checked_float_def checked_penalty_def
      checked_seed_def require_finite_number_def try_simps double_range_def split: json.splits if_splits)

lemma numeric_checks_distinct: "distinct (map fst NUMERIC_CHECKS)"
  by (simp add: NUMERIC_CHECKS_def SAMPLING_PENALTY_KEYS_def)

definition numeric_ok :: "jobject \<Rightarrow> bool" where
  "numeric_ok d \<longleftrightarrow> (\<forall>c \<in> set NUMERIC_CHECKS. settled_key c d) \<and> validate_n d = Inr () \<and> validate_bias d = Inr ()"

lemma numeric_fields_settled: "numeric_ok d \<Longrightarrow> validate_numeric_fields d = Inr d"
  by (simp add: numeric_ok_def validate_numeric_fields_def normalize_keys_settled)

lemma numeric_fields_ok:
  assumes "validate_numeric_fields d = Inr d'" and "\<And>k v. od_get d k = Some v \<Longrightarrow> double_range v"
  shows "numeric_ok d'"
proof -
  have n: "normalize_keys NUMERIC_CHECKS d = Inr d'" "validate_n d' = Inr ()" "validate_bias d' = Inr ()"
    using assms(1) by (auto simp: validate_numeric_fields_def try_simps)
  have "\<forall>c \<in> set NUMERIC_CHECKS. settled_key c d'"
    by (rule normalize_keys_settles[OF n(1) numeric_checks_distinct]) (use assms(2) numeric_checks_keep in blast)
  with n show ?thesis by (simp add: numeric_ok_def)
qed

lemma numeric_fields_other:
  "validate_numeric_fields d = Inr d' \<Longrightarrow> k \<notin> fst ` set NUMERIC_CHECKS \<Longrightarrow> od_get d' k = od_get d k"
  by (auto simp: validate_numeric_fields_def try_simps intro: normalize_keys_other)

lemma numeric_keys:
  "fst ` set NUMERIC_CHECKS = {''temperature'', ''top_p'', ''presence_penalty'', ''frequency_penalty'', ''seed''}"
  by (auto simp: NUMERIC_CHECKS_def SAMPLING_PENALTY_KEYS_def)

lemma numeric_ok_od_set:
  assumes "numeric_ok d" and "k \<notin> fst ` set NUMERIC_CHECKS" "k \<noteq> ''n''" "k \<noteq> ''logit_bias''"
  shows "numeric_ok (od_set k v d)"
proof -
  have "settled_key c (od_set k v d) = settled_key c d" if "c \<in> set NUMERIC_CHECKS" for c
    using assms(2) that by (auto simp: settled_key_def)
  with assms show ?thesis by (auto simp: numeric_ok_def validate_n_def validate_bias_def)
qed

lemma normalize_schema_cases:
  assumes "normalize_schema s = Inr t"
  obtains name body desc strict where "name \<noteq> []"
    "t = [(''name'', JStr name), (''schema'', body)] @ opt_field ''description'' (map_option JStr desc) @ opt_field ''strict'' (map_option JBool strict)"
  using assms by (auto simp: normalize_schema_def split: json.splits option.splits if_splits)

lemma schema_settles: "normalize_schema s = Inr t \<Longrightarrow> normalize_schema t = Inr t"
proof (erule normalize_schema_cases)
  fix name body desc strict
  assume "name \<noteq> []"
    and t: "t = [(''name'', JStr name), (''schema'', body)] @ opt_field ''description'' (map_option JStr desc) @ opt_field ''strict'' (map_option JBool strict)"
  moreover have "j_string (jget t ''description'') = desc" "j_bool (jget t ''strict'') = strict"
    unfolding t by (cases desc; cases strict; simp add: jget_def opt_field_def j_string_def j_bool_def)+
  moreover have "jget t ''name'' = JStr name" "od_get t ''schema'' = Some body"
    unfolding t by (simp_all add: jget_def)
  ultimately show "normalize_schema t = Inr t" by (simp add: normalize_schema_def)
qed

lemma normalize_response_format_cases:
  assumes "normalize_response_format v = Inr w"
  obtains k where "w = JObj [(''type'', JStr k)]" "k = ''text'' \<or> k = ''json_object''"
  | t where "w = JObj [(''type'', JStr ''json_schema''), (''json_schema'', JObj t)]" "normalize_schema t = Inr t"
  using assms by (auto simp: normalize_response_format_def try_simps schema_settles split: json.splits if_splits)

lemma response_format_settles: "normalize_response_format v = Inr w \<Longrightarrow> normalize_response_format w = Inr w"
  by (erule normalize_response_format_cases) (auto simp: normalize_response_format_def jget_def)

text \<open>A request the parser would leave as it is.\<close>

definition request_ok :: "chat_request \<Rightarrow> bool" where
  "request_ok r \<longleftrightarrow>
     message_list (rq_raw r) = Inr (rq_messages r) \<and> list_all message_ok (rq_messages r) \<and> list_all parts_ok (rq_messages r)
     \<and> model_field (rq_raw r) = Inr (rq_model r) \<and> stream_field (rq_raw r) = Inr (rq_stream r) \<and> numeric_ok (rq_raw r)
     \<and> output_limit_ok (rq_raw r) ''max_tokens'' = Inr () \<and> output_limit_ok (rq_raw r) ''max_completion_tokens'' = Inr ()
     \<and> response_format_field (rq_raw r) = Inr (rq_raw r)"

lemma request_ok_accepted: "request_ok r \<Longrightarrow> parse_chat_request (JObj (rq_raw r)) = Inr r"
  by (simp add: request_ok_def parse_chat_request_def numeric_fields_settled validate_content_parts_def ensure_def)

lemma response_format_field_alt:
  "response_format_field d =
     (if jget d ''response_format'' = JNull then Inr d
      else try_bind (normalize_response_format (jget d ''response_format'')) (\<lambda>w. Inr (od_set ''response_format'' w d)))"
  by (simp add: response_format_field_def split: json.split)

lemma jget_od_set [simp]: "jget (od_set k v d) k' = (if k = k' then v else jget d k')"
  by (simp add: jget_def)

lemma od_get_opt_field [simp]: "od_get (opt_field k v) k' = (if k = k' then v else None)"
  by (cases v) (simp_all add: opt_field_def)

lemma od_get_append [simp]: "od_get (a @ b) k = (case od_get a k of None \<Rightarrow> od_get b k | Some v \<Rightarrow> Some v)"
  by (simp add: map_add_def split: option.split)

declare map_of_append [simp del]

lemma jget_literal [simp]:
  "jget [] k = JNull"
  "jget ((k', v) # d) k = (if k = k' then v else jget d k)"
  "jget (opt_field k' w) k = (if k = k' then (case w of None \<Rightarrow> JNull | Some x \<Rightarrow> x) else JNull)"
  by (simp_all add: jget_def)

lemma jget_append [simp]: "jget (a @ b) k = (case od_get a k of None \<Rightarrow> jget b k | Some v \<Rightarrow> v)"
  by (simp add: jget_def split: option.split)

lemma response_format_field_cases:
  assumes "response_format_field d = Inr d'"
  shows "d' = d \<and> jget d ''response_format'' = JNull
    \<or> (\<exists>w. d' = od_set ''response_format'' w d \<and> normalize_response_format w = Inr w \<and> w \<noteq> JNull)"
proof (cases "jget d ''response_format'' = JNull")
  case True
  with assms show ?thesis by (simp add: response_format_field_alt)
next
  case False
  then obtain w where w: "normalize_response_format (jget d ''response_format'') = Inr w" "d' = od_set ''response_format'' w d"
    using assms by (auto simp: response_format_field_alt try_simps)
  have "w \<noteq> JNull" using w(1) by (rule normalize_response_format_cases) simp_all
  with w response_format_settles show ?thesis by blast
qed

lemma output_limit_same: "jget d k = jget d' k \<Longrightarrow> output_limit_ok d k = output_limit_ok d' k"
  by (simp add: output_limit_ok_def)

lemma parsed_request_ok:
  assumes "parse_chat_request (JObj d) = Inr r" and "\<And>k v. od_get d k = Some v \<Longrightarrow> double_range v"
  shows "request_ok r"
proof -
  obtain raw where p: "message_list d = Inr (rq_messages r)" "list_all message_ok (rq_messages r)" "model_field d = Inr (rq_model r)"
      "stream_field d = Inr (rq_stream r)" "list_all parts_ok (rq_messages r)"
      "output_limit_ok raw ''max_tokens'' = Inr ()" "output_limit_ok raw ''max_completion_tokens'' = Inr ()"
    and v: "validate_numeric_fields d = Inr raw" and f: "response_format_field raw = Inr (rq_raw r)"
    using assms(1) by (auto simp: parse_chat_request_def try_simps validate_content_parts_def)
  have n: "numeric_ok raw" by (rule numeric_fields_ok[OF v]) (rule assms(2))
  have same: "od_get raw k = od_get d k" if "k \<notin> {''temperature'', ''top_p'', ''presence_penalty'', ''frequency_penalty'', ''seed''}" for k
    using numeric_fields_other[OF v] that numeric_keys by metis
  from response_format_field_cases[OF f] show ?thesis
  proof (elim disjE exE conjE)
    assume "rq_raw r = raw"
    with p n f show ?thesis
      by (simp add: request_ok_def message_list_def model_field_def stream_field_def jget_def same)
  next
    fix w
    assume w: "rq_raw r = od_set ''response_format'' w raw" "normalize_response_format w = Inr w" "w \<noteq> JNull"
    have "numeric_ok (rq_raw r)" unfolding w(1) by (rule numeric_ok_od_set[OF n]) (auto simp: numeric_keys)
    moreover have "response_format_field (rq_raw r) = Inr (rq_raw r)"
      using w by (simp add: response_format_field_alt od_set_same)
    moreover have "output_limit_ok (rq_raw r) k = output_limit_ok raw k" if "k \<noteq> ''response_format''" for k
      by (rule output_limit_same) (use that in \<open>simp add: w(1)\<close>)
    ultimately show ?thesis using p
      by (simp add: request_ok_def message_list_def model_field_def stream_field_def w(1)) (simp add: jget_def same)
  qed
qed

lemma od_keys_set_old: "od_get d k = Some v \<Longrightarrow> od_keys (od_set k w d) = od_keys d"
  by (induction d) (auto simp: od_set_def od_keys_def split: if_splits)

lemma normalize_keys_od_keys: "normalize_keys cs d = Inr d' \<Longrightarrow> od_keys d' = od_keys d"
  by (induction cs arbitrary: d) (auto simp: try_simps normalize_key_def od_keys_set_old split: option.splits)

lemma forwarded_fields:
  assumes "parse_chat_request (JObj d) = Inr r"
  shows "od_keys (rq_raw r) = od_keys d"
    and "k \<notin> fst ` set NUMERIC_CHECKS \<Longrightarrow> k \<noteq> ''response_format'' \<Longrightarrow> od_get (rq_raw r) k = od_get d k"
proof -
  obtain raw where v: "validate_numeric_fields d = Inr raw" and f: "response_format_field raw = Inr (rq_raw r)"
    using assms by (auto simp: parse_chat_request_def try_simps)
  have "od_keys raw = od_keys d" using v by (auto simp: validate_numeric_fields_def try_simps normalize_keys_od_keys)
  moreover have "od_keys (rq_raw r) = od_keys raw"
  proof (cases "od_get raw ''response_format''")
    case (Some v)
    with f obtain w where "rq_raw r = raw \<or> rq_raw r = od_set ''response_format'' w raw" using response_format_field_cases by blast
    with od_keys_set_old[OF Some] show ?thesis by metis
  qed (use f in \<open>simp add: response_format_field_alt jget_def\<close>)
  ultimately show "od_keys (rq_raw r) = od_keys d" by simp
  assume k: "k \<notin> fst ` set NUMERIC_CHECKS" "k \<noteq> ''response_format''"
  have "od_get (rq_raw r) k = od_get raw k" using response_format_field_cases[OF f] k(2) by auto
  with numeric_fields_other[OF v k(1)] show "od_get (rq_raw r) k = od_get d k" by simp
qed

text \<open>C25. The body that is forwarded for an accepted chat request has the keys of the request in their order, differs from
  it at most in the numeric fields and the response format, and passes the checks of the gateway again without being changed: it
  holds no number outside the limits, no image without an address and no malformed response format.\<close>

theorem forwarded_body_settles:
  assumes "parse_chat_request (JObj d) = Inr r" and "\<And>k v. od_get d k = Some v \<Longrightarrow> double_range v"
  shows "parse_chat_request (JObj (rq_raw r)) = Inr r \<and> od_keys (rq_raw r) = od_keys d
    \<and> (od_get (rq_raw r) k \<noteq> od_get d k \<longrightarrow> k = ''response_format'' \<or> k \<in> fst ` set NUMERIC_CHECKS)"
proof -
  have "request_ok r" by (rule parsed_request_ok[OF assms])
  then have "parse_chat_request (JObj (rq_raw r)) = Inr r" by (rule request_ok_accepted)
  with forwarded_fields[OF assms(1)] show ?thesis by blast
qed

definition sample_body :: jobject where
  "sample_body = [(''messages'', JList [JObj [(''role'', JStr ''user''), (''content'', JStr ''hi'')]]), (''temperature'', JInt 1),
     (''user'', JStr ''u'')]"

theorem forwarded_body_settles_witness:
  "\<exists>r. parse_chat_request (JObj sample_body) = Inr r \<and> parse_chat_request (JObj (rq_raw r)) = Inr r
    \<and> jget (rq_raw r) ''temperature'' = JFloat 1"
proof -
  have "py_float 1 = 1" by (simp add: py_float_small)
  then have p: "parse_chat_request (JObj sample_body) =
      Inr \<lparr>rq_model = [], rq_messages = [JObj [(''role'', JStr ''user''), (''content'', JStr ''hi'')]], rq_stream = False,
           rq_raw = od_set ''temperature'' (JFloat 1) sample_body\<rparr>"
    by (simp add: parse_chat_request_def sample_body_def message_list_def jget_def message_ok_def model_field_def stream_field_def
        validate_numeric_fields_def NUMERIC_CHECKS_def SAMPLING_PENALTY_KEYS_def normalize_key_def checked_temperature_def
        require_finite_number_def FLOAT_OVERFLOW_def MAX_TEMPERATURE_def od_set_def validate_n_def validate_bias_def
        validate_content_parts_def parts_ok_def ensure_def output_limit_ok_def response_format_field_def)
  have "double_range v" if "od_get sample_body k = Some v" for k v
    using that by (auto simp: sample_body_def double_range_def split: if_splits)
  from forwarded_body_settles[OF p this] show ?thesis using p by auto
qed

text \<open>An integer beyond the range of doubles is not answered with the error of an invalid request: the conversion raises
  an exception the handlers do not expect.\<close>

theorem huge_number_unhandled:
  assumes "FLOAT_OVERFLOW \<le> n" and "ms \<noteq> []" "list_all message_ok ms"
  shows "parse_chat_request (JObj [(''messages'', JList ms), (''temperature'', JInt n)]) = Inl OverflowError"
proof -
  have "FLOAT_OVERFLOW \<le> \<bar>n\<bar>" using assms(1) by simp
  then show ?thesis using assms(2,3) by (simp add: parse_chat_request_def message_list_def jget_def model_field_def stream_field_def ensure_def
      validate_numeric_fields_def NUMERIC_CHECKS_def normalize_key_def checked_temperature_def require_finite_number_def)
qed

theorem huge_number_unhandled_witness:
  "parse_chat_request (JObj [(''messages'', JList [JObj [(''role'', JStr ''user'')]]), (''temperature'', JInt FLOAT_OVERFLOW)])
     = Inl OverflowError"
  by (rule huge_number_unhandled) (simp_all add: message_ok_def jget_def)

end
