(* ===== verification/AnthropicRequest.thy ===== *)
theory AnthropicRequest
  imports ChatRequest Reasoning
begin

text \<open>
  \<^verbatim>\<open>src/compat/anthropic/request.py\<close>: the mapping of a Messages request to the chat request of
  the engine. \<open>dumps\<close> stands for \<^verbatim>\<open>json.dumps\<close> of the input of a tool call; the texts of the
  errors are left out, every one is the 400 of the module except an overflow.
\<close>

section \<open>Content blocks\<close>

definition cache_control :: "jobject \<Rightarrow> req_fault + json option" where
  "cache_control block =
     (case jget block ''cache_control'' of
        JNull \<Rightarrow> Inr None
      | JObj marker \<Rightarrow>
          if j_text (jget marker ''type'') \<noteq> None \<and> (jget marker ''ttl'' = JNull \<or> j_string (jget marker ''ttl'') \<noteq> None)
          then Inr (Some (JObj marker)) else Inl InvalidRequest
      | _ \<Rightarrow> Inl InvalidRequest)"

definition marked :: "jobject \<Rightarrow> jobject \<Rightarrow> req_fault + jobject" where
  "marked block part = try_bind (cache_control block) (\<lambda>m. Inr (part @ opt_field ''cache_control'' m))"

definition expect :: "'a option \<Rightarrow> req_fault + 'a" where
  "expect v = (case v of None \<Rightarrow> Inl InvalidRequest | Some x \<Rightarrow> Inr x)"

definition plain_part :: "string \<Rightarrow> jobject" where
  "plain_part t = [(''type'', JStr ''text''), (''text'', JStr t)]"

definition text_part :: "jobject \<Rightarrow> req_fault + jobject" where
  "text_part block = try_bind (expect (j_string (jget block ''text''))) (\<lambda>t. marked block (plain_part t))"

definition url_part :: "string \<Rightarrow> jobject" where
  "url_part u = [(''type'', JStr ''image_url''), (''image_url'', JObj [(''url'', JStr u)])]"

definition image_part :: "jobject \<Rightarrow> req_fault + jobject" where
  "image_part block =
     (case jget block ''source'' of
        JObj src \<Rightarrow>
          try_bind
            (if jget src ''type'' = JStr ''base64'' then
               try_bind (expect (j_text (jget src ''media_type''))) (\<lambda>media.
               try_bind (expect (j_text (jget src ''data''))) (\<lambda>content.
                 Inr (''data:'' @ media @ '';base64,'' @ content)))
             else if jget src ''type'' = JStr ''url'' then expect (j_text (jget src ''url''))
             else Inl InvalidRequest)
            (\<lambda>u. marked block (url_part u))
      | _ \<Rightarrow> Inl InvalidRequest)"

definition has_marker :: "jobject \<Rightarrow> bool" where
  "has_marker part \<longleftrightarrow> od_get part ''cache_control'' \<noteq> None"

definition part_string :: "jobject \<Rightarrow> string" where
  "part_string part = (case jget part ''text'' of JStr t \<Rightarrow> t | _ \<Rightarrow> [])"

definition is_text_part :: "jobject \<Rightarrow> bool" where
  "is_text_part part \<longleftrightarrow> jget part ''type'' = JStr ''text''"

definition merge_parts :: "jobject list \<Rightarrow> json" where
  "merge_parts parts =
     (if list_all is_text_part parts \<and> \<not> list_ex has_marker parts then JStr (concat (map part_string parts))
      else JList (map JObj parts))"

definition placeholder_text :: "string \<Rightarrow> jobject \<Rightarrow> string" where
  "placeholder_text kind block =
     (if kind = ''tool_reference'' then
        (case j_text (jget block ''tool_name'') of
           Some name \<Rightarrow> ''[tool available: '' @ name @ '']''
         | None \<Rightarrow> ''[tool available]'')
      else
        (let label = (case j_text (jget block ''title'') of Some t \<Rightarrow> t | None \<Rightarrow> kind)
         in ''['' @ label @ '' omitted: this gateway cannot forward '' @ kind @ '' content]''))"

text \<open>The part a block of a user turn or of a tool result becomes.\<close>

definition shown_part :: "jobject \<Rightarrow> req_fault + jobject" where
  "shown_part block =
     (case j_string (jget block ''type'') of
        None \<Rightarrow> Inl InvalidRequest
      | Some kind \<Rightarrow>
          if kind = ''text'' then text_part block
          else if kind = ''image'' then image_part block
          else if kind = ''document'' \<or> kind = ''tool_reference'' then Inr (plain_part (placeholder_text kind block))
          else Inl InvalidRequest)"

definition as_block :: "json \<Rightarrow> req_fault + jobject" where
  "as_block v = (case v of JObj d \<Rightarrow> Inr d | _ \<Rightarrow> Inl InvalidRequest)"

definition tool_result_text :: "json \<Rightarrow> req_fault + json" where
  "tool_result_text content =
     (case content of
        JStr s \<Rightarrow> Inr (JStr s)
      | JNull \<Rightarrow> Inr (JStr [])
      | JList blocks \<Rightarrow>
          try_bind (try_map (\<lambda>b. try_bind (as_block b) shown_part) blocks) (\<lambda>parts. Inr (merge_parts parts))
      | _ \<Rightarrow> Inl InvalidRequest)"

definition input_arguments :: "(jobject \<Rightarrow> string) \<Rightarrow> json \<Rightarrow> req_fault + string" where
  "input_arguments dumps v =
     (case v of JNull \<Rightarrow> Inr [] | JStr s \<Rightarrow> Inr s | JObj d \<Rightarrow> Inr (dumps d) | _ \<Rightarrow> Inl InvalidRequest)"

section \<open>Turns\<close>

definition user_message :: "jobject list \<Rightarrow> json" where
  "user_message parts = JObj [(''role'', JStr ''user''), (''content'', merge_parts parts)]"

text \<open>\<^verbatim>\<open>flush\<close>: the pending parts, if any, become one user message.\<close>

definition flushed :: "jobject list \<Rightarrow> json list" where
  "flushed pending = (if pending = [] then [] else [user_message pending])"

definition tool_message :: "jobject \<Rightarrow> req_fault + json" where
  "tool_message block =
     try_bind (expect (j_text (jget block ''tool_use_id''))) (\<lambda>call_id.
     try_bind (tool_result_text (jget block ''content'')) (\<lambda>content.
     try_bind (marked block [(''role'', JStr ''tool''), (''tool_call_id'', JStr call_id), (''content'', content)]) (\<lambda>m.
       Inr (JObj m))))"

fun user_messages :: "json list \<Rightarrow> jobject list \<Rightarrow> req_fault + json list" where
  "user_messages [] pending = Inr (flushed pending)"
| "user_messages (b # bs) pending =
     try_bind (as_block b) (\<lambda>block.
       if jget block ''type'' = JStr ''tool_result''
       then try_bind (tool_message block) (\<lambda>m. try_bind (user_messages bs []) (\<lambda>rest. Inr (flushed pending @ m # rest)))
       else try_bind (shown_part block) (\<lambda>part. user_messages bs (pending @ [part])))"

definition tool_call :: "(jobject \<Rightarrow> string) \<Rightarrow> jobject \<Rightarrow> req_fault + jobject" where
  "tool_call dumps block =
     try_bind (expect (j_text (jget block ''name''))) (\<lambda>name.
     try_bind (input_arguments dumps (jget block ''input'')) (\<lambda>arguments.
       marked block
         [(''id'', if j_truthy (jget block ''id'') then jget block ''id'' else JStr ''call''), (''type'', JStr ''function''),
          (''function'', JObj [(''name'', JStr name), (''arguments'', JStr arguments)])]))"

text \<open>What the loop over an assistant turn collects: text parts, thinking, tool calls.\<close>

record turn =
  tu_parts :: "jobject list"
  tu_thinking :: "string list"
  tu_calls :: "jobject list"

fun assistant_turn :: "(jobject \<Rightarrow> string) \<Rightarrow> json list \<Rightarrow> turn \<Rightarrow> req_fault + turn" where
  "assistant_turn dumps [] t = Inr t"
| "assistant_turn dumps (b # bs) t =
     try_bind (as_block b) (\<lambda>block.
     case j_string (jget block ''type'') of
       None \<Rightarrow> Inl InvalidRequest
     | Some kind \<Rightarrow>
         if kind = ''text''
         then try_bind (text_part block) (\<lambda>p. assistant_turn dumps bs (t\<lparr>tu_parts := tu_parts t @ [p]\<rparr>))
         else if kind = ''thinking''
         then try_bind (expect (j_string (jget block ''thinking'')))
                (\<lambda>s. assistant_turn dumps bs (t\<lparr>tu_thinking := tu_thinking t @ [s]\<rparr>))
         else if kind = ''redacted_thinking'' \<or> kind = ''tool_reference'' then assistant_turn dumps bs t
         else if kind = ''tool_use''
         then try_bind (tool_call dumps block) (\<lambda>c. assistant_turn dumps bs (t\<lparr>tu_calls := tu_calls t @ [c]\<rparr>))
         else Inl InvalidRequest)"

definition turn_message :: "turn \<Rightarrow> json option" where
  "turn_message t =
     (if tu_parts t = [] \<and> tu_thinking t = [] \<and> tu_calls t = [] then None
      else Some (JObj
        ([(''role'', JStr ''assistant''),
          (''content'', if list_ex has_marker (tu_parts t) then JList (map JObj (tu_parts t))
                        else JStr (concat (map part_string (tu_parts t))))]
         @ opt_field ''reasoning_content'' (if tu_thinking t = [] then None else Some (JStr (concat (tu_thinking t))))
         @ opt_field ''tool_calls'' (if tu_calls t = [] then None else Some (JList (map JObj (tu_calls t)))))))"

definition assistant_message :: "(jobject \<Rightarrow> string) \<Rightarrow> json list \<Rightarrow> req_fault + json option" where
  "assistant_message dumps blocks =
     try_bind (assistant_turn dumps blocks \<lparr>tu_parts = [], tu_thinking = [], tu_calls = []\<rparr>) (\<lambda>t. Inr (turn_message t))"

text \<open>The text of one block of a system message inside the conversation.\<close>

definition system_text :: "json \<Rightarrow> req_fault + string" where
  "system_text b =
     try_bind (as_block b) (\<lambda>block.
       if jget block ''type'' \<noteq> JStr ''text'' then Inl InvalidRequest else expect (j_string (jget block ''text'')))"

definition system_block_content :: "json \<Rightarrow> req_fault + string" where
  "system_block_content content =
     (case content of
        JStr s \<Rightarrow> Inr s
      | JNull \<Rightarrow> Inr []
      | JList blocks \<Rightarrow> try_bind (try_map system_text blocks) (\<lambda>ts. Inr (concat ts))
      | _ \<Rightarrow> Inl InvalidRequest)"

definition map_turn :: "(jobject \<Rightarrow> string) \<Rightarrow> json \<Rightarrow> req_fault + json list" where
  "map_turn dumps v =
     try_bind (as_block v) (\<lambda>d.
       let role = jget d ''role''
       in if role = JStr ''system'' then
            try_bind (system_block_content (jget d ''content''))
              (\<lambda>s. Inr [JObj [(''role'', JStr ''system''), (''content'', JStr s)]])
          else
            (case jget d ''content'' of
               JStr s \<Rightarrow>
                 if role = JStr ''user'' \<or> role = JStr ''assistant''
                 then Inr [JObj [(''role'', role), (''content'', JStr s)]] else Inl InvalidRequest
             | JList blocks \<Rightarrow>
                 if role = JStr ''user'' then user_messages blocks []
                 else if role = JStr ''assistant''
                 then try_bind (assistant_message dumps blocks) (\<lambda>m. Inr (case m of None \<Rightarrow> [] | Some x \<Rightarrow> [x]))
                 else Inl InvalidRequest
             | _ \<Rightarrow> Inl InvalidRequest))"

definition map_turns :: "(jobject \<Rightarrow> string) \<Rightarrow> json list \<Rightarrow> req_fault + json list" where
  "map_turns dumps items = try_bind (try_map (map_turn dumps) items) (\<lambda>mss. Inr (concat mss))"

section \<open>The request\<close>

definition system_part :: "json \<Rightarrow> req_fault + jobject" where
  "system_part b = try_bind (as_block b) (\<lambda>block.
     if jget block ''type'' \<noteq> JStr ''text'' then Inl InvalidRequest else text_part block)"

definition system_content :: "json \<Rightarrow> req_fault + json" where
  "system_content v =
     (case v of
        JStr s \<Rightarrow> Inr (JStr s)
      | JNull \<Rightarrow> Inr (JStr [])
      | JList blocks \<Rightarrow>
          try_bind (try_map system_part blocks) (\<lambda>parts.
            Inr (if list_ex has_marker parts then JList (map JObj parts) else JStr (concat (map part_string parts))))
      | _ \<Rightarrow> Inl InvalidRequest)"

definition map_tool :: "json \<Rightarrow> req_fault + json" where
  "map_tool v =
     try_bind (as_block v) (\<lambda>tool.
     try_bind (expect (j_text (jget tool ''name''))) (\<lambda>name.
     try_bind (marked tool
       [(''type'', JStr ''function''),
        (''function'', JObj ([(''name'', JStr name)]
           @ opt_field ''description'' (map_option JStr (j_string (jget tool ''description'')))
           @ opt_field ''parameters'' (case jget tool ''input_schema'' of JObj s \<Rightarrow> Some (JObj s) | _ \<Rightarrow> None)))])
       (\<lambda>entry. Inr (JObj entry))))"

definition map_tool_choice :: "json \<Rightarrow> req_fault + json option" where
  "map_tool_choice v =
     (case v of
        JNull \<Rightarrow> Inr None
      | JObj d \<Rightarrow>
          (case j_string (jget d ''type'') of
             None \<Rightarrow> Inl InvalidRequest
           | Some kind \<Rightarrow>
               if kind = ''auto'' then Inr (Some (JStr ''auto''))
               else if kind = ''any'' then Inr (Some (JStr ''required''))
               else if kind = ''none'' then Inr (Some (JStr ''none''))
               else if kind = ''tool'' then
                 try_bind (expect (j_text (jget d ''name''))) (\<lambda>name.
                   Inr (Some (JObj [(''type'', JStr ''function''), (''function'', JObj [(''name'', JStr name)])])))
               else Inl InvalidRequest)
      | _ \<Rightarrow> Inl InvalidRequest)"

definition max_tokens_field :: "jobject \<Rightarrow> req_fault + json option" where
  "max_tokens_field d =
     (case jget d ''max_tokens'' of
        JNull \<Rightarrow> Inr None
      | v \<Rightarrow> try_bind (require_positive_int v MAX_OUTPUT_TOKENS) (\<lambda>n. Inr (Some (JInt n))))"

definition sampling_field :: "(json \<Rightarrow> req_fault + json) \<Rightarrow> string \<Rightarrow> jobject \<Rightarrow> req_fault + json option" where
  "sampling_field check key d =
     (case od_get d key of None \<Rightarrow> Inr None | Some v \<Rightarrow> try_bind (check v) (\<lambda>w. Inr (Some w)))"

definition stop_field :: "jobject \<Rightarrow> req_fault + json option" where
  "stop_field d =
     (case jget d ''stop_sequences'' of
        JNull \<Rightarrow> Inr None
      | JList xs \<Rightarrow> if list_all (\<lambda>x. j_string x \<noteq> None) xs then Inr (Some (JList xs)) else Inl InvalidRequest
      | _ \<Rightarrow> Inl InvalidRequest)"

definition tools_field :: "(json list \<Rightarrow> req_fault + json list) \<Rightarrow> jobject \<Rightarrow> req_fault + json option" where
  "tools_field mapping d =
     (case jget d ''tools'' of
        JNull \<Rightarrow> Inr None
      | JList tools \<Rightarrow> try_bind (mapping tools) (\<lambda>ts. Inr (if ts = [] then None else Some (JList ts)))
      | _ \<Rightarrow> Inl InvalidRequest)"

definition effort_field :: "string \<Rightarrow> jobject \<Rightarrow> json option" where
  "effort_field efforts d =
     map_option JStr
       (case output_config_effort (jget d ''output_config'') of
          Some e \<Rightarrow> Some e
        | None \<Rightarrow> thinking_effort efforts (jget d ''thinking''))"

definition parse_messages_request :: "(jobject \<Rightarrow> string) \<Rightarrow> string \<Rightarrow> json \<Rightarrow> req_fault + chat_request" where
  "parse_messages_request dumps efforts body =
     (case body of
        JObj d \<Rightarrow>
          try_bind (model_field d) (\<lambda>model.
          try_bind (message_list d) (\<lambda>items.
          try_bind (system_content (jget d ''system'')) (\<lambda>sys.
          try_bind (map_turns dumps items) (\<lambda>turns.
          let ms = (if j_truthy sys then [JObj [(''role'', JStr ''system''), (''content'', sys)]] else []) @ turns in
          try_bind (ensure (ms \<noteq> []) InvalidRequest) (\<lambda>_.
          try_bind (stream_field d) (\<lambda>stream.
          try_bind (max_tokens_field d) (\<lambda>limit.
          try_bind (sampling_field checked_temperature ''temperature'' d) (\<lambda>temperature.
          try_bind (sampling_field checked_float ''top_p'' d) (\<lambda>top_p.
          try_bind (stop_field d) (\<lambda>stop.
          try_bind (tools_field (try_map map_tool) d) (\<lambda>tools.
          try_bind (map_tool_choice (jget d ''tool_choice'')) (\<lambda>choice.
            Inr \<lparr>rq_model = model, rq_messages = ms, rq_stream = stream,
                 rq_raw = [(''model'', JStr model), (''messages'', JList ms), (''stream'', JBool stream)]
                   @ opt_field ''max_tokens'' limit @ opt_field ''temperature'' temperature @ opt_field ''top_p'' top_p
                   @ opt_field ''stop'' stop @ opt_field ''tools'' tools @ opt_field ''tool_choice'' choice
                   @ opt_field ''reasoning_effort'' (effort_field efforts d)\<rparr>))))))))))))
      | _ \<Rightarrow> Inl InvalidRequest)"

section \<open>The result is a chat request\<close>

declare map_of_append [simp del]

lemma marked_Inr: "marked block part = Inr p \<longleftrightarrow> (\<exists>m. cache_control block = Inr m \<and> p = part @ opt_field ''cache_control'' m)"
  by (auto simp: marked_def try_simps)

lemma expect_Inr [simp]: "expect v = Inr x \<longleftrightarrow> v = Some x"
  by (cases v) (simp_all add: expect_def)

lemma j_text_Some: "j_text v = Some s \<longleftrightarrow> v = JStr s \<and> s \<noteq> []"
  by (auto simp: j_text_def split: json.splits)

lemma j_string_Some: "j_string v = Some s \<longleftrightarrow> v = JStr s"
  by (auto simp: j_string_def split: json.splits)

lemma text_part_Inr:
  "text_part b = Inr p \<Longrightarrow> \<exists>t m. jget b ''text'' = JStr t \<and> p = plain_part t @ opt_field ''cache_control'' m"
  by (auto simp: text_part_def try_simps marked_Inr j_string_Some)

lemma image_part_Inr: "image_part b = Inr p \<Longrightarrow> \<exists>u m. u \<noteq> [] \<and> p = url_part u @ opt_field ''cache_control'' m"
  by (auto simp: image_part_def try_simps marked_Inr j_text_Some split: json.splits if_splits)

lemma shown_part_Inr:
  assumes "shown_part b = Inr p"
  obtains t m where "p = plain_part t @ opt_field ''cache_control'' m"
  | u m where "u \<noteq> []" "p = url_part u @ opt_field ''cache_control'' m"
proof -
  have "plain_part t = plain_part t @ opt_field ''cache_control'' None" for t by (simp add: opt_field_def)
  with assms that show ?thesis
    by (auto simp: shown_part_def split: option.splits if_splits dest!: text_part_Inr image_part_Inr)
qed

definition good_part :: "jobject \<Rightarrow> bool" where
  "good_part p \<longleftrightarrow> image_url_ok (JObj p)"

lemma shown_part_good: "shown_part b = Inr p \<Longrightarrow> good_part p"
  by (erule shown_part_Inr) (simp_all add: good_part_def image_url_ok_def plain_part_def url_part_def jget_def)

lemma text_part_good: "text_part b = Inr p \<Longrightarrow> good_part p"
  by (drule text_part_Inr) (auto simp: good_part_def image_url_ok_def plain_part_def jget_def)

definition good_content :: "json \<Rightarrow> bool" where
  "good_content v = (case v of JStr _ \<Rightarrow> True | JList ps \<Rightarrow> list_all image_url_ok ps | _ \<Rightarrow> False)"

lemma merge_parts_good: "list_all good_part ps \<Longrightarrow> good_content (merge_parts ps)"
  by (simp add: merge_parts_def good_content_def list_all_iff good_part_def)

lemma try_map_all: "try_map f xs = Inr ys \<Longrightarrow> (\<And>x y. f x = Inr y \<Longrightarrow> P y) \<Longrightarrow> list_all P ys"
  by (induction xs arbitrary: ys) (auto simp: try_simps)

lemma tool_result_good: "tool_result_text c = Inr v \<Longrightarrow> good_content v"
proof (cases c)
  case (JList blocks)
  assume "tool_result_text c = Inr v"
  then obtain parts where p: "try_map (\<lambda>b. try_bind (as_block b) shown_part) blocks = Inr parts" "v = merge_parts parts"
    using JList by (auto simp: tool_result_text_def try_simps)
  then have "list_all good_part parts" by (auto simp: try_simps elim!: try_map_all intro: shown_part_good)
  then show ?thesis unfolding p(2) by (rule merge_parts_good)
qed (auto simp: tool_result_text_def good_content_def)

definition good_message :: "json \<Rightarrow> bool" where
  "good_message m \<longleftrightarrow>
     (\<exists>d role. m = JObj d \<and> jget d ''role'' = JStr role \<and> role \<in> {''system'', ''user'', ''assistant'', ''tool''}
        \<and> good_content (jget d ''content'') \<and> (role = ''tool'' \<longrightarrow> j_text (jget d ''tool_call_id'') \<noteq> None))"

lemma good_message_accepted: "good_message m \<Longrightarrow> message_ok m \<and> parts_ok m"
proof -
  assume "good_message m"
  then obtain d role where d: "m = JObj d" "jget d ''role'' = JStr role" "good_content (jget d ''content'')"
    unfolding good_message_def by blast
  then have "parts_ok m" by (cases "jget d ''content''") (simp_all add: parts_ok_def good_content_def)
  with d show ?thesis by (simp add: message_ok_def)
qed

lemma tool_message_good:
  assumes "tool_message b = Inr m"
  shows "good_message m"
proof -
  obtain c content marker where "jget b ''tool_use_id'' = JStr c" "c \<noteq> []" "tool_result_text (jget b ''content'') = Inr content"
    and m: "m = JObj ([(''role'', JStr ''tool''), (''tool_call_id'', JStr c), (''content'', content)] @ opt_field ''cache_control'' marker)"
    using assms by (auto simp: tool_message_def try_simps marked_Inr j_text_Some)
  then show ?thesis by (simp add: good_message_def j_text_def tool_result_good)
qed

lemma flushed_good: "list_all good_part ps \<Longrightarrow> list_all good_message (flushed ps)"
  by (simp add: flushed_def user_message_def good_message_def merge_parts_good)

lemma user_messages_good:
  "user_messages bs ps = Inr ms \<Longrightarrow> list_all good_part ps \<Longrightarrow> list_all good_message ms"
proof (induction bs arbitrary: ps ms)
  case (Cons b bs)
  then obtain block where block: "as_block b = Inr block" by (auto simp: try_simps)
  show ?case
  proof (cases "jget block ''type'' = JStr ''tool_result''")
    case True
    then obtain m rest where "tool_message block = Inr m" "user_messages bs [] = Inr rest" "ms = flushed ps @ m # rest"
      using Cons.prems(1) block by (auto simp: try_simps)
    with Cons.IH[of "[]"] Cons.prems(2) show ?thesis by (simp add: flushed_good tool_message_good)
  next
    case False
    then obtain part where "shown_part block = Inr part" "user_messages bs (ps @ [part]) = Inr ms"
      using Cons.prems(1) block by (auto simp: try_simps)
    with Cons.IH[of "ps @ [part]"] Cons.prems(2) show ?thesis by (simp add: shown_part_good)
  qed
qed (simp add: flushed_good)

lemma assistant_turn_good:
  "assistant_turn dumps bs t = Inr t' \<Longrightarrow> list_all good_part (tu_parts t) \<Longrightarrow> list_all good_part (tu_parts t')"
proof (induction bs arbitrary: t)
  case (Cons b bs)
  then obtain block where block: "as_block b = Inr block" by (auto simp: try_simps)
  obtain kind where kind: "jget block ''type'' = JStr kind"
    using Cons.prems(1) block by (auto simp: try_simps j_string_def split: json.splits)
  consider p where "text_part block = Inr p" "assistant_turn dumps bs (t\<lparr>tu_parts := tu_parts t @ [p]\<rparr>) = Inr t'"
    | s where "assistant_turn dumps bs (t\<lparr>tu_thinking := s\<rparr>) = Inr t'"
    | cs where "assistant_turn dumps bs (t\<lparr>tu_calls := cs\<rparr>) = Inr t'"
    | "assistant_turn dumps bs t = Inr t'"
    using Cons.prems(1) by (simp add: block kind j_string_def try_simps split: if_splits) blast+
  then show ?case
    by cases (use Cons.IH Cons.prems(2) text_part_good in fastforce)+
qed simp

lemma turn_message_good: "list_all good_part (tu_parts t) \<Longrightarrow> turn_message t = Some m \<Longrightarrow> good_message m"
  by (auto simp: turn_message_def good_message_def good_content_def good_part_def list_all_iff split: if_splits)

lemma assistant_message_good: "assistant_message dumps bs = Inr (Some m) \<Longrightarrow> good_message m"
  by (auto simp: assistant_message_def try_simps dest!: assistant_turn_good dest: turn_message_good)

lemma map_turn_good:
  assumes "map_turn dumps v = Inr ms"
  shows "list_all good_message ms"
proof -
  obtain d where d: "v = JObj d" using assms by (auto simp: map_turn_def as_block_def try_simps split: json.splits)
  have plain: "good_message (JObj [(''role'', JStr r), (''content'', JStr s)])" if "r \<in> {''system'', ''user'', ''assistant''}" for r s
    using that by (auto simp: good_message_def good_content_def)
  show ?thesis
  proof (cases "jget d ''role'' = JStr ''system''")
    case True
    then show ?thesis using assms by (auto simp: d map_turn_def as_block_def try_simps plain)
  next
    case False
    then show ?thesis using assms
      by (auto simp: d map_turn_def as_block_def Let_def try_simps plain user_messages_good assistant_message_good
          split: json.splits if_splits option.splits)
  qed
qed

lemma map_turns_good:
  assumes "map_turns dumps items = Inr ms"
  shows "list_all good_message ms"
proof -
  obtain mss where mss: "try_map (map_turn dumps) items = Inr mss" "ms = concat mss"
    using assms by (auto simp: map_turns_def try_simps)
  have "list_all (list_all good_message) mss" by (rule try_map_all[OF mss(1)]) (rule map_turn_good)
  then show ?thesis by (auto simp: mss(2) list_all_iff)
qed

lemma system_part_good: "system_part b = Inr p \<Longrightarrow> good_part p"
  by (auto simp: system_part_def try_simps text_part_good split: if_splits)

lemma system_content_good:
  assumes "system_content v = Inr c"
  shows "good_content c"
proof (cases v)
  case (JList blocks)
  then obtain parts where parts: "try_map system_part blocks = Inr parts"
      "c = (if list_ex has_marker parts then JList (map JObj parts) else JStr (concat (map part_string parts)))"
    using assms by (auto simp: system_content_def try_simps)
  have "list_all good_part parts" by (rule try_map_all[OF parts(1)]) (rule system_part_good)
  then show ?thesis by (simp add: parts(2) good_content_def good_part_def list_all_iff)
qed (use assms in \<open>auto simp: system_content_def good_content_def\<close>)

lemma checked_again:
  "checked_temperature v = Inr w \<Longrightarrow> checked_temperature w = Inr w"
  "checked_float v = Inr w \<Longrightarrow> checked_float w = Inr w"
  by (auto simp: checked_temperature_def checked_float_def require_finite_number_def try_simps split: json.splits if_splits)

lemma good_request_ok:
  assumes "list_all good_message ms" "ms \<noteq> []" "rq_messages r = ms"
    and "jget (rq_raw r) ''messages'' = JList ms" "jget (rq_raw r) ''model'' = JStr (rq_model r)"
    and "od_get (rq_raw r) ''stream'' = Some (JBool (rq_stream r))"
    and "\<forall>v. od_get (rq_raw r) ''temperature'' = Some v \<longrightarrow> checked_temperature v = Inr v"
    and "\<forall>v. od_get (rq_raw r) ''top_p'' = Some v \<longrightarrow> checked_float v = Inr v"
    and "\<forall>k \<in> {''presence_penalty'', ''frequency_penalty'', ''seed'', ''n'', ''logit_bias'', ''max_completion_tokens''}. od_get (rq_raw r) k = None"
    and "output_limit_ok (rq_raw r) ''max_tokens'' = Inr ()" "response_format_field (rq_raw r) = Inr (rq_raw r)"
  shows "request_ok r"
proof -
  have "list_all message_ok ms \<and> list_all parts_ok ms" using assms(1) good_message_accepted by (auto simp: list_all_iff)
  moreover have "numeric_ok (rq_raw r)"
    using assms(7,8,9) by (auto simp: numeric_ok_def NUMERIC_CHECKS_def SAMPLING_PENALTY_KEYS_def settled_key_def validate_n_def
        validate_bias_def split: option.splits)
  moreover have "output_limit_ok (rq_raw r) ''max_completion_tokens'' = Inr ()" using assms(9) by (simp add: output_limit_ok_def jget_def)
  ultimately show ?thesis using assms by (simp add: request_ok_def message_list_def model_field_def stream_field_def)
qed

text \<open>The parts of an accepted request.\<close>

lemma parse_messages_request_Inr:
  assumes "parse_messages_request dumps efforts body = Inr r"
  obtains d items sys turns limit temperature top_p stop tools choice where "body = JObj d" "message_list d = Inr items"
    "model_field d = Inr (rq_model r)" "stream_field d = Inr (rq_stream r)" "system_content (jget d ''system'') = Inr sys"
    "map_turns dumps items = Inr turns"
    "rq_messages r = (if j_truthy sys then [JObj [(''role'', JStr ''system''), (''content'', sys)]] else []) @ turns"
    "rq_messages r \<noteq> []" "max_tokens_field d = Inr limit" "sampling_field checked_temperature ''temperature'' d = Inr temperature"
    "sampling_field checked_float ''top_p'' d = Inr top_p" "stop_field d = Inr stop" "tools_field (try_map map_tool) d = Inr tools"
    "map_tool_choice (jget d ''tool_choice'') = Inr choice"
    "rq_raw r = [(''model'', JStr (rq_model r)), (''messages'', JList (rq_messages r)), (''stream'', JBool (rq_stream r))]
       @ opt_field ''max_tokens'' limit @ opt_field ''temperature'' temperature @ opt_field ''top_p'' top_p
       @ opt_field ''stop'' stop @ opt_field ''tools'' tools @ opt_field ''tool_choice'' choice
       @ opt_field ''reasoning_effort'' (effort_field efforts d)"
  using assms by (cases body) (auto simp: parse_messages_request_def try_simps Let_def)

lemma positive_int_again: "require_positive_int v m = Inr n \<Longrightarrow> require_positive_int (JInt n) m = Inr n"
  by (auto simp: require_positive_int_def split: json.splits if_splits)

lemma max_tokens_limit:
  assumes "max_tokens_field d = Inr v" and "od_get raw ''max_tokens'' = v"
  shows "output_limit_ok raw ''max_tokens'' = Inr ()"
proof (cases "jget d ''max_tokens'' = JNull")
  case True
  with assms show ?thesis by (simp add: max_tokens_field_def output_limit_ok_def jget_def)
next
  case False
  then have "max_tokens_field d = try_bind (require_positive_int (jget d ''max_tokens'') MAX_OUTPUT_TOKENS) (\<lambda>n. Inr (Some (JInt n)))"
    by (simp add: max_tokens_field_def split: json.split)
  with assms(1) obtain n where n: "require_positive_int (jget d ''max_tokens'') MAX_OUTPUT_TOKENS = Inr n" "v = Some (JInt n)"
    by (auto simp: try_bind_Inr)
  note positive_int_again[OF n(1)]
  with assms(2) n(2) show ?thesis by (simp add: output_limit_ok_def jget_def)
qed

lemma messages_request_ok:
  assumes "parse_messages_request dumps efforts body = Inr r"
  shows "request_ok r"
proof (rule parse_messages_request_Inr[OF assms])
  fix d items sys turns limit temperature top_p stop tools choice
  assume p: "system_content (jget d ''system'') = Inr sys" "map_turns dumps items = Inr turns"
    "rq_messages r = (if j_truthy sys then [JObj [(''role'', JStr ''system''), (''content'', sys)]] else []) @ turns"
    "rq_messages r \<noteq> []" "max_tokens_field d = Inr limit"
    "sampling_field checked_temperature ''temperature'' d = Inr temperature"
    "sampling_field checked_float ''top_p'' d = Inr top_p"
    and raw: "rq_raw r = [(''model'', JStr (rq_model r)), (''messages'', JList (rq_messages r)), (''stream'', JBool (rq_stream r))]
       @ opt_field ''max_tokens'' limit @ opt_field ''temperature'' temperature @ opt_field ''top_p'' top_p
       @ opt_field ''stop'' stop @ opt_field ''tools'' tools @ opt_field ''tool_choice'' choice
       @ opt_field ''reasoning_effort'' (effort_field efforts d)"
  have get: "od_get (rq_raw r) ''max_tokens'' = limit" "od_get (rq_raw r) ''temperature'' = temperature"
      "od_get (rq_raw r) ''top_p'' = top_p" "jget (rq_raw r) ''response_format'' = JNull"
      "\<forall>k \<in> {''presence_penalty'', ''frequency_penalty'', ''seed'', ''n'', ''logit_bias'', ''max_completion_tokens''}. od_get (rq_raw r) k = None"
    unfolding raw by (simp_all split: option.splits)
  have "good_message (JObj [(''role'', JStr ''system''), (''content'', sys)])"
    using system_content_good[OF p(1)] by (simp add: good_message_def)
  then have good: "list_all good_message (rq_messages r)" using map_turns_good[OF p(2)] by (simp add: p(3))
  have "\<forall>v. temperature = Some v \<longrightarrow> checked_temperature v = Inr v" "\<forall>v. top_p = Some v \<longrightarrow> checked_float v = Inr v"
    using p(6,7) by (auto simp: sampling_field_def try_simps checked_again split: option.splits)
  then show "request_ok r"
    by (intro good_request_ok[OF good p(4) refl]) (use get max_tokens_limit[OF p(5)] in \<open>simp_all add: raw response_format_field_def\<close>)
qed

text \<open>C26. What a Messages request is mapped to is a request the chat interface accepts and would forward unchanged: every
  message has one of the four roles, images have an address, tool results name their call, and the numbers are within the limits
  of the chat interface.\<close>

theorem messages_request_is_chat_request:
  assumes "parse_messages_request dumps efforts body = Inr r"
  shows "parse_chat_request (JObj (rq_raw r)) = Inr r"
  by (rule request_ok_accepted, rule messages_request_ok[OF assms])

definition sample_messages :: json where
  "sample_messages = JObj [(''max_tokens'', JInt 10), (''messages'', JList
     [JObj [(''role'', JStr ''user''), (''content'', JList [JObj [(''type'', JStr ''text''), (''text'', JStr ''hi'')]])]])]"

lemma sample_parsed:
  "parse_messages_request dumps [] sample_messages =
     Inr \<lparr>rq_model = [], rq_messages = [JObj [(''role'', JStr ''user''), (''content'', JStr ''hi'')]], rq_stream = False,
          rq_raw = [(''model'', JStr []), (''messages'', JList [JObj [(''role'', JStr ''user''), (''content'', JStr ''hi'')]]),
            (''stream'', JBool False), (''max_tokens'', JInt 10)]\<rparr>"
  by (simp add: parse_messages_request_def sample_messages_def model_field_def message_list_def system_content_def map_turns_def
      map_turn_def as_block_def shown_part_def text_part_def j_string_def expect_def marked_def cache_control_def opt_field_def
      flushed_def user_message_def merge_parts_def is_text_part_def plain_part_def has_marker_def part_string_def ensure_def
      stream_field_def max_tokens_field_def require_positive_int_def MAX_OUTPUT_TOKENS_def sampling_field_def stop_field_def
      tools_field_def map_tool_choice_def effort_field_def output_config_effort_def thinking_effort_def)

theorem messages_request_is_chat_request_witness:
  "parse_chat_request (JObj [(''model'', JStr []), (''messages'', JList [JObj [(''role'', JStr ''user''), (''content'', JStr ''hi'')]]),
      (''stream'', JBool False), (''max_tokens'', JInt 10)])
   = Inr \<lparr>rq_model = [], rq_messages = [JObj [(''role'', JStr ''user''), (''content'', JStr ''hi'')]], rq_stream = False,
          rq_raw = [(''model'', JStr []), (''messages'', JList [JObj [(''role'', JStr ''user''), (''content'', JStr ''hi'')]]),
            (''stream'', JBool False), (''max_tokens'', JInt 10)]\<rparr>"
  using messages_request_is_chat_request[OF sample_parsed] by simp

section \<open>Nothing is lost on the way\<close>

text \<open>What a chat message says: the text of its content, its reasoning, the tool calls (id, name and arguments) and the
  call it answers.\<close>

definition obj_or :: "json \<Rightarrow> jobject" where
  "obj_or v = (case v of JObj d \<Rightarrow> d | _ \<Rightarrow> [])"

definition list_or :: "json \<Rightarrow> json list" where
  "list_or v = (case v of JList xs \<Rightarrow> xs | _ \<Rightarrow> [])"

definition string_or :: "json \<Rightarrow> string" where
  "string_or v = (case v of JStr s \<Rightarrow> s | _ \<Rightarrow> [])"

definition content_string :: "json \<Rightarrow> string" where
  "content_string v = (case v of JStr s \<Rightarrow> s | _ \<Rightarrow> concat (map (part_string \<circ> obj_or) (list_or v)))"

definition spoken :: "string \<Rightarrow> json \<Rightarrow> string" where
  "spoken role m = (if jget (obj_or m) ''role'' = JStr role then content_string (jget (obj_or m) ''content'') else [])"

definition reasoned :: "json \<Rightarrow> string" where
  "reasoned m = string_or (jget (obj_or m) ''reasoning_content'')"

definition call_view :: "json \<Rightarrow> json \<times> string \<times> string" where
  "call_view c =
     (let f = obj_or (jget (obj_or c) ''function'')
      in (jget (obj_or c) ''id'', string_or (jget f ''name''), string_or (jget f ''arguments'')))"

definition calls_made :: "json \<Rightarrow> (json \<times> string \<times> string) list" where
  "calls_made m = map call_view (list_or (jget (obj_or m) ''tool_calls''))"

definition answers :: "json \<Rightarrow> string list" where
  "answers m = (if jget (obj_or m) ''role'' = JStr ''tool'' then [string_or (jget (obj_or m) ''tool_call_id'')] else [])"

text \<open>The same read off a turn of the Messages request.\<close>

definition turn_blocks :: "string \<Rightarrow> json \<Rightarrow> jobject list" where
  "turn_blocks role v =
     (if jget (obj_or v) ''role'' = JStr role then map obj_or (list_or (jget (obj_or v) ''content'')) else [])"

definition blocks_of_kind :: "string \<Rightarrow> string \<Rightarrow> json \<Rightarrow> jobject list" where
  "blocks_of_kind role kind v = filter (\<lambda>b. jget b ''type'' = JStr kind) (turn_blocks role v)"

definition block_said :: "jobject \<Rightarrow> string" where
  "block_said b =
     (case jget b ''type'' of
        JStr kind \<Rightarrow>
          if kind = ''text'' then part_string b
          else if kind = ''document'' \<or> kind = ''tool_reference'' then placeholder_text kind b else []
      | _ \<Rightarrow> [])"

definition turn_said :: "string \<Rightarrow> json \<Rightarrow> string" where
  "turn_said role v =
     (if jget (obj_or v) ''role'' = JStr role
      then (case jget (obj_or v) ''content'' of JStr s \<Rightarrow> s | _ \<Rightarrow> concat (map block_said (turn_blocks role v))) else [])"

definition use_view :: "(jobject \<Rightarrow> string) \<Rightarrow> jobject \<Rightarrow> json \<times> string \<times> string" where
  "use_view dumps b =
     (if j_truthy (jget b ''id'') then jget b ''id'' else JStr ''call'', string_or (jget b ''name''),
      case jget b ''input'' of JObj d \<Rightarrow> dumps d | v \<Rightarrow> string_or v)"

lemma part_string_literal [simp]:
  "part_string (plain_part t) = t" "part_string (plain_part t @ opt_field ''cache_control'' m) = t"
  "part_string (url_part u @ opt_field ''cache_control'' m) = []"
  by (simp_all add: part_string_def plain_part_def url_part_def)

lemma text_part_said: "text_part b = Inr p \<Longrightarrow> part_string p = part_string b"
  by (drule text_part_Inr) (auto simp: part_string_def[of b])

lemma shown_part_said:
  assumes "shown_part b = Inr p"
  shows "part_string p = block_said b"
proof -
  obtain kind where kind: "jget b ''type'' = JStr kind"
    using assms by (auto simp: shown_part_def j_string_Some split: option.splits)
  with assms have "kind = ''text'' \<and> text_part b = Inr p \<or> kind = ''image'' \<and> image_part b = Inr p
      \<or> (kind = ''document'' \<or> kind = ''tool_reference'') \<and> p = plain_part (placeholder_text kind b)"
    by (auto simp: shown_part_def j_string_def split: if_splits)
  then show ?thesis
  proof (elim disjE conjE)
    assume "kind = ''text''" "text_part b = Inr p"
    with kind text_part_said[OF this(2)] show ?thesis by (simp add: block_said_def)
  next
    assume k: "kind = ''image''" "image_part b = Inr p"
    obtain u m where "p = url_part u @ opt_field ''cache_control'' m" using image_part_Inr[OF k(2)] by blast
    with kind k(1) show ?thesis by (simp add: block_said_def)
  qed (simp_all add: kind block_said_def)
qed

lemma merged_string [simp]: "content_string (merge_parts ps) = concat (map part_string ps)"
  by (simp add: merge_parts_def content_string_def list_or_def comp_def obj_or_def)

lemma flushed_views [simp]:
  "concat (map (spoken role) (flushed ps)) = (if role = ''user'' then concat (map part_string ps) else [])"
  "concat (map answers (flushed ps)) = []" "concat (map calls_made (flushed ps)) = []" "concat (map reasoned (flushed ps)) = []"
  by (simp_all add: flushed_def user_message_def spoken_def obj_or_def answers_def calls_made_def list_or_def reasoned_def string_or_def)

lemma tool_message_views:
  assumes "tool_message b = Inr m"
  shows "answers m = [string_or (jget b ''tool_use_id'')]" "calls_made m = []" "reasoned m = []"
    "role \<in> {''user'', ''assistant'', ''system''} \<Longrightarrow> spoken role m = []"
  using assms by (auto simp: tool_message_def try_simps marked_Inr j_text_Some answers_def obj_or_def calls_made_def list_or_def
      reasoned_def string_or_def spoken_def)

lemma as_block_Inr [simp]: "as_block v = Inr d \<longleftrightarrow> v = JObj d"
  by (cases v) (simp_all add: as_block_def)

lemma obj_or_JObj [simp]: "obj_or (JObj d) = d"
  by (simp add: obj_or_def)

abbreviation result_ids :: "jobject list \<Rightarrow> string list" where
  "result_ids bs \<equiv> map (\<lambda>b. string_or (jget b ''tool_use_id'')) (filter (\<lambda>b. jget b ''type'' = JStr ''tool_result'') bs)"

lemma user_messages_views:
  "user_messages bs ps = Inr ms \<Longrightarrow>
     concat (map answers ms) = result_ids (map obj_or bs) \<and> concat (map calls_made ms) = [] \<and> concat (map reasoned ms) = []
     \<and> concat (map (spoken ''user'') ms) = concat (map part_string ps) @ concat (map block_said (map obj_or bs))
     \<and> concat (map (spoken ''assistant'') ms) = [] \<and> concat (map (spoken ''system'') ms) = []"
proof (induction bs arbitrary: ps ms)
  case (Cons b bs)
  then obtain block where block: "b = JObj block" by (auto simp: try_simps)
  show ?case
  proof (cases "jget block ''type'' = JStr ''tool_result''")
    case True
    then obtain m rest where m: "tool_message block = Inr m" and "user_messages bs [] = Inr rest" "ms = flushed ps @ m # rest"
      using Cons.prems block by (auto simp: try_simps as_block_def)
    with Cons.IH[of "[]" rest] True tool_message_views[OF m] show ?thesis by (simp add: block block_said_def)
  next
    case False
    then obtain part where part: "shown_part block = Inr part" and "user_messages bs (ps @ [part]) = Inr ms"
      using Cons.prems block by (auto simp: try_simps as_block_def)
    with Cons.IH[of "ps @ [part]" ms] False shown_part_said[OF part] show ?thesis by (simp add: block)
  qed
qed (auto simp: flushed_def user_message_def spoken_def answers_def calls_made_def reasoned_def list_or_def string_or_def)

lemma tool_call_view: "tool_call dumps b = Inr c \<Longrightarrow> call_view (JObj c) = use_view dumps b"
  by (auto simp: tool_call_def try_simps marked_Inr j_text_Some input_arguments_def call_view_def use_view_def string_or_def
      split: json.splits)

definition collected_turn :: "(jobject \<Rightarrow> string) \<Rightarrow> jobject list \<Rightarrow> turn \<Rightarrow> turn \<Rightarrow> bool" where
  "collected_turn dumps bs t t' \<longleftrightarrow>
     concat (map part_string (tu_parts t')) = concat (map part_string (tu_parts t))
        @ concat (map part_string (filter (\<lambda>b. jget b ''type'' = JStr ''text'') bs))
     \<and> concat (tu_thinking t') = concat (tu_thinking t)
        @ concat (map (\<lambda>b. string_or (jget b ''thinking'')) (filter (\<lambda>b. jget b ''type'' = JStr ''thinking'') bs))
     \<and> map (call_view \<circ> JObj) (tu_calls t') = map (call_view \<circ> JObj) (tu_calls t)
        @ map (use_view dumps) (filter (\<lambda>b. jget b ''type'' = JStr ''tool_use'') bs)"

lemma assistant_turn_views:
  "assistant_turn dumps bs t = Inr t' \<Longrightarrow> collected_turn dumps (map obj_or bs) t t'"
proof (induction bs arbitrary: t)
  case (Cons b bs)
  then obtain block where block: "b = JObj block" by (auto simp: try_simps)
  obtain kind where kind: "jget block ''type'' = JStr kind"
    using Cons.prems block by (auto simp: try_simps as_block_def j_string_def split: json.splits)
  consider p where "kind = ''text''" "text_part block = Inr p" "assistant_turn dumps bs (t\<lparr>tu_parts := tu_parts t @ [p]\<rparr>) = Inr t'"
    | s where "kind = ''thinking''" "jget block ''thinking'' = JStr s"
        "assistant_turn dumps bs (t\<lparr>tu_thinking := tu_thinking t @ [s]\<rparr>) = Inr t'"
    | c where "kind = ''tool_use''" "tool_call dumps block = Inr c" "assistant_turn dumps bs (t\<lparr>tu_calls := tu_calls t @ [c]\<rparr>) = Inr t'"
    | "kind \<notin> {''text'', ''thinking'', ''tool_use''}" "assistant_turn dumps bs t = Inr t'"
    using Cons.prems by (simp add: block as_block_def kind j_string_def[of "JStr kind"] j_string_Some try_simps split: if_splits) blast+
  then show ?case
  proof cases
    case (1 p)
    with Cons.IH[OF 1(3)] text_part_said[OF 1(2)] kind show ?thesis by (simp add: collected_turn_def block)
  next
    case (2 s)
    with Cons.IH[OF 2(3)] kind show ?thesis by (simp add: collected_turn_def block string_or_def)
  next
    case (3 c)
    with Cons.IH[OF 3(3)] tool_call_view[OF 3(2)] kind show ?thesis by (simp add: collected_turn_def block)
  next
    case 4
    with Cons.IH[OF 4(2)] kind show ?thesis by (simp add: collected_turn_def block)
  qed
qed (simp add: collected_turn_def)

lemma turn_message_cases:
  obtains "turn_message t = None" "tu_parts t = []" "tu_thinking t = []" "tu_calls t = []"
  | d where "turn_message t = Some (JObj d)" "jget d ''role'' = JStr ''assistant''"
      "content_string (jget d ''content'') = concat (map part_string (tu_parts t))"
      "jget d ''reasoning_content'' = (if tu_thinking t = [] then JNull else JStr (concat (tu_thinking t)))"
      "jget d ''tool_calls'' = (if tu_calls t = [] then JNull else JList (map JObj (tu_calls t)))"
  by (cases "tu_parts t = [] \<and> tu_thinking t = [] \<and> tu_calls t = []")
    (simp_all add: turn_message_def content_string_def list_or_def comp_def)

lemma turn_message_views:
  assumes "ms = (case turn_message t of None \<Rightarrow> [] | Some x \<Rightarrow> [x])"
  shows "concat (map (spoken ''assistant'') ms) = concat (map part_string (tu_parts t))"
    "concat (map reasoned ms) = concat (tu_thinking t)" "concat (map calls_made ms) = map (call_view \<circ> JObj) (tu_calls t)"
    "concat (map answers ms) = []" "role \<noteq> ''assistant'' \<Longrightarrow> concat (map (spoken role) ms) = []"
  by (rule turn_message_cases[of t];
      simp add: assms spoken_def reasoned_def string_or_def calls_made_def list_or_def answers_def)+

lemma blocks_simps:
  "turn_blocks role (JObj d) = (if jget d ''role'' = JStr role then map obj_or (list_or (jget d ''content'')) else [])"
  by (simp add: turn_blocks_def)

text \<open>One turn: its calls, the calls it answers, its thinking and the text of each role.\<close>

definition turn_kept :: "(jobject \<Rightarrow> string) \<Rightarrow> json \<Rightarrow> json list \<Rightarrow> bool" where
  "turn_kept dumps v ms \<longleftrightarrow>
     concat (map answers ms) = result_ids (turn_blocks ''user'' v)
     \<and> concat (map calls_made ms) = map (use_view dumps) (blocks_of_kind ''assistant'' ''tool_use'' v)
     \<and> concat (map reasoned ms) = concat (map (\<lambda>b. string_or (jget b ''thinking'')) (blocks_of_kind ''assistant'' ''thinking'' v))
     \<and> concat (map (spoken ''user'') ms) = turn_said ''user'' v
     \<and> concat (map (spoken ''assistant'') ms) =
         (case jget (obj_or v) ''content'' of
            JStr s \<Rightarrow> if jget (obj_or v) ''role'' = JStr ''assistant'' then s else []
          | _ \<Rightarrow> concat (map part_string (blocks_of_kind ''assistant'' ''text'' v)))"

lemma map_turn_kept:
  assumes "map_turn dumps v = Inr ms"
  shows "turn_kept dumps v ms"
proof -
  obtain d where d: "v = JObj d" using assms by (auto simp: map_turn_def try_simps)
  consider s where "jget d ''role'' = JStr ''system''" "ms = [JObj [(''role'', JStr ''system''), (''content'', JStr s)]]"
    | s role where "role = ''user'' \<or> role = ''assistant''" "jget d ''role'' = JStr role" "jget d ''content'' = JStr s"
        "ms = [JObj [(''role'', JStr role), (''content'', JStr s)]]"
    | bs where "jget d ''role'' = JStr ''user''" "jget d ''content'' = JList bs" "user_messages bs [] = Inr ms"
    | bs t where "jget d ''role'' = JStr ''assistant''" "jget d ''content'' = JList bs"
        "assistant_turn dumps bs \<lparr>tu_parts = [], tu_thinking = [], tu_calls = []\<rparr> = Inr t"
        "ms = (case turn_message t of None \<Rightarrow> [] | Some x \<Rightarrow> [x])"
    using assms by (simp add: d map_turn_def as_block_def Let_def try_simps assistant_message_def split: if_splits json.splits) blast+
  then show ?thesis
  proof cases
    case (1 s)
    then show ?thesis by (auto simp: turn_kept_def d blocks_of_kind_def blocks_simps turn_said_def spoken_def answers_def calls_made_def
        list_or_def reasoned_def string_or_def split: json.splits)
  next
    case (2 s role)
    then show ?thesis by (auto simp: turn_kept_def d blocks_of_kind_def blocks_simps turn_said_def spoken_def answers_def calls_made_def
        list_or_def reasoned_def string_or_def content_string_def)
  next
    case (3 bs)
    with user_messages_views[OF 3(3)] show ?thesis
      by (simp add: turn_kept_def d blocks_of_kind_def blocks_simps turn_said_def list_or_def)
  next
    case (4 bs t)
    with assistant_turn_views[OF 4(3)] turn_message_views[OF 4(4)] show ?thesis
      by (simp add: turn_kept_def d blocks_of_kind_def blocks_simps turn_said_def list_or_def collected_turn_def)
  qed
qed

lemma try_map_concat:
  assumes "try_map f xs = Inr yss" and "\<And>x ys. f x = Inr ys \<Longrightarrow> concat (map g ys) = h x"
  shows "concat (map g (concat yss)) = concat (map h xs)"
  using assms by (induction xs arbitrary: yss) (auto simp: try_simps)

definition assistant_said :: "json \<Rightarrow> string" where
  "assistant_said v =
     (case jget (obj_or v) ''content'' of
        JStr s \<Rightarrow> if jget (obj_or v) ''role'' = JStr ''assistant'' then s else []
      | _ \<Rightarrow> concat (map part_string (blocks_of_kind ''assistant'' ''text'' v)))"

lemma map_turns_kept:
  assumes "map_turns dumps items = Inr ms"
  shows "concat (map answers ms) = concat (map (\<lambda>v. result_ids (turn_blocks ''user'' v)) items)"
    "concat (map calls_made ms) = concat (map (\<lambda>v. map (use_view dumps) (blocks_of_kind ''assistant'' ''tool_use'' v)) items)"
    "concat (map reasoned ms) =
       concat (map (\<lambda>v. concat (map (\<lambda>b. string_or (jget b ''thinking'')) (blocks_of_kind ''assistant'' ''thinking'' v))) items)"
    "concat (map (spoken ''user'') ms) = concat (map (turn_said ''user'') items)"
    "concat (map (spoken ''assistant'') ms) = concat (map assistant_said items)"
proof -
  obtain mss where mss: "try_map (map_turn dumps) items = Inr mss" "ms = concat mss"
    using assms by (auto simp: map_turns_def try_simps)
  note lifted = try_map_concat[OF mss(1)]
  show "concat (map answers ms) = concat (map (\<lambda>v. result_ids (turn_blocks ''user'' v)) items)"
    unfolding mss(2) by (rule lifted) (use map_turn_kept turn_kept_def in blast)
  show "concat (map calls_made ms) = concat (map (\<lambda>v. map (use_view dumps) (blocks_of_kind ''assistant'' ''tool_use'' v)) items)"
    unfolding mss(2) by (rule lifted) (use map_turn_kept turn_kept_def in blast)
  show "concat (map reasoned ms) =
       concat (map (\<lambda>v. concat (map (\<lambda>b. string_or (jget b ''thinking'')) (blocks_of_kind ''assistant'' ''thinking'' v))) items)"
    unfolding mss(2) by (rule lifted) (use map_turn_kept turn_kept_def in blast)
  show "concat (map (spoken ''user'') ms) = concat (map (turn_said ''user'') items)"
    unfolding mss(2) by (rule lifted) (use map_turn_kept turn_kept_def in blast)
  show "concat (map (spoken ''assistant'') ms) = concat (map assistant_said items)"
    unfolding mss(2) by (rule lifted) (use map_turn_kept turn_kept_def assistant_said_def in metis)
qed



section \<open>Longer conversations\<close>

lemma map_turns_append:
  "map_turns dumps (items @ more_items) = Inr ms \<Longrightarrow> map_turns dumps items = Inr ms1 \<Longrightarrow> \<exists>ms2. ms = ms1 @ ms2"
  by (auto simp: map_turns_def try_map_append try_simps)

lemma parse_messages_extended:
  assumes "parse_messages_request dumps efforts (JObj d) = Inr r" and "jget d ''messages'' = JList items"
    and "parse_messages_request dumps efforts (JObj (od_set ''messages'' (JList (items @ more_items)) d)) = Inr r'"
  shows "\<exists>tail. rq_messages r' = rq_messages r @ tail"
proof -
  let ?d = "od_set ''messages'' (JList (items @ more_items)) d"
  obtain sys turns where 1: "system_content (jget d ''system'') = Inr sys" "map_turns dumps items = Inr turns"
      "rq_messages r = (if j_truthy sys then [JObj [(''role'', JStr ''system''), (''content'', sys)]] else []) @ turns"
    using assms(1) by (rule parse_messages_request_Inr) (use assms(2) in \<open>auto simp: message_list_def split: if_splits\<close>)
  obtain sys' turns' where 2: "system_content (jget ?d ''system'') = Inr sys'" "map_turns dumps (items @ more_items) = Inr turns'"
      "rq_messages r' = (if j_truthy sys' then [JObj [(''role'', JStr ''system''), (''content'', sys')]] else []) @ turns'"
    using assms(3) by (rule parse_messages_request_Inr) (auto simp: message_list_def split: if_splits)
  have "sys' = sys" using 1(1) 2(1) by simp
  moreover obtain tail where "turns' = turns @ tail" using map_turns_append[OF 2(2) 1(2)] by blast
  ultimately show ?thesis using 1(3) 2(3) by simp
qed

text \<open>The head of the module lists attached documents among the blocks that are refused; they are replaced by a note.\<close>

theorem document_becomes_note:
  "map_turn dumps (JObj [(''role'', JStr ''user''), (''content'', JList [JObj [(''type'', JStr ''document'')]])])
     = Inr [JObj [(''role'', JStr ''user''),
         (''content'', JStr ''[document omitted: this gateway cannot forward document content]'')]]"
  by (simp add: map_turn_def shown_part_def j_string_def placeholder_text_def j_text_def flushed_def user_message_def merge_parts_def
      is_text_part_def plain_part_def has_marker_def part_string_def as_block_def)

end
