(* ===== verification/ResponsesRequest.thy ===== *)
theory ResponsesRequest
  imports AnthropicRequest
begin

text \<open>
  \<^verbatim>\<open>src/compat/responses/request.py\<close>: the mapping of a Responses request to the chat request of the
  engine. The item of the history, the tools and the fields of the body each have their own mapping; log
  texts and the texts of the errors are left out.
\<close>

section \<open>Content\<close>

definition UNSUPPORTED_ITEM_TYPES :: "string list" where
  "UNSUPPORTED_ITEM_TYPES =
     [''local_shell_call'', ''local_shell_call_output'', ''tool_search_call'', ''tool_search_output'', ''custom_tool_call'',
      ''custom_tool_call_output'', ''agent_message'', ''additional_tools'', ''compaction_trigger'', ''configuration_update'',
      ''context_compaction'', ''other'']"

definition DROPPED_ITEM_TYPES :: "string list" where
  "DROPPED_ITEM_TYPES = [''reasoning'', ''compaction'']"

definition content_part :: "jobject \<Rightarrow> req_fault + jobject" where
  "content_part part =
     (let kind = jget part ''type''
      in if kind \<in> {JStr ''input_text'', JStr ''text'', JStr ''output_text''}
         then try_bind (expect (j_string (jget part ''text''))) (\<lambda>t. Inr (plain_part t))
         else if kind = JStr ''input_image''
         then try_bind (expect (j_text (jget part ''image_url''))) (\<lambda>u. Inr (url_part u))
         else Inl InvalidRequest)"

definition content_value :: "json \<Rightarrow> req_fault + json" where
  "content_value v =
     (case v of
        JStr s \<Rightarrow> Inr (JStr s)
      | JList items \<Rightarrow>
          try_bind (try_map (\<lambda>p. try_bind (as_block p) content_part) items) (\<lambda>parts.
            Inr (if list_all is_text_part parts then JStr (concat (map part_string parts)) else JList (map JObj parts)))
      | _ \<Rightarrow> Inl InvalidRequest)"

definition text_content :: "json \<Rightarrow> req_fault + string" where
  "text_content v = try_bind (content_value v) (\<lambda>c. expect (j_string c))"

section \<open>Items of the history\<close>

definition arguments_to_json :: "json \<Rightarrow> req_fault + string" where
  "arguments_to_json v = (case v of JNull \<Rightarrow> Inr [] | JStr s \<Rightarrow> Inr s | _ \<Rightarrow> Inl InvalidRequest)"

definition message_item :: "jobject \<Rightarrow> string \<Rightarrow> req_fault + json" where
  "message_item it role =
     try_bind (content_value (jget it ''content'')) (\<lambda>c. Inr (JObj [(''role'', JStr role), (''content'', c)]))"

definition function_call_item :: "jobject \<Rightarrow> req_fault + json" where
  "function_call_item it =
     try_bind (expect (j_text (jget it ''name''))) (\<lambda>name.
     try_bind (arguments_to_json (jget it ''arguments'')) (\<lambda>arguments.
       Inr (JObj [(''role'', JStr ''assistant''), (''content'', JStr []), (''tool_calls'', JList [JObj
         [(''id'', if j_truthy (jget it ''call_id'') then jget it ''call_id''
                   else if j_truthy (jget it ''id'') then jget it ''id'' else JStr ''call''),
          (''type'', JStr ''function''),
          (''function'', JObj [(''name'', JStr name), (''arguments'', JStr arguments)])]])])))"

definition function_call_output_value :: "json \<Rightarrow> req_fault + json" where
  "function_call_output_value out =
     (case out of
        JStr s \<Rightarrow> Inr (JStr s)
      | JNull \<Rightarrow> Inr (JStr [])
      | JList xs \<Rightarrow> content_value (JList xs)
      | JObj d \<Rightarrow>
          (case jget d ''content'' of
             JStr s \<Rightarrow> Inr (JStr s)
           | _ \<Rightarrow> if jget d ''content_items'' = JNull then Inr (JStr []) else content_value (jget d ''content_items''))
      | _ \<Rightarrow> Inl InvalidRequest)"

definition function_call_output_item :: "jobject \<Rightarrow> req_fault + json" where
  "function_call_output_item it =
     try_bind (expect (j_text (jget it ''call_id''))) (\<lambda>call_id.
     try_bind (function_call_output_value (jget it ''output'')) (\<lambda>c.
       Inr (JObj [(''role'', JStr ''tool''), (''tool_call_id'', JStr call_id), (''content'', c)])))"

definition reasoning_texts :: "json \<Rightarrow> string list" where
  "reasoning_texts blocks =
     List.map_filter (\<lambda>b. case b of JObj d \<Rightarrow> j_string (jget d ''text'') | _ \<Rightarrow> None) (list_or blocks)"

definition reasoning_item :: "jobject \<Rightarrow> json option" where
  "reasoning_item it =
     (let t = concat (reasoning_texts (jget it ''summary'') @ reasoning_texts (jget it ''content''))
      in if t = [] then None
         else Some (JObj [(''role'', JStr ''assistant''), (''content'', JStr []), (''reasoning_content'', JStr t)]))"

definition role_of_item :: "json \<Rightarrow> req_fault + string" where
  "role_of_item v =
     (if v = JStr ''developer'' then Inr ''system''
      else if v \<in> {JStr ''user'', JStr ''assistant'', JStr ''system''} then Inr (string_or v) else Inl InvalidRequest)"

definition map_input_item :: "json \<Rightarrow> req_fault + json option" where
  "map_input_item v =
     try_bind (as_block v) (\<lambda>it.
       let kind = (case od_get it ''type'' of None \<Rightarrow> JStr ''message'' | Some k \<Rightarrow> k)
       in if kind \<in> set (map JStr UNSUPPORTED_ITEM_TYPES) then Inl InvalidRequest
          else if kind \<in> set (map JStr DROPPED_ITEM_TYPES) then Inr (if kind = JStr ''reasoning'' then reasoning_item it else None)
          else if kind = JStr ''message''
          then try_bind (role_of_item (jget it ''role'')) (\<lambda>role. try_bind (message_item it role) (\<lambda>m. Inr (Some m)))
          else if kind = JStr ''function_call'' then try_bind (function_call_item it) (\<lambda>m. Inr (Some m))
          else if kind = JStr ''function_call_output'' then try_bind (function_call_output_item it) (\<lambda>m. Inr (Some m))
          else Inl InvalidRequest)"

definition map_input :: "json \<Rightarrow> req_fault + json list" where
  "map_input v =
     (case v of
        JStr s \<Rightarrow> Inr [JObj [(''role'', JStr ''user''), (''content'', JStr s)]]
      | JList items \<Rightarrow> try_bind (try_map map_input_item items) (\<lambda>ms. Inr (List.map_filter id ms))
      | _ \<Rightarrow> Inl InvalidRequest)"

section \<open>Tools and formats\<close>

definition function_tool :: "jobject \<Rightarrow> req_fault + string \<times> jobject" where
  "function_tool tool =
     try_bind (expect (j_text (jget tool ''name''))) (\<lambda>name.
       Inr (name, [(''name'', JStr name)]
         @ opt_field ''description'' (map_option JStr (j_string (jget tool ''description'')))
         @ opt_field ''parameters'' (case jget tool ''parameters'' of JObj s \<Rightarrow> Some (JObj s) | _ \<Rightarrow> None)))"

definition member_function :: "json \<Rightarrow> req_fault + (string \<times> jobject) option" where
  "member_function v =
     try_bind (as_block v) (\<lambda>m.
       if jget m ''type'' \<noteq> JStr ''function'' then Inr None else try_bind (function_tool m) (\<lambda>f. Inr (Some f)))"

definition namespace_functions :: "jobject \<Rightarrow> req_fault + (string \<times> jobject) list" where
  "namespace_functions tool =
     try_bind (expect (j_text (jget tool ''name''))) (\<lambda>namespace.
       case jget tool ''tools'' of
         JNull \<Rightarrow> Inr []
       | JList members \<Rightarrow>
           if namespace \<noteq> ''functions'' then Inr []
           else try_bind (try_map member_function members) (\<lambda>fs. Inr (List.map_filter id fs))
       | _ \<Rightarrow> Inl InvalidRequest)"

text \<open>The functions one entry of the list contributes; the loop keeps the first of each name.\<close>

definition tool_functions :: "json \<Rightarrow> req_fault + (string \<times> jobject) list" where
  "tool_functions v =
     try_bind (as_block v) (\<lambda>tool.
       if jget tool ''type'' = JStr ''namespace'' then namespace_functions tool
       else if jget tool ''type'' \<noteq> JStr ''function'' then Inr []
       else try_bind (function_tool tool) (\<lambda>f. Inr [f]))"

fun keep_new :: "(string \<times> jobject) list \<Rightarrow> string set \<Rightarrow> (string \<times> jobject) list" where
  "keep_new [] seen = []"
| "keep_new ((name, f) # fs) seen =
     (if name \<in> seen then keep_new fs seen else (name, f) # keep_new fs (insert name seen))"

definition response_tools :: "json list \<Rightarrow> req_fault + json list" where
  "response_tools tools =
     try_bind (try_map tool_functions tools) (\<lambda>fss.
       Inr (map (\<lambda>(_, f). JObj [(''type'', JStr ''function''), (''function'', JObj f)]) (keep_new (concat fss) {})))"

definition response_format_of :: "jobject \<Rightarrow> req_fault + json option" where
  "response_format_of config =
     (case jget config ''format'' of
        JNull \<Rightarrow> Inr None
      | JObj f \<Rightarrow>
          if jget f ''type'' \<in> {JStr ''text'', JStr ''json_object''} then Inr (Some (JObj [(''type'', jget f ''type'')]))
          else if jget f ''type'' \<noteq> JStr ''json_schema'' then Inl InvalidRequest
          else try_bind (normalize_response_format (JObj [(''type'', JStr ''json_schema''), (''json_schema'', JObj
                 ([(''name'', jget f ''name'')] @ opt_field ''schema'' (od_get f ''schema'')
                  @ opt_field ''description'' (map_option JStr (j_string (jget f ''description'')))
                  @ opt_field ''strict'' (map_option JBool (j_bool (jget f ''strict'')))))])) (\<lambda>w. Inr (Some w))
      | _ \<Rightarrow> Inl InvalidRequest)"

definition response_tool_choice :: "json \<Rightarrow> req_fault + json" where
  "response_tool_choice v =
     (case v of
        JNull \<Rightarrow> Inr JNull
      | JStr s \<Rightarrow> Inr (JStr s)
      | JObj d \<Rightarrow>
          if jget d ''type'' = JStr ''function''
          then try_bind (expect (j_text (jget d ''name''))) (\<lambda>name.
                 Inr (JObj [(''type'', JStr ''function''), (''function'', JObj [(''name'', JStr name)])]))
          else Inl InvalidRequest
      | _ \<Rightarrow> Inl InvalidRequest)"

section \<open>The request\<close>

text \<open>What a stateless gateway cannot honour.\<close>

definition check_stateless :: "jobject \<Rightarrow> req_fault + unit" where
  "check_stateless d =
     ensure (jget d ''store'' \<in> {JNull, JBool False} \<and> jget d ''previous_response_id'' = JNull
       \<and> jget d ''background'' \<noteq> JBool True
       \<and> (\<not> j_truthy (jget d ''include'')
          \<or> (case jget d ''include'' of JList xs \<Rightarrow> list_all (\<lambda>x. x = JStr ''reasoning.encrypted_content'') xs | _ \<Rightarrow> False)))
       InvalidRequest"

definition instructions_text :: "jobject \<Rightarrow> req_fault + string" where
  "instructions_text d = (if jget d ''instructions'' = JNull then Inr [] else text_content (jget d ''instructions''))"

definition choice_field :: "jobject \<Rightarrow> req_fault + json option" where
  "choice_field d =
     (case od_get d ''tool_choice'' of None \<Rightarrow> Inr None | Some v \<Rightarrow> try_bind (response_tool_choice v) (\<lambda>w. Inr (Some w)))"

definition output_tokens_field :: "jobject \<Rightarrow> req_fault + json option" where
  "output_tokens_field d =
     (if jget d ''max_output_tokens'' = JNull then Inr None
      else try_bind (require_positive_int (jget d ''max_output_tokens'') MAX_OUTPUT_TOKENS) (\<lambda>n. Inr (Some (JInt n))))"

definition text_format :: "jobject \<Rightarrow> req_fault + json option" where
  "text_format d = (case jget d ''text'' of JObj config \<Rightarrow> response_format_of config | _ \<Rightarrow> Inr None)"

definition parse_responses_request :: "json \<Rightarrow> req_fault + chat_request" where
  "parse_responses_request body =
     (case body of
        JObj d \<Rightarrow>
          try_bind (check_stateless d) (\<lambda>_.
          try_bind (model_field d) (\<lambda>model.
          try_bind (instructions_text d) (\<lambda>sys.
          try_bind (map_input (jget d ''input'')) (\<lambda>turns.
          let ms = (if sys \<noteq> [] then [JObj [(''role'', JStr ''system''), (''content'', JStr sys)]] else []) @ turns in
          try_bind (ensure (ms \<noteq> []) InvalidRequest) (\<lambda>_.
          try_bind (stream_field d) (\<lambda>stream.
          try_bind (tools_field response_tools d) (\<lambda>tools.
          try_bind (sampling_field checked_temperature ''temperature'' d) (\<lambda>temperature.
          try_bind (sampling_field checked_float ''top_p'' d) (\<lambda>top_p.
          try_bind (choice_field d) (\<lambda>choice.
          try_bind (output_tokens_field d) (\<lambda>limit.
          try_bind (text_format d) (\<lambda>format.
            Inr \<lparr>rq_model = model, rq_messages = ms, rq_stream = stream,
                 rq_raw = [(''model'', JStr model), (''messages'', JList ms), (''stream'', JBool stream)]
                   @ opt_field ''tools'' tools @ opt_field ''temperature'' temperature @ opt_field ''top_p'' top_p
                   @ opt_field ''tool_choice'' choice
                   @ opt_field ''parallel_tool_calls'' (map_option JBool (j_bool (jget d ''parallel_tool_calls'')))
                   @ opt_field ''max_tokens'' limit
                   @ opt_field ''reasoning_effort''
                       (case jget d ''reasoning'' of JObj x \<Rightarrow> map_option JStr (j_string (jget x ''effort'')) | _ \<Rightarrow> None)
                   @ opt_field ''prompt_cache_key'' (map_option JStr (j_text (jget d ''prompt_cache_key'')))
                   @ opt_field ''verbosity''
                       (case jget d ''text'' of JObj x \<Rightarrow> map_option JStr (j_string (jget x ''verbosity'')) | _ \<Rightarrow> None)
                   @ opt_field ''response_format'' format\<rparr>))))))))))))
      | _ \<Rightarrow> Inl InvalidRequest)"

section \<open>The result is a chat request\<close>

declare map_of_append [simp del]

lemma content_part_Inr: "content_part b = Inr p \<Longrightarrow> (\<exists>t. p = plain_part t) \<or> (\<exists>u. u \<noteq> [] \<and> p = url_part u)"
  by (auto simp: content_part_def Let_def try_simps j_text_Some split: if_splits)

lemma content_part_good: "content_part b = Inr p \<Longrightarrow> good_part p"
  by (drule content_part_Inr) (auto simp: good_part_def image_url_ok_def plain_part_def url_part_def)

lemma content_value_good:
  assumes "content_value v = Inr c"
  shows "good_content c"
proof (cases v)
  case (JList items)
  then obtain parts where p: "try_map (\<lambda>p. try_bind (as_block p) content_part) items = Inr parts"
      "c = (if list_all is_text_part parts then JStr (concat (map part_string parts)) else JList (map JObj parts))"
    using assms by (auto simp: content_value_def try_simps)
  have "list_all good_part parts" by (rule try_map_all[OF p(1)]) (auto simp: try_simps intro: content_part_good)
  then show ?thesis by (simp add: p(2) good_content_def good_part_def list_all_iff)
qed (use assms in \<open>auto simp: content_value_def good_content_def\<close>)

lemma output_value_good:
  assumes "function_call_output_value v = Inr c"
  shows "good_content c"
proof (cases v)
  case (JList xs)
  with assms show ?thesis by (simp add: function_call_output_value_def content_value_good)
next
  case (JObj d)
  with assms have "good_content c \<or> content_value (jget d ''content_items'') = Inr c"
    by (auto simp: function_call_output_value_def good_content_def split: json.splits if_splits)
  with content_value_good show ?thesis by blast
qed (use assms in \<open>auto simp: function_call_output_value_def good_content_def\<close>)

text \<open>The ways an item of the history is mapped.\<close>

lemma map_input_item_cases:
  assumes "map_input_item v = Inr out"
  obtains (dropped) it where "v = JObj it" "od_get it ''type'' = Some (JStr ''compaction'')" "out = None"
  | (reasoning) it where "v = JObj it" "od_get it ''type'' = Some (JStr ''reasoning'')" "out = reasoning_item it"
  | (message) it role c where "v = JObj it" "od_get it ''type'' \<in> {None, Some (JStr ''message'')}"
      "role_of_item (jget it ''role'') = Inr role" "content_value (jget it ''content'') = Inr c"
      "out = Some (JObj [(''role'', JStr role), (''content'', c)])"
  | (call) it m where "v = JObj it" "od_get it ''type'' = Some (JStr ''function_call'')" "function_call_item it = Inr m" "out = Some m"
  | (answer) it m where "v = JObj it" "od_get it ''type'' = Some (JStr ''function_call_output'')"
      "function_call_output_item it = Inr m" "out = Some m"
proof -
  obtain it where it: "v = JObj it" using assms by (auto simp: map_input_item_def try_simps)
  show ?thesis
  proof (cases "od_get it ''type''")
    case None
    with assms it that(3) show ?thesis
      by (auto simp: map_input_item_def as_block_def Let_def UNSUPPORTED_ITEM_TYPES_def DROPPED_ITEM_TYPES_def message_item_def try_simps)
  next
    case (Some k)
    from assms it Some consider "k = JStr ''reasoning''" "out = reasoning_item it" | "k = JStr ''compaction''" "out = None"
      | role c where "k = JStr ''message''" "role_of_item (jget it ''role'') = Inr role" "content_value (jget it ''content'') = Inr c"
          "out = Some (JObj [(''role'', JStr role), (''content'', c)])"
      | m where "k = JStr ''function_call''" "function_call_item it = Inr m" "out = Some m"
      | m where "k = JStr ''function_call_output''" "function_call_output_item it = Inr m" "out = Some m"
      by (auto simp: map_input_item_def as_block_def Let_def DROPPED_ITEM_TYPES_def message_item_def try_simps split: if_splits)
    then show ?thesis using that it Some by cases auto
  qed
qed

lemma role_of_item_Inr: "role_of_item v = Inr role \<Longrightarrow> role \<in> {''user'', ''assistant'', ''system''}"
  by (auto simp: role_of_item_def string_or_def split: if_splits)

lemma function_call_output_Inr:
  assumes "function_call_output_item it = Inr m"
  obtains c content where "jget it ''call_id'' = JStr c" "c \<noteq> []" "function_call_output_value (jget it ''output'') = Inr content"
    "m = JObj [(''role'', JStr ''tool''), (''tool_call_id'', JStr c), (''content'', content)]"
  using assms unfolding function_call_output_item_def by (auto simp: try_bind_Inr j_text_Some)

lemma function_call_output_good: "function_call_output_item it = Inr m \<Longrightarrow> good_message m"
  by (erule function_call_output_Inr) (simp add: good_message_def j_text_def output_value_good)

lemma map_input_item_good: "map_input_item v = Inr (Some m) \<Longrightarrow> good_message m"
proof (erule map_input_item_cases)
  fix it role c
  assume "role_of_item (jget it ''role'') = Inr role" "content_value (jget it ''content'') = Inr c"
    "Some m = Some (JObj [(''role'', JStr role), (''content'', c)])"
  then show ?thesis using role_of_item_Inr content_value_good by (auto simp: good_message_def)
next
  fix it m'
  assume "function_call_output_item it = Inr m'" "Some m = Some m'"
  then show ?thesis using function_call_output_good by simp
qed (auto simp: reasoning_item_def Let_def function_call_item_def try_simps good_message_def good_content_def split: if_splits)

lemma map_input_good: "map_input v = Inr ms \<Longrightarrow> list_all good_message ms"
proof (cases v)
  case (JList items)
  assume "map_input v = Inr ms"
  then obtain outs where outs: "try_map map_input_item items = Inr outs" "ms = List.map_filter id outs"
    using JList by (auto simp: map_input_def try_simps)
  have "list_all (\<lambda>x. \<forall>m. x = Some m \<longrightarrow> good_message m) outs" by (rule try_map_all[OF outs(1)]) (auto dest: map_input_item_good)
  then show ?thesis by (auto simp: outs(2) list_all_iff List.map_filter_def)
qed (auto simp: map_input_def good_message_def good_content_def)

lemma parse_responses_request_Inr:
  assumes "parse_responses_request body = Inr r"
  obtains d sys turns tools temperature top_p choice limit format rest where "body = JObj d" "instructions_text d = Inr sys"
    "map_input (jget d ''input'') = Inr turns"
    "rq_messages r = (if sys \<noteq> [] then [JObj [(''role'', JStr ''system''), (''content'', JStr sys)]] else []) @ turns"
    "rq_messages r \<noteq> []" "sampling_field checked_temperature ''temperature'' d = Inr temperature"
    "sampling_field checked_float ''top_p'' d = Inr top_p" "output_tokens_field d = Inr limit" "text_format d = Inr format"
    "rq_raw r = [(''model'', JStr (rq_model r)), (''messages'', JList (rq_messages r)), (''stream'', JBool (rq_stream r))]
       @ opt_field ''tools'' tools @ opt_field ''temperature'' temperature @ opt_field ''top_p'' top_p
       @ opt_field ''tool_choice'' choice
       @ opt_field ''parallel_tool_calls'' (map_option JBool (j_bool (jget d ''parallel_tool_calls'')))
       @ opt_field ''max_tokens'' limit
       @ opt_field ''reasoning_effort''
           (case jget d ''reasoning'' of JObj x \<Rightarrow> map_option JStr (j_string (jget x ''effort'')) | _ \<Rightarrow> None)
       @ opt_field ''prompt_cache_key'' (map_option JStr (j_text (jget d ''prompt_cache_key'')))
       @ opt_field ''verbosity'' (case jget d ''text'' of JObj x \<Rightarrow> map_option JStr (j_string (jget x ''verbosity'')) | _ \<Rightarrow> None)
       @ opt_field ''response_format'' format"
  using assms by (cases body) (auto simp: parse_responses_request_def try_simps Let_def)

lemma text_format_settled:
  assumes "text_format d = Inr (Some w)"
  shows "normalize_response_format w = Inr w"
proof -
  obtain config where "jget d ''text'' = JObj config" "response_format_of config = Inr (Some w)"
    using assms by (auto simp: text_format_def split: json.splits)
  then obtain f where f: "jget config ''format'' = JObj f" by (auto simp: response_format_of_def split: json.splits)
  with \<open>response_format_of config = Inr (Some w)\<close> consider "w = JObj [(''type'', JStr ''text'')]" | "w = JObj [(''type'', JStr ''json_object'')]"
    | v where "normalize_response_format v = Inr w"
    by (auto simp: response_format_of_def try_simps split: if_splits)
  then show ?thesis
    by cases (auto simp: normalize_response_format_def[of "JObj _"] dest: response_format_settles)
qed

lemma output_tokens_limit:
  assumes "output_tokens_field d = Inr v" and "od_get raw ''max_tokens'' = v"
  shows "output_limit_ok raw ''max_tokens'' = Inr ()"
proof (cases v)
  case None
  with assms show ?thesis by (simp add: output_limit_ok_def jget_def)
next
  case (Some w)
  then obtain n where n: "require_positive_int (jget d ''max_output_tokens'') MAX_OUTPUT_TOKENS = Inr n" "w = JInt n"
    using assms(1) by (auto simp: output_tokens_field_def try_simps split: if_splits)
  from positive_int_again[OF n(1)] Some assms(2) n(2) show ?thesis by (simp add: output_limit_ok_def jget_def)
qed

lemma responses_request_ok:
  assumes "parse_responses_request body = Inr r"
  shows "request_ok r"
proof (rule parse_responses_request_Inr[OF assms])
  fix d sys turns tools temperature top_p choice limit format
  assume p: "map_input (jget d ''input'') = Inr turns"
    "rq_messages r = (if sys \<noteq> [] then [JObj [(''role'', JStr ''system''), (''content'', JStr sys)]] else []) @ turns"
    "rq_messages r \<noteq> []" "sampling_field checked_temperature ''temperature'' d = Inr temperature"
    "sampling_field checked_float ''top_p'' d = Inr top_p" "output_tokens_field d = Inr limit" "text_format d = Inr format"
    and raw: "rq_raw r = [(''model'', JStr (rq_model r)), (''messages'', JList (rq_messages r)), (''stream'', JBool (rq_stream r))]
       @ opt_field ''tools'' tools @ opt_field ''temperature'' temperature @ opt_field ''top_p'' top_p
       @ opt_field ''tool_choice'' choice
       @ opt_field ''parallel_tool_calls'' (map_option JBool (j_bool (jget d ''parallel_tool_calls'')))
       @ opt_field ''max_tokens'' limit
       @ opt_field ''reasoning_effort''
           (case jget d ''reasoning'' of JObj x \<Rightarrow> map_option JStr (j_string (jget x ''effort'')) | _ \<Rightarrow> None)
       @ opt_field ''prompt_cache_key'' (map_option JStr (j_text (jget d ''prompt_cache_key'')))
       @ opt_field ''verbosity'' (case jget d ''text'' of JObj x \<Rightarrow> map_option JStr (j_string (jget x ''verbosity'')) | _ \<Rightarrow> None)
       @ opt_field ''response_format'' format"
  have get: "od_get (rq_raw r) ''max_tokens'' = limit" "od_get (rq_raw r) ''temperature'' = temperature"
      "od_get (rq_raw r) ''top_p'' = top_p" "od_get (rq_raw r) ''response_format'' = format"
      "\<forall>k \<in> {''presence_penalty'', ''frequency_penalty'', ''seed'', ''n'', ''logit_bias'', ''max_completion_tokens''}. od_get (rq_raw r) k = None"
    unfolding raw by (simp_all split: option.splits)
  have "good_message (JObj [(''role'', JStr ''system''), (''content'', JStr sys)])" by (simp add: good_message_def good_content_def)
  then have good: "list_all good_message (rq_messages r)" using map_input_good[OF p(1)] by (simp add: p(2))
  have "\<forall>v. temperature = Some v \<longrightarrow> checked_temperature v = Inr v" "\<forall>v. top_p = Some v \<longrightarrow> checked_float v = Inr v"
    using p(4,5) by (auto simp: sampling_field_def try_simps checked_again split: option.splits)
  moreover have "response_format_field (rq_raw r) = Inr (rq_raw r)"
    using get(4) p(7) text_format_settled by (cases format) (auto simp: response_format_field_alt jget_def try_simps od_set_same)
  ultimately show "request_ok r"
    by (intro good_request_ok[OF good p(3) refl]) (use get output_tokens_limit[OF p(6)] in \<open>simp_all add: raw\<close>)
qed

text \<open>What a Responses request is mapped to is a request the chat interface accepts and would forward unchanged.\<close>

theorem responses_request_is_chat_request:
  assumes "parse_responses_request body = Inr r"
  shows "parse_chat_request (JObj (rq_raw r)) = Inr r"
  by (rule request_ok_accepted, rule responses_request_ok[OF assms])

definition sample_responses :: json where
  "sample_responses = JObj [(''input'', JList
     [JObj [(''type'', JStr ''function_call''), (''call_id'', JStr ''a''), (''name'', JStr ''f'')],
      JObj [(''type'', JStr ''function_call_output''), (''call_id'', JStr ''a''), (''output'', JStr ''ok'')]])]"

definition sample_history :: "json list" where
  "sample_history =
     [JObj [(''role'', JStr ''assistant''), (''content'', JStr []), (''tool_calls'', JList [JObj
        [(''id'', JStr ''a''), (''type'', JStr ''function''), (''function'', JObj [(''name'', JStr ''f''), (''arguments'', JStr [])])]])],
      JObj [(''role'', JStr ''tool''), (''tool_call_id'', JStr ''a''), (''content'', JStr ''ok'')]]"

lemma sample_responses_parsed:
  "parse_responses_request sample_responses =
     Inr \<lparr>rq_model = [], rq_messages = sample_history, rq_stream = False,
          rq_raw = [(''model'', JStr []), (''messages'', JList sample_history), (''stream'', JBool False)]\<rparr>"
  by (simp add: parse_responses_request_def sample_responses_def sample_history_def check_stateless_def ensure_def model_field_def
      instructions_text_def map_input_def map_input_item_def as_block_def Let_def UNSUPPORTED_ITEM_TYPES_def DROPPED_ITEM_TYPES_def
      function_call_item_def function_call_output_item_def expect_def j_text_def arguments_to_json_def function_call_output_value_def
      List.map_filter_def stream_field_def tools_field_def sampling_field_def choice_field_def output_tokens_field_def text_format_def
      opt_field_def j_bool_def)

theorem responses_request_is_chat_request_witness:
  "parse_chat_request (JObj [(''model'', JStr []), (''messages'', JList sample_history), (''stream'', JBool False)])
   = Inr \<lparr>rq_model = [], rq_messages = sample_history, rq_stream = False,
          rq_raw = [(''model'', JStr []), (''messages'', JList sample_history), (''stream'', JBool False)]\<rparr>"
  using responses_request_is_chat_request[OF sample_responses_parsed] by simp

section \<open>Nothing is lost on the way\<close>

definition item_type :: "json \<Rightarrow> json" where
  "item_type v = (case od_get (obj_or v) ''type'' of None \<Rightarrow> JStr ''message'' | Some k \<Rightarrow> k)"

definition value_said :: "json \<Rightarrow> string" where
  "value_said v = (case v of JStr s \<Rightarrow> s | _ \<Rightarrow>
     concat (map (\<lambda>p. if jget (obj_or p) ''type'' \<in> {JStr ''input_text'', JStr ''text'', JStr ''output_text''} then part_string (obj_or p) else [])
       (list_or v)))"

definition item_said :: "string list \<Rightarrow> json \<Rightarrow> string" where
  "item_said roles v =
     (if item_type v = JStr ''message'' \<and> jget (obj_or v) ''role'' \<in> JStr ` set roles then value_said (jget (obj_or v) ''content'') else [])"

definition item_calls :: "json \<Rightarrow> (json \<times> string \<times> string) list" where
  "item_calls v =
     (if item_type v = JStr ''function_call''
      then let it = obj_or v in
        [(if j_truthy (jget it ''call_id'') then jget it ''call_id''
          else if j_truthy (jget it ''id'') then jget it ''id'' else JStr ''call'',
          string_or (jget it ''name''), string_or (jget it ''arguments''))]
      else [])"

definition item_answers :: "json \<Rightarrow> string list" where
  "item_answers v = (if item_type v = JStr ''function_call_output'' then [string_or (jget (obj_or v) ''call_id'')] else [])"

lemma content_value_said:
  assumes "content_value v = Inr c"
  shows "content_string c = value_said v"
proof (cases v)
  case (JList items)
  then obtain parts where p: "try_map (\<lambda>p. try_bind (as_block p) content_part) items = Inr parts"
      "c = (if list_all is_text_part parts then JStr (concat (map part_string parts)) else JList (map JObj parts))"
    using assms by (auto simp: content_value_def try_simps)
  have part: "part_string q =
      (if jget b ''type'' \<in> {JStr ''input_text'', JStr ''text'', JStr ''output_text''} then part_string b else [])"
    if "content_part b = Inr q" for b q
  proof (cases "jget b ''type'' \<in> {JStr ''input_text'', JStr ''text'', JStr ''output_text''}")
    case True
    with that obtain t where "jget b ''text'' = JStr t" "q = plain_part t" by (auto simp: content_part_def try_simps j_string_Some)
    with True show ?thesis by (simp add: part_string_def[of b])
  next
    case False
    with that obtain u where "q = url_part u" by (auto simp: content_part_def Let_def try_simps split: if_splits)
    with False show ?thesis by (simp add: url_part_def part_string_def[of "[_, _]"])
  qed
  have "concat (map part_string parts) = value_said v"
    using p(1) part unfolding JList value_said_def list_or_def json.case
    by (induction items arbitrary: parts) (auto simp: try_simps)
  then show ?thesis by (simp add: p(2) content_string_def list_or_def comp_def)
qed (use assms in \<open>auto simp: content_value_def content_string_def value_said_def\<close>)

lemma try_map_filter_concat:
  assumes "try_map f xs = Inr os" and "\<And>x out. f x = Inr out \<Longrightarrow> (case out of None \<Rightarrow> [] | Some m \<Rightarrow> g m) = h x"
  shows "concat (map g (List.map_filter id os)) = concat (map h xs)"
  using assms(1)
proof (induction xs arbitrary: os)
  case (Cons x xs)
  then obtain out rest where "f x = Inr out" "try_map f xs = Inr rest" "os = out # rest" by (auto simp: try_simps)
  with Cons.IH[of rest] assms(2)[of x out] show ?case by (cases out) (auto simp: List.map_filter_def)
qed (simp add: List.map_filter_def)

definition item_kept :: "json \<Rightarrow> json option \<Rightarrow> bool" where
  "item_kept v out \<longleftrightarrow>
     (case out of None \<Rightarrow> [] | Some m \<Rightarrow> answers m) = item_answers v
     \<and> (case out of None \<Rightarrow> [] | Some m \<Rightarrow> calls_made m) = item_calls v
     \<and> (case out of None \<Rightarrow> [] | Some m \<Rightarrow> spoken ''user'' m) = item_said [''user''] v
     \<and> (case out of None \<Rightarrow> [] | Some m \<Rightarrow> spoken ''assistant'' m) = item_said [''assistant''] v
     \<and> (case out of None \<Rightarrow> [] | Some m \<Rightarrow> spoken ''system'' m) = item_said [''system'', ''developer''] v"

lemmas item_views = item_kept_def item_answers_def item_calls_def item_said_def item_type_def answers_def calls_made_def spoken_def list_or_def

lemma function_call_item_Inr:
  assumes "function_call_item it = Inr m"
  obtains name args where "jget it ''name'' = JStr name" "jget it ''arguments'' \<in> {JNull, JStr args}" "string_or (jget it ''arguments'') = args"
    "m = JObj [(''role'', JStr ''assistant''), (''content'', JStr []), (''tool_calls'', JList [JObj
         [(''id'', if j_truthy (jget it ''call_id'') then jget it ''call_id''
                   else if j_truthy (jget it ''id'') then jget it ''id'' else JStr ''call''),
          (''type'', JStr ''function''),
          (''function'', JObj [(''name'', JStr name), (''arguments'', JStr args)])]])]"
  using assms unfolding function_call_item_def arguments_to_json_def string_or_def
  by (auto simp: try_bind_Inr j_text_Some split: json.splits)

lemma map_input_item_kept:
  assumes "map_input_item v = Inr out"
  shows "item_kept v out"
  using assms
proof (cases rule: map_input_item_cases)
  case (dropped it)
  then show ?thesis by (simp add: item_views)
next
  case (reasoning it)
  then show ?thesis by (simp add: item_views reasoning_item_def Let_def content_string_def)
next
  case (message it role c)
  have said: "content_string c = value_said (jget it ''content'')" by (rule content_value_said[OF message(4)])
  have "jget it ''role'' = JStr ''developer'' \<and> role = ''system'' \<or> jget it ''role'' = JStr role \<and> role \<in> {''user'', ''assistant'', ''system''}"
    using message(3) by (auto simp: role_of_item_def string_or_def split: if_splits)
  moreover have "item_type v = JStr ''message''" using message(1,2) by (auto simp: item_type_def)
  then have "item_answers v = []" "item_calls v = []"
      "item_said roles v = (if jget it ''role'' \<in> JStr ` set roles then content_string c else [])" for roles
    by (simp_all add: item_answers_def item_calls_def item_said_def message(1) said)
  moreover have "answers (JObj [(''role'', JStr role), (''content'', c)]) = []" if "role \<noteq> ''tool''"
    using that by (simp add: answers_def)
  moreover have "calls_made (JObj [(''role'', JStr role), (''content'', c)]) = []" by (simp add: calls_made_def list_or_def)
  ultimately show ?thesis unfolding item_kept_def message(5) option.case
    by (elim disjE conjE insertE) (simp_all add: spoken_def)
next
  case (call it m)
  from call(3) show ?thesis
    by (rule function_call_item_Inr) (simp add: call item_views Let_def call_view_def string_or_def content_string_def)
next
  case (answer it m)
  from answer(3) show ?thesis
    by (rule function_call_output_Inr) (simp add: answer item_views string_or_def)
qed

lemma map_input_kept:
  assumes "map_input (JList items) = Inr ms"
  shows "concat (map answers ms) = concat (map item_answers items)" "concat (map calls_made ms) = concat (map item_calls items)"
    "concat (map (spoken ''user'') ms) = concat (map (item_said [''user'']) items)"
    "concat (map (spoken ''assistant'') ms) = concat (map (item_said [''assistant'']) items)"
    "concat (map (spoken ''system'') ms) = concat (map (item_said [''system'', ''developer'']) items)"
proof -
  obtain outs where outs: "try_map map_input_item items = Inr outs" "ms = List.map_filter id outs"
    using assms by (auto simp: map_input_def try_simps)
  note lifted = try_map_filter_concat[OF outs(1)]
  show "concat (map answers ms) = concat (map item_answers items)"
    unfolding outs(2) by (rule lifted) (use map_input_item_kept item_kept_def in blast)
  show "concat (map calls_made ms) = concat (map item_calls items)"
    unfolding outs(2) by (rule lifted) (use map_input_item_kept item_kept_def in blast)
  show "concat (map (spoken ''user'') ms) = concat (map (item_said [''user'']) items)"
    unfolding outs(2) by (rule lifted) (use map_input_item_kept item_kept_def in blast)
  show "concat (map (spoken ''assistant'') ms) = concat (map (item_said [''assistant'']) items)"
    unfolding outs(2) by (rule lifted) (use map_input_item_kept item_kept_def in blast)
  show "concat (map (spoken ''system'') ms) = concat (map (item_said [''system'', ''developer'']) items)"
    unfolding outs(2) by (rule lifted) (use map_input_item_kept item_kept_def in blast)
qed



lemma parse_responses_extended:
  assumes "parse_responses_request (JObj d) = Inr r" and "jget d ''input'' = JList items"
    and "parse_responses_request (JObj (od_set ''input'' (JList (items @ more_items)) d)) = Inr r'"
  shows "\<exists>tail. rq_messages r' = rq_messages r @ tail"
proof -
  let ?d = "od_set ''input'' (JList (items @ more_items)) d"
  obtain sys turns where 1: "instructions_text d = Inr sys" "map_input (JList items) = Inr turns"
      "rq_messages r = (if sys \<noteq> [] then [JObj [(''role'', JStr ''system''), (''content'', JStr sys)]] else []) @ turns"
    using assms(1) by (rule parse_responses_request_Inr) (use assms(2) in auto)
  obtain sys' turns' where 2: "instructions_text ?d = Inr sys'" "map_input (JList (items @ more_items)) = Inr turns'"
      "rq_messages r' = (if sys' \<noteq> [] then [JObj [(''role'', JStr ''system''), (''content'', JStr sys')]] else []) @ turns'"
    using assms(3) by (rule parse_responses_request_Inr) auto
  have "sys' = sys" using 1(1) 2(1) by (simp add: instructions_text_def split: if_splits)
  moreover have "\<exists>tail. turns' = turns @ tail"
    using 1(2) 2(2) by (auto simp: map_input_def try_map_append try_simps List.map_filter_def)
  ultimately show ?thesis using 1(3) 2(3) by auto
qed

end
