(* ===== verification/Conversations.thy ===== *)
theory Conversations
  imports ResponsesRequest Affinity
begin

text \<open>
  The request mappings and the stickiness of conversations together: the chain of digests that finds the
  credential of a conversation is computed over the mapped messages, so it works only because a longer
  history is mapped to an extension of what the shorter one was mapped to.
\<close>

declare map_of_append [simp del]

definition continued :: "(jobject \<Rightarrow> string) \<Rightarrow> string \<Rightarrow> jobject \<Rightarrow> json list \<Rightarrow> chat_request \<Rightarrow> chat_request \<Rightarrow> bool" where
  "continued dumps efforts d more_items r r' \<longleftrightarrow>
     (\<exists>items. jget d ''messages'' = JList items \<and> parse_messages_request dumps efforts (JObj d) = Inr r
        \<and> parse_messages_request dumps efforts (JObj (od_set ''messages'' (JList (items @ more_items)) d)) = Inr r')
   \<or> (\<exists>items. jget d ''input'' = JList items \<and> parse_responses_request (JObj d) = Inr r
        \<and> parse_responses_request (JObj (od_set ''input'' (JList (items @ more_items)) d)) = Inr r'
        \<and> j_nonempty_str (jget d ''prompt_cache_key'') = None)"

lemma explicit_key_None:
  assumes "jget raw ''metadata'' = JNull" and "\<forall>k \<in> set EXPLICIT_KEYS. j_nonempty_str (jget raw k) = None"
  shows "resolve_explicit raw None = None"
  using assms by (simp add: resolve_explicit_def explicit_key_def containers_def EXPLICIT_KEYS_def header_key_def sanitize_session_id_def)

lemma no_user_id: "jget raw ''metadata'' = JNull \<Longrightarrow> jget raw ''user_id'' = JNull \<Longrightarrow> \<not> has_user_id raw"
  by (simp add: has_user_id_def containers_def j_nonempty_str_def)

lemma chain_of_raw:
  assumes "jget raw ''metadata'' = JNull" "jget raw ''user_id'' = JNull" "jget raw ''messages'' = JList ms" "ms \<noteq> []"
  shows "chain_messages raw = Some ms"
  using assms no_user_id by (simp add: chain_messages_def)

lemma keys_of_raw:
  assumes "jget raw ''metadata'' = JNull" "jget raw ''user_id'' = JNull" "jget raw ''conversation_id'' = JNull"
    "jget raw ''conversationId'' = JNull" "jget raw ''session_id'' = JNull" "j_nonempty_str (jget raw ''prompt_cache_key'') = None"
    "jget raw ''messages'' = JList ms" "ms \<noteq> []"
  shows "resolve_explicit raw None = None \<and> chain_messages raw = Some ms"
proof
  have "j_nonempty_str JNull = None" by (simp add: j_nonempty_str_def)
  with assms(3-6) show "resolve_explicit raw None = None" by (intro explicit_key_None[OF assms(1)]) (simp add: EXPLICIT_KEYS_def)
  show "chain_messages raw = Some ms" by (rule chain_of_raw[OF assms(1,2,7,8)])
qed

lemma messages_raw:
  assumes "parse_messages_request dumps efforts body = Inr r"
  shows "resolve_explicit (rq_raw r) None = None \<and> chain_messages (rq_raw r) = Some (rq_messages r)"
  using assms by (rule parse_messages_request_Inr) (rule keys_of_raw; simp add: j_nonempty_str_def split: option.splits)

lemma responses_raw:
  assumes "parse_responses_request (JObj d) = Inr r" and "j_nonempty_str (jget d ''prompt_cache_key'') = None"
  shows "resolve_explicit (rq_raw r) None = None \<and> chain_messages (rq_raw r) = Some (rq_messages r)"
proof -
  have "j_nonempty_str (case map_option JStr (j_text (jget d ''prompt_cache_key'')) of None \<Rightarrow> JNull | Some x \<Rightarrow> x) = None"
    using assms(2) by (cases "jget d ''prompt_cache_key''") (simp_all add: j_text_def j_nonempty_str_def split: if_splits)
  then have key: "j_nonempty_str (jget (opt_field ''prompt_cache_key'' (map_option JStr (j_text (jget d ''prompt_cache_key'')))) ''prompt_cache_key'') = None"
    by simp
  from assms(1) show ?thesis
  proof (rule parse_responses_request_Inr)
    fix d' tools temperature top_p choice limit format
    assume d: "JObj d = JObj d'" and ms: "rq_messages r \<noteq> []"
      and raw: "rq_raw r = [(''model'', JStr (rq_model r)), (''messages'', JList (rq_messages r)), (''stream'', JBool (rq_stream r))]
       @ opt_field ''tools'' tools @ opt_field ''temperature'' temperature @ opt_field ''top_p'' top_p
       @ opt_field ''tool_choice'' choice
       @ opt_field ''parallel_tool_calls'' (map_option JBool (j_bool (jget d' ''parallel_tool_calls'')))
       @ opt_field ''max_tokens'' limit
       @ opt_field ''reasoning_effort''
           (case jget d' ''reasoning'' of JObj x \<Rightarrow> map_option JStr (j_string (jget x ''effort'')) | _ \<Rightarrow> None)
       @ opt_field ''prompt_cache_key'' (map_option JStr (j_text (jget d' ''prompt_cache_key'')))
       @ opt_field ''verbosity'' (case jget d' ''text'' of JObj x \<Rightarrow> map_option JStr (j_string (jget x ''verbosity'')) | _ \<Rightarrow> None)
       @ opt_field ''response_format'' format"
    have "jget (rq_raw r) ''prompt_cache_key'' =
        jget (opt_field ''prompt_cache_key'' (map_option JStr (j_text (jget d ''prompt_cache_key'')))) ''prompt_cache_key''"
      using d unfolding raw by (simp split: option.split)
    with key ms show ?thesis by (intro keys_of_raw) (simp_all add: raw)
  qed
qed


definition said_by :: "string \<Rightarrow> string \<Rightarrow> json" where
  "said_by role s = JObj [(''role'', JStr role), (''content'', JStr s)]"

definition plain_request :: "json list \<Rightarrow> chat_request" where
  "plain_request ms = \<lparr>rq_model = [], rq_messages = ms, rq_stream = False,
     rq_raw = [(''model'', JStr []), (''messages'', JList ms), (''stream'', JBool False)]\<rparr>"

lemma plain_parsed:
  "parse_messages_request dumps [] (JObj [(''messages'', JList [said_by ''user'' s])]) = Inr (plain_request [said_by ''user'' s])"
  "parse_messages_request dumps [] (JObj [(''messages'', JList [said_by ''user'' s, said_by ''assistant'' t])])
     = Inr (plain_request [said_by ''user'' s, said_by ''assistant'' t])"
  by (simp_all add: parse_messages_request_def plain_request_def said_by_def model_field_def message_list_def system_content_def
      map_turns_def map_turn_def as_block_def opt_field_def ensure_def stream_field_def max_tokens_field_def sampling_field_def
      stop_field_def tools_field_def map_tool_choice_def effort_field_def output_config_effort_def thinking_effort_def)

lemma plain_continued:
  "continued dumps [] [(''messages'', JList [said_by ''user'' s])] [said_by ''assistant'' t]
     (plain_request [said_by ''user'' s]) (plain_request [said_by ''user'' s, said_by ''assistant'' t])"
  unfolding continued_def by (rule disjI1) (simp add: plain_parsed od_set_def)


end
