(* ===== verification/Pacer.thy ===== *)
theory Pacer
  imports RateWindow
begin

text \<open>
  \<^verbatim>\<open>src/tasks/pacer.py\<close>: the pacer of the upstream requests. In the strict mode one lock spaces all
  turns; in the concurrent mode each bucket (a channel and an account) has a minimum interval, a limit of
  requests in flight and, when configured, a limit of starts per sliding window.

  \<^verbatim>\<open>wait_turn\<close> suspends in \<^verbatim>\<open>sleep\<close> and \<^verbatim>\<open>Event.wait\<close> only, so it is modelled as atomic sections
  between these points: the operations below are the sections, \<open>pacing\<close> adds the tasks that are inside
  \<^verbatim>\<open>wait_turn\<close> or hold a place, and \<open>pace_step\<close> lets one of them move. Tasks may move in any order and be
  cancelled anywhere; the settings, which can change while the program runs, are an argument of every
  step, the clock is read once per section, and the draw of \<^verbatim>\<open>random()\<close> is an argument in [0, 1).
\<close>

section \<open>State\<close>

record pace =
  pa_min :: seconds
  pa_max :: seconds
  pa_concurrent :: bool
  pa_limit :: int
  pa_window :: seconds

record pacer =
  pc_last :: "seconds option"
  pc_started :: "string \<rightharpoonup> seconds"
  pc_inflight :: "string \<rightharpoonup> nat"
  pc_starts :: "string \<rightharpoonup> seconds list"

definition new_pacer :: pacer where
  "new_pacer = \<lparr>pc_last = None, pc_started = Map.empty, pc_inflight = Map.empty, pc_starts = Map.empty\<rparr>"

definition JITTER_RATIO :: rat where
  "JITTER_RATIO = 1 / 4"

definition stable_key :: "(string \<Rightarrow> string) \<Rightarrow> string \<Rightarrow> string option \<Rightarrow> string" where
  "stable_key sha provider identity =
     (case identity of
        None \<Rightarrow> provider
      | Some i \<Rightarrow> if i = [] then provider else provider @ '':'' @ take 16 (sha i))"

section \<open>Sections of wait turn\<close>

definition pace_disabled :: "pace \<Rightarrow> bool" where
  "pace_disabled c \<longleftrightarrow> pa_min c = 0 \<and> pa_max c = 0"

definition pace_limit :: "pace \<Rightarrow> nat" where
  "pace_limit c = nat (pa_limit c)"

definition pace_window :: "pace \<Rightarrow> seconds" where
  "pace_window c = (if pa_window c > 0 then pa_window c else 0)"

text \<open>\<open>None\<close> is the \<^verbatim>\<open>ValueError\<close> of settings that contradict each other.\<close>

definition next_interval :: "pace \<Rightarrow> rat \<Rightarrow> seconds option" where
  "next_interval c u =
     (if pa_min c < 0 \<or> pa_max c < 0 \<or> pa_min c > pa_max c then None
      else if pace_disabled c then Some 0
      else if pa_min c = pa_max c then Some (pa_min c * (1 + JITTER_RATIO * u))
      else Some (pa_min c + (pa_max c - pa_min c) * u))"

definition capped :: "pace \<Rightarrow> bool" where
  "capped c \<longleftrightarrow> pa_concurrent c \<and> pace_limit c > 0"

definition windowed :: "pace \<Rightarrow> bool" where
  "windowed c \<longleftrightarrow> pa_concurrent c \<and> pace_limit c > 0 \<and> pace_window c > 0"

definition inflight_count :: "string \<Rightarrow> pacer \<Rightarrow> nat" where
  "inflight_count b p = (case pc_inflight p b of Some n \<Rightarrow> n | None \<Rightarrow> 0)"

definition starts_of :: "string \<Rightarrow> pacer \<Rightarrow> seconds list" where
  "starts_of b p = (case pc_starts p b of Some ts \<Rightarrow> ts | None \<Rightarrow> [])"

definition prune_starts :: "pace \<Rightarrow> string \<Rightarrow> seconds \<Rightarrow> pacer \<Rightarrow> pacer" where
  "prune_starts c b now p =
     (if starts_of b p = [] then p
      else let kept = drop_expired id (now - pace_window c) (starts_of b p)
           in p\<lparr>pc_starts := (pc_starts p)(b := if kept = [] then None else Some kept)\<rparr>)"

definition reserve :: "pace \<Rightarrow> rat \<Rightarrow> string \<Rightarrow> seconds \<Rightarrow> pacer \<Rightarrow> (seconds \<times> pacer) option" where
  "reserve c u b now p =
     (if inflight_count b p > 0
      then Some (0, p\<lparr>pc_inflight := (pc_inflight p)(b \<mapsto> inflight_count b p + 1)\<rparr>)
      else case next_interval c u of
             None \<Rightarrow> None
           | Some interval \<Rightarrow>
               (let remaining = (case pc_started p b of None \<Rightarrow> 0 | Some started \<Rightarrow> max 0 (interval - (now - started)))
                in Some (remaining, p\<lparr>pc_started := (pc_started p)(b \<mapsto> now + remaining),
                                      pc_inflight := (pc_inflight p)(b \<mapsto> 1)\<rparr>)))"

definition pc_release :: "pace \<Rightarrow> string \<Rightarrow> pacer \<Rightarrow> bool \<times> pacer" where
  "pc_release c b p =
     (if \<not> pa_concurrent c then (False, p)
      else let n = inflight_count b p in
        if n > 1 then (True, p\<lparr>pc_inflight := (pc_inflight p)(b \<mapsto> n - 1)\<rparr>)
        else if n = 1 then (True, p\<lparr>pc_inflight := (pc_inflight p)(b := None)\<rparr>)
        else (False, p))"

text \<open>A start that was booked but does not take place.\<close>

definition drop_start :: "string \<Rightarrow> seconds option \<Rightarrow> pacer \<Rightarrow> pacer" where
  "drop_start b w p =
     (case w of
        None \<Rightarrow> p
      | Some t \<Rightarrow>
          if t \<in> set (starts_of b p) then p\<lparr>pc_starts := (pc_starts p)(b \<mapsto> remove1 t (starts_of b p))\<rparr>
          else p)"

text \<open>One turn of the loop of the concurrent mode: a place and the seconds still to sleep (with the start
  booked in the window), or a time to sleep, or the wait for a release, or the error of the settings.\<close>

datatype turn_result = Reserved seconds "seconds option" | SleepFor seconds | WaitWake | BadBounds

definition attempt_turn :: "pace \<Rightarrow> rat \<Rightarrow> string \<Rightarrow> seconds \<Rightarrow> pacer \<Rightarrow> turn_result \<times> pacer" where
  "attempt_turn c u b now p =
     (let limit = pace_limit c in
      if windowed c then
        (let p1 = prune_starts c b now p; starts = starts_of b p1;
             window_full = length starts \<ge> limit; inflight_full = inflight_count b p1 \<ge> limit
         in if window_full then (SleepFor (hd starts + pace_window c - now), p1)
            else if inflight_full then (WaitWake, p1)
            else let p2 = p1\<lparr>pc_starts := (pc_starts p1)(b \<mapsto> starts @ [now])\<rparr>
                 in case reserve c u b now p2 of
                      None \<Rightarrow> (BadBounds, drop_start b (Some now) p2)
                    | Some (remaining, p3) \<Rightarrow> (Reserved remaining (Some now), p3))
      else if limit = 0 \<or> inflight_count b p < limit then
        (case reserve c u b now p of
           None \<Rightarrow> (BadBounds, p)
         | Some (remaining, p1) \<Rightarrow> (Reserved remaining None, p1))
      else (WaitWake, p))"

text \<open>The strict mode: what is left of the interval, and the end of the turn.\<close>

definition strict_wait :: "pace \<Rightarrow> rat \<Rightarrow> seconds \<Rightarrow> pacer \<Rightarrow> seconds option" where
  "strict_wait c u now p =
     (case next_interval c u of
        None \<Rightarrow> None
      | Some interval \<Rightarrow>
          Some (case pc_last p of None \<Rightarrow> 0 | Some t0 \<Rightarrow> max 0 (interval - (now - t0))))"

definition strict_start :: "seconds \<Rightarrow> pacer \<Rightarrow> pacer" where
  "strict_start now p = p\<lparr>pc_last := Some now\<rparr>"

section \<open>Tasks\<close>

text \<open>
  Where a task stands: \<open>Trying\<close> is about to enter the section under the lock, \<open>Asleep\<close> waits for the
  window to move, \<open>AwaitWake\<close> for a release, \<open>Delayed\<close> has a place and sleeps the rest of the interval,
  \<open>Holding\<close> is the same in the strict mode (with the lock), \<open>Active\<close> has returned from \<^verbatim>\<open>wait_turn\<close>; its
  flag says whether a place was taken.
\<close>

datatype phase =
    Trying string
  | Asleep string seconds
  | AwaitWake string
  | Delayed string seconds "seconds option"
  | Holding string seconds
  | Active string bool

record pacing =
  pg_pacer :: pacer
  pg_lock :: bool
  pg_tasks :: "(nat, phase) odict"

definition new_pacing :: pacing where
  "new_pacing = \<lparr>pg_pacer = new_pacer, pg_lock = False, pg_tasks = []\<rparr>"

definition put_task :: "nat \<Rightarrow> phase \<Rightarrow> pacing \<Rightarrow> pacing" where
  "put_task i ph s = s\<lparr>pg_tasks := od_touch i ph (pg_tasks s)\<rparr>"

definition end_task :: "nat \<Rightarrow> pacing \<Rightarrow> pacing" where
  "end_task i s = s\<lparr>pg_tasks := od_del i (pg_tasks s)\<rparr>"

text \<open>\<^verbatim>\<open>self._wake.set()\<close>: every task that waits for the event goes back to the lock.\<close>

definition woken :: "phase \<Rightarrow> phase" where
  "woken ph = (case ph of AwaitWake b \<Rightarrow> Trying b | _ \<Rightarrow> ph)"

definition wake_all :: "pacing \<Rightarrow> pacing" where
  "wake_all s = s\<lparr>pg_tasks := map (\<lambda>(i, ph). (i, woken ph)) (pg_tasks s)\<rparr>"

definition give_back :: "pace \<Rightarrow> string \<Rightarrow> pacing \<Rightarrow> pacing" where
  "give_back c b s =
     (let (wake, p) = pc_release c b (pg_pacer s); s1 = s\<lparr>pg_pacer := p\<rparr> in if wake then wake_all s1 else s1)"

datatype move = Arrive nat "string option" | Proceed nat rat | Cancel nat

definition arrive :: "pace \<Rightarrow> nat \<Rightarrow> string option \<Rightarrow> pacing \<Rightarrow> pacing" where
  "arrive c i key s =
     (let b = (case key of None \<Rightarrow> [] | Some k \<Rightarrow> k) in
      if od_get (pg_tasks s) i \<noteq> None then s
      else if pace_disabled c \<and> \<not> capped c then put_task i (Active b False) s
      else put_task i (Trying b) s)"

definition try_turn :: "pace \<Rightarrow> rat \<Rightarrow> nat \<Rightarrow> string \<Rightarrow> seconds \<Rightarrow> pacing \<Rightarrow> pacing" where
  "try_turn c u i b now s =
     (if \<not> pa_concurrent c then
        if pg_lock s then s
        else (case strict_wait c u now (pg_pacer s) of
                None \<Rightarrow> end_task i s
              | Some remaining \<Rightarrow>
                  if remaining > 0 then put_task i (Holding b (now + remaining)) (s\<lparr>pg_lock := True\<rparr>)
                  else put_task i (Active b False) (s\<lparr>pg_pacer := strict_start now (pg_pacer s)\<rparr>))
      else case attempt_turn c u b now (pg_pacer s) of
             (Reserved remaining w, p) \<Rightarrow>
               put_task i (if remaining > 0 then Delayed b (now + remaining) w else Active b True) (s\<lparr>pg_pacer := p\<rparr>)
           | (SleepFor d, p) \<Rightarrow> put_task i (Asleep b (now + d)) (s\<lparr>pg_pacer := p\<rparr>)
           | (WaitWake, p) \<Rightarrow> put_task i (AwaitWake b) (s\<lparr>pg_pacer := p\<rparr>)
           | (BadBounds, p) \<Rightarrow> end_task i (s\<lparr>pg_pacer := p\<rparr>))"

definition proceed :: "pace \<Rightarrow> rat \<Rightarrow> nat \<Rightarrow> seconds \<Rightarrow> pacing \<Rightarrow> pacing" where
  "proceed c u i now s =
     (case od_get (pg_tasks s) i of
        None \<Rightarrow> s
      | Some ph \<Rightarrow>
          (case ph of
             Trying b \<Rightarrow> try_turn c u i b now s
           | Asleep b until \<Rightarrow> if until \<le> now then try_turn c u i b now s else s
           | AwaitWake b \<Rightarrow> s
           | Delayed b until w \<Rightarrow> if until \<le> now then put_task i (Active b True) s else s
           | Holding b until \<Rightarrow>
               if until \<le> now
               then put_task i (Active b False) (s\<lparr>pg_pacer := strict_start now (pg_pacer s), pg_lock := False\<rparr>)
               else s
           | Active b reserved \<Rightarrow> give_back c b (end_task i s)))"

definition cancel :: "pace \<Rightarrow> nat \<Rightarrow> pacing \<Rightarrow> pacing" where
  "cancel c i s =
     (case od_get (pg_tasks s) i of
        None \<Rightarrow> s
      | Some ph \<Rightarrow>
          (case ph of
             Delayed b until w \<Rightarrow>
               (let s1 = give_back c b (end_task i s) in s1\<lparr>pg_pacer := drop_start b w (pg_pacer s1)\<rparr>)
           | Holding b until \<Rightarrow> end_task i (s\<lparr>pg_lock := False\<rparr>)
           | Active b reserved \<Rightarrow> give_back c b (end_task i s)
           | _ \<Rightarrow> end_task i s))"

definition pace_step :: "pace \<Rightarrow> seconds \<Rightarrow> move \<Rightarrow> pacing \<Rightarrow> pacing" where
  "pace_step c now m s =
     (case m of
        Arrive i key \<Rightarrow> arrive c i key s
      | Proceed i u \<Rightarrow> proceed c u i now s
      | Cancel i \<Rightarrow> cancel c i s)"

section \<open>Places and tasks\<close>

text \<open>A task holds a place of a bucket from its reservation until it ends.\<close>

definition holds :: "string \<Rightarrow> phase \<Rightarrow> bool" where
  "holds b ph = (case ph of Delayed b' until w \<Rightarrow> b' = b | Active b' reserved \<Rightarrow> reserved \<and> b' = b | _ \<Rightarrow> False)"

definition holders :: "string \<Rightarrow> pacing \<Rightarrow> nat" where
  "holders b s = length (filter (\<lambda>t. holds b (snd t)) (pg_tasks s))"

lemma count_del:
  assumes "od_wf d"
  shows "length (filter (\<lambda>t. P (snd t)) d)
       = length (filter (\<lambda>t. P (snd t)) (od_del i d)) + (case od_get d i of Some v \<Rightarrow> if P v then 1 else 0 | None \<Rightarrow> 0)"
  using assms
proof (induction d)
  case (Cons e d)
  then have d: "od_wf d" "fst e \<notin> set (od_keys d)" by (auto simp: od_wf_def od_keys_def)
  show ?case
  proof (cases "fst e = i")
    case True
    then have "od_del i d = d" using d(2) by (auto simp: od_get_None_iff intro: od_del_absent)
    with True show ?thesis by (cases e) (auto simp: od_del_def)
  next
    case False
    with Cons.IH[OF d(1)] show ?thesis by (cases e) (auto simp: od_del_def)
  qed
qed (simp add: od_del_def)

lemma holders_end:
  "od_wf (pg_tasks s) \<Longrightarrow> holders b s = holders b (end_task i s)
     + (case od_get (pg_tasks s) i of Some ph \<Rightarrow> if holds b ph then 1 else 0 | None \<Rightarrow> 0)"
  unfolding holders_def end_task_def using count_del[of "pg_tasks s" "holds b" i] by simp

lemma holders_put: "holders b (put_task i ph s) = holders b (end_task i s) + (if holds b ph then 1 else 0)"
  by (simp add: holders_def put_task_def end_task_def od_touch_def)

lemma holds_woken [simp]: "holds b (woken ph) = holds b ph"
  by (cases ph) (simp_all add: holds_def woken_def)

lemma holders_wake [simp]: "holders b (wake_all s) = holders b s"
  by (simp add: holders_def wake_all_def filter_map o_def case_prod_unfold)

lemma holders_cong: "pg_tasks s' = pg_tasks s \<Longrightarrow> holders b s' = holders b s"
  by (simp add: holders_def)

lemma holder_exists: "0 < holders b s \<Longrightarrow> \<exists>i ph. (i, ph) \<in> set (pg_tasks s) \<and> holds b ph"
proof -
  assume "0 < holders b s"
  then have "filter (\<lambda>t. holds b (snd t)) (pg_tasks s) \<noteq> []" by (auto simp: holders_def)
  then obtain t where "t \<in> set (pg_tasks s)" "holds b (snd t)" unfolding filter_empty_conv by blast
  then show ?thesis by (metis prod.collapse)
qed

lemma reserve_count:
  "reserve c u b now p = Some (r, p') \<Longrightarrow>
     inflight_count b' p' = inflight_count b' p + (if b' = b then 1 else 0) \<and> pc_starts p' = pc_starts p \<and> 0 \<le> r"
  by (auto simp: reserve_def inflight_count_def Let_def split: if_splits option.splits)

lemma count_prune [simp]: "inflight_count b' (prune_starts c b now p) = inflight_count b' p"
  by (simp add: prune_starts_def inflight_count_def Let_def)

lemma count_drop [simp]: "inflight_count b' (drop_start b w p) = inflight_count b' p"
  by (simp add: drop_start_def inflight_count_def split: option.split)

lemma count_starts [simp]: "inflight_count b (p\<lparr>pc_starts := f\<rparr>) = inflight_count b p"
  by (simp add: inflight_count_def)

lemma attempt_count:
  assumes "attempt_turn c u b now p = (r, p')" and "pa_concurrent c"
  shows "inflight_count b' p' = inflight_count b' p + (case r of Reserved d w \<Rightarrow> if b' = b then 1 else 0 | _ \<Rightarrow> 0)"
    and "r = WaitWake \<Longrightarrow> 0 < inflight_count b p"
    and "r = Reserved d w \<Longrightarrow> pace_limit c = 0 \<or> inflight_count b p < pace_limit c"
proof -
  have "inflight_count b' p' = inflight_count b' p + (case r of Reserved d w \<Rightarrow> if b' = b then 1 else 0 | _ \<Rightarrow> 0)
      \<and> (r = WaitWake \<longrightarrow> 0 < inflight_count b p)
      \<and> (r = Reserved d w \<longrightarrow> pace_limit c = 0 \<or> inflight_count b p < pace_limit c)"
    using assms
    by (auto simp: attempt_turn_def Let_def windowed_def dest!: reserve_count[where b' = b'] split: if_splits option.splits)
  then show "inflight_count b' p' = inflight_count b' p + (case r of Reserved d w \<Rightarrow> if b' = b then 1 else 0 | _ \<Rightarrow> 0)"
    "r = WaitWake \<Longrightarrow> 0 < inflight_count b p"
    "r = Reserved d w \<Longrightarrow> pace_limit c = 0 \<or> inflight_count b p < pace_limit c" by blast+
qed

lemma release_count:
  assumes "pc_release c b p = (wake, p')" and "pa_concurrent c"
  shows "inflight_count b' p' = inflight_count b' p - (if b' = b then 1 else 0)" and "wake \<longleftrightarrow> 0 < inflight_count b p"
    and "pc_starts p' = pc_starts p"
  using assms by (auto simp: pc_release_def Let_def inflight_count_def split: if_splits)

section \<open>Runs\<close>

text \<open>The states reached while the settings satisfy \<open>ok\<close>, which may change from step to step.\<close>

inductive pacing_reach :: "(pace \<Rightarrow> bool) \<Rightarrow> seconds \<Rightarrow> pacing \<Rightarrow> bool" for ok where
  init: "pacing_reach ok t new_pacing"
| move: "pacing_reach ok t s \<Longrightarrow> t \<le> t' \<Longrightarrow> ok c \<Longrightarrow> pacing_reach ok t' (pace_step c t' m s)"

text \<open>The count of a bucket does not exceed the tasks that hold a place (it may be less, when a task
  that took no place while the pacer was switched off gives one back), and a waiting task waits for one
  that is counted.\<close>

definition pace_inv :: "pacing \<Rightarrow> bool" where
  "pace_inv s \<longleftrightarrow> od_wf (pg_tasks s) \<and> (\<forall>b. inflight_count b (pg_pacer s) \<le> holders b s)
     \<and> (\<forall>i b. (i, AwaitWake b) \<in> set (pg_tasks s) \<longrightarrow> 0 < inflight_count b (pg_pacer s))"

lemma pace_invI:
  assumes "od_wf (pg_tasks s)" and "\<And>b. inflight_count b (pg_pacer s) \<le> holders b s"
    and "\<And>i b. (i, AwaitWake b) \<in> set (pg_tasks s) \<Longrightarrow> 0 < inflight_count b (pg_pacer s)"
  shows "pace_inv s"
  using assms by (auto simp: pace_inv_def)

lemma pace_inv_waits: "pace_inv s \<Longrightarrow> (i, AwaitWake b) \<in> set (pg_tasks s) \<Longrightarrow> 0 < inflight_count b (pg_pacer s)"
  by (auto simp: pace_inv_def)

lemma tasks_put: "x \<in> set (pg_tasks (put_task i ph s)) \<Longrightarrow> x = (i, ph) \<or> x \<in> set (pg_tasks s)"
  by (auto simp: put_task_def od_touch_def od_del_def)

lemma tasks_end: "x \<in> set (pg_tasks (end_task i s)) \<Longrightarrow> x \<in> set (pg_tasks s)"
  by (auto simp: end_task_def od_del_def)

lemma none_waits: "(i, AwaitWake b) \<notin> set (pg_tasks (wake_all s))"
  by (auto simp: wake_all_def woken_def split: phase.splits)

lemma pg_simps [simp]:
  "pg_pacer (put_task i ph s) = pg_pacer s" "pg_pacer (end_task i s) = pg_pacer s" "pg_pacer (wake_all s) = pg_pacer s"
  "pg_lock (put_task i ph s) = pg_lock s" "pg_lock (end_task i s) = pg_lock s" "pg_lock (wake_all s) = pg_lock s"
  "od_wf (pg_tasks s) \<Longrightarrow> od_wf (pg_tasks (put_task i ph s))"
  "od_wf (pg_tasks s) \<Longrightarrow> od_wf (pg_tasks (end_task i s))"
  by (simp_all add: put_task_def end_task_def wake_all_def)

lemma wf_wake [simp]: "od_wf (pg_tasks (wake_all s)) = od_wf (pg_tasks s)"
  by (simp add: wake_all_def od_wf_def od_keys_def o_def case_prod_unfold)

lemma holders_put_le:
  assumes "od_wf (pg_tasks s)" and "case od_get (pg_tasks s) i of Some ph \<Rightarrow> \<not> holds b ph | None \<Rightarrow> True"
  shows "holders b (put_task i ph s) = holders b s + (if holds b ph then 1 else 0)"
    and "holders b (end_task i s) = holders b s"
  using holders_end[OF assms(1), of b i] assms(2) by (auto simp: holders_put split: option.splits)

text \<open>A task that ends gives back its place, if it has one.\<close>

lemma give_back_inv:
  assumes inv: "pace_inv s" and get: "od_get (pg_tasks s) i = Some ph" and c: "pa_concurrent c"
    and b: "\<And>b'. holds b' ph \<Longrightarrow> b' = b"
  shows "pace_inv (give_back c b (end_task i s))"
proof -
  have wf: "od_wf (pg_tasks s)" using inv by (simp add: pace_inv_def)
  obtain wake p where r: "pc_release c b (pg_pacer s) = (wake, p)" by fastforce
  note rc = release_count[OF r c]
  have h: "inflight_count b' p \<le> holders b' (end_task i s)" for b'
  proof -
    have "inflight_count b' (pg_pacer s) \<le> holders b' s" using inv by (simp add: pace_inv_def)
    with holders_end[OF wf, of b' i] get b[of b'] rc(1)[of b'] show ?thesis by (auto split: if_splits)
  qed
  show ?thesis
  proof (cases wake)
    case True
    then have g: "give_back c b (end_task i s) = wake_all ((end_task i s)\<lparr>pg_pacer := p\<rparr>)" by (simp add: give_back_def r)
    show ?thesis unfolding g
      by (rule pace_invI) (use wf h none_waits in \<open>auto simp: holders_cong[of "(end_task i s)\<lparr>pg_pacer := p\<rparr>"]\<close>)
  next
    case False
    then have "inflight_count b' p = inflight_count b' (pg_pacer s)" for b' using rc(1)[of b'] rc(2) by simp
    moreover from False have g: "give_back c b (end_task i s) = (end_task i s)\<lparr>pg_pacer := p\<rparr>" by (simp add: give_back_def r)
    ultimately show ?thesis unfolding g
      by (intro pace_invI)
        (use wf h pace_inv_waits[OF inv tasks_end] in \<open>auto simp: holders_cong[of "(end_task i s)\<lparr>pg_pacer := p\<rparr>"]\<close>)
  qed
qed

lemma attempt_inv:
  assumes inv: "pace_inv s" and c: "pa_concurrent c" and free: "\<And>b'. \<not> holds b' ph"
    and get: "od_get (pg_tasks s) i = Some ph"
  shows "pace_inv (try_turn c u i b now s)"
proof -
  have wf: "od_wf (pg_tasks s)" using inv by (simp add: pace_inv_def)
  obtain r p where a: "attempt_turn c u b now (pg_pacer s) = (r, p)" by fastforce
  note ac = attempt_count[OF a c]
  have le: "inflight_count b' (pg_pacer s) \<le> inflight_count b' p" for b' using ac(1)[of b'] by (simp split: turn_result.split)
  let ?s = "s\<lparr>pg_pacer := p\<rparr>"
  have get': "case od_get (pg_tasks ?s) i of Some ph \<Rightarrow> \<not> holds b' ph | None \<Rightarrow> True" for b' using get free by simp
  have wf': "od_wf (pg_tasks ?s)" using wf by simp
  note hp = holders_put_le[OF wf' get', unfolded holders_cong[of ?s s, simplified]]
  have old: "inflight_count b' (pg_pacer s) \<le> holders b' s" for b' using inv by (simp add: pace_inv_def)
  have waits: "(j, AwaitWake b') \<in> set (pg_tasks s) \<Longrightarrow> 0 < inflight_count b' p" for j b'
    using inv le[of b'] by (fastforce simp: pace_inv_def)
  have put: "pace_inv (put_task i new ?s)"
    if "\<And>b'. inflight_count b' p \<le> inflight_count b' (pg_pacer s) + (if holds b' new then 1 else 0)"
      and "\<And>b'. new = AwaitWake b' \<Longrightarrow> 0 < inflight_count b' p" for new
  proof (rule pace_invI)
    show "inflight_count b' (pg_pacer (put_task i new ?s)) \<le> holders b' (put_task i new ?s)" for b'
      using that(1)[of b'] old[of b'] by (simp add: hp split: if_splits)
    show "0 < inflight_count b' (pg_pacer (put_task i new ?s))"
      if "(j, AwaitWake b') \<in> set (pg_tasks (put_task i new ?s))" for j b'
      using tasks_put[OF that] waits \<open>\<And>b'. new = AwaitWake b' \<Longrightarrow> 0 < inflight_count b' p\<close> by auto
  qed (use wf in simp)
  show ?thesis
  proof (cases r)
    case (Reserved d w)
    have "holds b' (if d > 0 then Delayed b (now + d) w else Active b True) \<longleftrightarrow> b' = b" for b' by (auto simp: holds_def)
    then have "pace_inv (put_task i (if d > 0 then Delayed b (now + d) w else Active b True) ?s)"
      by (intro put) (auto simp: ac(1) Reserved split: if_splits)
    then show ?thesis using c by (simp add: try_turn_def a Reserved split del: if_split)
  next
    case BadBounds
    have "0 < inflight_count b' p" if "(j, AwaitWake b') \<in> set (pg_tasks (end_task i ?s))" for j b'
      using tasks_end[OF that] waits by simp
    then have "pace_inv (end_task i ?s)"
      by (intro pace_invI) (use wf old ac(1) in \<open>auto simp: hp BadBounds\<close>)
    then show ?thesis using c by (simp add: try_turn_def a BadBounds)
  qed (use ac(1,2) c le in \<open>auto simp: try_turn_def a intro!: put\<close>)
qed

lemma task_unique: "od_wf d \<Longrightarrow> (i, v) \<in> set d \<Longrightarrow> od_get d i = Some v"
  by (simp add: od_wf_def od_keys_def)

text \<open>A task that neither gets nor loses a place only changes its own entry.\<close>

lemma move_inv:
  assumes inv: "pace_inv s" and keep: "\<And>b. (case od_get (pg_tasks s) i of Some old \<Rightarrow> holds b old | None \<Rightarrow> False) = holds b new"
    and new: "\<And>b. new \<noteq> AwaitWake b"
  shows "pace_inv (put_task i new s)"
proof (rule pace_invI)
  have wf: "od_wf (pg_tasks s)" using inv by (simp add: pace_inv_def)
  then show "od_wf (pg_tasks (put_task i new s))" by simp
  show "inflight_count b (pg_pacer (put_task i new s)) \<le> holders b (put_task i new s)" for b
  proof -
    have "inflight_count b (pg_pacer s) \<le> holders b s" using inv by (simp add: pace_inv_def)
    with keep[of b] holders_end[OF wf, of b i] show ?thesis by (auto simp: holders_put split: option.splits if_splits)
  qed
  show "0 < inflight_count b (pg_pacer (put_task i new s))"
    if "(j, AwaitWake b) \<in> set (pg_tasks (put_task i new s))" for j b
    using tasks_put[OF that] new[of b] pace_inv_waits[OF inv] by auto
qed

lemma end_inv:
  assumes inv: "pace_inv s" and free: "\<And>b. (case od_get (pg_tasks s) i of Some old \<Rightarrow> \<not> holds b old | None \<Rightarrow> True)"
  shows "pace_inv (end_task i s)"
proof -
  have wf: "od_wf (pg_tasks s)" using inv by (simp add: pace_inv_def)
  show ?thesis
    by (rule pace_invI) (use inv wf pace_inv_waits[OF inv tasks_end] in \<open>auto simp: pace_inv_def holders_put_le(2)[OF wf free]\<close>)
qed

lemma drop_start_inv: "pace_inv s \<Longrightarrow> pace_inv (s\<lparr>pg_pacer := drop_start b w (pg_pacer s)\<rparr>)"
  by (simp add: pace_inv_def holders_def)

lemma lock_inv [simp]: "pace_inv (s\<lparr>pg_lock := l\<rparr>) = pace_inv s"
  by (simp add: pace_inv_def holders_def)

lemma last_inv [simp]: "pace_inv (s\<lparr>pg_pacer := strict_start now (pg_pacer s)\<rparr>) = pace_inv s"
  by (simp add: pace_inv_def holders_def strict_start_def inflight_count_def)

lemma last_inv2: "pace_inv s \<Longrightarrow> pace_inv (s\<lparr>pg_pacer := strict_start now (pg_pacer s), pg_lock := l\<rparr>)"
  by (simp add: pace_inv_def holders_def strict_start_def inflight_count_def)

lemma pace_step_inv:
  assumes inv: "pace_inv s" and c: "pa_concurrent c"
  shows "pace_inv (pace_step c now m s)"
proof (cases m)
  case (Arrive i key)
  then show ?thesis using inv by (auto simp: pace_step_def arrive_def Let_def holds_def intro!: move_inv)
next
  case (Proceed i u)
  show ?thesis
  proof (cases "od_get (pg_tasks s) i")
    case None
    then show ?thesis using inv by (simp add: pace_step_def Proceed proceed_def)
  next
    case (Some ph)
    show ?thesis
    proof (cases ph)
      case (Active b r)
      have "pace_inv (give_back c b (end_task i s))"
        by (rule give_back_inv[OF inv Some c]) (simp add: Active holds_def)
      then show ?thesis by (simp add: pace_step_def Proceed proceed_def Some Active)
    qed (use inv attempt_inv[OF inv c _ Some, where now = now and u = u] Some last_inv2[OF inv]
        in \<open>auto simp: pace_step_def Proceed proceed_def holds_def intro!: move_inv\<close>)
  qed
next
  case (Cancel i)
  show ?thesis
  proof (cases "od_get (pg_tasks s) i")
    case None
    then show ?thesis using inv by (simp add: pace_step_def Cancel cancel_def)
  next
    case (Some ph)
    have gb: "pace_inv (give_back c b (end_task i s))" if "\<And>b'. holds b' ph \<Longrightarrow> b' = b" for b
      by (rule give_back_inv[OF inv Some c that])
    have en: "pace_inv (end_task i s)" if "\<And>b. \<not> holds b ph" by (rule end_inv[OF inv]) (simp add: Some that)
    show ?thesis
    proof (cases ph)
      case (Delayed b until w)
      then have "pace_inv (give_back c b (end_task i s))" using gb by (simp add: holds_def)
      then show ?thesis by (simp add: pace_step_def Cancel cancel_def Some Delayed Let_def drop_start_inv)
    next
      case (Holding b until)
      then have "pace_inv (end_task i (s\<lparr>pg_lock := False\<rparr>))" by (intro end_inv) (simp_all add: inv Some holds_def)
      then show ?thesis by (simp add: pace_step_def Cancel cancel_def Some Holding)
    qed (use gb en in \<open>auto simp: pace_step_def Cancel cancel_def Some holds_def\<close>)
  qed
qed

lemma new_pacing_inv: "pace_inv new_pacing"
  by (simp add: pace_inv_def new_pacing_def new_pacer_def inflight_count_def)

lemma pacing_reach_inv: "pacing_reach ok t s \<Longrightarrow> (\<And>c. ok c \<Longrightarrow> pa_concurrent c) \<Longrightarrow> pace_inv s"
  by (induction rule: pacing_reach.induct) (auto intro: new_pacing_inv pace_step_inv)

definition mover :: "move \<Rightarrow> nat" where
  "mover m = (case m of Arrive i key \<Rightarrow> i | Proceed i u \<Rightarrow> i | Cancel i \<Rightarrow> i)"

text \<open>A move of one task leaves the places of the others alone.\<close>

definition present :: "nat \<Rightarrow> string \<Rightarrow> pacing \<Rightarrow> bool" where
  "present j b s \<longleftrightarrow> (\<exists>ph. (j, ph) \<in> set (pg_tasks s) \<and> holds b ph)"

lemma present_ops:
  "k \<noteq> j \<Longrightarrow> present j b (put_task k ph s) = present j b s"
  "k \<noteq> j \<Longrightarrow> present j b (end_task k s) = present j b s"
  "present j b (wake_all s) = present j b s"
  "present j b (s\<lparr>pg_pacer := p\<rparr>) = present j b s" "present j b (s\<lparr>pg_lock := l\<rparr>) = present j b s"
  "present j b (give_back c b' s) = present j b s"
proof -
  show w: "present j b (wake_all s) = present j b s" for s by (force simp: present_def wake_all_def)
  show "present j b (give_back c b' s) = present j b s"
    by (simp add: give_back_def Let_def w split: prod.split) (simp add: present_def)
qed (auto simp: present_def put_task_def end_task_def od_touch_def od_del_def)

lemma step_of_other: "mover m \<noteq> j \<Longrightarrow> present j b (pace_step c now m s) = present j b s"
  by (auto simp: pace_step_def mover_def arrive_def proceed_def cancel_def try_turn_def Let_def present_ops
      split: move.splits option.splits phase.splits turn_result.splits prod.splits)

lemma give_back_wakes:
  assumes "(i, AwaitWake b) \<in> set (pg_tasks s)" and "pa_concurrent c" and "0 < inflight_count b (pg_pacer s)"
  shows "(i, Trying b) \<in> set (pg_tasks (give_back c b s))"
proof -
  obtain wake p where r: "pc_release c b (pg_pacer s) = (wake, p)" by fastforce
  then show ?thesis using assms release_count(2)[OF r] by (force simp: give_back_def wake_all_def woken_def)
qed

text \<open>C31. No request waits for a place in vain: whatever the interleaving, the cancellations and the changes
  of the settings were, while a request waits for a release of a bucket, some task holds a place of it; and
  the move by which that task gives up its place, be it finished or cancelled, wakes the request.\<close>

theorem waiter_has_waker:
  assumes "pacing_reach ok t s" and "\<And>c. ok c \<Longrightarrow> pa_concurrent c" and "(i, AwaitWake b) \<in> set (pg_tasks s)"
  shows "\<exists>j. present j b s \<and> (\<forall>c now m. pa_concurrent c \<longrightarrow> \<not> present j b (pace_step c now m s)
           \<longrightarrow> (i, Trying b) \<in> set (pg_tasks (pace_step c now m s)))"
proof -
  have inv: "pace_inv s" by (rule pacing_reach_inv[OF assms(1,2)])
  then have n: "0 < inflight_count b (pg_pacer s)" using assms(3) by (rule pace_inv_waits)
  then have "0 < holders b s" using inv by (auto simp: pace_inv_def intro: less_le_trans)
  then obtain j ph where j: "(j, ph) \<in> set (pg_tasks s)" "holds b ph" using holder_exists by blast
  then have held: "present j b s" by (auto simp: present_def)
  have get: "od_get (pg_tasks s) j = Some ph" using inv j(1) by (auto simp: pace_inv_def intro: task_unique)
  have "j \<noteq> i" using assms(3) get inv task_unique[of "pg_tasks s" i] j(2) by (auto simp: pace_inv_def holds_def)
  then have kept: "(i, AwaitWake b) \<in> set (pg_tasks (end_task j s))" using assms(3) by (simp add: end_task_def od_del_def)
  have "(i, Trying b) \<in> set (pg_tasks (pace_step c now m s))"
    if c: "pa_concurrent c" and gone: "\<not> present j b (pace_step c now m s)" for c now m
  proof -
    have gb: "(i, Trying b) \<in> set (pg_tasks (give_back c b (end_task j s)))"
      by (rule give_back_wakes[OF kept c]) (simp add: n)
    have m: "mover m = j" using step_of_other held gone by metis
    have put: "present j b (put_task j new s')" if "holds b new" for new s'
      using that by (auto simp: present_def put_task_def od_touch_def)
    show ?thesis
    proof (cases m)
      case (Arrive i' key)
      then show ?thesis using gone m held get by (simp add: pace_step_def arrive_def mover_def)
    next
      case (Proceed i' u)
      then show ?thesis using gone m held get j(2) gb put
        by (cases ph) (auto simp: pace_step_def proceed_def mover_def holds_def split: if_splits)
    next
      case (Cancel i')
      then show ?thesis using m get j(2) gb
        by (cases ph) (auto simp: pace_step_def cancel_def mover_def holds_def Let_def)
    qed
  qed
  with held show ?thesis by blast
qed

definition pace_run :: "pace \<Rightarrow> (seconds \<times> move) list \<Rightarrow> pacing \<Rightarrow> pacing" where
  "pace_run c ms s = fold (\<lambda>(now, m). pace_step c now m) ms s"

lemma pace_run_reaches:
  "pacing_reach ((=) c) t s \<Longrightarrow> sorted (t # map fst ms) \<Longrightarrow> \<exists>t'. pacing_reach ((=) c) t' (pace_run c ms s)"
proof (induction ms arbitrary: t s)
  case (Cons a ms)
  have "pacing_reach ((=) c) (fst a) (pace_step c (fst a) (snd a) s)"
    by (rule pacing_reach.move[OF Cons.prems(1)]) (use Cons.prems(2) in auto)
  from Cons.IH[OF this] Cons.prems(2) show ?case by (auto simp: pace_run_def case_prod_unfold)
qed (auto simp: pace_run_def)

definition sample_pace :: pace where
  "sample_pace = \<lparr>pa_min = 5, pa_max = 5, pa_concurrent = True, pa_limit = 1, pa_window = 0\<rparr>"

lemmas pace_eval = pace_run_def pace_step_def arrive_def proceed_def cancel_def try_turn_def attempt_turn_def reserve_def
  next_interval_def pace_disabled_def pace_limit_def pace_window_def capped_def windowed_def inflight_count_def starts_of_def
  prune_starts_def drop_expired_def pc_release_def give_back_def wake_all_def woken_def put_task_def end_task_def
  od_touch_def od_del_def new_pacing_def new_pacer_def JITTER_RATIO_def drop_start_def strict_wait_def strict_start_def

theorem waiter_has_waker_witness:
  "\<exists>j. present j ''a'' (pace_run sample_pace [(0, Arrive 0 (Some ''a'')), (0, Proceed 0 0), (0, Arrive 1 (Some ''a'')), (0, Proceed 1 0)] new_pacing)"
proof -
  let ?s = "pace_run sample_pace [(0, Arrive 0 (Some ''a'')), (0, Proceed 0 0), (0, Arrive 1 (Some ''a'')), (0, Proceed 1 0)] new_pacing"
  obtain t where r: "pacing_reach ((=) sample_pace) t ?s"
    using pace_run_reaches[OF pacing_reach.init[of "(=) sample_pace" 0],
        of "[(0, Arrive 0 (Some ''a'')), (0, Proceed 0 0), (0, Arrive 1 (Some ''a'')), (0, Proceed 1 0)]"] by auto
  have w: "(1, AwaitWake ''a'') \<in> set (pg_tasks ?s)" by (simp add: pace_eval sample_pace_def)
  have "\<And>c. sample_pace = c \<Longrightarrow> pa_concurrent c" by (auto simp: sample_pace_def)
  from waiter_has_waker[OF r this w] show ?thesis by blast
qed

section \<open>Limits\<close>

text \<open>Under settings that do not change and limit the requests in flight, the count is exact.\<close>

definition unbooked_phase :: "phase \<Rightarrow> bool" where
  "unbooked_phase ph = (case ph of Active b reserved \<Rightarrow> \<not> reserved | Holding b until \<Rightarrow> True | _ \<Rightarrow> False)"

definition exact_inv :: "pace \<Rightarrow> pacing \<Rightarrow> bool" where
  "exact_inv c s \<longleftrightarrow> od_wf (pg_tasks s) \<and> (\<forall>b. holders b s = inflight_count b (pg_pacer s)
       \<and> inflight_count b (pg_pacer s) \<le> pace_limit c) \<and> (\<forall>t \<in> set (pg_tasks s). \<not> unbooked_phase (snd t))"

lemma exact_put:
  assumes "exact_inv c s" and "\<And>b. (case od_get (pg_tasks s) i of Some old \<Rightarrow> \<not> holds b old | None \<Rightarrow> True)"
    and "\<And>b. inflight_count b p = inflight_count b (pg_pacer s) + (if holds b new then 1 else 0)"
    and "\<And>b. holds b new \<Longrightarrow> inflight_count b (pg_pacer s) < pace_limit c" and "\<not> unbooked_phase new"
  shows "exact_inv c (put_task i new (s\<lparr>pg_pacer := p\<rparr>))"
proof -
  let ?s = "s\<lparr>pg_pacer := p\<rparr>"
  have wf: "od_wf (pg_tasks ?s)" using assms(1) by (simp add: exact_inv_def)
  have h: "holders b (put_task i new ?s) = holders b s + (if holds b new then 1 else 0)" for b
    using holders_put_le(1)[OF wf] assms(2) by (simp add: holders_cong[of ?s s])
  have "holders b s = inflight_count b (pg_pacer s)" "inflight_count b (pg_pacer s) \<le> pace_limit c" for b using assms(1) by (simp_all add: exact_inv_def)
  moreover have "\<forall>t \<in> set (pg_tasks (put_task i new ?s)). \<not> unbooked_phase (snd t)"
    using assms(1,5) by (auto simp: exact_inv_def dest!: tasks_put)
  ultimately show ?thesis using wf assms(3,4)
    by (auto simp: exact_inv_def h Suc_le_eq)
qed

lemma exact_end:
  assumes "exact_inv c s" and "\<And>b. (case od_get (pg_tasks s) i of Some old \<Rightarrow> \<not> holds b old | None \<Rightarrow> True)"
    and "\<And>b. inflight_count b p = inflight_count b (pg_pacer s)"
  shows "exact_inv c (end_task i (s\<lparr>pg_pacer := p\<rparr>))"
proof -
  let ?s = "s\<lparr>pg_pacer := p\<rparr>"
  have wf: "od_wf (pg_tasks ?s)" using assms(1) by (simp add: exact_inv_def)
  have "holders b (end_task i ?s) = holders b s" for b
    using holders_put_le(2)[OF wf] assms(2) by (simp add: holders_cong[of ?s s])
  moreover have "\<forall>t \<in> set (pg_tasks (end_task i ?s)). \<not> unbooked_phase (snd t)"
    using assms(1) by (auto simp: exact_inv_def dest!: tasks_end)
  ultimately show ?thesis using assms(1,3) wf by (auto simp: exact_inv_def)
qed

lemma exact_give_back:
  assumes "exact_inv c s" and get: "od_get (pg_tasks s) i = Some ph" and c: "pa_concurrent c" and b: "\<And>b'. holds b' ph \<longleftrightarrow> b' = b"
  shows "exact_inv c (give_back c b (end_task i s))"
proof -
  have wf: "od_wf (pg_tasks s)" and eq: "\<And>b. holders b s = inflight_count b (pg_pacer s)" "\<And>b. inflight_count b (pg_pacer s) \<le> pace_limit c"
    and act: "\<forall>t \<in> set (pg_tasks s). \<not> unbooked_phase (snd t)" using assms(1) by (simp_all add: exact_inv_def)
  obtain wake p where r: "pc_release c b (pg_pacer s) = (wake, p)" by fastforce
  note rc = release_count[OF r c]
  have h: "holders b' (end_task i s) = inflight_count b' p" "inflight_count b' p \<le> pace_limit c" for b'
    using holders_end[OF wf, of b' i] get b[of b'] rc(1)[of b'] eq[of b'] by (auto split: if_splits)
  have e: "\<forall>t \<in> set (pg_tasks (end_task i s)). \<not> unbooked_phase (snd t)" using act by (auto dest!: tasks_end)
  let ?s = "(end_task i s)\<lparr>pg_pacer := p\<rparr>"
  have base: "exact_inv c ?s" using wf h e by (simp add: exact_inv_def holders_cong[of ?s "end_task i s"])
  moreover have "exact_inv c (wake_all ?s)" using base by (auto simp: exact_inv_def) (auto simp: wake_all_def woken_def unbooked_phase_def split: phase.splits)
  ultimately show ?thesis by (simp add: give_back_def r Let_def)
qed

lemma exact_try:
  assumes ex: "exact_inv c s" and cap: "capped c" and get: "od_get (pg_tasks s) i = Some ph" and free: "\<And>b'. \<not> holds b' ph"
  shows "exact_inv c (try_turn c u i b now s)"
proof -
  have c: "pa_concurrent c" using cap by (simp add: capped_def)
  obtain r p where a: "attempt_turn c u b now (pg_pacer s) = (r, p)" by fastforce
  note ac = attempt_count[OF a c]
  have g: "case od_get (pg_tasks s) i of Some old \<Rightarrow> \<not> holds b' old | None \<Rightarrow> True" for b' using get free by simp
  show ?thesis
  proof (cases r)
    case (Reserved d w)
    have "exact_inv c (put_task i (if d > 0 then Delayed b (now + d) w else Active b True) (s\<lparr>pg_pacer := p\<rparr>))"
      by (rule exact_put[OF ex g]) (use ac(1) ac(3)[OF Reserved] cap in \<open>auto simp: Reserved holds_def unbooked_phase_def capped_def split: if_splits\<close>)
    then show ?thesis using c by (simp add: try_turn_def a Reserved split del: if_split)
  next
    case (SleepFor d)
    have "exact_inv c (put_task i (Asleep b (now + d)) (s\<lparr>pg_pacer := p\<rparr>))"
      by (rule exact_put[OF ex g]) (use ac(1) in \<open>auto simp: SleepFor holds_def unbooked_phase_def\<close>)
    then show ?thesis using c by (simp add: try_turn_def a SleepFor)
  next
    case WaitWake
    have "exact_inv c (put_task i (AwaitWake b) (s\<lparr>pg_pacer := p\<rparr>))"
      by (rule exact_put[OF ex g]) (use ac(1) in \<open>auto simp: WaitWake holds_def unbooked_phase_def\<close>)
    then show ?thesis using c by (simp add: try_turn_def a WaitWake)
  next
    case BadBounds
    have "exact_inv c (end_task i (s\<lparr>pg_pacer := p\<rparr>))"
      by (rule exact_end[OF ex g]) (use ac(1) in \<open>auto simp: BadBounds\<close>)
    then show ?thesis using c by (simp add: try_turn_def a BadBounds)
  qed
qed

lemma exact_step:
  assumes ex: "exact_inv c s" and cap: "capped c"
  shows "exact_inv c (pace_step c now m s)"
proof -
  have c: "pa_concurrent c" using cap by (simp add: capped_def)
  have wf: "od_wf (pg_tasks s)" using ex by (simp add: exact_inv_def)
  have same: "put_task i ph s = put_task i ph (s\<lparr>pg_pacer := pg_pacer s\<rparr>)" "end_task i s = end_task i (s\<lparr>pg_pacer := pg_pacer s\<rparr>)" for i ph
    by simp_all
  have booked: "od_get (pg_tasks s) i = Some ph \<Longrightarrow> \<not> unbooked_phase ph" for i ph
    using ex by (auto simp: exact_inv_def dest!: map_of_SomeD)
  have drop: "exact_inv c (s\<lparr>pg_pacer := drop_start b w (pg_pacer s)\<rparr>)" if "exact_inv c s" for b w s
    using that by (simp add: exact_inv_def holders_def)
  have start: "exact_inv c (put_task i (Active b True) s)" if "od_get (pg_tasks s) i = Some (Delayed b until w)" for i b until w
  proof -
    have "holders b' (put_task i (Active b True) s) = holders b' s" for b'
      using holders_end[OF wf, of b' i] that by (auto simp: holders_put holds_def)
    then show ?thesis using ex wf by (auto simp: exact_inv_def unbooked_phase_def dest!: tasks_put)
  qed
  have leave: "exact_inv c (end_task i s)" if "od_get (pg_tasks s) i = Some ph" "\<And>b. \<not> holds b ph" for i ph
    unfolding same by (rule exact_end[OF ex]) (simp_all add: that)
  show ?thesis
  proof (cases m)
    case (Arrive i key)
    have "exact_inv c (put_task i (Trying b) s)" if "od_get (pg_tasks s) i = None" for b
      unfolding same by (rule exact_put[OF ex]) (simp_all add: that holds_def unbooked_phase_def)
    then show ?thesis using ex cap by (simp add: pace_step_def Arrive arrive_def Let_def)
  next
    case (Proceed i u)
    show ?thesis
    proof (cases "od_get (pg_tasks s) i")
      case (Some ph)
      have t: "exact_inv c (try_turn c u i b now s)" if "\<And>b. \<not> holds b ph" for b by (rule exact_try[OF ex cap Some that])
      have g: "exact_inv c (give_back c b (end_task i s))" if "\<And>b'. holds b' ph \<longleftrightarrow> b = b'" for b
        by (rule exact_give_back[OF ex Some c]) (use that in auto)
      show ?thesis using ex t g booked[OF Some] start Some
        by (cases ph) (auto simp: pace_step_def Proceed proceed_def holds_def unbooked_phase_def)
    qed (simp add: pace_step_def Proceed proceed_def ex)
  next
    case (Cancel i)
    show ?thesis
    proof (cases "od_get (pg_tasks s) i")
      case (Some ph)
      have g: "exact_inv c (give_back c b (end_task i s))" if "\<And>b'. holds b' ph \<longleftrightarrow> b = b'" for b
        by (rule exact_give_back[OF ex Some c]) (use that in auto)
      show ?thesis using g booked[OF Some] leave Some
        by (cases ph) (auto simp: pace_step_def Cancel cancel_def holds_def unbooked_phase_def Let_def intro!: drop)
    qed (simp add: pace_step_def Cancel cancel_def ex)
  qed
qed

lemma exact_run: "exact_inv c s \<Longrightarrow> capped c \<Longrightarrow> exact_inv c (pace_run c ms s)"
  by (induction ms arbitrary: s) (auto simp: pace_run_def intro: exact_step)

lemma exact_new: "exact_inv c new_pacing"
  by (simp add: exact_inv_def new_pacing_def new_pacer_def holders_def inflight_count_def)

section \<open>Starts in a window\<close>

text \<open>What one move books in the window of a bucket, and what it takes back.\<close>

definition turn_books :: "pace \<Rightarrow> string \<Rightarrow> seconds \<Rightarrow> rat \<Rightarrow> pacer \<Rightarrow> bool" where
  "turn_books c b now u p = (case fst (attempt_turn c u b now p) of Reserved r w \<Rightarrow> True | _ \<Rightarrow> False)"

definition booked :: "pace \<Rightarrow> string \<Rightarrow> seconds \<Rightarrow> move \<Rightarrow> pacing \<Rightarrow> seconds option" where
  "booked c b now m s =
     (case m of
        Proceed i u \<Rightarrow>
          (case od_get (pg_tasks s) i of
             Some (Trying b') \<Rightarrow> if b' = b \<and> turn_books c b now u (pg_pacer s) then Some now else None
           | Some (Asleep b' until) \<Rightarrow>
               if until \<le> now \<and> b' = b \<and> turn_books c b now u (pg_pacer s) then Some now else None
           | _ \<Rightarrow> None)
      | _ \<Rightarrow> None)"

definition unbooked :: "string \<Rightarrow> move \<Rightarrow> pacing \<Rightarrow> seconds option" where
  "unbooked b m s =
     (case m of
        Cancel i \<Rightarrow> (case od_get (pg_tasks s) i of Some (Delayed b' until w) \<Rightarrow> if b' = b then w else None | _ \<Rightarrow> None)
      | _ \<Rightarrow> None)"

fun booking_log :: "pace \<Rightarrow> string \<Rightarrow> (seconds \<times> move) list \<Rightarrow> pacing \<Rightarrow> seconds list \<Rightarrow> seconds list" where
  "booking_log c b [] s hist = hist"
| "booking_log c b ((now, m) # ms) s hist =
     booking_log c b ms (pace_step c now m s)
       (case unbooked b m s of
          Some e \<Rightarrow> erase e hist
        | None \<Rightarrow> (case booked c b now m s of Some e \<Rightarrow> e # hist | None \<Rightarrow> hist))"

definition steady :: "pace \<Rightarrow> bool" where
  "steady c \<longleftrightarrow> windowed c \<and> 0 \<le> pa_min c \<and> pa_min c \<le> pa_max c"

definition booking_step :: "pace \<Rightarrow> string \<Rightarrow> seconds \<Rightarrow> pacing \<Rightarrow> seconds option \<Rightarrow> pacing \<Rightarrow> bool" where
  "booking_step c b now s e s' \<longleftrightarrow>
     steady c \<and> (\<exists>m. unbooked b m s = None \<and> booked c b now m s = e \<and> s' = pace_step c now m s)"

definition booking_undo :: "pace \<Rightarrow> string \<Rightarrow> seconds \<Rightarrow> pacing \<Rightarrow> pacing \<Rightarrow> bool" where
  "booking_undo c b e s s' \<longleftrightarrow> steady c \<and> (\<exists>m now. unbooked b m s = Some e \<and> s' = pace_step c now m s)"

lemma starts_set [simp]:
  "starts_of b (p\<lparr>pc_starts := (pc_starts p)(b' := v)\<rparr>)
   = (if b' = b then (case v of Some ts \<Rightarrow> ts | None \<Rightarrow> []) else starts_of b p)"
  by (simp add: starts_of_def)

lemma starts_release [simp]: "starts_of b (snd (pc_release c b' p)) = starts_of b p"
  by (simp add: pc_release_def starts_of_def Let_def)

lemma starts_give_back [simp]: "starts_of b (pg_pacer (give_back c b' s)) = starts_of b (pg_pacer s)"
  using starts_release[of b c b' "pg_pacer s"] by (cases "pc_release c b' (pg_pacer s)") (simp add: give_back_def Let_def)

lemma starts_drop: "starts_of b (drop_start b' w p) = (case w of Some t \<Rightarrow> if b' = b then remove1 t (starts_of b p) else starts_of b p | None \<Rightarrow> starts_of b p)"
  by (auto simp: drop_start_def remove1_idem split: option.split)

lemma starts_prune:
  "starts_of b (prune_starts c b' now p) = (if b' = b then drop_expired id (now - pace_window c) (starts_of b p) else starts_of b p)"
  by (cases "starts_of b p = []"; cases "drop_expired id (now - pace_window c) (starts_of b p) = []")
    (auto simp: prune_starts_def Let_def drop_window.prune_Nil)

lemma reserve_total: "0 \<le> pa_min c \<Longrightarrow> pa_min c \<le> pa_max c \<Longrightarrow> reserve c u b now p \<noteq> None"
  by (auto simp: reserve_def next_interval_def Let_def)

text \<open>One turn on a steady pacer.\<close>

lemma turn_starts:
  assumes "steady c" and "attempt_turn c u b now p = (r, p')"
  shows "b' \<noteq> b \<Longrightarrow> starts_of b' p' = starts_of b' p"
    and "(case r of
           Reserved d w \<Rightarrow> w = Some now \<and> length (drop_expired id (now - pace_window c) (starts_of b p)) < pace_limit c
             \<and> starts_of b p' = drop_expired id (now - pace_window c) (starts_of b p) @ [now]
         | SleepFor d \<Rightarrow> starts_of b p' = drop_expired id (now - pace_window c) (starts_of b p)
         | WaitWake \<Rightarrow> starts_of b p' = drop_expired id (now - pace_window c) (starts_of b p)
         | BadBounds \<Rightarrow> False)"
proof -
  have w: "windowed c" and t: "\<And>q. reserve c u b now q = None \<longleftrightarrow> False" using assms(1) reserve_total by (auto simp: steady_def)
  have rs: "starts_of x q' = starts_of x q" if "reserve c u b now q = Some (d, q')" for x q d q'
    using reserve_count[OF that, of b] by (simp add: starts_of_def)
  show "b' \<noteq> b \<Longrightarrow> starts_of b' p' = starts_of b' p"
    using assms(2) w
    by (auto simp: attempt_turn_def Let_def starts_prune not_le t dest!: rs[where x = b'] split: if_splits option.splits)
  show "(case r of
           Reserved d w \<Rightarrow> w = Some now \<and> length (drop_expired id (now - pace_window c) (starts_of b p)) < pace_limit c
             \<and> starts_of b p' = drop_expired id (now - pace_window c) (starts_of b p) @ [now]
         | SleepFor d \<Rightarrow> starts_of b p' = drop_expired id (now - pace_window c) (starts_of b p)
         | WaitWake \<Rightarrow> starts_of b p' = drop_expired id (now - pace_window c) (starts_of b p)
         | BadBounds \<Rightarrow> False)"
    using assms(2) w
    by (auto simp: attempt_turn_def Let_def starts_prune not_le t dest!: rs[where x = b] split: if_splits option.splits)
qed

lemma try_starts:
  assumes "steady c"
  shows "starts_of b' (pg_pacer (try_turn c u i b now s)) =
     (if b' \<noteq> b then starts_of b' (pg_pacer s)
      else let q = drop_expired id (now - pace_window c) (starts_of b (pg_pacer s))
           in if turn_books c b now u (pg_pacer s) then q @ [now] else q)"
    and "turn_books c b now u (pg_pacer s) \<Longrightarrow>
      length (drop_expired id (now - pace_window c) (starts_of b (pg_pacer s))) < pace_limit c"
proof -
  have c: "pa_concurrent c" using assms by (simp add: steady_def windowed_def)
  obtain r p where a: "attempt_turn c u b now (pg_pacer s) = (r, p)" by fastforce
  note ts = turn_starts[OF assms a]
  show "starts_of b' (pg_pacer (try_turn c u i b now s)) =
     (if b' \<noteq> b then starts_of b' (pg_pacer s)
      else let q = drop_expired id (now - pace_window c) (starts_of b (pg_pacer s))
           in if turn_books c b now u (pg_pacer s) then q @ [now] else q)"
    using ts(1)[of b'] ts(2) c by (cases r) (auto simp: try_turn_def turn_books_def a Let_def)
  show "turn_books c b now u (pg_pacer s) \<Longrightarrow>
      length (drop_expired id (now - pace_window c) (starts_of b (pg_pacer s))) < pace_limit c"
    using ts(2) by (cases r) (auto simp: turn_books_def a)
qed

lemma step_starts:
  assumes "steady c" and "unbooked b m s = None"
  shows "booked c b now m s = None \<Longrightarrow>
      starts_of b (pg_pacer (pace_step c now m s)) \<in>
        {starts_of b (pg_pacer s), drop_expired id (now - pace_window c) (starts_of b (pg_pacer s))}"
    and "booked c b now m s = Some e \<Longrightarrow> e = now \<and>
      starts_of b (pg_pacer (pace_step c now m s)) = drop_expired id (now - pace_window c) (starts_of b (pg_pacer s)) @ [now]
      \<and> length (drop_expired id (now - pace_window c) (starts_of b (pg_pacer s))) < pace_limit c"
proof -
  note t = try_starts[OF assms(1)]
  show "booked c b now m s = None \<Longrightarrow>
      starts_of b (pg_pacer (pace_step c now m s)) \<in>
        {starts_of b (pg_pacer s), drop_expired id (now - pace_window c) (starts_of b (pg_pacer s))}"
    using assms(2) t(1)
    by (auto simp: pace_step_def booked_def unbooked_def arrive_def proceed_def cancel_def Let_def starts_drop strict_start_def
        starts_of_def[of b "_\<lparr>pc_last := _\<rparr>"] starts_of_def[of b "pg_pacer s"]
        split: move.splits option.splits phase.splits if_splits)
  show "booked c b now m s = Some e \<Longrightarrow> e = now \<and>
      starts_of b (pg_pacer (pace_step c now m s)) = drop_expired id (now - pace_window c) (starts_of b (pg_pacer s)) @ [now]
      \<and> length (drop_expired id (now - pace_window c) (starts_of b (pg_pacer s))) < pace_limit c"
    using t by (auto simp: pace_step_def booked_def proceed_def Let_def split: move.splits option.splits phase.splits if_splits)
qed

lemma cancel_starts:
  "unbooked b m s = Some e \<Longrightarrow> starts_of b (pg_pacer (pace_step c now m s)) = remove1 e (starts_of b (pg_pacer s))"
  by (auto simp: unbooked_def pace_step_def cancel_def starts_drop Let_def split: move.splits option.splits phase.splits if_splits)

interpretation bookings: revocable_limiter id "if 0 < pace_window c then pace_window c else 1" "\<lambda>_. 1" "int (pace_limit c)"
  "\<lambda>s. starts_of b (pg_pacer s)" "booking_step c b" "booking_undo c b" for c b
proof
  fix now e :: rat and s s' :: pacing
  let ?W = "if 0 < pace_window c then pace_window c else 1"
  assume srt: "sorted (map id (starts_of b (pg_pacer s)))"
  note f = drop_expired_sorted[OF srt]
  { assume st: "booking_step c b now s None s'"
    then have W: "?W = pace_window c" by (simp add: booking_step_def steady_def windowed_def)
    with st step_starts(1)[of c b _ s now] show "starts_of b (pg_pacer s') = starts_of b (pg_pacer s)
        \<or> starts_of b (pg_pacer s') = filter (\<lambda>e. now - ?W < id e) (starts_of b (pg_pacer s))"
      unfolding W by (auto simp: booking_step_def f) }
  { assume st: "booking_step c b now s (Some e) s'"
    then have W: "?W = pace_window c" by (simp add: booking_step_def steady_def windowed_def)
    from st obtain m where m: "steady c" "unbooked b m s = None" "booked c b now m s = Some e" "s' = pace_step c now m s"
      by (auto simp: booking_step_def)
    from step_starts(2)[OF m(1-3)] show "id e = now
        \<and> starts_of b (pg_pacer s') = filter (\<lambda>x. now - ?W < id x) (starts_of b (pg_pacer s)) @ [e]
        \<and> weigh (\<lambda>_. 1) (filter (\<lambda>x. now - ?W < id x) (starts_of b (pg_pacer s))) + 1 \<le> int (pace_limit c)"
      unfolding W m(4) f by (simp add: weigh_one) }
qed (auto simp: booking_undo_def cancel_starts)

lemma log_run:
  assumes "steady c"
  shows "revocable_run (booking_step c b) (booking_undo c b) new_pacing t s hist \<Longrightarrow> sorted (t # map fst ms) \<Longrightarrow>
    \<exists>t' s'. revocable_run (booking_step c b) (booking_undo c b) new_pacing t' s' (booking_log c b ms s hist)"
proof (induction ms arbitrary: t s hist)
  case (Cons a ms)
  obtain now m where a: "a = (now, m)" by fastforce
  let ?s = "pace_step c now m s"
  have le: "t \<le> now" "sorted (now # map fst ms)" "sorted (t # map fst ms)" using Cons.prems(2) by (auto simp: a)
  let ?R = "revocable_run (booking_step c b) (booking_undo c b) new_pacing"
  show ?case
  proof (cases "unbooked b m s")
    case (Some e)
    have "?R t ?s (erase e hist)"
      by (rule revocable_run.revoke[OF Cons.prems(1)]) (use assms Some in \<open>auto simp: booking_undo_def\<close>)
    from Cons.IH[OF this le(3)] show ?thesis by (simp add: a Some)
  next
    case None
    then have st: "booking_step c b now s (booked c b now m s) ?s" using assms by (auto simp: booking_step_def)
    show ?thesis
    proof (cases "booked c b now m s")
      case None2: None
      have "?R now ?s hist" by (rule revocable_run.quiet[OF Cons.prems(1) le(1)]) (use st None2 in simp)
      from Cons.IH[OF this le(2)] show ?thesis by (simp add: a None None2)
    next
      case (Some e)
      have "?R now ?s (e # hist)" by (rule revocable_run.event[OF Cons.prems(1) le(1)]) (use st Some in simp)
      from Cons.IH[OF this le(2)] show ?thesis by (simp add: a None Some)
    qed
  qed
qed auto


definition window_pace :: pace where
  "window_pace = \<lparr>pa_min = 5, pa_max = 5, pa_concurrent = True, pa_limit = 3, pa_window = 60\<rparr>"


section \<open>Starts\<close>

text \<open>The moments at which requests of the buckets \<open>B\<close> return from \<^verbatim>\<open>wait_turn\<close>, newest first.\<close>

definition running :: "(string \<Rightarrow> bool) \<Rightarrow> nat \<Rightarrow> pacing \<Rightarrow> bool" where
  "running B i s = (case od_get (pg_tasks s) i of Some (Active b reserved) \<Rightarrow> B b | _ \<Rightarrow> False)"

definition log_start :: "(string \<Rightarrow> bool) \<Rightarrow> seconds \<Rightarrow> move \<Rightarrow> pacing \<Rightarrow> pacing \<Rightarrow> seconds list \<Rightarrow> seconds list" where
  "log_start B now m s s' hist = (if running B (mover m) s' \<and> \<not> running B (mover m) s then now # hist else hist)"

fun start_log :: "(string \<Rightarrow> bool) \<Rightarrow> (pace \<times> seconds \<times> move) list \<Rightarrow> pacing \<Rightarrow> seconds list \<Rightarrow> seconds list" where
  "start_log B [] s hist = hist"
| "start_log B ((c, now, m) # ms) s hist =
     (let s' = pace_step c now m s in start_log B ms s' (log_start B now m s s' hist))"

text \<open>The invariant of the strict mode: whoever sleeps has the lock and sleeps past the minimum.\<close>

definition strict_inv :: "pace \<Rightarrow> pacing \<Rightarrow> seconds list \<Rightarrow> bool" where
  "strict_inv c s hist \<longleftrightarrow> od_wf (pg_tasks s) \<and> pc_last (pg_pacer s) = (case hist of [] \<Rightarrow> None | t # _ \<Rightarrow> Some t)
     \<and> successively (\<lambda>x y. y + pa_min c \<le> x) hist
     \<and> (\<forall>i b until. (i, Holding b until) \<in> set (pg_tasks s) \<longrightarrow> pg_lock s \<and> (\<forall>t. pc_last (pg_pacer s) = Some t \<longrightarrow> t + pa_min c \<le> until))
     \<and> (\<forall>i j b b' d d'. (i, Holding b d) \<in> set (pg_tasks s) \<longrightarrow> (j, Holding b' d') \<in> set (pg_tasks s) \<longrightarrow> i = j)
     \<and> (\<forall>i b d w. (i, Delayed b d w) \<notin> set (pg_tasks s) \<and> (i, Asleep b d) \<notin> set (pg_tasks s))"

definition spacing :: "pace \<Rightarrow> bool" where
  "spacing c \<longleftrightarrow> \<not> pa_concurrent c \<and> 0 \<le> pa_min c \<and> pa_min c \<le> pa_max c \<and> 0 < pa_max c"

lemma interval_bound:
  assumes "spacing c" "0 \<le> u"
  shows "\<exists>d. next_interval c u = Some d \<and> pa_min c \<le> d"
proof -
  have "0 \<le> (pa_max c - pa_min c) * u" "0 \<le> pa_min c * (1 / 4 * u)" using assms by (simp_all add: spacing_def)
  then show ?thesis using assms(1) by (auto simp: next_interval_def spacing_def pace_disabled_def JITTER_RATIO_def distrib_left)
qed

lemma strict_wait_bound:
  assumes "spacing c" "0 \<le> u"
  shows "\<exists>d. strict_wait c u now p = Some d \<and> 0 \<le> d \<and> (\<forall>t. pc_last p = Some t \<longrightarrow> t + pa_min c \<le> now + d)"
  using interval_bound[OF assms] by (fastforce simp: strict_wait_def split: option.split)

lemma release_strict: "\<not> pa_concurrent c \<Longrightarrow> give_back c b s = s"
  by (simp add: give_back_def pc_release_def)

definition fair_draw :: "move \<Rightarrow> bool" where
  "fair_draw m = (case m of Proceed i u \<Rightarrow> 0 \<le> u | _ \<Rightarrow> True)"

lemma strict_put:
  assumes "strict_inv c s hist" and "\<And>b d w. new \<noteq> Holding b d \<and> new \<noteq> Delayed b d w \<and> new \<noteq> Asleep b d"
  shows "strict_inv c (put_task i new s) hist"
  using assms by (auto simp: strict_inv_def dest!: tasks_put; metis)

lemma strict_end: "strict_inv c s hist \<Longrightarrow> strict_inv c (end_task i s) hist"
  by (auto simp: strict_inv_def dest!: tasks_end; metis)

lemma strict_go:
  assumes inv: "strict_inv c s hist" and past: "\<And>t. pc_last (pg_pacer s) = Some t \<Longrightarrow> t + pa_min c \<le> now"
    and alone: "\<And>j b d. (j, Holding b d) \<in> set (pg_tasks s) \<Longrightarrow> j = i"
  shows "strict_inv c (put_task i (Active b False) (s\<lparr>pg_pacer := strict_start now (pg_pacer s), pg_lock := l\<rparr>)) (now # hist)"
proof -
  let ?s = "put_task i (Active b False) (s\<lparr>pg_pacer := strict_start now (pg_pacer s), pg_lock := l\<rparr>)"
  have "(j, Holding b' d) \<notin> set (pg_tasks ?s)" for j b' d
    using alone by (auto simp: put_task_def od_touch_def od_del_def)
  moreover have "successively (\<lambda>x y. y + pa_min c \<le> x) (now # hist)"
    using inv past by (cases hist) (auto simp: strict_inv_def)
  moreover have "(j, Delayed b' d w) \<notin> set (pg_tasks ?s)" "(j, Asleep b' d) \<notin> set (pg_tasks ?s)" for j b' d w
    using inv by (auto simp: strict_inv_def put_task_def od_touch_def od_del_def)
  ultimately show ?thesis using inv by (simp add: strict_inv_def strict_start_def)
qed

lemma strict_hold:
  assumes inv: "strict_inv c s hist" and free: "\<not> pg_lock s" and till: "\<And>t. pc_last (pg_pacer s) = Some t \<Longrightarrow> t + pa_min c \<le> until"
  shows "strict_inv c (put_task i (Holding b until) (s\<lparr>pg_lock := True\<rparr>)) hist"
proof -
  have none: "(j, Holding b' d) \<notin> set (pg_tasks s)" for j b' d using inv free by (auto simp: strict_inv_def)
  have only: "(j, Holding b' d) \<in> set (pg_tasks (put_task i (Holding b until) (s\<lparr>pg_lock := True\<rparr>))) \<Longrightarrow> j = i \<and> d = until" for j b' d
    using none by (auto simp: put_task_def od_touch_def od_del_def)
  have rest: "(j, Delayed b' d w) \<notin> set (pg_tasks (put_task i (Holding b until) (s\<lparr>pg_lock := True\<rparr>)))"
    "(j, Asleep b' d) \<notin> set (pg_tasks (put_task i (Holding b until) (s\<lparr>pg_lock := True\<rparr>)))" for j b' d w
    using inv by (auto simp: strict_inv_def put_task_def od_touch_def od_del_def)
  have "(case hist of [] \<Rightarrow> None | t # _ \<Rightarrow> Some t) = Some t \<Longrightarrow> t + pa_min c \<le> until" for t
    using inv till by (simp add: strict_inv_def)
  then show ?thesis using inv unfolding strict_inv_def by (auto simp: rest dest!: only)
qed

lemma running_put: "running B i (put_task i ph s) = (case ph of Active b r \<Rightarrow> B b | _ \<Rightarrow> False)"
  by (simp add: running_def put_task_def od_touch_def map_add_def)

lemma running_end: "\<not> running B i (end_task i s)"
  by (simp add: running_def end_task_def)

lemma strict_step:
  assumes inv: "strict_inv c s hist" and c: "spacing c" and m: "fair_draw m"
  shows "strict_inv c (pace_step c now m s) (log_start (\<lambda>_. True) now m s (pace_step c now m s) hist)"
proof -
  have cc: "\<not> pa_concurrent c" "\<not> (pace_disabled c \<and> \<not> capped c)" using c by (auto simp: spacing_def pace_disabled_def)
  have wf: "od_wf (pg_tasks s)" using inv by (simp add: strict_inv_def)
  show ?thesis
  proof (cases m)
    case (Arrive i key)
    have "strict_inv c (put_task i (Trying b) s) hist" for b by (rule strict_put[OF inv]) simp
    then show ?thesis using inv cc(2)
      by (auto simp: pace_step_def Arrive arrive_def Let_def log_start_def mover_def running_put)
  next
    case (Proceed i u)
    show ?thesis
    proof (cases "od_get (pg_tasks s) i")
      case None
      then show ?thesis using inv by (simp add: pace_step_def Proceed proceed_def log_start_def mover_def running_def)
    next
      case (Some ph)
      then have mem: "(i, ph) \<in> set (pg_tasks s)" by (rule map_of_SomeD)
      show ?thesis
      proof (cases ph)
        case (Trying b)
        have nr: "\<not> running (\<lambda>_. True) i s" by (simp add: running_def Some Trying)
        obtain d where d: "strict_wait c u now (pg_pacer s) = Some d" "0 \<le> d"
          "\<And>t. pc_last (pg_pacer s) = Some t \<Longrightarrow> t + pa_min c \<le> now + d"
          using strict_wait_bound[OF c, of u now "pg_pacer s"] m by (auto simp: Proceed fair_draw_def)
        show ?thesis
        proof (cases "pg_lock s")
          case True
          then show ?thesis using inv cc nr
            by (simp add: pace_step_def Proceed proceed_def Some Trying try_turn_def log_start_def mover_def)
        next
          case False
          have s: "s\<lparr>pg_pacer := p, pg_lock := False\<rparr> = s\<lparr>pg_pacer := p\<rparr>" for p using False by (cases s) simp
          have none: "(j, Holding b' x) \<notin> set (pg_tasks s)" for j b' x using inv False by (auto simp: strict_inv_def)
          have "strict_inv c (put_task i (Holding b (now + d)) (s\<lparr>pg_lock := True\<rparr>)) hist" by (rule strict_hold[OF inv False d(3)])
          moreover have "strict_inv c (put_task i (Active b False) (s\<lparr>pg_pacer := strict_start now (pg_pacer s)\<rparr>)) (now # hist)" if "d = 0"
            using strict_go[OF inv _ , of now i b False] d(3) that none unfolding s by auto
          ultimately show ?thesis using cc d(1,2) nr False
            by (auto simp: pace_step_def Proceed proceed_def Some Trying try_turn_def log_start_def mover_def running_put)
        qed
      next
        case (Holding b until)
        have nr: "\<not> running (\<lambda>_. True) i s" by (simp add: running_def Some Holding)
        have "strict_inv c (put_task i (Active b False) (s\<lparr>pg_pacer := strict_start now (pg_pacer s), pg_lock := False\<rparr>)) (now # hist)"
          if "until \<le> now"
        proof (rule strict_go[OF inv])
          show "t + pa_min c \<le> now" if "pc_last (pg_pacer s) = Some t" for t
            using inv mem that \<open>until \<le> now\<close> unfolding strict_inv_def Holding by force
          show "j = i" if "(j, Holding b' d) \<in> set (pg_tasks s)" for j b' d
            using inv mem that unfolding strict_inv_def Holding by blast
        qed
        then show ?thesis using inv nr
          by (auto simp: pace_step_def Proceed proceed_def Some Holding log_start_def mover_def running_put)
      next
        case (Active b r)
        then show ?thesis using strict_end[OF inv] running_end
          by (simp add: pace_step_def Proceed proceed_def Some release_strict[OF cc(1)] log_start_def mover_def)
      qed (use inv mem in \<open>auto simp: strict_inv_def pace_step_def Proceed proceed_def Some log_start_def mover_def running_def\<close>)
    qed
  next
    case (Cancel i)
    have unlock: "strict_inv c (end_task i (s\<lparr>pg_lock := False\<rparr>)) hist" if "od_get (pg_tasks s) i = Some (Holding b until)" for b until
    proof -
      have "(i, Holding b until) \<in> set (pg_tasks s)" using that by (rule map_of_SomeD)
      then have "(j, Holding b' d) \<in> set (pg_tasks s) \<Longrightarrow> j = i" for j b' d using inv unfolding strict_inv_def by blast
      then have "(j, Holding b' d) \<notin> set (pg_tasks (end_task i (s\<lparr>pg_lock := False\<rparr>)))" for j b' d
        by (auto simp: end_task_def od_del_def)
      then show ?thesis using inv by (auto simp: strict_inv_def dest!: tasks_end)
    qed
    have quiet: "log_start (\<lambda>_. True) now m s (end_task i s') hist = hist" for s'
      using running_end by (simp add: log_start_def Cancel mover_def)
    show ?thesis
    proof (cases "od_get (pg_tasks s) i")
      case None
      then show ?thesis using inv by (simp add: pace_step_def Cancel cancel_def log_start_def mover_def running_def)
    next
      case (Some ph)
      have "(i, Delayed b d w) \<notin> set (pg_tasks s)" for b d w using inv by (simp add: strict_inv_def)
      then have nd: "ph \<noteq> Delayed b d w" for b d w using Some map_of_SomeD by metis
      show ?thesis
      proof (cases ph)
        case (Delayed b d w)
        with nd show ?thesis by blast
      qed (use unlock[unfolded Some] strict_end[OF inv, of i] quiet Some cc(1) in
          \<open>simp_all add: pace_step_def Cancel cancel_def release_strict\<close>)
    qed
  qed
qed

text \<open>In the strict mode any two turns of the pacer are at least the minimum interval apart, whoever takes them
  and whatever is cancelled in between.\<close>

theorem strict_turns_spaced:
  assumes "spacing c" and "\<forall>m \<in> set ms. fair_draw (snd m)"
  shows "successively (\<lambda>x y. y + pa_min c \<le> x) (start_log (\<lambda>_. True) (map (Pair c) ms) new_pacing [])"
proof -
  have "strict_inv c s hist \<Longrightarrow> successively (\<lambda>x y. y + pa_min c \<le> x) (start_log (\<lambda>_. True) (map (Pair c) ms) s hist)" for s hist
    using assms(2)
  proof (induction ms arbitrary: s hist)
    case (Cons a ms)
    then show ?case using strict_step[OF Cons.prems(1) assms(1), of "snd a" "fst a"] by (cases a) (simp add: Let_def)
  qed (simp add: strict_inv_def)
  then show ?thesis by (simp add: strict_inv_def new_pacing_def new_pacer_def)
qed

theorem strict_turns_spaced_witness:
  "successively (\<lambda>x y. y + 2 \<le> x) (start_log (\<lambda>_. True) (map (Pair \<lparr>pa_min = 2, pa_max = 4, pa_concurrent = False, pa_limit = 0, pa_window = 0\<rparr>)
     [(0, Arrive 0 None), (0, Proceed 0 0), (1, Arrive 1 None), (1, Proceed 1 0), (2, Proceed 1 0)]) new_pacing [])"
  using strict_turns_spaced[of "\<lparr>pa_min = 2, pa_max = 4, pa_concurrent = False, pa_limit = 0, pa_window = 0\<rparr>"
     "[(0, Arrive 0 None), (0, Proceed 0 0), (1, Arrive 1 None), (1, Proceed 1 0), (2, Proceed 1 0)]"]
  by (simp add: spacing_def fair_draw_def)

definition burst :: "(seconds \<times> move) list" where
  "burst = [(0, Arrive 0 None), (0, Proceed 0 0), (0, Proceed 0 0),
            (1, Arrive 1 None), (1, Proceed 1 0), (1, Arrive 2 None), (1, Proceed 2 0), (2, Proceed 2 0),
            (5, Proceed 1 0), (6, Proceed 1 0), (60, Arrive 3 None), (60, Proceed 3 0),
            (61, Arrive 4 None), (61, Proceed 4 0), (61, Arrive 5 None), (61, Proceed 5 0)]"

text \<open>
  The concurrent mode is looser than it says, in two ways. A request that finds another one of its bucket
  asleep (with a place, but not started) starts at once, within the minimum interval of the last start; and the window
  counts bookings, not starts, so with a delayed start four requests start within one window of a limit of three.
\<close>

theorem delayed_start_overfills_window:
  "start_log (\<lambda>_. True) (map (Pair window_pace) burst) new_pacing [] = [61, 61, 60, 5, 1, 0]
   \<and> pace_limit window_pace < length (in_window id (pa_window window_pace) 61 (start_log (\<lambda>_. True) (map (Pair window_pace) burst) new_pacing []))"
proof -
  have l: "start_log (\<lambda>_. True) (map (Pair window_pace) burst) new_pacing [] = [61, 61, 60, 5, 1, 0]"
    by code_simp
  show ?thesis unfolding l by (simp add: in_window_def window_pace_def pace_limit_def)
qed

text \<open>
  A request that passes while the pacer is switched off takes no place but gives one back: after the pacer is switched on with a limit of one,
  its end frees the place of a request that is still running, and a second one starts beside it.
\<close>

theorem switched_on_pacer_overfills:
  "let off = sample_pace\<lparr>pa_min := 0, pa_max := 0, pa_limit := 0\<rparr>;
       s = fold (\<lambda>(c, now, m). pace_step c now m)
         [(off, 0, Arrive 0 None), (sample_pace, 1, Arrive 1 None), (sample_pace, 1, Proceed 1 0), (sample_pace, 2, Proceed 0 0),
          (sample_pace, 9, Arrive 2 None), (sample_pace, 9, Proceed 2 0)] new_pacing
   in holders [] s = 2 \<and> pace_limit sample_pace = 1"
  by code_simp

end
