(* ===== verification/UpstreamErrors.thy ===== *)
theory UpstreamErrors
  imports PyNum Reasoning Compress
begin

text \<open>
  What the body and the status of an upstream's refusal mean: the business codes and the queue hint of
  \<^verbatim>\<open>src/provider/base.py\<close>, and the classification of the answers of the eight upstreams
  (\<^verbatim>\<open>classify_status\<close> and \<^verbatim>\<open>classify_error_code\<close> of \<^verbatim>\<open>src/provider/*/events.py\<close>). A body is its decoded
  text, a list of code points; \<^verbatim>\<open>json.loads\<close> is a parameter whose errors are values.
\<close>

section \<open>Text\<close>

text \<open>\<^verbatim>\<open>NotJson\<close> is the error the code catches; the other two are raised by \<^verbatim>\<open>int()\<close> (more than 4300 digits)
  and by \<^verbatim>\<open>math.isfinite\<close> (an integer beyond the doubles), and nothing here catches them.\<close>

datatype text_fault = NotJson | IntTooLong | FloatTooLarge

definition low :: "utext \<Rightarrow> utext" where
  "low t = concat (map lower_code t)"

text \<open>White space of \<^verbatim>\<open>str\<close> beyond the first 256 code points.\<close>

definition is_wide_space :: "nat \<Rightarrow> bool" where
  "is_wide_space n \<longleftrightarrow> is_space_code n \<or> n = 5760 \<or> (8192 \<le> n \<and> n \<le> 8202) \<or> n \<in> {8232, 8233, 8239, 8287, 12288}"

definition strip_text :: "utext \<Rightarrow> utext" where
  "strip_text t = rev (dropWhile is_wide_space (rev (dropWhile is_wide_space t)))"

definition any_in :: "utext list \<Rightarrow> utext \<Rightarrow> bool" where
  "any_in markers t = list_ex (\<lambda>m. py_contains m t) markers"

text \<open>The decimal digits of \<^verbatim>\<open>\d\<close> and \<^verbatim>\<open>int()\<close>: the blocks of ten among the ranges of \<^verbatim>\<open>str.isdigit\<close>, without the
  subscripts.\<close>

definition decimal_ranges :: "(nat \<times> nat) list" where
  "decimal_ranges = (6608, 6617) # filter (\<lambda>(a, b). (b + 1 - a) mod 10 = 0 \<and> a \<noteq> 8320) digit_ranges"

definition decimal :: "nat \<Rightarrow> nat option" where
  "decimal n = (case find (\<lambda>(a, b). a \<le> n \<and> n \<le> b) decimal_ranges of Some (a, b) \<Rightarrow> Some ((n - a) mod 10) | None \<Rightarrow> None)"

definition is_decimal :: "nat \<Rightarrow> bool" where
  "is_decimal n \<longleftrightarrow> decimal n \<noteq> None"

definition INT_MAX_STR_DIGITS :: nat where
  "INT_MAX_STR_DIGITS = 4300"

definition int_of_digits :: "utext \<Rightarrow> text_fault + int" where
  "int_of_digits ds =
     (if length ds > INT_MAX_STR_DIGITS then Inl IntTooLong
      else Inr (foldl (\<lambda>n d. 10 * n + int (case decimal d of Some v \<Rightarrow> v | None \<Rightarrow> 0)) 0 ds))"

section \<open>Business codes\<close>

text \<open>\<^verbatim>\<open>(?:-\d+)*\<close>: the groups after the first digits, as long as a digit follows the hyphen.\<close>

fun more_groups :: "nat \<Rightarrow> utext \<Rightarrow> utext \<times> utext" where
  "more_groups 0 t = ([], t)"
| "more_groups (Suc n) t =
     (case t of
        [] \<Rightarrow> ([], [])
      | c # r \<Rightarrow>
          if c = 45 \<and> takeWhile is_decimal r \<noteq> []
          then let (g, rest) = more_groups n (dropWhile is_decimal r) in (c # takeWhile is_decimal r @ g, rest)
          else ([], t))"

text \<open>The token \<^verbatim>\<open>-?\d+(?:-\d+)*\<close> at the head of a text, and what follows it.\<close>

definition code_token :: "utext \<Rightarrow> (utext \<times> utext) option" where
  "code_token t =
     (let sign = takeWhile (\<lambda>c. c = 45) (take 1 t); r = drop (length sign) t; ds = takeWhile is_decimal r
      in if ds = [] then None
         else let (g, rest) = more_groups (length t) (dropWhile is_decimal r) in Some (sign @ ds @ g, rest))"

definition CODE_KEY :: utext where
  "CODE_KEY = 34 # codes ''code'' @ [34]"

text \<open>One match of \<^verbatim>\<open>_BUSINESS_CODE_RE\<close> at the head of a text: the token and the rest.\<close>

definition match_code :: "utext \<Rightarrow> (utext \<times> utext) option" where
  "match_code t =
     (if take 6 t \<noteq> CODE_KEY then None
      else case dropWhile is_wide_space (drop 6 t) of
             [] \<Rightarrow> None
           | c # r \<Rightarrow>
               if c \<noteq> 58 then None
               else let v = dropWhile is_wide_space r;
                        v = (case v of q # w \<Rightarrow> if q = 34 then w else v | [] \<Rightarrow> v)
                    in case code_token v of
                         None \<Rightarrow> None
                       | Some (tok, rest) \<Rightarrow>
                           Some (tok, case rest of q # w \<Rightarrow> if q = 34 then w else rest | [] \<Rightarrow> rest))"

text \<open>\<^verbatim>\<open>findall\<close>; the fuel is the length of the text, since every match consumes some of it.\<close>

fun code_tokens :: "nat \<Rightarrow> utext \<Rightarrow> utext list" where
  "code_tokens 0 t = []"
| "code_tokens (Suc n) t =
     (case t of
        [] \<Rightarrow> []
      | c # r \<Rightarrow> (case match_code t of Some (tok, rest) \<Rightarrow> tok # code_tokens n rest | None \<Rightarrow> code_tokens n r))"

definition code_value :: "utext \<Rightarrow> text_fault + int" where
  "code_value tok =
     (if 45 \<in> set (tl tok) then int_of_digits (filter (\<lambda>c. c \<noteq> 45) tok)
      else case tok of
             c # ds \<Rightarrow> if c = 45 then try_bind (int_of_digits ds) (\<lambda>n. Inr (- n)) else int_of_digits tok
           | [] \<Rightarrow> int_of_digits [])"

definition business_codes :: "utext \<Rightarrow> text_fault + int list" where
  "business_codes t = try_map code_value (code_tokens (length t) t)"

definition any_of :: "int list \<Rightarrow> int list \<Rightarrow> bool" where
  "any_of cs wanted = list_ex (\<lambda>c. c \<in> set wanted) cs"

section \<open>Queue hints\<close>

definition QUEUE_FLAG_KEYS :: "string list" where
  "QUEUE_FLAG_KEYS = [''isQueued'', ''is_queued'', ''queued'']"

definition QUEUE_WAIT_KEYS :: "string list" where
  "QUEUE_WAIT_KEYS = [''retryAfterSeconds'', ''retry_after_seconds'', ''retryAfter'', ''retry_after'']"

definition QUEUE_SUB_CODES :: "string list" where
  "QUEUE_SUB_CODES = [''RESOURCE_LIMIT'', ''RESOURCE_LIMIT_EXCEEDED'']"

text \<open>\<^verbatim>\<open>str.upper\<close> on the first 256 code points; two of them leave that range, one becomes two letters.\<close>

definition upper_code :: "nat \<Rightarrow> nat list" where
  "upper_code n =
     (if (97 \<le> n \<and> n \<le> 122) \<or> (224 \<le> n \<and> n \<le> 254 \<and> n \<noteq> 247) then [n - 32]
      else if n = 223 then [83, 83] else if n = 255 then [376] else if n = 181 then [924] else [n])"

definition is_queue_flag :: "jobject \<Rightarrow> bool" where
  "is_queue_flag node \<longleftrightarrow>
     list_ex (\<lambda>k. jget node k = JBool True) QUEUE_FLAG_KEYS
     \<or> list_ex (\<lambda>k. case jget node k of JStr s \<Rightarrow> concat (map upper_code (codes s)) \<in> codes ` set QUEUE_SUB_CODES | _ \<Rightarrow> False)
         [''subCode'', ''sub_code'', ''errorCode'', ''code'']"

fun wait_of :: "jobject \<Rightarrow> string list \<Rightarrow> text_fault + rat option" where
  "wait_of node [] = Inr None"
| "wait_of node (k # ks) =
     (case jget node k of
        JInt n \<Rightarrow>
          if \<bar>n\<bar> \<ge> FLOAT_OVERFLOW then Inl FloatTooLarge
          else if n \<ge> 0 then Inr (Some (py_float n)) else wait_of node ks
      | JFloat r \<Rightarrow> if r \<ge> 0 then Inr (Some r) else wait_of node ks
      | _ \<Rightarrow> wait_of node ks)"

definition queue_wait_seconds :: "jobject \<Rightarrow> text_fault + rat option" where
  "queue_wait_seconds node = wait_of node QUEUE_WAIT_KEYS"

fun first_wait :: "('v \<Rightarrow> text_fault + rat option) \<Rightarrow> 'v list \<Rightarrow> text_fault + rat option" where
  "first_wait f [] = Inr None"
| "first_wait f (v # vs) = try_bind (f v) (\<lambda>found. case found of Some w \<Rightarrow> Inr (Some w) | None \<Rightarrow> first_wait f vs)"

definition object_wait :: "(json \<Rightarrow> text_fault + rat option) \<Rightarrow> jobject \<Rightarrow> text_fault + rat option" where
  "object_wait f node =
     (if is_queue_flag node
      then try_bind (queue_wait_seconds node) (\<lambda>own. case own of
             Some w \<Rightarrow> Inr (Some w)
           | None \<Rightarrow> try_bind (first_wait f (map snd node)) (\<lambda>found.
               Inr (Some (case found of Some w \<Rightarrow> w | None \<Rightarrow> QUEUE_DEFAULT_WAIT_SECONDS))))
      else first_wait f (map snd node))"

definition container_wait :: "(json \<Rightarrow> text_fault + rat option) \<Rightarrow> json \<Rightarrow> text_fault + rat option" where
  "container_wait f v =
     (case v of JObj node \<Rightarrow> object_wait f node | JList vs \<Rightarrow> first_wait f vs | _ \<Rightarrow> Inr None)"

text \<open>
  \<^verbatim>\<open>_queue_wait_in_text\<close>: a text that starts with a brace or a bracket is parsed, at the depth of the text. What
  \<^verbatim>\<open>json.loads\<close> makes of such a text is an object or a list, so the recursion of the code on a text within a
  text ends at once.
\<close>

definition parsed_text :: "(utext \<Rightarrow> text_fault + json) \<Rightarrow> utext \<Rightarrow> text_fault + json" where
  "parsed_text loads t =
     (let s = strip_text t in
      if s = [] \<or> hd s \<notin> {123, 91} then Inr JNull
      else case loads s of Inl NotJson \<Rightarrow> Inr JNull | r \<Rightarrow> r)"

text \<open>\<^verbatim>\<open>_queue_wait_in\<close>; the first argument is what is left of the depth, 4 at the top.\<close>

fun queue_wait_in :: "(utext \<Rightarrow> text_fault + json) \<Rightarrow> nat \<Rightarrow> json \<Rightarrow> text_fault + rat option" where
  "queue_wait_in loads 0 v = Inr None"
| "queue_wait_in loads (Suc d) v =
     (case v of
        JStr s \<Rightarrow> try_bind (parsed_text loads (codes s)) (container_wait (queue_wait_in loads d))
      | _ \<Rightarrow> container_wait (queue_wait_in loads d) v)"

definition parse_queue_hint :: "(utext \<Rightarrow> text_fault + json) \<Rightarrow> utext \<Rightarrow> text_fault + rat option" where
  "parse_queue_hint loads t =
     (if strip_text t = [] then Inr None
      else case loads t of
             Inl NotJson \<Rightarrow> Inr None
           | Inl e \<Rightarrow> Inl e
           | Inr payload \<Rightarrow> queue_wait_in loads 4 payload)"

section \<open>Kilo and Zen\<close>

definition kilo_status :: "int \<Rightarrow> err_kind" where
  "kilo_status status =
     (if status = 401 then INVALID
      else if status \<in> {429, 502, 503, 504} then MODEL
      else if status \<in> {400, 404, 422} then INVALID
      else if status = 403 then REQUEST
      else OTHER)"

definition kilo_code :: "int option \<Rightarrow> err_kind" where
  "kilo_code code =
     (if code = Some 401 then INVALID
      else if code \<in> Some ` {429, 502, 503, 504} then MODEL
      else if code \<in> Some ` {400, 404, 422} then INVALID
      else if code = Some 403 then REQUEST
      else OTHER)"

definition zen_status :: "int \<Rightarrow> err_kind" where
  "zen_status status =
     (if status = 401 then INVALID
      else if status = 429 then SOFT
      else if status \<in> {400, 404, 422} then INVALID
      else if status = 403 then REQUEST
      else OTHER)"

definition zen_code :: "int option \<Rightarrow> err_kind" where
  "zen_code code =
     (if code = Some 401 then INVALID
      else if code = Some 429 then SOFT
      else if code \<in> Some ` {400, 404, 422} then INVALID
      else if code = Some 403 then REQUEST
      else OTHER)"

section \<open>Raccoon\<close>

definition RATE_LIMIT_MARKERS :: "utext list" where
  "RATE_LIMIT_MARKERS = [codes ''user_model_rate_limited'', [35831, 27714, 39057, 29575, 36229, 38480], codes ''rate_limit'']"

definition IDENTITY_MARKERS :: "utext list" where
  "IDENTITY_MARKERS = map codes [''identity could not be verified'', ''invalid token'', ''unauthorized'', ''token authentication failed'']"

definition RACCOON_CREDIT_MARKERS :: "utext list" where
  "RACCOON_CREDIT_MARKERS = map codes [''insufficient'', ''balance'', ''points''] @ [[31215, 20998], [20313, 39069]]"

definition raccoon_error :: "utext \<Rightarrow> err_kind" where
  "raccoon_error body =
     (let text = low body in
      if any_in IDENTITY_MARKERS text then DEAD
      else if any_in RATE_LIMIT_MARKERS text then CONCURRENCY
      else if any_in RACCOON_CREDIT_MARKERS text then CREDIT
      else OTHER)"

definition raccoon_status :: "int \<Rightarrow> utext \<Rightarrow> err_kind" where
  "raccoon_status status body =
     (if status \<in> {401, 403} then if status = 401 \<or> any_in IDENTITY_MARKERS (low body) then DEAD else REQUEST
      else if status = 402 then CREDIT
      else if status = 429 then if any_in RATE_LIMIT_MARKERS (low body) then CONCURRENCY else SOFT
      else if status \<in> {400, 404, 422} then INVALID
      else OTHER)"

section \<open>CodeBuddy\<close>

definition MODEL_BLOCKED_CODES :: "int list" where "MODEL_BLOCKED_CODES = [11102, 11158]"
definition REQUEST_LEVEL_CODES :: "int list" where "REQUEST_LEVEL_CODES = [11101, 11128, 11135]"
definition FORBIDDEN_REQUEST_CODES :: "int list" where "FORBIDDEN_REQUEST_CODES = [11128]"

definition ACCOUNT_RESTRICTED_PHRASES :: "utext list" where
  "ACCOUNT_RESTRICTED_PHRASES =
     [codes ''account has been restricted'', [36134, 21495, 23384, 22312, 24322, 24120, 34892, 20026],
      [24115, 34399, 23384, 22312, 30064, 24120, 34892, 28858]]"

definition account_restricted :: "utext \<Rightarrow> text_fault + bool" where
  "account_restricted body =
     try_bind (business_codes body) (\<lambda>cs. Inr (11140 \<in> set cs \<or> any_in ACCOUNT_RESTRICTED_PHRASES (low body)))"

text \<open>\<^verbatim>\<open>" ".join(text.split())\<close>, cut after \<open>limit\<close> code points.\<close>

fun words_of :: "nat \<Rightarrow> utext \<Rightarrow> utext list" where
  "words_of 0 t = []"
| "words_of (Suc n) t =
     (case dropWhile is_wide_space t of
        [] \<Rightarrow> []
      | c # r \<Rightarrow> takeWhile (\<lambda>x. \<not> is_wide_space x) (c # r) # words_of n (dropWhile (\<lambda>x. \<not> is_wide_space x) r))"

definition body_hint :: "utext \<Rightarrow> nat \<Rightarrow> utext" where
  "body_hint body limit =
     (let text = join_sep 32 (words_of (length body) body)
      in if length text \<le> limit then text else take limit text @ [8230] @ codes ''[truncated]'')"

definition codebuddy_status :: "int \<Rightarrow> utext \<Rightarrow> text_fault + err_kind" where
  "codebuddy_status status body =
     try_bind (business_codes body) (\<lambda>cs.
       if status = 402 \<or> 14018 \<in> set cs then Inr CREDIT
       else if 1005 \<in> set cs then Inr PLAN
       else if status \<in> {400, 404} \<and> any_of cs MODEL_BLOCKED_CODES then Inr BLOCKED
       else try_bind (if status \<ge> 400 then account_restricted body else Inr False) (\<lambda>restricted.
         if restricted then Inr RESTRICTED
         else if status = 403 \<and> any_of cs FORBIDDEN_REQUEST_CODES then Inr REQUEST
         else if status \<in> {401, 403} then Inr DEAD
         else if status = 404 then Inr SOFT
         else if status = 429 then Inr (if 6004 \<in> set cs \<or> 14003 \<in> set cs then MODEL else SOFT)
         else if status = 400 then
           if 11115 \<in> set cs then Inr CONTEXT
           else if any_of cs REQUEST_LEVEL_CODES \<or> py_contains (codes ''unmarshal chat params failed'') (low (body_hint body 2048))
           then Inr REQUEST
           else Inr INVALID
         else Inr OTHER))"

section \<open>TRAE\<close>

definition trae_code :: "int option \<Rightarrow> err_kind" where
  "trae_code code =
     (if code = Some 1005 then PLAN
      else if code \<in> {Some 14018, Some 4008} then CREDIT
      else if code = Some 6004 then MODEL
      else if code = Some 4001 then INVALID
      else OTHER)"

definition trae_status :: "int \<Rightarrow> utext \<Rightarrow> text_fault + err_kind" where
  "trae_status status body =
     try_bind (business_codes body) (\<lambda>cs. Inr (
       if status = 402 \<or> 14018 \<in> set cs \<or> 4008 \<in> set cs then CREDIT
       else if 1005 \<in> set cs then PLAN
       else if status \<in> {400, 404} \<and> 11102 \<in> set cs then BLOCKED
       else if status = 401 then DEAD
       else if status = 404 then SOFT
       else if status = 429 then if 6004 \<in> set cs then MODEL else SOFT
       else if status = 400 then INVALID
       else OTHER))"

section \<open>OfficeAce\<close>

definition MODEL_REJECT_MARKERS :: "utext list" where "MODEL_REJECT_MARKERS = map codes [''81004'', ''81009'']"
definition OA_THROTTLE_MARKERS :: "utext list" where "OA_THROTTLE_MARKERS = map codes [''81111'', ''81112'', ''81114'']"
definition AUTH_DEAD_MARKERS :: "utext list" where
  "AUTH_DEAD_MARKERS = map codes [''apig.1009'', ''appkey or appsecret is invalid'', ''apig.0303'']"
definition REQUEST_TOO_LARGE_MARKERS :: "utext list" where "REQUEST_TOO_LARGE_MARKERS = map codes [''81113'']"
definition BAD_PARAM_MARKERS :: "utext list" where "BAD_PARAM_MARKERS = map codes [''81001'']"
definition OA_CREDIT_MARKERS :: "utext list" where
  "OA_CREDIT_MARKERS = [codes ''insufficient balance'', [20313, 39069, 19981, 36275], codes ''points exhausted'']"

definition officeace_status :: "int \<Rightarrow> utext \<Rightarrow> text_fault + err_kind" where
  "officeace_status status body =
     (let lowered = low body in
      try_bind (business_codes body) (\<lambda>cs. Inr (
        if any_in MODEL_REJECT_MARKERS lowered then BLOCKED
        else if any_in OA_THROTTLE_MARKERS lowered then MODEL
        else if any_in REQUEST_TOO_LARGE_MARKERS lowered then REQUEST
        else if any_in BAD_PARAM_MARKERS lowered then INVALID
        else if any_in AUTH_DEAD_MARKERS lowered then DEAD
        else if any_in OA_CREDIT_MARKERS lowered \<or> 14018 \<in> set cs then CREDIT
        else if status = 402 then CREDIT
        else if status = 429 then MODEL
        else if status \<in> {401, 403} then DEAD
        else if status \<in> {400, 404, 422} then INVALID
        else OTHER)))"

definition officeace_code :: "int option \<Rightarrow> utext \<Rightarrow> err_kind" where
  "officeace_code code message =
     (let text = low message in
      if any_in MODEL_REJECT_MARKERS text then BLOCKED
      else if any_in OA_THROTTLE_MARKERS text then MODEL
      else if any_in REQUEST_TOO_LARGE_MARKERS text then REQUEST
      else if any_in BAD_PARAM_MARKERS text then INVALID
      else if any_in AUTH_DEAD_MARKERS text then DEAD
      else if any_in OA_CREDIT_MARKERS text \<or> code = Some 14018 then CREDIT
      else if code = Some 402 then CREDIT
      else if code = Some 429 then MODEL
      else if code \<in> {Some 401, Some 403} then DEAD
      else if code \<in> {Some 400, Some 404, Some 422} then INVALID
      else OTHER)"

section \<open>Qoder\<close>

definition SESSION_DEAD_MARKERS :: "utext list" where
  "SESSION_DEAD_MARKERS = map codes [''TOKEN_EXPIRE'', ''12153'', ''Offline user session not found'']"
definition NODE_FAILURE_MARKERS :: "utext list" where "NODE_FAILURE_MARKERS = map codes [''[FAIL]node:'', ''Execution failed'']"
definition DAILY_QUOTA_MARKERS :: "utext list" where "DAILY_QUOTA_MARKERS = map codes [''Billing daily count exceeded'']"

definition is_session_dead :: "utext \<Rightarrow> bool" where "is_session_dead t = any_in SESSION_DEAD_MARKERS t"
definition is_daily_quota_exceeded :: "utext \<Rightarrow> bool" where "is_daily_quota_exceeded t = any_in DAILY_QUOTA_MARKERS t"
definition is_node_failure :: "utext \<Rightarrow> bool" where "is_node_failure t = any_in NODE_FAILURE_MARKERS t"

definition qoder_code :: "(utext \<Rightarrow> text_fault + json) \<Rightarrow> int option \<Rightarrow> utext \<Rightarrow> text_fault + err_kind" where
  "qoder_code loads code text =
     (if code = Some 402 then Inr CREDIT
      else if is_daily_quota_exceeded text then Inr CREDIT
      else try_bind (parse_queue_hint loads text) (\<lambda>hint. Inr (
        if hint \<noteq> None then QUEUE
        else if code = Some 401 then DEAD
        else if code = Some 403 then if is_session_dead text then DEAD else SOFT
        else if code = Some 429 then MODEL
        else if code \<in> Some ` {418, 500, 502, 503, 504} then SOFT
        else if code \<in> Some ` {400, 404, 422} then if is_node_failure text then MODEL else INVALID
        else OTHER)))"

definition qoder_status :: "(utext \<Rightarrow> text_fault + json) \<Rightarrow> int \<Rightarrow> utext \<Rightarrow> text_fault + err_kind" where
  "qoder_status loads status body = qoder_code loads (Some status) body"

section \<open>CodeArts\<close>

definition MODEL_ABSENT_MARKERS :: "utext list" where
  "MODEL_ABSENT_MARKERS = map codes [''002002009'', ''not registered'', ''4004.200'', ''benefit not found'']"
definition CONCURRENCY_MARKERS :: "utext list" where "CONCURRENCY_MARKERS = [codes ''00001041'', [24182, 21457]]"
definition CA_THROTTLE_MARKERS :: "utext list" where
  "CA_THROTTLE_MARKERS = map codes [''tpm'', ''429'', ''rate limit'', ''throttl'']"
definition MODEL_CAPABILITY_MARKERS :: "utext list" where "MODEL_CAPABILITY_MARKERS = map codes [''001001020'', ''not multimodal'']"
definition PARAM_INVALID_MARKERS :: "utext list" where "PARAM_INVALID_MARKERS = map codes [''001001005'', ''param is invalid'']"
definition STATUS_THROTTLE_MARKERS :: "utext list" where
  "STATUS_THROTTLE_MARKERS = [codes ''00001041'', codes ''tpm'', [24182, 21457], codes ''rate limit'', codes ''throttl'']"
definition STS_EXPIRED_MARKERS :: "utext list" where
  "STS_EXPIRED_MARKERS = map codes [''apig.0602'', ''security token has expired'']"

definition codearts_code :: "utext option \<Rightarrow> err_kind" where
  "codearts_code code =
     (let text = low (strip_text (case code of Some c \<Rightarrow> c | None \<Rightarrow> [])) in
      if text = [] \<or> text = codes ''0'' then OTHER
      else if any_in MODEL_ABSENT_MARKERS text then BLOCKED
      else if any_in CONCURRENCY_MARKERS text then CONCURRENCY
      else if any_in CA_THROTTLE_MARKERS text then MODEL
      else if any_in MODEL_CAPABILITY_MARKERS text then CAPABILITY
      else if any_in PARAM_INVALID_MARKERS text then INVALID
      else if any_in (map codes [''1005'', ''quota'', ''insufficient'']) text then PLAN
      else if any_in (map codes [''apig.0301'', ''decrypt token'']) text then DEAD
      else OTHER)"

definition codearts_status :: "int \<Rightarrow> utext \<Rightarrow> text_fault + err_kind" where
  "codearts_status status body =
     (let lowered = low body in
      try_bind (business_codes body) (\<lambda>cs. Inr (
        if status = 402 \<or> 14018 \<in> set cs then CREDIT
        else if 1005 \<in> set cs then PLAN
        else if any_in MODEL_CAPABILITY_MARKERS lowered then CAPABILITY
        else if status \<in> {400, 404} \<and> (11102 \<in> set cs \<or> any_in MODEL_ABSENT_MARKERS lowered) then BLOCKED
        else if any_in STS_EXPIRED_MARKERS lowered then SOFT
        else if status \<in> {401, 403} then DEAD
        else if status = 404 then SOFT
        else if status \<in> {400, 429} \<and> any_in STATUS_THROTTLE_MARKERS lowered
        then if any_in CONCURRENCY_MARKERS lowered then CONCURRENCY else MODEL
        else if status = 429 then SOFT
        else if status = 400 then INVALID
        else OTHER)))"

section \<open>Sign-in endpoints\<close>

definition RELOGIN_MARKERS :: "utext list" where
  "RELOGIN_MARKERS = map codes [''invalid refresh token'', ''the refresh token has been used'', ''invalid client id'',
     ''invaliddpopheader'', ''invalid_grant'']"

definition codearts_relogin_required :: "utext \<Rightarrow> bool" where
  "codearts_relogin_required body = any_in RELOGIN_MARKERS (low body)"

definition officeace_relogin_required :: "utext \<Rightarrow> bool" where
  "officeace_relogin_required body = any_in (RELOGIN_MARKERS @ [codes ''sts5.1806'']) (low body)"

section \<open>The upstreams\<close>

datatype upstream = CodeBuddy | Trae | CodeArts | Qoder | OfficeAce | Raccoon | Kilo | Zen

definition answer_kind :: "upstream \<Rightarrow> (utext \<Rightarrow> text_fault + json) \<Rightarrow> int \<Rightarrow> utext \<Rightarrow> text_fault + err_kind" where
  "answer_kind u loads status body =
     (case u of
        CodeBuddy \<Rightarrow> codebuddy_status status body
      | Trae \<Rightarrow> trae_status status body
      | CodeArts \<Rightarrow> codearts_status status body
      | Qoder \<Rightarrow> qoder_status loads status body
      | OfficeAce \<Rightarrow> officeace_status status body
      | Raccoon \<Rightarrow> Inr (raccoon_status status body)
      | Kilo \<Rightarrow> Inr (kilo_status status)
      | Zen \<Rightarrow> Inr (zen_status status))"

section \<open>Which answers disable a credential\<close>

text \<open>An answer that names a rejected login, by its status or, for OfficeAce, in its text.\<close>

definition names_rejected_login :: "upstream \<Rightarrow> int \<Rightarrow> utext \<Rightarrow> bool" where
  "names_rejected_login u status body \<longleftrightarrow>
     (case u of
        Kilo \<Rightarrow> False
      | Zen \<Rightarrow> False
      | Trae \<Rightarrow> status = 401
      | CodeBuddy \<Rightarrow> status \<in> {401, 403}
      | CodeArts \<Rightarrow> status \<in> {401, 403}
      | Qoder \<Rightarrow> status = 401 \<or> status = 403 \<and> is_session_dead body
      | Raccoon \<Rightarrow> status = 401 \<or> status = 403 \<and> any_in IDENTITY_MARKERS (low body)
      | OfficeAce \<Rightarrow> status \<in> {401, 403} \<or> any_in AUTH_DEAD_MARKERS (low body))"

lemma dead_names_rejected_login:
  "answer_kind u loads status body = Inr DEAD \<Longrightarrow> names_rejected_login u status body"
  by (cases u)
    (auto simp: answer_kind_def names_rejected_login_def kilo_status_def zen_status_def raccoon_status_def codebuddy_status_def
      trae_status_def codearts_status_def qoder_status_def qoder_code_def officeace_status_def try_simps Let_def split: if_splits)

section \<open>Reading a business code\<close>

lemma decimal_ascii: "48 \<le> c \<Longrightarrow> c \<le> 57 \<Longrightarrow> decimal c = Some (c - 48)"
  by (simp add: decimal_def decimal_ranges_def digit_ranges_def)

lemma decimal_marks [simp]: "\<not> is_decimal 45" "\<not> is_decimal 34"
  by (simp_all add: is_decimal_def decimal_def decimal_ranges_def digit_ranges_def)

lemma dec_codes: "c \<in> set (codes (dec_nat n)) \<Longrightarrow> 48 \<le> c \<and> c \<le> 57"
  using dec_nat_digits by (auto simp: codes_def)

lemma dec_codes_decimal: "c \<in> set (codes (dec_nat n)) \<Longrightarrow> is_decimal c"
  using dec_codes[of c n] by (simp add: is_decimal_def decimal_ascii)

lemma int_of_dec:
  assumes "n < 10 ^ INT_MAX_STR_DIGITS"
  shows "int_of_digits (codes (dec_nat n)) = Inr (int n)"
proof -
  have g: "foldl (\<lambda>m d. 10 * m + int (case decimal d of Some v \<Rightarrow> v | None \<Rightarrow> 0)) (int a) (codes s)
      = int (foldl (\<lambda>m c. 10 * m + (of_char c - 48)) a s)" if "\<And>c. c \<in> set s \<Longrightarrow> 48 \<le> (of_char c :: nat) \<and> (of_char c :: nat) \<le> 57" for a s
    using that
  proof (induction s arbitrary: a)
    case (Cons c s)
    have "48 \<le> (of_char c :: nat)" "(of_char c :: nat) \<le> 57" using Cons.prems by simp_all
    moreover define k :: nat where "k = of_char c - 48"
    ultimately have k: "(of_char c :: nat) = 48 + k" "k \<le> 9" by simp_all
    then have "decimal (48 + k) = Some k" by (simp add: decimal_ascii)
    with k Cons.IH[of "10 * a + k"] Cons.prems show ?case by (simp add: codes_def)
  qed (simp add: codes_def)
  have "length (dec_nat n) \<le> INT_MAX_STR_DIGITS" by (rule dec_nat_length[OF assms]) (simp add: INT_MAX_STR_DIGITS_def)
  moreover have "foldl (\<lambda>m d. 10 * m + int (case decimal d of Some v \<Rightarrow> v | None \<Rightarrow> 0)) 0 (codes (dec_nat n)) = int n"
    using g[of "dec_nat n" 0] dec_nat_digits by (simp add: dec_nat_value)
  ultimately show ?thesis by (simp add: int_of_digits_def codes_def)
qed

lemma take_digits:
  assumes "\<And>c. c \<in> set ds \<Longrightarrow> is_decimal c" and "rest = [] \<or> \<not> is_decimal (hd rest)"
  shows "takeWhile is_decimal (ds @ rest) = ds" "dropWhile is_decimal (ds @ rest) = rest"
  using assms by (auto simp: takeWhile_append dropWhile_append neq_Nil_conv) (cases rest; auto)+

lemma no_more_groups: "rest = [] \<or> hd rest \<noteq> 45 \<Longrightarrow> more_groups n rest = ([], rest)"
  by (cases n; cases rest) auto

lemma code_token_dec:
  assumes "rest = [] \<or> \<not> is_decimal (hd rest) \<and> hd rest \<noteq> 45"
  shows "code_token (codes (py_str n) @ rest) = Some (codes (py_str n), rest)"
proof -
  let ?d = "codes (dec_nat (nat \<bar>n\<bar>))"
  have ne: "?d \<noteq> []" by (simp add: codes_def dec_nat_nonempty)
  have hd: "hd ?d \<noteq> 45" using dec_codes[of "hd ?d" "nat \<bar>n\<bar>"] hd_in_set[OF ne] by auto
  have t: "takeWhile is_decimal (?d @ rest) = ?d" "dropWhile is_decimal (?d @ rest) = rest"
    using take_digits[of ?d rest] dec_codes_decimal assms by blast+
  have g: "more_groups m rest = ([], rest)" for m using assms no_more_groups by blast
  show ?thesis
  proof (cases "n < 0")
    case True
    then have "codes (py_str n) = 45 # ?d" by (simp add: py_str_def codes_def)
    then show ?thesis using ne t g by (simp add: code_token_def Let_def)
  next
    case False
    then have p: "codes (py_str n) = ?d" by (simp add: py_str_def)
    have "takeWhile (\<lambda>c. c = 45) (take 1 (?d @ rest)) = []" using ne hd by (cases ?d) auto
    then show ?thesis unfolding p using ne t g by (simp add: code_token_def Let_def)
  qed
qed

lemma skip_to_code: "34 \<notin> set pre \<Longrightarrow> code_tokens (length pre + m) (pre @ s) = code_tokens m s"
  by (induction pre) (auto simp: match_code_def CODE_KEY_def codes_def)

lemma code_value_dec:
  assumes "\<bar>n\<bar> < 10 ^ INT_MAX_STR_DIGITS"
  shows "code_value (codes (py_str n)) = Inr n"
proof -
  let ?d = "codes (dec_nat (nat \<bar>n\<bar>))"
  have v: "int_of_digits ?d = Inr \<bar>n\<bar>" using int_of_dec[of "nat \<bar>n\<bar>"] assms by (simp add: nat_less_iff)
  have h: "45 \<notin> set ?d" using dec_codes[of 45] by auto
  show ?thesis
  proof (cases "n < 0")
    case True
    then have "codes (py_str n) = 45 # ?d" by (simp add: py_str_def codes_def)
    then show ?thesis using v h True by (simp add: code_value_def)
  next
    case False
    then have p: "codes (py_str n) = ?d" by (simp add: py_str_def)
    moreover obtain c ds where "?d = c # ds" using dec_nat_nonempty by (cases ?d) (auto simp: codes_def)
    ultimately show ?thesis using v h False by (auto simp: code_value_def)
  qed
qed

lemma match_code_dec:
  assumes "set ws \<subseteq> {9, 10, 13, 32}" "set ws' \<subseteq> {9, 10, 13, 32}" and "q = [] \<or> q = [34]"
    and "q = [] \<Longrightarrow> post = [] \<or> \<not> is_decimal (hd post) \<and> hd post \<noteq> 45"
  shows "\<exists>rest. match_code (CODE_KEY @ ws @ 58 # ws' @ q @ codes (py_str n) @ q @ post) = Some (codes (py_str n), rest)"
proof -
  have sp: "dropWhile is_wide_space (us @ x # r) = x # r" if "set us \<subseteq> {9, 10, 13, 32}" "\<not> is_wide_space x" for us x r
    using that by (induction us) (auto simp: is_wide_space_def is_space_code_def)
  obtain c ds where tok: "codes (py_str n) = c # ds"
    using dec_nat_nonempty by (cases "codes (py_str n)") (auto simp: py_str_def codes_def split: if_splits)
  have "c = 45 \<or> 48 \<le> c \<and> c \<le> 57"
  proof (cases "n < 0")
    case True
    then show ?thesis using tok by (simp add: py_str_def codes_def)
  next
    case False
    then have "c \<in> set (codes (dec_nat (nat n)))" using tok by (simp add: py_str_def)
    then show ?thesis using dec_codes by blast
  qed
  then have c: "\<not> is_wide_space c" "c \<noteq> 34" by (auto simp: is_wide_space_def is_space_code_def)
  have q: "dropWhile is_wide_space (ws' @ q @ codes (py_str n) @ q @ post) = q @ codes (py_str n) @ q @ post"
    using assms(3)
  proof
    assume "q = []"
    then show ?thesis using sp[OF assms(2) c(1), of "ds @ post"] by (simp add: tok)
  next
    assume "q = [34]"
    then show ?thesis using sp[OF assms(2), of 34] by (simp add: is_wide_space_def is_space_code_def)
  qed
  have t: "code_token (codes (py_str n) @ q @ post) = Some (codes (py_str n), q @ post)"
    by (rule code_token_dec) (use assms(3,4) in auto)
  have key: "length CODE_KEY = 6" by (simp add: CODE_KEY_def codes_def)
  have colon: "dropWhile is_wide_space (ws @ 58 # r) = 58 # r" for r
    by (rule sp[OF assms(1)]) (simp add: is_wide_space_def is_space_code_def)
  show ?thesis using assms(3)
  proof
    assume "q = []"
    then show ?thesis using q t c by (simp add: match_code_def key colon tok Let_def)
  next
    assume "q = [34]"
    then show ?thesis using q t c by (simp add: match_code_def key colon tok Let_def)
  qed
qed

text \<open>A business code is found wherever it stands in a body, as a number or as a text, with white space around the
  colon: the digits the upstream wrote are read back as the code.\<close>

theorem business_code_read_back:
  assumes "business_codes (pre @ CODE_KEY @ ws @ 58 # ws' @ q @ codes (py_str n) @ q @ post) = Inr cs"
    and "34 \<notin> set pre" and "set ws \<subseteq> {9, 10, 13, 32}" "set ws' \<subseteq> {9, 10, 13, 32}" and "q = [] \<or> q = [34]"
    and "q = [] \<Longrightarrow> post = [] \<or> \<not> is_decimal (hd post) \<and> hd post \<noteq> 45"
    and "\<bar>n\<bar> < 10 ^ INT_MAX_STR_DIGITS"
  shows "n \<in> set cs"
proof -
  let ?s = "CODE_KEY @ ws @ 58 # ws' @ q @ codes (py_str n) @ q @ post"
  obtain rest where m: "match_code ?s = Some (codes (py_str n), rest)" using match_code_dec[OF assms(3-6)] by blast
  obtain c r k where "?s = c # r" "length ?s = Suc k" by (simp add: CODE_KEY_def)
  then have "codes (py_str n) \<in> set (code_tokens (length ?s) ?s)" using m by simp
  then have "codes (py_str n) \<in> set (code_tokens (length (pre @ ?s)) (pre @ ?s))"
    using skip_to_code[OF assms(2), of "length ?s" ?s] by simp
  then obtain v where "v \<in> set cs" "code_value (codes (py_str n)) = Inr v"
    using assms(1) unfolding business_codes_def try_map_Inr list_all2_conv_all_nth by (metis in_set_conv_nth)
  then show ?thesis using code_value_dec[OF assms(7)] by simp
qed

section \<open>Queue hints are found\<close>

text \<open>A queue mark within the given number of levels of objects and lists; a parsed text stands on the level of the text.\<close>

inductive queue_node :: "(utext \<Rightarrow> text_fault + json) \<Rightarrow> nat \<Rightarrow> json \<Rightarrow> bool" for loads where
  flag: "is_queue_flag node \<Longrightarrow> queue_node loads (Suc d) (JObj node)"
| member: "v \<in> snd ` set node \<Longrightarrow> queue_node loads d v \<Longrightarrow> queue_node loads (Suc d) (JObj node)"
| item: "v \<in> set vs \<Longrightarrow> queue_node loads d v \<Longrightarrow> queue_node loads (Suc d) (JList vs)"
| in_text: "parsed_text loads (codes s) = Inr v \<Longrightarrow> v = JObj node \<or> v = JList vs \<Longrightarrow> queue_node loads (Suc d) v
    \<Longrightarrow> queue_node loads (Suc d) (JStr s)"

inductive_cases queue_nodeE: "queue_node loads d v"
inductive_simps queue_node_text: "queue_node loads (Suc d) (JStr s)"

lemma first_wait_None: "first_wait f vs = Inr None \<longleftrightarrow> (\<forall>v \<in> set vs. f v = Inr None)"
  by (induction vs) (auto simp: try_simps split: option.splits)

lemma first_wait_Some: "first_wait f vs = Inr (Some w) \<Longrightarrow> \<exists>v \<in> set vs. f v = Inr (Some w)"
  by (induction vs) (auto simp: try_simps split: option.splits)

lemma wait_of_nonneg: "wait_of node ks = Inr (Some w) \<Longrightarrow> 0 \<le> w"
proof (induction ks)
  case (Cons k ks)
  have "0 \<le> py_float n" if "0 \<le> n" for n using that by (simp add: py_float_def sgn_if)
  with Cons show ?case by (auto split: json.splits if_splits)
qed simp

lemma object_wait_cases:
  assumes "object_wait f node = Inr r"
  shows "is_queue_flag node \<Longrightarrow> \<exists>w. r = Some w \<and> (0 \<le> w \<or> (\<exists>v \<in> snd ` set node. f v = Inr (Some w)))"
    and "\<not> is_queue_flag node \<Longrightarrow> first_wait f (map snd node) = Inr r"
proof -
  show "is_queue_flag node \<Longrightarrow> \<exists>w. r = Some w \<and> (0 \<le> w \<or> (\<exists>v \<in> snd ` set node. f v = Inr (Some w)))"
    using assms
    by (auto simp: object_wait_def queue_wait_seconds_def try_simps QUEUE_DEFAULT_WAIT_SECONDS_def
        dest!: wait_of_nonneg first_wait_Some split: option.splits; force)
  show "\<not> is_queue_flag node \<Longrightarrow> first_wait f (map snd node) = Inr r" using assms by (simp add: object_wait_def)
qed

lemma container_wait_node:
  assumes f: "\<And>v r. f v = Inr r \<Longrightarrow> (r \<noteq> None \<longleftrightarrow> queue_node loads d v) \<and> (\<forall>w. r = Some w \<longrightarrow> 0 \<le> w)"
    and "container_wait f v = Inr r" and v: "v = JObj node \<or> v = JList vs"
  shows "(r \<noteq> None \<longleftrightarrow> queue_node loads (Suc d) v) \<and> (\<forall>w. r = Some w \<longrightarrow> 0 \<le> w)"
  using v
proof
  assume o: "v = JObj node"
  then have ow: "object_wait f node = Inr r" using assms(2) by (simp add: container_wait_def)
  show ?thesis
  proof (cases "is_queue_flag node")
    case True
    with object_wait_cases(1)[OF ow] f show ?thesis unfolding o by (fastforce intro: queue_node.flag)
  next
    case False
    note fw = object_wait_cases(2)[OF ow False]
    show ?thesis
    proof (cases r)
      case None
      then have "\<forall>x \<in> snd ` set node. f x = Inr None" using fw by (auto simp: first_wait_None)
      then have "\<forall>x \<in> snd ` set node. \<not> queue_node loads d x" using f by blast
      then show ?thesis unfolding o None using False by (auto elim: queue_nodeE)
    next
      case (Some w)
      then obtain x where "x \<in> snd ` set node" "f x = Inr (Some w)" using fw first_wait_Some by fastforce
      then show ?thesis unfolding o Some using f[of x "Some w"] by (auto intro: queue_node.member)
    qed
  qed
next
  assume l: "v = JList vs"
  then have fw: "first_wait f vs = Inr r" using assms(2) by (simp add: container_wait_def)
  show ?thesis
  proof (cases r)
    case None
    then have "\<forall>x \<in> set vs. \<not> queue_node loads d x" using fw f by (auto simp: first_wait_None)
    then show ?thesis unfolding l None by (auto elim: queue_nodeE)
  next
    case (Some w)
    then obtain x where "x \<in> set vs" "f x = Inr (Some w)" using fw first_wait_Some by fastforce
    then show ?thesis unfolding l Some using f[of x "Some w"] by (auto intro: queue_node.item)
  qed
qed

lemma queue_wait_in_node:
  "queue_wait_in loads d v = Inr r \<Longrightarrow> (r \<noteq> None \<longleftrightarrow> queue_node loads d v) \<and> (\<forall>w. r = Some w \<longrightarrow> 0 \<le> w)"
proof (induction d arbitrary: v r)
  case 0
  then show ?case by (auto elim: queue_nodeE)
next
  case (Suc d)
  note cont = container_wait_node[where f = "queue_wait_in loads d" and d = d and loads = loads, OF Suc.IH]
  consider (cont) "\<exists>node vs. v = JObj node \<or> v = JList vs" | (str) s where "v = JStr s"
    | (other) "v \<in> {JNull, JNonFinite} \<or> (\<exists>b n q. v \<in> {JBool b, JInt n, JFloat q})"
    by (cases v) auto
  then show ?case
  proof cases
    case cont
    then have "container_wait (queue_wait_in loads d) v = Inr r" using Suc.prems by auto
    with cont container_wait_node[where f = "queue_wait_in loads d" and d = d and loads = loads, OF Suc.IH] show ?thesis by blast
  next
    case (str s)
    then obtain x where x: "parsed_text loads (codes s) = Inr x" "container_wait (queue_wait_in loads d) x = Inr r"
      using Suc.prems by (auto simp: try_simps)
    show ?thesis
    proof (cases "\<exists>node vs. x = JObj node \<or> x = JList vs")
      case True
      then have "(r \<noteq> None \<longleftrightarrow> queue_node loads (Suc d) x) \<and> (\<forall>w. r = Some w \<longrightarrow> 0 \<le> w)"
        using x(2) container_wait_node[where f = "queue_wait_in loads d" and d = d and loads = loads, OF Suc.IH] by blast
      moreover have "queue_node loads (Suc d) x \<longleftrightarrow> queue_node loads (Suc d) v"
        unfolding str using x(1) True by (auto simp: queue_node_text)
      ultimately show ?thesis by blast
    next
      case False
      then have "r = None" using x(2) by (cases x) (auto simp: container_wait_def)
      moreover have "\<not> queue_node loads (Suc d) v" unfolding str using x(1) False by (auto simp: queue_node_text)
      ultimately show ?thesis by simp
    qed
  next
    case other
    then have "r = None" "\<not> queue_node loads (Suc d) v" using Suc.prems
      by (auto simp: container_wait_def elim: queue_nodeE)
    then show ?thesis by simp
  qed
qed

lemma code_tokens_Nil [simp]: "code_tokens n [] = []"
  by (cases n) simp_all

lemma no_codes: "34 \<notin> set t \<Longrightarrow> business_codes t = Inr []"
  using skip_to_code[of t 0 "[]"] by (simp add: business_codes_def)

theorem business_code_read_back_witness:
  "5 \<in> set (case business_codes (CODE_KEY @ 58 # [53]) of Inr cs \<Rightarrow> cs | Inl e \<Rightarrow> [])"
proof -
  have m: "match_code (CODE_KEY @ 58 # [53]) = Some ([53], [])"
    by (simp add: match_code_def CODE_KEY_def codes_def is_wide_space_def is_space_code_def code_token_def Let_def
        is_decimal_def decimal_ascii no_more_groups)
  have v: "code_value [53] = Inr 5" by (simp add: code_value_def int_of_digits_def INT_MAX_STR_DIGITS_def decimal_ascii)
  have b: "business_codes (CODE_KEY @ 58 # [53]) = Inr [5]"
    using m v by (simp add: business_codes_def CODE_KEY_def codes_def)
  have t: "codes (py_str 5) = [53]" by (simp add: py_str_def dec_nat.simps codes_def)
  have "(5 :: int) < 10 ^ 1" by simp
  also have "(10 :: int) ^ 1 \<le> 10 ^ INT_MAX_STR_DIGITS" by (rule power_increasing) (simp_all add: INT_MAX_STR_DIGITS_def)
  finally have "5 \<in> set [5 :: int]"
    using business_code_read_back[of "[]" "[]" "[]" "[]" 5 "[]" "[5]"] b by (simp add: t)
  then show ?thesis unfolding b by simp
qed

text \<open>Whether an error arrives as an HTTP status or inside the stream, Kilo, Zen and OfficeAce judge it the same way
  (for OfficeAce unless the exhausted quota is named only by a nested code).\<close>

theorem stream_and_http_agree:
  assumes "business_codes body = Inr cs" and "14018 \<in> set cs \<longleftrightarrow> n = 14018"
  shows "kilo_code (Some n) = kilo_status n \<and> zen_code (Some n) = zen_status n
    \<and> officeace_status n body = Inr (officeace_code (Some n) body)"
proof (intro conjI)
  show "kilo_code (Some n) = kilo_status n" by (simp add: kilo_code_def kilo_status_def)
  show "zen_code (Some n) = zen_status n" by (simp add: zen_code_def zen_status_def)
  show "officeace_status n body = Inr (officeace_code (Some n) body)"
    by (simp add: officeace_status_def officeace_code_def Let_def assms)
qed

theorem stream_and_http_agree_witness:
  "officeace_status 401 (codes ''denied'') = Inr (officeace_code (Some 401) (codes ''denied''))"
proof -
  have "business_codes (codes ''denied'') = Inr []" by (rule no_codes) (simp add: codes_def)
  from stream_and_http_agree[OF this, of 401] show ?thesis by simp
qed

section \<open>Misjudged answers\<close>

text \<open>
  Markers are looked for anywhere in the text: an overloaded load balancer of Raccoon counts as exhausted
  credit (the credential is out until the next morning), and a login that OfficeAce rejects counts as
  a blocked model when the trace id happens to contain the digits of a model code.
\<close>

theorem markers_match_inside_words:
  "raccoon_error (codes ''Load balancer unavailable'') = CREDIT
   \<and> officeace_status 401 (codes ''trace 7810042'') = Inr BLOCKED"
proof
  have "low (codes ''Load balancer unavailable'') = codes ''load balancer unavailable''"
    by (simp add: low_def codes_def lower_code_def)
  then show "raccoon_error (codes ''Load balancer unavailable'') = CREDIT"
    by (simp add: raccoon_error_def Let_def any_in_def IDENTITY_MARKERS_def RATE_LIMIT_MARKERS_def RACCOON_CREDIT_MARKERS_def codes_def)
  have "business_codes (codes ''trace 7810042'') = Inr []" by (rule no_codes) (simp add: codes_def)
  moreover have "any_in MODEL_REJECT_MARKERS (low (codes ''trace 7810042''))" by code_simp
  ultimately show "officeace_status 401 (codes ''trace 7810042'') = Inr BLOCKED" by (simp add: officeace_status_def Let_def)
qed

text \<open>A code of more than 4300 digits makes \<^verbatim>\<open>int()\<close> raise, and with it every classification that reads business codes.\<close>

lemma long_code_token:
  assumes "INT_MAX_STR_DIGITS < n"
  shows "business_codes (CODE_KEY @ 58 # replicate n 57) = Inl IntTooLong"
proof -
  obtain k where n: "n = Suc k" using assms by (cases n) auto
  have d: "is_decimal 57" by (simp add: is_decimal_def decimal_ascii)
  have tw: "takeWhile is_decimal (replicate n 57) = replicate n 57" "dropWhile is_decimal (replicate n 57) = []"
    using d by (simp_all add: takeWhile_eq_all_conv)
  have "code_token (replicate n 57) = Some (replicate n 57, [])"
    using tw by (simp add: code_token_def Let_def n no_more_groups)
  moreover have "\<not> is_wide_space 57" "\<not> is_wide_space 58" by (simp_all add: is_wide_space_def is_space_code_def)
  ultimately have m: "match_code (CODE_KEY @ 58 # replicate n 57) = Some (replicate n 57, [])"
    by (simp add: match_code_def CODE_KEY_def codes_def Let_def n)
  have "code_tokens (length (CODE_KEY @ 58 # replicate n 57)) (CODE_KEY @ 58 # replicate n 57) = [replicate n 57]"
    using m by (cases n) (simp_all add: CODE_KEY_def codes_def)
  moreover have "code_value (replicate n 57) = Inl IntTooLong"
    using assms by (simp add: code_value_def int_of_digits_def n)
  ultimately show ?thesis by (simp add: business_codes_def)
qed

theorem long_code_escapes:
  assumes "INT_MAX_STR_DIGITS < n"
  shows "codebuddy_status 503 (CODE_KEY @ 58 # replicate n 57) = Inl IntTooLong
   \<and> trae_status 503 (CODE_KEY @ 58 # replicate n 57) = Inl IntTooLong
   \<and> codearts_status 503 (CODE_KEY @ 58 # replicate n 57) = Inl IntTooLong
   \<and> officeace_status 503 (CODE_KEY @ 58 # replicate n 57) = Inl IntTooLong"
proof (intro conjI)
  note b = long_code_token[OF assms]
  show "codebuddy_status 503 (CODE_KEY @ 58 # replicate n 57) = Inl IntTooLong"
    unfolding codebuddy_status_def b by (rule try_bind_simps(1))
  show "trae_status 503 (CODE_KEY @ 58 # replicate n 57) = Inl IntTooLong"
    unfolding trae_status_def b by (rule try_bind_simps(1))
  show "codearts_status 503 (CODE_KEY @ 58 # replicate n 57) = Inl IntTooLong"
    unfolding codearts_status_def Let_def b by (rule try_bind_simps(1))
  show "officeace_status 503 (CODE_KEY @ 58 # replicate n 57) = Inl IntTooLong"
    unfolding officeace_status_def Let_def b by (rule try_bind_simps(1))
qed

end
