(* ===== verification/UpstreamReact.thy ===== *)
theory UpstreamReact
  imports UpstreamErrors ExecReact
begin

text \<open>
  The classification of upstream answers together with the executor's reaction: which answers can take a
  credential out for good, what is queued, and where the markers misjudge an answer.
\<close>

section \<open>Disabling\<close>

definition disabled_flags :: "store \<Rightarrow> (cred_id \<times> bool) list" where
  "disabled_flags st = map (\<lambda>r. (r_id r, r_disabled r)) (st_rows st)"

lemma flags_update:
  "(\<And>r. r_id (f r) = r_id r \<and> r_disabled (f r) = r_disabled r) \<Longrightarrow> disabled_flags (update_where P f st) = disabled_flags st"
  by (simp add: disabled_flags_def update_where_def)

lemma flags_error: "\<not> eo_disabled oc \<Longrightarrow> disabled_flags (cr_save_error cid oc st) = disabled_flags st"
  by (auto simp: cr_save_error_def Let_def clear_model_cooldowns_def flags_update) (simp_all add: disabled_flags_def)

lemma flags_pause: "disabled_flags (en_store (pause_provider_on_burst ck p cid s)) = disabled_flags (en_store s)"
  by (auto simp: pause_provider_on_burst_def cr_cool_provider_def Let_def disabled_flags_def update_where_def split: option.split prod.split)

lemma not_dead_not_disabled: "kind \<noteq> DEAD \<Longrightarrow> \<not> eo_disabled (note_error sch c kind now model r)"
  by (auto simp: note_error_def account_cooldown_def outcome0_def kind_sets Let_def split: option.split)

lemma reaction_keeps_flags:
  assumes "note_upstream_error cf ck cid kind p model error s = (noted, s')" and "kind \<noteq> DEAD"
  shows "disabled_flags (en_store s') = disabled_flags (en_store s)"
  using assms by (auto simp: note_upstream_error_def Let_def flags_pause flags_error not_dead_not_disabled add_row_def split: if_splits)


definition http_exn :: "err_kind \<Rightarrow> exn" where
  "http_exn k = (mk_exn UpstreamHttp)\<lparr>x_kind := Some k\<rparr>"


text \<open>An upstream that queues a request never costs a credential: a queue mark up to four levels deep in the body, also in texts
  that hold a serialised message, makes Qoder's answer count as queued (or as exhausted credit) whatever its status, and the
  reaction leaves every credential enabled; without such a mark no answer counts as queued.\<close>

theorem queued_answers_keep_credentials:
  assumes "loads body = Inr payload" and "strip_text body \<noteq> []" and "qoder_status loads status body = Inr k"
  shows "(queue_node loads 4 payload \<longrightarrow> k \<in> {QUEUE, CREDIT}) \<and> (k = QUEUE \<longrightarrow> queue_node loads 4 payload)
    \<and> (queue_node loads 4 payload \<longrightarrow>
         disabled_flags (en_store (snd (note_upstream_error cf ck cid k p model error s))) = disabled_flags (en_store s))"
proof -
  have node: "parse_queue_hint loads body = Inr hint \<Longrightarrow> hint \<noteq> None \<longleftrightarrow> queue_node loads 4 payload" for hint
    using queue_wait_in_node[of loads 4 payload hint] assms(1,2) by (simp add: parse_queue_hint_def)
  have k: "(queue_node loads 4 payload \<longrightarrow> k \<in> {QUEUE, CREDIT}) \<and> (k = QUEUE \<longrightarrow> queue_node loads 4 payload)"
    using assms(3) node by (auto simp: qoder_status_def qoder_code_def try_simps split: if_splits)
  have "disabled_flags (en_store (snd (note_upstream_error cf ck cid k p model error s))) = disabled_flags (en_store s)" if "k \<noteq> DEAD"
    using reaction_keeps_flags[OF _ that] by (metis prod.collapse)
  with k show ?thesis by auto
qed

theorem queued_answers_keep_credentials_witness:
  "disabled_flags (en_store (snd (note_upstream_error sample_config sample_clock ''a'' QUEUE ''qoder'' ''auto'' None sample_engine)))
   = disabled_flags (en_store sample_engine)"
proof -
  let ?l = "\<lambda>t. Inr (JObj [(''isQueued'', JBool True)]) :: text_fault + json"
  have s: "strip_text [123, 125] \<noteq> []" by (simp add: strip_text_def is_wide_space_def is_space_code_def)
  have "queue_node ?l 4 (JObj [(''isQueued'', JBool True)])"
    using queue_node.flag[of "[(''isQueued'', JBool True)]" ?l 3] by (simp add: is_queue_flag_def QUEUE_FLAG_KEYS_def jget_def)
  moreover have q: "qoder_status ?l 403 [123, 125] = Inr QUEUE"
    by (simp add: qoder_status_def qoder_code_def is_daily_quota_exceeded_def any_in_def DAILY_QUOTA_MARKERS_def codes_def parse_queue_hint_def
        strip_text_def is_wide_space_def is_space_code_def eval_nat_numeral container_wait_def object_wait_def is_queue_flag_def QUEUE_FLAG_KEYS_def
        jget_def queue_wait_seconds_def QUEUE_WAIT_KEYS_def)
  ultimately show ?thesis using queued_answers_keep_credentials[of ?l "[123, 125]", OF refl s q] by blast
qed

end
