(* ===== verification/Sse.thy ===== *)
theory Sse
  imports PyNum
begin

text \<open>
  \<^verbatim>\<open>src/engine/sse.py\<close>: the decoded chunks of a byte stream are cut into lines, the lines assembled into
  frames. The reader is a generator: what it yielded before an error stays delivered, so a result is what was
  yielded and either the error or the state. The incremental UTF-8 decoder is left out: a chunk is its decoded
  text.
\<close>

section \<open>Yielding\<close>

definition then_yield :: "'o list \<times> ('e + 's) \<Rightarrow> ('s \<Rightarrow> 'o list \<times> ('e + 't)) \<Rightarrow> 'o list \<times> ('e + 't)" where
  "then_yield r f =
     (case snd r of Inl e \<Rightarrow> (fst r, Inl e) | Inr s \<Rightarrow> (fst r @ fst (f s), snd (f s)))"

lemma then_yield_simps [simp]:
  "then_yield (o1, Inl e) f = (o1, Inl e)" "then_yield (o1, Inr s) f = (o1 @ fst (f s), snd (f s))"
  by (simp_all add: then_yield_def)

lemma then_yield_assoc: "then_yield (then_yield r f) g = then_yield r (\<lambda>s. then_yield (f s) g)"
  by (cases r; cases "snd r") (auto simp: then_yield_def split: sum.split)

lemma then_yield_return [simp]: "then_yield r (\<lambda>s. ([], Inr s)) = r"
  by (cases r; cases "snd r") (auto simp: then_yield_def)

lemma then_yield_cong: "(\<And>s. snd r = Inr s \<Longrightarrow> f s = g s) \<Longrightarrow> then_yield r f = then_yield r g"
  by (auto simp: then_yield_def split: sum.split)

fun yield_all :: "('s \<Rightarrow> 'i \<Rightarrow> 'o list \<times> ('e + 's)) \<Rightarrow> 's \<Rightarrow> 'i list \<Rightarrow> 'o list \<times> ('e + 's)" where
  "yield_all step s [] = ([], Inr s)"
| "yield_all step s (x # xs) = then_yield (step s x) (\<lambda>s'. yield_all step s' xs)"

lemma yield_all_append: "yield_all step s (xs @ ys) = then_yield (yield_all step s xs) (\<lambda>s'. yield_all step s' ys)"
  by (induction xs arbitrary: s) (simp_all add: then_yield_assoc)

section \<open>Lines\<close>

datatype sse_fault = FrameTooLarge

text \<open>\<^verbatim>\<open>while "\n" in buffer: line, buffer = buffer.split("\n", 1)\<close> on the buffer with the new chunk.\<close>

definition read_chunk ::
    "nat \<Rightarrow> ('s \<Rightarrow> utext \<Rightarrow> 'o list \<times> (sse_fault + 's)) \<Rightarrow> 's \<times> utext \<Rightarrow> utext \<Rightarrow> 'o list \<times> (sse_fault + 's \<times> utext)" where
  "read_chunk limit step st chunk =
     (let buffer = snd st @ chunk in
      if length buffer > limit then ([], Inl FrameTooLarge)
      else let parts = py_split 10 buffer
           in then_yield (yield_all step (fst st) (butlast parts)) (\<lambda>s. ([], Inr (s, last parts))))"

definition read_chunks ::
    "nat \<Rightarrow> ('s \<Rightarrow> utext \<Rightarrow> 'o list \<times> (sse_fault + 's)) \<Rightarrow> 's \<Rightarrow> utext list \<Rightarrow> 'o list \<times> (sse_fault + 's \<times> utext)" where
  "read_chunks limit step s chunks = yield_all (read_chunk limit step) (s, []) chunks"

lemma split_at_join:
  "py_split c (a @ b) = butlast (py_split c a) @ [last (py_split c a) @ hd (py_split c b)] @ tl (py_split c b)"
proof (induction a)
  case Nil
  then show ?case by (cases "py_split c b") simp_all
next
  case (Cons x a)
  obtain w ws where w: "py_split c a = w # ws" by (cases "py_split c a") simp_all
  then show ?case using Cons by (cases ws) auto
qed

lemma split_butlast_append:
  "butlast (py_split c (a @ b)) = butlast (py_split c a) @ butlast (py_split c (last (py_split c a) @ b))"
  "last (py_split c (a @ b)) = last (py_split c (last (py_split c a) @ b))"
proof -
  have plain: "c \<notin> set (last (py_split c a))" for a :: "'a list"
    by (induction a) (auto split: list.splits)
  have one: "py_split c w = [w]" if "c \<notin> set w" for w using that by (induction w) auto
  have l: "py_split c (last (py_split c a) @ b) = (last (py_split c a) @ hd (py_split c b)) # tl (py_split c b)"
    using split_at_join[of c "last (py_split c a)" b] by (simp add: one[OF plain])
  show "butlast (py_split c (a @ b)) = butlast (py_split c a) @ butlast (py_split c (last (py_split c a) @ b))"
    "last (py_split c (a @ b)) = last (py_split c (last (py_split c a) @ b))"
    unfolding l split_at_join[of c a b] by (simp_all add: butlast_append)
qed

lemma read_chunk_twice:
  assumes "length (buffer @ a @ b) \<le> limit"
  shows "then_yield (read_chunk limit step (s, buffer) a) (\<lambda>st. read_chunk limit step st b) = read_chunk limit step (s, buffer) (a @ b)"
proof -
  have small: "length (last (py_split 10 w) @ b) \<le> length (w @ b)" for w :: utext
  proof -
    have "length (last (py_split 10 w)) \<le> length w" by (induction w) (auto split: list.splits)
    then show ?thesis by simp
  qed
  have le: "\<not> limit < length (last (py_split 10 (buffer @ a)) @ b)" using small[of "buffer @ a"] assms by simp
  show ?thesis
    using assms le
    by (simp add: read_chunk_def Let_def then_yield_assoc split_butlast_append[of 10 "buffer @ a" b, simplified] yield_all_append)
qed

lemma read_chunks_concat:
  "length (buffer @ concat (c # chunks)) \<le> limit \<Longrightarrow>
     yield_all (read_chunk limit step) (s, buffer) (c # chunks) = read_chunk limit step (s, buffer) (concat (c # chunks))"
proof (induction chunks arbitrary: c)
  case (Cons d chunks)
  have "yield_all (read_chunk limit step) (s, buffer) (c # d # chunks)
      = then_yield (then_yield (read_chunk limit step (s, buffer) c) (\<lambda>st. read_chunk limit step st d)) (\<lambda>st. yield_all (read_chunk limit step) st chunks)"
    by (simp add: then_yield_assoc)
  also have "\<dots> = yield_all (read_chunk limit step) (s, buffer) ((c @ d) # chunks)"
    using Cons.prems by (subst read_chunk_twice) simp_all
  also have "\<dots> = read_chunk limit step (s, buffer) (concat ((c @ d) # chunks))"
    by (rule Cons.IH) (use Cons.prems in simp)
  finally show ?case by simp
qed simp

text \<open>Whatever the network cuts the stream into, the same lines are read, as long as the whole fits the buffer.\<close>

lemma chunking_invisible:
  "length (concat chunks) \<le> limit \<Longrightarrow> read_chunks limit step s chunks = read_chunks limit step s [concat chunks]"
proof (cases chunks)
  case Nil
  then show ?thesis by (simp add: read_chunks_def read_chunk_def)
next
  case (Cons c cs)
  assume "length (concat chunks) \<le> limit"
  then show ?thesis using read_chunks_concat[of "[]" c cs limit step s] by (simp add: read_chunks_def Cons)
qed

section \<open>Frames\<close>

record sse_frame =
  sf_event :: utext
  sf_data :: utext

record assembler =
  as_event :: utext
  as_parts :: "utext list"
  as_length :: nat

definition new_assembler :: assembler where
  "new_assembler = \<lparr>as_event = [], as_parts = [], as_length = 0\<rparr>"

definition MAX_SSE_LINE :: nat where "MAX_SSE_LINE = 8 * 1024 * 1024"
definition MAX_SSE_FRAME :: nat where "MAX_SSE_FRAME = 8 * 1024 * 1024"

definition flush_frame :: "assembler \<Rightarrow> sse_frame list \<times> assembler" where
  "flush_frame a =
     (if as_parts a = [] then ([], a)
      else ([\<lparr>sf_event = as_event a, sf_data = join_sep 10 (as_parts a)\<rparr>], a\<lparr>as_parts := [], as_length := 0\<rparr>))"

definition feed_line :: "assembler \<Rightarrow> utext \<Rightarrow> sse_frame list \<times> (sse_fault + assembler)" where
  "feed_line a raw =
     (let line = rev (dropWhile (\<lambda>c. c = 13) (rev raw)) in
      if line = [] then let (fs, a1) = flush_frame a in (fs, Inr (a1\<lparr>as_event := []\<rparr>))
      else if hd line = 58 then ([], Inr a)
      else let (field, found, value) = py_partition 58 line;
               value = (if value \<noteq> [] \<and> hd value = 32 then tl value else value)
           in if field = codes ''event'' then ([], Inr (a\<lparr>as_event := value\<rparr>))
              else if field = codes ''data'' then
                let a1 = a\<lparr>as_parts := as_parts a @ [value], as_length := as_length a + length value\<rparr>
                in if as_length a1 > MAX_SSE_FRAME then ([], Inl FrameTooLarge) else ([], Inr a1)
              else ([], Inr a))"

text \<open>The last line without an end is fed too, the last frame needs no blank line.\<close>

definition end_frames :: "assembler \<times> utext \<Rightarrow> sse_frame list \<times> (sse_fault + unit)" where
  "end_frames st =
     (let (a, buffer) = st in
      then_yield (if buffer = [] then ([], Inr a) else ([], snd (feed_line a buffer)))
        (\<lambda>a1. (fst (flush_frame a1), Inr ())))"

definition iter_frames :: "utext list \<Rightarrow> sse_frame list \<times> (sse_fault + unit)" where
  "iter_frames chunks = then_yield (read_chunks MAX_SSE_LINE feed_line new_assembler chunks) end_frames"

text \<open>The frames of a stream do not depend on how the network cuts it.\<close>

lemma iter_frames_chunking:
  "length (concat chunks) \<le> MAX_SSE_LINE \<Longrightarrow> iter_frames chunks = iter_frames [concat chunks]"
  using chunking_invisible[of chunks MAX_SSE_LINE feed_line new_assembler] by (simp add: iter_frames_def)

section \<open>Writing and reading frames\<close>

definition frame_lines :: "sse_frame \<Rightarrow> utext list" where
  "frame_lines f = (codes ''event: '' @ sf_event f) # map (\<lambda>l. codes ''data: '' @ l) (py_split 10 (sf_data f)) @ [[]]"

definition render_frames :: "sse_frame list \<Rightarrow> utext" where
  "render_frames fs = concat (map (\<lambda>l. l @ [10]) (concat (map frame_lines fs)))"

definition plain_line :: "utext \<Rightarrow> bool" where
  "plain_line l \<longleftrightarrow> 10 \<notin> set l \<and> (l = [] \<or> last l \<noteq> 13)"

definition plain_frame :: "sse_frame \<Rightarrow> bool" where
  "plain_frame f \<longleftrightarrow> plain_line (sf_event f) \<and> list_all plain_line (py_split 10 (sf_data f)) \<and> length (sf_data f) \<le> MAX_SSE_FRAME"

lemma split_lines:
  fixes ls :: "utext list"
  shows "list_all (\<lambda>l. 10 \<notin> set l) ls \<Longrightarrow> py_split 10 (concat (map (\<lambda>l. l @ [10]) ls)) = ls @ [[]]"
proof (induction ls)
  case (Cons l ls)
  have "py_split 10 (l @ 10 # r) = l # py_split 10 r" if "10 \<notin> set l" for l r :: utext
    using that by (induction l) auto
  with Cons show ?case by simp
qed simp

lemma join_split: "join_sep 10 (py_split 10 t) = t"
proof (induction t)
  case (Cons x t)
  obtain w ws where w: "py_split 10 t = w # ws" by (cases "py_split 10 t") simp_all
  with Cons show ?case by (cases ws) auto
qed simp

lemma strip_cr: "plain_line l \<Longrightarrow> rev (dropWhile (\<lambda>c. c = 13) (rev l)) = l"
  by (cases l rule: rev_cases) (simp_all add: plain_line_def)

lemma feed_event:
  "plain_line e \<Longrightarrow> feed_line a (codes ''event: '' @ e) = ([], Inr (a\<lparr>as_event := e\<rparr>))"
proof -
  assume "plain_line e"
  then have "plain_line (codes ''event: '' @ e)" by (auto simp: plain_line_def codes_def)
  from strip_cr[OF this] show ?thesis by (simp add: feed_line_def Let_def py_partition_def codes_def)
qed

lemma feed_data:
  assumes "plain_line l" "as_length a + length l \<le> MAX_SSE_FRAME"
  shows "feed_line a (codes ''data: '' @ l) = ([], Inr (a\<lparr>as_parts := as_parts a @ [l], as_length := as_length a + length l\<rparr>))"
proof -
  have "plain_line (codes ''data: '' @ l)" using assms(1) by (auto simp: plain_line_def codes_def)
  from strip_cr[OF this] assms(2) show ?thesis by (simp add: feed_line_def Let_def py_partition_def codes_def)
qed

lemma feed_all_data:
  "list_all plain_line ls \<Longrightarrow> as_length a + length (concat ls) \<le> MAX_SSE_FRAME \<Longrightarrow>
     yield_all feed_line a (map (\<lambda>l. codes ''data: '' @ l) ls)
       = ([], Inr (a\<lparr>as_parts := as_parts a @ ls, as_length := as_length a + length (concat ls)\<rparr>))"
  by (induction ls arbitrary: a) (simp_all add: feed_data)

lemma feed_frame:
  assumes "plain_frame f"
  shows "yield_all feed_line new_assembler (frame_lines f) = ([f], Inr new_assembler)"
proof -
  let ?ls = "py_split 10 (sf_data f)"
  have joined: "length (concat ls) \<le> length (join_sep (10 :: nat) ls)" for ls
    by (induction "10 :: nat" ls rule: join_sep.induct) simp_all
  have "length (concat ?ls) \<le> length (sf_data f)" using joined[of ?ls] unfolding join_split .
  moreover have "length (sf_data f) \<le> MAX_SSE_FRAME" using assms by (simp add: plain_frame_def)
  ultimately have "length (concat ?ls) \<le> MAX_SSE_FRAME" by (rule le_trans)
  then have d: "yield_all feed_line (new_assembler\<lparr>as_event := sf_event f\<rparr>) (map (\<lambda>l. codes ''data: '' @ l) ?ls)
      = ([], Inr (new_assembler\<lparr>as_event := sf_event f, as_parts := ?ls, as_length := length (concat ?ls)\<rparr>))"
    using feed_all_data[of ?ls "new_assembler\<lparr>as_event := sf_event f\<rparr>"] assms by (simp add: plain_frame_def new_assembler_def)
  have b: "feed_line (new_assembler\<lparr>as_event := sf_event f, as_parts := ?ls, as_length := n\<rparr>) [] = ([f], Inr new_assembler)" for n
    by (simp add: feed_line_def flush_frame_def new_assembler_def join_split)
  show ?thesis using assms d b by (simp add: frame_lines_def plain_frame_def feed_event yield_all_append)
qed

lemma feed_frames:
  "list_all plain_frame fs \<Longrightarrow> yield_all feed_line new_assembler (concat (map frame_lines fs)) = (fs, Inr new_assembler)"
  by (induction fs) (simp_all add: yield_all_append feed_frame)

lemma frame_lines_plain: "plain_frame f \<Longrightarrow> list_all (\<lambda>l. 10 \<notin> set l) (frame_lines f)"
  by (auto simp: frame_lines_def plain_frame_def plain_line_def list_all_iff codes_def)

text \<open>The lines of a text that ends with a line end are read one by one, whatever pieces the network cuts it into.\<close>

lemma read_lines:
  assumes "concat chunks = concat (map (\<lambda>l. l @ [10]) ls)" "list_all (\<lambda>l. 10 \<notin> set l) ls" "length (concat chunks) \<le> limit"
  shows "read_chunks limit step s chunks = then_yield (yield_all step s ls) (\<lambda>s'. ([], Inr (s', [])))"
proof -
  have "read_chunks limit step s chunks = read_chunks limit step s [concat chunks]" by (rule chunking_invisible[OF assms(3)])
  also have "\<dots> = then_yield (yield_all step s ls) (\<lambda>s'. ([], Inr (s', [])))"
    using assms(1,3) split_lines[OF assms(2)] by (simp add: read_chunks_def read_chunk_def Let_def)
  finally show ?thesis .
qed

text \<open>What a server writes as event and data lines is read back as the same frames.\<close>

lemma iter_frames_rendered:
  assumes "concat chunks = render_frames fs" and "list_all plain_frame fs" and "length (render_frames fs) \<le> MAX_SSE_LINE"
  shows "iter_frames chunks = (fs, Inr ())"
proof -
  have nl: "list_all (\<lambda>l. 10 \<notin> set l) (concat (map frame_lines fs))"
    using assms(2) frame_lines_plain by (fastforce simp: list_all_iff)
  have "read_chunks MAX_SSE_LINE feed_line new_assembler chunks = (fs, Inr (new_assembler, []))"
    using read_lines[OF assms(1)[unfolded render_frames_def] nl, of MAX_SSE_LINE feed_line new_assembler] assms(1,3)
      feed_frames[OF assms(2)] by simp
  then show ?thesis by (simp add: iter_frames_def end_frames_def flush_frame_def new_assembler_def)
qed

definition sample_frames :: "sse_frame list" where
  "sample_frames = [\<lparr>sf_event = codes ''output'', sf_data = codes ''a'' @ [10] @ codes ''b''\<rparr>]"

text \<open>
  The last line without an end is taken to be no blank line, but a carriage return alone is one: a stream that ends
  between the two characters of its last line end loses its last frame.
\<close>

theorem frame_lost_at_carriage_return:
  "iter_frames [codes ''data: x'' @ [13, 10, 13]] = ([], Inr ())
   \<and> iter_frames [codes ''data: x'' @ [13, 10, 13, 10]] = ([\<lparr>sf_event = [], sf_data = codes ''x''\<rparr>], Inr ())"
  by (simp add: iter_frames_def read_chunks_def read_chunk_def end_frames_def feed_line_def flush_frame_def new_assembler_def
      Let_def codes_def py_partition_def MAX_SSE_LINE_def MAX_SSE_FRAME_def then_yield_def)

end
