(* ===== verification/ChunkEvents.thy ===== *)
theory ChunkEvents
  imports Sse UpstreamErrors ChatStream
begin

text \<open>
  From the frames of an upstream to neutral events: the shared reader of \<^verbatim>\<open>src/provider/openai_chunk.py\<close> and the
  upstreams that use it (Kilo, Zen, Raccoon, CodeBuddy, OfficeAce). \<open>loads\<close> is \<^verbatim>\<open>json.loads\<close>, \<open>repr\<close> is \<^verbatim>\<open>str()\<close> of a
  double, a list or a dictionary.
\<close>

section \<open>Values\<close>

text \<open>\<open>Violation\<close> is \<^verbatim>\<open>UpstreamProtocolViolation\<close>; \<open>NotFinite\<close> marks a credit that is NaN or infinite, which the events
  of the model have no value for.\<close>

datatype chunk_fault = Violation | Raised text_fault | NotFinite

definition py_text :: "(json \<Rightarrow> string) \<Rightarrow> json \<Rightarrow> string" where
  "py_text repr v =
     (case v of
        JStr s \<Rightarrow> s
      | JInt n \<Rightarrow> py_str n
      | JBool b \<Rightarrow> (if b then ''True'' else ''False'')
      | JNull \<Rightarrow> ''None''
      | _ \<Rightarrow> repr v)"

definition loaded :: "(utext \<Rightarrow> text_fault + json) \<Rightarrow> utext \<Rightarrow> chunk_fault + jobject" where
  "loaded loads t =
     (case loads t of
        Inl NotJson \<Rightarrow> Inl Violation
      | Inl e \<Rightarrow> Inl (Raised e)
      | Inr (JObj d) \<Rightarrow> Inr d
      | Inr _ \<Rightarrow> Inl Violation)"

text \<open>\<^verbatim>\<open>str(v or "").strip()\<close> is empty; what is not a text and true has a text with letters.\<close>

definition blank_name :: "json \<Rightarrow> bool" where
  "blank_name v = (case v of JStr s \<Rightarrow> py_strip s = [] | _ \<Rightarrow> \<not> j_truthy v)"

definition chunk_choice :: "jobject \<Rightarrow> chunk_fault + jobject option" where
  "chunk_choice payload =
     (case jget payload ''choices'' of
        JNull \<Rightarrow> Inr None
      | JList [] \<Rightarrow> Inr None
      | JList (JObj d # _) \<Rightarrow> Inr (Some d)
      | _ \<Rightarrow> Inl Violation)"

definition is_blank_tool_call :: "jobject \<Rightarrow> bool" where
  "is_blank_tool_call tc =
     (let fn = obj_of (jget tc ''function'')
      in blank_name (jget fn ''name'') \<and> jget fn ''arguments'' \<in> {JNull, JStr [], JStr ''{}'', JObj []})"

definition details_int :: "jobject \<Rightarrow> string \<Rightarrow> string \<Rightarrow> int option" where
  "details_int raw details key =
     (case j_int (jget (obj_of (jget raw details)) key) of
        Some n \<Rightarrow> Some n
      | None \<Rightarrow> j_int (jget raw key))"

definition credit_value :: "json \<Rightarrow> chunk_fault + rat option" where
  "credit_value v =
     (case v of
        JInt n \<Rightarrow> if \<bar>n\<bar> \<ge> FLOAT_OVERFLOW then Inl (Raised FloatTooLarge) else Inr (Some (py_float n))
      | JFloat r \<Rightarrow> Inr (Some r)
      | JNonFinite \<Rightarrow> Inl NotFinite
      | _ \<Rightarrow> Inr None)"

definition usage_from_openai :: "bool \<Rightarrow> string list \<Rightarrow> jobject \<Rightarrow> chunk_fault + usage" where
  "usage_from_openai credit fallbacks raw =
     (let cached = foldl (\<lambda>c key. case c of None \<Rightarrow> j_int (jget raw key) | Some _ \<Rightarrow> c)
                     (details_int raw ''prompt_tokens_details'' ''cached_tokens'') fallbacks
      in try_bind (if credit then credit_value (jget raw ''credit'') else Inr None) (\<lambda>cr.
           Inr \<lparr>u_input = j_int (jget raw ''prompt_tokens''), u_output = j_int (jget raw ''completion_tokens''),
                u_reasoning = details_int raw ''completion_tokens_details'' ''reasoning_tokens'',
                u_cached = cached, u_credit = cr, u_estimated = False\<rparr>))"

definition payload_of :: "(utext \<Rightarrow> text_fault + json) \<Rightarrow> sse_frame \<Rightarrow> chunk_fault + jobject option" where
  "payload_of loads f =
     (if sf_data f = [] then Inr None
      else if strip_text (sf_data f) = codes ''[DONE]'' then Inr None
      else try_bind (loaded loads (sf_data f)) (\<lambda>d. Inr (Some d)))"

section \<open>Events\<close>

definition content_ev :: "string \<Rightarrow> event" where
  "content_ev s = (mk_event EvContent)\<lparr>ev_content := Some (codes s)\<rparr>"

definition reasoning_event :: "string \<Rightarrow> event" where
  "reasoning_event s = (mk_event EvReasoning)\<lparr>ev_content := Some (codes s)\<rparr>"

definition calls_event :: "json list \<Rightarrow> event" where
  "calls_event cs = (mk_event EvToolCalls)\<lparr>ev_tool_calls := Some cs\<rparr>"

definition usage_event :: "usage \<Rightarrow> event" where
  "usage_event u = (mk_event EvUsage)\<lparr>ev_usage := Some u\<rparr>"

definition finish_ev :: "string \<Rightarrow> event" where
  "finish_ev r = (mk_event EvFinish)\<lparr>ev_finish_reason := Some r\<rparr>"

lemmas event_makers = content_ev_def reasoning_event_def calls_event_def usage_event_def finish_ev_def mk_event_def

lemma made_kinds [simp]:
  "ev_kind (content_ev s) = EvContent" "ev_kind (reasoning_event s) = EvReasoning" "ev_kind (calls_event cs) = EvToolCalls"
  "ev_kind (usage_event u) = EvUsage" "ev_kind (finish_ev r) = EvFinish"
  by (simp_all add: event_makers)

text \<open>The members in which the upstreams differ.\<close>

record chunk_options =
  co_reasoning :: "string list"
  co_error :: "(jobject \<Rightarrow> event) option"
  co_error_text :: bool
  co_usage :: "jobject \<Rightarrow> chunk_fault + usage"

definition delta_of :: "jobject option \<Rightarrow> jobject" where
  "delta_of choice = (case choice of None \<Rightarrow> [] | Some c \<Rightarrow> obj_of (jget c ''delta''))"

definition finish_of :: "jobject option \<Rightarrow> string option" where
  "finish_of choice = (case choice of None \<Rightarrow> None | Some c \<Rightarrow> j_text (jget c ''finish_reason''))"

definition kept_calls :: "jobject \<Rightarrow> json list" where
  "kept_calls delta =
     (case jget delta ''tool_calls'' of
        JList tcs \<Rightarrow> filter (\<lambda>tc. case tc of JObj d \<Rightarrow> \<not> is_blank_tool_call d | _ \<Rightarrow> False) tcs
      | _ \<Rightarrow> [])"

fun first_text :: "jobject \<Rightarrow> string list \<Rightarrow> string option" where
  "first_text d [] = None"
| "first_text d (k # ks) = (case j_text (jget d k) of Some s \<Rightarrow> Some s | None \<Rightarrow> first_text d ks)"

definition chunk_error :: "chunk_options \<Rightarrow> jobject \<Rightarrow> event option" where
  "chunk_error co payload =
     (case co_error co of
        None \<Rightarrow> None
      | Some handle \<Rightarrow>
          (case jget payload ''error'' of
             JObj e \<Rightarrow> Some (handle e)
           | JStr s \<Rightarrow> if co_error_text co \<and> s \<noteq> [] then Some (handle [(''message'', JStr s)]) else None
           | _ \<Rightarrow> None))"

definition chunk_usage :: "chunk_options \<Rightarrow> jobject \<Rightarrow> chunk_fault + event option" where
  "chunk_usage co payload =
     (case jget payload ''usage'' of
        JObj raw \<Rightarrow> try_bind (co_usage co raw) (\<lambda>u. Inr (Some (usage_event u)))
      | _ \<Rightarrow> Inr None)"

text \<open>\<^verbatim>\<open>_parse_openai_event\<close>: the first of calls, text, reasoning, error, usage and finish.\<close>

definition parse_openai_event :: "chunk_options \<Rightarrow> jobject \<Rightarrow> chunk_fault + event option" where
  "parse_openai_event co payload =
     try_bind (chunk_choice payload) (\<lambda>choice.
       let delta = delta_of choice in
       if kept_calls delta \<noteq> [] then Inr (Some (calls_event (kept_calls delta)))
       else case j_text (jget delta ''content'') of
         Some s \<Rightarrow> Inr (Some (content_ev s))
       | None \<Rightarrow> (case first_text delta (co_reasoning co) of
         Some s \<Rightarrow> Inr (Some (reasoning_event s))
       | None \<Rightarrow> (case chunk_error co payload of
         Some ev \<Rightarrow> Inr (Some ev)
       | None \<Rightarrow> try_bind (chunk_usage co payload) (\<lambda>u. case u of
         Some ev \<Rightarrow> Inr (Some ev)
       | None \<Rightarrow> Inr (map_option finish_ev (finish_of choice))))))"

definition payload_model :: "jobject \<Rightarrow> string option" where
  "payload_model payload = j_text (jget payload ''model'')"

text \<open>Every event carries the model the payload names, if it names one.\<close>

definition name_model :: "jobject \<Rightarrow> event \<Rightarrow> event" where
  "name_model payload ev = (case payload_model payload of None \<Rightarrow> ev | Some m \<Rightarrow> ev\<lparr>ev_model := Some m\<rparr>)"

definition openai_events ::
    "(utext \<Rightarrow> text_fault + json) \<Rightarrow> chunk_options \<Rightarrow> sse_frame \<Rightarrow> chunk_fault + event list" where
  "openai_events loads co f =
     try_bind (payload_of loads f) (\<lambda>p. case p of
       None \<Rightarrow> Inr []
     | Some payload \<Rightarrow>
         try_bind (parse_openai_event co payload) (\<lambda>rep.
           let evs = (case rep of None \<Rightarrow> [] | Some ev \<Rightarrow> [ev]) in
           try_bind (if list_ex (\<lambda>ev. ev_kind ev = EvUsage) evs then Inr None else chunk_usage co payload) (\<lambda>u.
             try_bind (chunk_choice payload) (\<lambda>choice. Inr (
               map (name_model payload)
                 (evs @ (case u of None \<Rightarrow> [] | Some ev \<Rightarrow> [ev])
                      @ (case finish_of choice of
                           Some r \<Rightarrow> if list_ex (\<lambda>ev. ev_kind ev = EvFinish) evs then [] else [finish_ev r]
                         | None \<Rightarrow> [])))))))"

text \<open>\<^verbatim>\<open>openai_event\<close>: the representative event alone, with the model of the payload or none.\<close>

definition openai_event :: "chunk_options \<Rightarrow> jobject \<Rightarrow> chunk_fault + event option" where
  "openai_event co payload =
     try_bind (parse_openai_event co payload) (\<lambda>rep. Inr (map_option (\<lambda>ev. ev\<lparr>ev_model := payload_model payload\<rparr>) rep))"

section \<open>The upstreams\<close>

definition shown :: "(json \<Rightarrow> string) \<Rightarrow> json \<Rightarrow> string" where
  "shown repr v = (if v = JNull then [] else py_text repr v)"

definition coded_error :: "(json \<Rightarrow> string) \<Rightarrow> (int option \<Rightarrow> err_kind) \<Rightarrow> jobject \<Rightarrow> event" where
  "coded_error repr classify error =
     (let code = j_int (jget error ''code'')
      in (mk_event EvError)\<lparr>ev_error_code := code, ev_error_message := Some (shown repr (jget error ''message'')),
           ev_error_kind := Some (classify code)\<rparr>)"

definition kilo_chunks :: "(json \<Rightarrow> string) \<Rightarrow> chunk_options" where
  "kilo_chunks repr = \<lparr>co_reasoning = [''reasoning''], co_error = Some (coded_error repr kilo_code), co_error_text = False,
     co_usage = usage_from_openai False []\<rparr>"

definition zen_chunks :: "(json \<Rightarrow> string) \<Rightarrow> chunk_options" where
  "zen_chunks repr = \<lparr>co_reasoning = [''reasoning_content''], co_error = Some (coded_error repr zen_code),
     co_error_text = False, co_usage = usage_from_openai True []\<rparr>"

definition codebuddy_chunks :: chunk_options where
  "codebuddy_chunks = \<lparr>co_reasoning = [''reasoning_content''], co_error = None, co_error_text = False,
     co_usage = usage_from_openai True []\<rparr>"

definition raccoon_error_event :: "(json \<Rightarrow> string) \<Rightarrow> jobject \<Rightarrow> event" where
  "raccoon_error_event repr error =
     (let code = jget error ''code''; message = jget error ''message'';
          or_empty = (\<lambda>v. if j_truthy v then py_text repr v else [])
      in (mk_event EvError)\<lparr>ev_error_message := Some (shown repr message),
           ev_error_kind := Some (raccoon_error (codes (or_empty code @ '' '' @ or_empty message)))\<rparr>)"

definition raccoon_chunks :: "(json \<Rightarrow> string) \<Rightarrow> chunk_options" where
  "raccoon_chunks repr = \<lparr>co_reasoning = [''reasoning_content'', ''reasoning''], co_error = Some (raccoon_error_event repr),
     co_error_text = False, co_usage = usage_from_openai False []\<rparr>"

definition officeace_error_event :: "(json \<Rightarrow> string) \<Rightarrow> jobject \<Rightarrow> event" where
  "officeace_error_event repr error =
     (let raw = jget error ''code''; code = j_int raw;
          message = shown repr (jget error ''message'');
          message = (case j_text raw of Some c \<Rightarrow> py_strip (c @ '' '' @ message) | None \<Rightarrow> message);
          hint = (case code of None \<Rightarrow> message | Some n \<Rightarrow> py_strip (''ModelArts.'' @ py_str n @ '' '' @ message))
      in (mk_event EvError)\<lparr>ev_error_code := code, ev_error_message := Some message,
           ev_error_kind := Some (officeace_code code (codes hint))\<rparr>)"

definition officeace_chunks :: "(json \<Rightarrow> string) \<Rightarrow> chunk_options" where
  "officeace_chunks repr = \<lparr>co_reasoning = [''reasoning_content''], co_error = Some (officeace_error_event repr),
     co_error_text = True, co_usage = usage_from_openai False []\<rparr>"

lemmas chunk_upstreams = kilo_chunks_def zen_chunks_def codebuddy_chunks_def raccoon_chunks_def officeace_chunks_def

section \<open>What a chunk says\<close>

text \<open>Everything a chunk says before its usage and its end, in the order in which the upstreams that lose nothing
  deliver it.\<close>

definition said :: "chunk_options \<Rightarrow> jobject \<Rightarrow> jobject \<Rightarrow> event list" where
  "said co payload delta =
     (if kept_calls delta = [] then [] else [calls_event (kept_calls delta)])
       @ (case j_text (jget delta ''content'') of None \<Rightarrow> [] | Some s \<Rightarrow> [content_ev s])
       @ (case first_text delta (co_reasoning co) of None \<Rightarrow> [] | Some s \<Rightarrow> [reasoning_event s])
       @ (case chunk_error co payload of None \<Rightarrow> [] | Some ev \<Rightarrow> [ev])"

definition opt_list :: "'a option \<Rightarrow> 'a list" where
  "opt_list x = (case x of None \<Rightarrow> [] | Some v \<Rightarrow> [v])"

lemma opt_list_simps [simp]: "opt_list None = []" "opt_list (Some v) = [v]"
  by (simp_all add: opt_list_def)

lemma chunk_error_kind:
  "co \<in> {kilo_chunks repr, zen_chunks repr, codebuddy_chunks, raccoon_chunks repr, officeace_chunks repr} \<Longrightarrow>
     chunk_error co payload = Some ev \<Longrightarrow> ev_kind ev = EvError"
  by (auto simp: chunk_error_def chunk_upstreams coded_error_def raccoon_error_event_def officeace_error_event_def
      mk_event_def Let_def split: json.splits if_splits)

lemma chunk_usage_kind: "chunk_usage co payload = Inr (Some ev) \<Longrightarrow> ev_kind ev = EvUsage"
  by (auto simp: chunk_usage_def try_simps split: json.splits)

lemma parse_openai_event_first:
  "parse_openai_event co payload =
     try_bind (chunk_choice payload) (\<lambda>choice.
       case said co payload (delta_of choice) of
         ev # _ \<Rightarrow> Inr (Some ev)
       | [] \<Rightarrow> try_bind (chunk_usage co payload) (\<lambda>u. case u of
           Some ev \<Rightarrow> Inr (Some ev)
         | None \<Rightarrow> Inr (map_option finish_ev (finish_of choice))))"
  by (cases "chunk_choice payload") (auto simp: parse_openai_event_def said_def Let_def split: option.splits)

lemma said_kind:
  assumes "co \<in> {kilo_chunks repr, zen_chunks repr, codebuddy_chunks, raccoon_chunks repr, officeace_chunks repr}"
    and "ev \<in> set (said co payload delta)"
  shows "ev_kind ev \<notin> {EvUsage, EvFinish}"
  using assms(2) chunk_error_kind[OF assms(1), of payload ev]
  by (auto simp: said_def split: option.splits if_splits)

text \<open>C34. A chunk of an upstream with OpenAI frames gives the first of what it says, then its usage, then its end, all
  with the model it names: usage and end are never lost, and of calls, text, reasoning and error only one is
  delivered.\<close>

theorem chunk_gives_first_said:
  assumes "co \<in> {kilo_chunks repr, zen_chunks repr, codebuddy_chunks, raccoon_chunks repr, officeace_chunks repr}"
  shows "openai_events loads co f =
     try_bind (payload_of loads f) (\<lambda>p. case p of
       None \<Rightarrow> Inr []
     | Some payload \<Rightarrow>
         try_bind (chunk_choice payload) (\<lambda>choice.
           try_bind (chunk_usage co payload) (\<lambda>u.
             Inr (map (name_model payload)
               (take 1 (said co payload (delta_of choice)) @ opt_list u @ opt_list (map_option finish_ev (finish_of choice)))))))"
proof (cases "payload_of loads f")
  case (Inr p)
  show ?thesis
  proof (cases p)
    case (Some payload)
    show ?thesis
    proof (cases "chunk_choice payload")
      case c: (Inr choice)
      show ?thesis
      proof (cases "said co payload (delta_of choice)")
        case Nil
        then show ?thesis using Inr Some c chunk_usage_kind[of co payload]
          by (cases "chunk_usage co payload"; cases "finish_of choice")
            (auto simp: openai_events_def parse_openai_event_first Let_def split: option.splits)
      next
        case (Cons ev rest)
        then have "ev_kind ev \<noteq> EvUsage" "ev_kind ev \<noteq> EvFinish" using said_kind[OF assms, of ev payload "delta_of choice"] by simp_all
        with Cons show ?thesis using Inr Some c
          by (cases "chunk_usage co payload"; cases "finish_of choice")
            (auto simp: openai_events_def parse_openai_event_first Let_def split: option.splits)
      qed
    qed (simp add: Inr Some openai_events_def parse_openai_event_first)
  qed (simp add: Inr openai_events_def)
qed (simp add: openai_events_def)

theorem chunk_gives_first_said_witness:
  "openai_events (\<lambda>_. Inr (JObj [(''choices'', JList [JObj [(''delta'', JObj [(''content'', JStr ''hi'')]), (''finish_reason'', JStr ''stop'')]])]))
     codebuddy_chunks \<lparr>sf_event = [], sf_data = [123]\<rparr> = Inr [content_ev ''hi'', finish_ev ''stop'']"
  by (subst chunk_gives_first_said[where repr = "\<lambda>_. []"])
    (simp_all add: payload_of_def loaded_def strip_text_def is_wide_space_def is_space_code_def codes_def chunk_choice_def
      chunk_usage_def jget_def delta_of_def finish_of_def obj_of_def j_text_def said_def kept_calls_def
      chunk_error_def codebuddy_chunks_def name_model_def payload_model_def)

text \<open>
  Text beside a tool call is dropped, and reasoning beside text; CodeArts, Qoder and TRAE deliver both.
\<close>

theorem text_beside_calls_lost:
  "openai_events (\<lambda>_. Inr (JObj [(''choices'', JList [JObj [(''delta'', JObj
       [(''content'', JStr ''reading the file''), (''tool_calls'', JList [JObj [(''function'', JObj [(''name'', JStr ''read'')])]])])]])]))
     codebuddy_chunks \<lparr>sf_event = [], sf_data = [123]\<rparr>
   = Inr [calls_event [JObj [(''function'', JObj [(''name'', JStr ''read'')])]]]"
  by (simp add: openai_events_def parse_openai_event_def payload_of_def loaded_def strip_text_def is_wide_space_def
      is_space_code_def codes_def chunk_choice_def chunk_usage_def jget_def delta_of_def finish_of_def obj_of_def
      j_text_def kept_calls_def is_blank_tool_call_def blank_name_def py_strip_def py_rstrip_def py_lstrip_def is_space_def
      name_model_def payload_model_def)

section \<open>Streams\<close>

datatype stream_fault = FrameLost sse_fault | ChunkLost chunk_fault

definition from_frames :: "sse_frame list \<times> (sse_fault + unit) \<Rightarrow> (unit \<Rightarrow> sse_frame \<Rightarrow> event list \<times> (stream_fault + unit)) \<Rightarrow>
    event list \<times> (stream_fault + unit)" where
  "from_frames r step =
     then_yield (yield_all step () (fst r)) (\<lambda>_. ([], case snd r of Inl e \<Rightarrow> Inl (FrameLost e) | Inr u \<Rightarrow> Inr u))"

definition frame_step :: "(sse_frame \<Rightarrow> chunk_fault + event list) \<Rightarrow> unit \<Rightarrow> sse_frame \<Rightarrow> event list \<times> (stream_fault + unit)" where
  "frame_step parse u f = (case parse f of Inl e \<Rightarrow> ([], Inl (ChunkLost e)) | Inr evs \<Rightarrow> (evs, Inr ()))"

definition chat_events :: "(sse_frame \<Rightarrow> chunk_fault + event list) \<Rightarrow> utext list \<Rightarrow> event list \<times> (stream_fault + unit)" where
  "chat_events parse chunks = from_frames (iter_frames chunks) (frame_step parse)"

text \<open>Raccoon answers an unknown model with its default one: the model an event names has to be the one asked for.\<close>

fun echo_checked :: "string \<Rightarrow> event list \<Rightarrow> event list \<times> (stream_fault + unit)" where
  "echo_checked expected [] = ([], Inr ())"
| "echo_checked expected (ev # evs) =
     (case ev_model ev of
        Some m \<Rightarrow>
          if py_strip m \<noteq> [] \<and> py_lower (py_strip m) \<noteq> expected then ([], Inl (ChunkLost Violation))
          else then_yield ([ev], Inr ()) (\<lambda>_. echo_checked expected evs)
      | None \<Rightarrow> then_yield ([ev], Inr ()) (\<lambda>_. echo_checked expected evs))"

definition raccoon_step :: "(sse_frame \<Rightarrow> chunk_fault + event list) \<Rightarrow> string \<Rightarrow> unit \<Rightarrow> sse_frame \<Rightarrow> event list \<times> (stream_fault + unit)" where
  "raccoon_step parse model u f =
     (case parse f of
        Inl e \<Rightarrow> ([], Inl (ChunkLost e))
      | Inr evs \<Rightarrow> echo_checked (py_lower (py_strip model)) evs)"

definition raccoon_stream ::
    "(utext \<Rightarrow> text_fault + json) \<Rightarrow> (json \<Rightarrow> string) \<Rightarrow> string \<Rightarrow> utext list \<Rightarrow> event list \<times> (stream_fault + unit)" where
  "raccoon_stream loads repr model chunks =
     from_frames (iter_frames chunks) (raccoon_step (openai_events loads (raccoon_chunks repr)) model)"

lemma frame_steps:
  "list_all2 (\<lambda>f evs. parse f = Inr evs) fs evss \<Longrightarrow> yield_all (frame_step parse) u fs = (concat evss, Inr ())"
  by (induction fs evss arbitrary: u rule: list_all2_induct) (simp_all add: frame_step_def)



lemma raccoon_delivers_asked_model:
  "ev \<in> set (fst (echo_checked expected evs)) \<Longrightarrow> ev_model ev = Some m \<Longrightarrow> py_strip m \<noteq> [] \<Longrightarrow> py_lower (py_strip m) = expected"
  by (induction evs) (auto split: option.splits if_splits)

end
