(* ===== verification/VendorEvents.thy ===== *)
theory VendorEvents
  imports ChunkEvents "HOL-Library.Sublist"
begin

text \<open>
  The upstreams with frames of their own: CodeArts (\<^verbatim>\<open>src/provider/codearts/events.py\<close>: one JSON object a line, texts
  that repeat the whole answer), Qoder (\<^verbatim>\<open>src/provider/qoder/events.py\<close>: an envelope with a status around a chunk,
  and \<^verbatim>\<open>_decode_frame\<close> of its client) and TRAE (\<^verbatim>\<open>src/provider/trae/events.py\<close>: named events). The credit that the
  client of TRAE estimates is left out.
\<close>

section \<open>CodeArts: lines\<close>

definition data_payload :: "utext \<Rightarrow> utext" where
  "data_payload line =
     (let text = strip_text line in
      if py_startswith text (codes ''data:'') then strip_text (drop 5 text)
      else if py_startswith text (codes ''{'') then text
      else [])"

definition line_step :: "unit \<Rightarrow> utext \<Rightarrow> utext list \<times> (sse_fault + unit)" where
  "line_step u line = (if data_payload line = [] then [] else [data_payload line], Inr ())"

definition iter_data_lines :: "utext list \<Rightarrow> utext list \<times> (sse_fault + unit)" where
  "iter_data_lines chunks =
     then_yield (read_chunks MAX_SSE_LINE line_step () chunks) (\<lambda>(u, buffer). line_step u buffer)"

section \<open>CodeArts: texts that repeat the answer\<close>

text \<open>\<^verbatim>\<open>TextSnapshot.delta\<close>: what is new, and what has been emitted.\<close>

definition snapshot_delta :: "string \<Rightarrow> string \<Rightarrow> string \<times> string" where
  "snapshot_delta emitted t =
     (if t = emitted then ([], emitted)
      else (if py_startswith t emitted then drop (length emitted) t else t, t))"

definition opt_event :: "(string \<Rightarrow> event) \<Rightarrow> json \<Rightarrow> event list" where
  "opt_event build v = (case j_text v of None \<Rightarrow> [] | Some s \<Rightarrow> [build s])"

definition objects_in :: "json \<Rightarrow> json list" where
  "objects_in v = (case v of JList xs \<Rightarrow> filter (\<lambda>x. case x of JObj _ \<Rightarrow> True | _ \<Rightarrow> False) xs | _ \<Rightarrow> [])"

definition delta_events :: "jobject \<Rightarrow> event list" where
  "delta_events delta =
     (let kept = objects_in (jget delta ''tool_calls'') in if kept = [] then [] else [calls_event kept])
       @ opt_event content_ev (jget delta ''content'')
       @ opt_event reasoning_event (jget delta ''reasoning_content'')"

definition events_from_choice :: "json \<Rightarrow> event list" where
  "events_from_choice choice =
     (case choice of
        JObj c \<Rightarrow>
          (case jget c ''delta'' of JObj d \<Rightarrow> delta_events d | _ \<Rightarrow> [])
            @ opt_event finish_ev (jget c ''finish_reason'')
      | _ \<Rightarrow> [])"

definition events_from_choices :: "json list \<Rightarrow> event list" where
  "events_from_choices choices = concat (map events_from_choice choices)"

definition flat_usage :: "jobject \<Rightarrow> usage option" where
  "flat_usage payload =
     (let i = j_int (jget payload ''prompt_tokens''); n = j_int (jget payload ''completion_tokens'')
      in if i = None \<and> n = None then None else Some (empty_usage\<lparr>u_input := i, u_output := n\<rparr>))"

definition usage_object :: "jobject \<Rightarrow> usage" where
  "usage_object raw =
     empty_usage\<lparr>u_input := j_int (jget raw ''prompt_tokens''), u_output := j_int (jget raw ''completion_tokens''),
       u_cached := details_int raw ''prompt_tokens_details'' ''cached_tokens'',
       u_reasoning := details_int raw ''completion_tokens_details'' ''reasoning_tokens''\<rparr>"

definition DONE_TEXT :: string where "DONE_TEXT = ''[DONE]''"

definition text_events :: "string \<Rightarrow> json \<Rightarrow> event list \<times> string" where
  "text_events emitted v =
     (case v of
        JStr t \<Rightarrow>
          if t = DONE_TEXT then ([finish_ev ''stop''], emitted)
          else let (d, emitted') = snapshot_delta emitted t in (if d = [] then [] else [content_ev d], emitted')
      | _ \<Rightarrow> ([], emitted))"

definition payload_events_raw :: "string \<Rightarrow> jobject \<Rightarrow> event list \<times> string" where
  "payload_events_raw emitted payload =
     (let code = (case jget payload ''error_code'' of JStr c \<Rightarrow> c | _ \<Rightarrow> []) in
      if code \<notin> {[], ''0''} then
        let detail = (case jget payload ''error_msg'' of JStr m \<Rightarrow> py_strip (code @ '' '' @ m) | _ \<Rightarrow> code)
        in ([(mk_event EvError)\<lparr>ev_error_message := Some detail, ev_error_kind := Some (codearts_code (Some (codes code)))\<rparr>], emitted)
      else
        let (text_evs, emitted') = text_events emitted (jget payload ''text'')
        in ((case jget payload ''choices'' of JList cs \<Rightarrow> events_from_choices cs | _ \<Rightarrow> [])
              @ text_evs
              @ (case jget payload ''delta'' of JObj d \<Rightarrow> delta_events d | _ \<Rightarrow> [])
              @ (case jget payload ''usage'' of
                   JObj raw \<Rightarrow> [usage_event (usage_object raw)]
                 | _ \<Rightarrow> (case flat_usage payload of None \<Rightarrow> [] | Some u \<Rightarrow> [usage_event u])),
            emitted'))"

definition payload_events :: "string \<Rightarrow> jobject \<Rightarrow> event list \<times> string" where
  "payload_events emitted payload =
     (let (evs, emitted') = payload_events_raw emitted payload in (map (name_model payload) evs, emitted'))"

text \<open>\<^verbatim>\<open>_SSE_NOISE_RE\<close>: white space, brackets, colons and commas only.\<close>

definition is_noise :: "utext \<Rightarrow> bool" where
  "is_noise t = list_all (\<lambda>c. is_wide_space c \<or> c \<in> set (codes ''{}[]:,'')) t"

definition parse_line :: "(utext \<Rightarrow> text_fault + json) \<Rightarrow> string \<Rightarrow> utext \<Rightarrow> chunk_fault + event list \<times> string" where
  "parse_line loads emitted line =
     (let text = strip_text line in
      if text = codes DONE_TEXT then Inr ([finish_ev ''stop''], emitted)
      else if is_noise text then Inr ([], emitted)
      else try_bind (loaded loads text) (\<lambda>payload. Inr (payload_events emitted payload)))"

definition codearts_step ::
    "(utext \<Rightarrow> text_fault + json) \<Rightarrow> string \<Rightarrow> utext \<Rightarrow> event list \<times> (stream_fault + string)" where
  "codearts_step loads emitted line =
     (case parse_line loads emitted line of
        Inl e \<Rightarrow> ([], Inl (ChunkLost e))
      | Inr (evs, emitted') \<Rightarrow> (evs, Inr emitted'))"

definition codearts_stream :: "(utext \<Rightarrow> text_fault + json) \<Rightarrow> utext list \<Rightarrow> event list \<times> (stream_fault + unit)" where
  "codearts_stream loads chunks =
     (let r = iter_data_lines chunks
      in then_yield (yield_all (codearts_step loads) [] (fst r))
           (\<lambda>_. ([], case snd r of Inl e \<Rightarrow> Inl (FrameLost e) | Inr u \<Rightarrow> Inr u)))"

section \<open>Qoder: envelopes\<close>

record envelope =
  en_status :: int
  en_body :: string

text \<open>A text that \<^verbatim>\<open>int()\<close> refuses, also for its length, counts as 502.\<close>

definition to_status :: "json \<Rightarrow> int" where
  "to_status v =
     (case v of
        JNull \<Rightarrow> 200
      | JInt n \<Rightarrow> n
      | JStr s \<Rightarrow>
          if length (filter Reasoning.is_decimal s) > INT_MAX_STR_DIGITS then 502
          else (case py_int s of Some n \<Rightarrow> n | None \<Rightarrow> 502)
      | _ \<Rightarrow> 502)"

text \<open>\<open>dumps\<close> is \<^verbatim>\<open>json.dumps\<close>.\<close>

definition decode_envelope ::
    "(utext \<Rightarrow> text_fault + json) \<Rightarrow> (json \<Rightarrow> string) \<Rightarrow> sse_frame \<Rightarrow> chunk_fault + envelope option" where
  "decode_envelope loads dumps f =
     (let data = strip_text (sf_data f) in
      if data = [] then Inr None
      else if data = codes ''[DONE]'' then Inr (Some \<lparr>en_status = 200, en_body = ''[DONE]''\<rparr>)
      else try_bind (loaded loads data) (\<lambda>outer.
        let status = to_status (jget outer ''statusCodeValue'')
        in Inr (case jget outer ''body'' of
             JStr body \<Rightarrow> Some \<lparr>en_status = status, en_body = body\<rparr>
           | _ \<Rightarrow> if status = 200 then None else Some \<lparr>en_status = status, en_body = dumps (JObj outer)\<rparr>)))"

definition is_keepalive_body :: "(utext \<Rightarrow> text_fault + json) \<Rightarrow> string \<Rightarrow> chunk_fault + bool" where
  "is_keepalive_body loads body =
     (case loads (codes body) of
        Inl NotJson \<Rightarrow> Inr False
      | Inl e \<Rightarrow> Inl (Raised e)
      | Inr v \<Rightarrow> Inr (v \<in> {JNull, JObj [], JList []}))"

definition is_blank_function_call :: "json \<Rightarrow> bool" where
  "is_blank_function_call v =
     (case v of
        JObj call \<Rightarrow> blank_name (jget call ''name'') \<and> jget call ''arguments'' \<in> {JNull, JStr [], JObj []}
      | _ \<Rightarrow> \<not> j_truthy v)"

definition NOISE_KEYS :: "string list" where
  "NOISE_KEYS = [''extra_fields'', ''refusal'', ''reasoning_content'']"

definition clean_delta :: "jobject \<Rightarrow> jobject" where
  "clean_delta delta =
     (let d1 = foldl (\<lambda>d k. if j_truthy (jget d k) then d else od_del k d) delta NOISE_KEYS;
          d2 = (if jget d1 ''tool_calls'' = JList [] then od_del ''tool_calls'' d1 else d1);
          call = jget d2 ''function_call''
      in if call \<noteq> JNull \<and> is_blank_function_call call then od_del ''function_call'' d2 else d2)"

definition qoder_calls :: "jobject \<Rightarrow> json list" where
  "qoder_calls delta =
     (case jget delta ''tool_calls'' of
        JList cs \<Rightarrow> filter (\<lambda>c. case c of JObj d \<Rightarrow> \<not> is_blank_function_call (jget d ''function'') | _ \<Rightarrow> False) cs
      | _ \<Rightarrow> [])
     @ (case jget delta ''function_call'' of
          JObj d \<Rightarrow>
            if is_blank_function_call (JObj d) then []
            else [JObj [(''type'', JStr ''function''), (''function'', JObj d)]]
        | _ \<Rightarrow> [])"

definition inner_events :: "jobject \<Rightarrow> jobject option \<Rightarrow> usage option \<Rightarrow> event list" where
  "inner_events delta choice u =
     (if qoder_calls delta = [] then [] else [calls_event (qoder_calls delta)])
       @ opt_event content_ev (jget delta ''content'')
       @ opt_event reasoning_event (jget delta ''reasoning_content'')
       @ opt_list (map_option usage_event u)
       @ opt_list (map_option finish_ev (finish_of choice))"

definition parse_inner_chunk :: "(utext \<Rightarrow> text_fault + json) \<Rightarrow> string \<Rightarrow> chunk_fault + event list" where
  "parse_inner_chunk loads body =
     try_bind (loaded loads (codes body)) (\<lambda>payload.
       try_bind (chunk_choice payload) (\<lambda>choice.
         try_bind (case jget payload ''usage'' of
                     JObj raw \<Rightarrow> try_bind (usage_from_openai False [] raw) (\<lambda>u. Inr (Some u))
                   | _ \<Rightarrow> Inr None) (\<lambda>u.
           Inr (map (name_model payload) (inner_events (clean_delta (delta_of choice)) choice u)))))"

definition envelope_error :: "int \<Rightarrow> string \<Rightarrow> err_kind \<Rightarrow> rat option \<Rightarrow> event" where
  "envelope_error status body kind wait =
     (mk_event EvError)\<lparr>ev_error_code := Some status, ev_error_message := Some (take 2000 body), ev_error_kind := Some kind,
       ev_retry_after := wait\<rparr>"

definition qoder_events ::
    "(utext \<Rightarrow> text_fault + json) \<Rightarrow> (json \<Rightarrow> string) \<Rightarrow> sse_frame \<Rightarrow> chunk_fault + event list" where
  "qoder_events loads dumps f =
     try_bind (decode_envelope loads dumps f) (\<lambda>env. case env of
       None \<Rightarrow> Inr []
     | Some e \<Rightarrow>
         if en_status e \<noteq> 200 then
           (case parse_queue_hint loads (codes (en_body e)) of
              Inl err \<Rightarrow> Inl (Raised err)
            | Inr (Some wait) \<Rightarrow> Inr [envelope_error (en_status e) (en_body e) QUEUE (Some wait)]
            | Inr None \<Rightarrow>
                (case qoder_status loads (en_status e) (codes (en_body e)) of
                   Inl err \<Rightarrow> Inl (Raised err)
                 | Inr kind \<Rightarrow> Inr [envelope_error (en_status e) (en_body e) kind None]))
         else if en_body e = ''[DONE]'' then Inr []
         else try_bind (is_keepalive_body loads (en_body e)) (\<lambda>alive.
           if alive then Inr [] else parse_inner_chunk loads (en_body e)))"

section \<open>TRAE: named events\<close>

definition KNOWN_EVENT_NAMES :: "utext list" where
  "KNOWN_EVENT_NAMES = map codes [''output'', ''token_usage'', ''done'', ''error'']"

definition is_blank_solo_call :: "jobject \<Rightarrow> bool" where
  "is_blank_solo_call fn \<longleftrightarrow>
     blank_name (jget fn ''name'') \<and> jget fn ''arguments'' \<in> {JNull, JStr [], JStr ''{}'', JObj []}"

definition normalize_solo_call :: "json \<Rightarrow> json option" where
  "normalize_solo_call item =
     (case item of
        JObj d \<Rightarrow>
          (let fn = (case jget d ''function_call'' of JObj f \<Rightarrow> Some f
                     | _ \<Rightarrow> (case jget d ''function'' of JObj f \<Rightarrow> Some f | _ \<Rightarrow> None))
           in case fn of
                Some f \<Rightarrow>
                  if is_blank_solo_call f then None
                  else Some (JObj (filter (\<lambda>p. fst p \<notin> {''function'', ''function_call''}) d @ [(''function'', JObj f)]))
              | None \<Rightarrow> None)
      | _ \<Rightarrow> None)"

definition named_tool_calls :: "json \<Rightarrow> json list" where
  "named_tool_calls v = (case v of JList xs \<Rightarrow> List.map_filter normalize_solo_call xs | _ \<Rightarrow> [])"

definition solo_usage :: "jobject \<Rightarrow> usage" where
  "solo_usage payload =
     empty_usage\<lparr>u_input := j_int (jget payload ''prompt_tokens''), u_output := j_int (jget payload ''completion_tokens''),
       u_reasoning := j_int (jget payload ''reasoning_tokens''),
       u_cached := (case details_int payload ''prompt_tokens_details'' ''cached_tokens'' of
                      Some n \<Rightarrow> Some n | None \<Rightarrow> j_int (jget payload ''cache_read_input_tokens''))\<rparr>"

definition output_events :: "jobject \<Rightarrow> event list" where
  "output_events payload =
     (let calls = named_tool_calls (jget payload ''tool_calls'') in if calls = [] then [] else [calls_event calls])
       @ opt_event content_ev (jget payload ''response'')
       @ opt_event reasoning_event (jget payload ''reasoning_content'')"

definition solo_error :: "jobject \<Rightarrow> event" where
  "solo_error payload =
     (let code = j_int (jget payload ''code'')
      in (mk_event EvError)\<lparr>ev_error_code := code,
           ev_error_message := (case jget payload ''message'' of JStr m \<Rightarrow> Some m | _ \<Rightarrow> None),
           ev_error_kind := Some (trae_code code)\<rparr>)"

definition solo_event :: "utext \<Rightarrow> jobject \<Rightarrow> event list" where
  "solo_event name payload =
     map (name_model payload)
       (if name = codes ''token_usage'' then [usage_event (solo_usage payload)]
        else if name = codes ''done'' then
          [(mk_event EvFinish)\<lparr>ev_finish_reason := (case jget payload ''finish_reason'' of JStr r \<Rightarrow> Some r | _ \<Rightarrow> None)\<rparr>]
        else [solo_error payload])"

text \<open>\<^verbatim>\<open>parse_all_events\<close>, with the frames other than \<^verbatim>\<open>output\<close> as \<^verbatim>\<open>parse_frame\<close> reads them; only these name a model.\<close>

definition trae_events :: "(utext \<Rightarrow> text_fault + json) \<Rightarrow> sse_frame \<Rightarrow> chunk_fault + event list" where
  "trae_events loads f =
     (let name = strip_text (sf_event f) in
      if sf_data f = [] \<or> name \<notin> set KNOWN_EVENT_NAMES then Inr []
      else try_bind (loaded loads (sf_data f)) (\<lambda>payload.
        Inr (if name = codes ''output'' then output_events payload else solo_event name payload)))"

definition frame_model :: "(utext \<Rightarrow> text_fault + json) \<Rightarrow> sse_frame \<Rightarrow> chunk_fault + string option" where
  "frame_model loads f =
     (if strip_text (sf_event f) \<notin> set (map codes [''metadata'', ''timing_cost'', ''extra_info'']) \<or> sf_data f = [] then Inr None
      else case loads (sf_data f) of
             Inl NotJson \<Rightarrow> Inr None
           | Inl e \<Rightarrow> Inl (Raised e)
           | Inr (JObj d) \<Rightarrow> Inr (first_text d [''model'', ''provider_model_name''])
           | Inr _ \<Rightarrow> Inr None)"

text \<open>The name of a meta data frame is put on the later events that have none.\<close>

definition hinted :: "string option \<Rightarrow> event \<Rightarrow> event" where
  "hinted hint ev = (if ev_model ev = None then ev\<lparr>ev_model := hint\<rparr> else ev)"

definition trae_step ::
    "(utext \<Rightarrow> text_fault + json) \<Rightarrow> string option \<Rightarrow> sse_frame \<Rightarrow> event list \<times> (stream_fault + string option)" where
  "trae_step loads hint f =
     (case frame_model loads f of
        Inl e \<Rightarrow> ([], Inl (ChunkLost e))
      | Inr m \<Rightarrow>
          (let hint1 = (case m of Some x \<Rightarrow> Some x | None \<Rightarrow> hint)
           in case trae_events loads f of
                Inl e \<Rightarrow> ([], Inl (ChunkLost e))
              | Inr evs \<Rightarrow> (map (hinted hint1) evs, Inr hint1)))"

definition trae_stream :: "(utext \<Rightarrow> text_fault + json) \<Rightarrow> utext list \<Rightarrow> event list \<times> (stream_fault + unit)" where
  "trae_stream loads chunks =
     (let r = iter_frames chunks
      in then_yield (yield_all (trae_step loads) None (fst r))
           (\<lambda>_. ([], case snd r of Inl e \<Rightarrow> Inl (FrameLost e) | Inr u \<Rightarrow> Inr u)))"

section \<open>The text of a stream\<close>

definition said_text :: "event list \<Rightarrow> utext" where
  "said_text evs =
     concat (map (\<lambda>ev. if ev_kind ev = EvContent then (case ev_content ev of Some s \<Rightarrow> s | None \<Rightarrow> []) else []) evs)"

lemma said_text_simps [simp]:
  "said_text [] = []" "said_text (evs @ evs') = said_text evs @ said_text evs'"
  "said_text [content_ev s] = codes s"
  by (simp_all add: said_text_def content_ev_def mk_event_def)

definition snapshot_line :: "(utext \<Rightarrow> text_fault + json) \<Rightarrow> (string \<Rightarrow> utext) \<Rightarrow> string \<Rightarrow> bool" where
  "snapshot_line loads enc t \<longleftrightarrow>
     loads (enc t) = Inr (JObj [(''text'', JStr t)]) \<and> t \<noteq> DONE_TEXT
     \<and> enc t \<noteq> [] \<and> hd (enc t) = 123 \<and> last (enc t) = 125 \<and> 10 \<notin> set (enc t) \<and> \<not> is_noise (enc t)"

lemma strip_inner: "x \<noteq> [] \<Longrightarrow> \<not> is_wide_space (hd x) \<Longrightarrow> \<not> is_wide_space (last x) \<Longrightarrow> strip_text x = x"
proof -
  assume x: "x \<noteq> []" "\<not> is_wide_space (hd x)" "\<not> is_wide_space (last x)"
  then have "dropWhile is_wide_space x = x" by (cases x) simp_all
  moreover have "dropWhile is_wide_space (rev x) = rev x" using x by (cases x rule: rev_cases) simp_all
  ultimately show ?thesis by (simp add: strip_text_def)
qed

lemma brackets_no_space [simp]: "\<not> is_wide_space 123" "\<not> is_wide_space 125" "\<not> is_wide_space 100" "is_wide_space 32"
  by (simp_all add: is_wide_space_def is_space_code_def)

lemma snapshot_payload:
  assumes "snapshot_line loads enc t"
  shows "line_step u (codes ''data: '' @ enc t) = ([enc t], Inr ())"
proof -
  have x: "enc t \<noteq> []" "hd (enc t) = 123" "last (enc t) = 125" using assms by (simp_all add: snapshot_line_def)
  have "strip_text (codes ''data: '' @ enc t) = codes ''data: '' @ enc t"
    by (rule strip_inner) (simp_all add: codes_def x)
  moreover have "strip_text (32 # enc t) = strip_text (enc t)" by (simp add: strip_text_def)
  moreover have "strip_text (enc t) = enc t" by (rule strip_inner) (simp_all add: x)
  ultimately show ?thesis using x by (simp add: line_step_def data_payload_def py_startswith_def codes_def)
qed

lemma tail_step: "line_step u [] = ([], Inr ())"
  by (simp add: line_step_def data_payload_def strip_text_def py_startswith_def codes_def)

lemma snapshot_step:
  assumes "snapshot_line loads enc t" "snapshot_delta emitted t = (d, emitted')"
  shows "codearts_step loads emitted (enc t) = (if d = [] then [] else [content_ev d], Inr emitted')"
proof -
  have x: "enc t \<noteq> []" "hd (enc t) = 123" "last (enc t) = 125" "\<not> is_noise (enc t)"
    "loads (enc t) = Inr (JObj [(''text'', JStr t)])" "t \<noteq> DONE_TEXT" using assms(1) by (simp_all add: snapshot_line_def)
  have s: "strip_text (enc t) = enc t" by (rule strip_inner) (simp_all add: x)
  have "enc t \<noteq> codes DONE_TEXT" using x(2) by (auto simp: DONE_TEXT_def codes_def)
  with x s assms(2) show ?thesis
    by (simp add: codearts_step_def parse_line_def loaded_def payload_events_def payload_events_raw_def text_events_def
        jget_def flat_usage_def j_int_def name_model_def payload_model_def j_text_def)
qed

text \<open>What has been emitted ends what has been delivered.\<close>

lemma snapshot_delta_suffix:
  assumes "suffix (codes emitted) out" "snapshot_delta emitted t = (d, emitted')"
  shows "emitted' = t \<and> suffix (codes t) (out @ codes d)
     \<and> (out = codes emitted \<and> prefix emitted t \<longrightarrow> out @ codes d = codes t)"
proof -
  have "prefix emitted t \<Longrightarrow> codes t = codes emitted @ codes (drop (length emitted) t)"
    by (auto simp: codes_def prefix_def)
  moreover have "py_startswith t emitted \<longleftrightarrow> prefix emitted t"
    by (auto simp: py_startswith_def prefix_def) (metis append_take_drop_id)
  ultimately show ?thesis using assms
    by (auto simp: snapshot_delta_def suffix_def codes_def split: if_splits)
qed

lemma snapshot_run:
  "list_all (snapshot_line loads enc) ts \<Longrightarrow> suffix (codes emitted) out \<Longrightarrow>
     \<exists>evs emitted'. yield_all (codearts_step loads) emitted (map enc ts) = (evs, Inr emitted')
       \<and> emitted' = last (emitted # ts)
       \<and> suffix (codes emitted') (out @ said_text evs)
       \<and> (out = codes emitted \<and> successively prefix (emitted # ts) \<longrightarrow> out @ said_text evs = codes emitted')"
proof (induction ts arbitrary: emitted out)
  case Nil
  then show ?case by simp
next
  case (Cons t ts)
  obtain d e where d: "snapshot_delta emitted t = (d, e)" by (cases "snapshot_delta emitted t")
  have e: "e = t" and s: "suffix (codes t) (out @ codes d)"
    and p: "out = codes emitted \<and> prefix emitted t \<longrightarrow> out @ codes d = codes t"
    using snapshot_delta_suffix[OF Cons.prems(2) d] by blast+
  obtain evs f where IH: "yield_all (codearts_step loads) t (map enc ts) = (evs, Inr f)" "f = last (t # ts)"
      "suffix (codes f) ((out @ codes d) @ said_text evs)"
      "out @ codes d = codes t \<and> successively prefix (t # ts) \<longrightarrow> (out @ codes d) @ said_text evs = codes f"
    using Cons.IH[OF _ s] Cons.prems(1) by auto
  have "said_text (if d = [] then [] else [content_ev d]) = codes d" by (simp add: codes_def)
  moreover have "out = codes emitted \<and> successively prefix (emitted # t # ts) \<longrightarrow> out @ codes d @ said_text evs = codes f"
    using p IH(4) by (metis append_assoc successively.simps(3))
  ultimately show ?case using IH(1-3) d e Cons.prems(1) by (simp add: snapshot_step)
qed

text \<open>C35. CodeArts repeats the whole answer in every line: the client receives a text that ends with the last version,
  and exactly the last version when each one extends the one before, whatever pieces the network cuts the stream
  into.\<close>

theorem snapshot_text_rebuilt:
  assumes "concat chunks = concat (map (\<lambda>t. codes ''data: '' @ enc t @ [10]) ts)" "length (concat chunks) \<le> MAX_SSE_LINE"
    and "list_all (snapshot_line loads enc) ts" "ts \<noteq> []"
  shows "\<exists>evs. codearts_stream loads chunks = (evs, Inr ()) \<and> suffix (codes (last ts)) (said_text evs)
     \<and> (successively prefix ts \<longrightarrow> said_text evs = codes (last ts))"
proof -
  let ?ls = "map (\<lambda>t. codes ''data: '' @ enc t) ts"
  have c: "concat chunks = concat (map (\<lambda>l. l @ [10]) ?ls)" using assms(1) by (simp add: comp_def)
  have n: "list_all (\<lambda>l. 10 \<notin> set l) ?ls" using assms(3) by (auto simp: list_all_iff snapshot_line_def codes_def)
  have "yield_all line_step () ?ls = (map enc ts, Inr ())"
    using assms(3) by (induction ts) (simp_all add: snapshot_payload[of loads])
  then have "iter_data_lines chunks = (map enc ts, Inr ())"
    using read_lines[OF c n assms(2), of line_step "()"] tail_step by (simp add: iter_data_lines_def)
  moreover obtain evs f where "yield_all (codearts_step loads) [] (map enc ts) = (evs, Inr f)" "f = last ([] # ts)"
      "suffix (codes f) (said_text evs)" "successively prefix ([] # ts) \<longrightarrow> said_text evs = codes f"
    using snapshot_run[OF assms(3), of "[]" "[]"] by (auto simp: codes_def)
  moreover have "successively prefix ([] # ts) = successively prefix ts" using assms(4) by (cases ts) simp_all
  ultimately show ?thesis using assms(4) by (simp add: codearts_stream_def)
qed

theorem snapshot_text_rebuilt_witness:
  "\<exists>evs. codearts_stream (\<lambda>s. Inr (JObj [(''text'', JStr (if s = [123, 49, 125] then ''a'' else ''ab''))]))
       [codes ''data: {1}'' @ [10] @ codes ''dat'', codes ''a: {2}'' @ [10]] = (evs, Inr ())
     \<and> said_text evs = codes ''ab''"
proof -
  have "\<exists>evs. codearts_stream (\<lambda>s. Inr (JObj [(''text'', JStr (if s = [123, 49, 125] then ''a'' else ''ab''))]))
       [codes ''data: {1}'' @ [10] @ codes ''dat'', codes ''a: {2}'' @ [10]] = (evs, Inr ())
     \<and> suffix (codes (last [''a'', ''ab''])) (said_text evs)
     \<and> (successively prefix [''a'', ''ab''] \<longrightarrow> said_text evs = codes (last [''a'', ''ab'']))"
    by (rule snapshot_text_rebuilt[where enc = "\<lambda>t. if t = ''a'' then [123, 49, 125] else [123, 50, 125]"])
      (simp_all add: codes_def MAX_SSE_LINE_def snapshot_line_def DONE_TEXT_def is_noise_def is_wide_space_def is_space_code_def)
  then show ?thesis by auto
qed

section \<open>Noise and errors\<close>

text \<open>Cleaning a delta changes nothing that is read from it.\<close>

lemma falsy_text: "\<not> j_truthy v \<Longrightarrow> j_text v = None"
  by (cases v) (simp_all add: j_text_def)

lemma text_of_null [simp]: "j_text JNull = None"
  by (simp add: j_text_def)

lemma jget_del [simp]: "jget (od_del k d) k' = (if k = k' then JNull else jget d k')"
  by (simp add: jget_def)

lemma clean_delta_reads:
  "jget (clean_delta d) ''content'' = jget d ''content''"
  "j_text (jget (clean_delta d) ''reasoning_content'') = j_text (jget d ''reasoning_content'')"
  "jget (clean_delta d) ''tool_calls'' = jget d ''tool_calls'' \<or>
     (jget (clean_delta d) ''tool_calls'' = JNull \<and> jget d ''tool_calls'' = JList [])"
  "jget (clean_delta d) ''function_call'' = jget d ''function_call'' \<or>
     (jget (clean_delta d) ''function_call'' = JNull \<and> is_blank_function_call (jget d ''function_call''))"
  by (auto simp: clean_delta_def NOISE_KEYS_def Let_def falsy_text)

lemma clean_delta_invisible: "inner_events (clean_delta d) c u = inner_events d c u"
proof -
  have blank: "(case v of JObj x \<Rightarrow> if is_blank_function_call (JObj x) then [] else g x | _ \<Rightarrow> []) = []"
    if "is_blank_function_call v" for v and g :: "jobject \<Rightarrow> json list"
    using that by (cases v) simp_all
  have "qoder_calls (clean_delta d) = qoder_calls d"
    unfolding qoder_calls_def using clean_delta_reads(3,4)[of d] by (elim disjE conjE) (simp_all add: blank)
  then show ?thesis by (simp add: inner_events_def opt_event_def clean_delta_reads)
qed

text \<open>An error inside a stream is delivered as one error event, with its code where it has one, and no text: an
  envelope of Qoder with a status other than 200, an \<^verbatim>\<open>error\<close> frame of TRAE and a line of CodeArts with an error code.
  A queue hint makes the error a waiting one.\<close>

theorem error_frames_give_one_error:
  "(\<forall>e evs. decode_envelope loads dumps f = Inr (Some e) \<and> en_status e \<noteq> 200 \<and> qoder_events loads dumps f = Inr evs \<longrightarrow>
      (\<exists>ev. evs = [ev] \<and> ev_kind ev = EvError \<and> ev_error_code ev = Some (en_status e)
         \<and> (ev_error_kind ev = Some QUEUE \<and> ev_retry_after ev \<noteq> None \<longleftrightarrow>
              (\<exists>w. parse_queue_hint loads (codes (en_body e)) = Inr (Some w)))))
   \<and> (\<forall>evs. strip_text (sf_event f) = codes ''error'' \<and> sf_data f \<noteq> [] \<and> trae_events loads f = Inr evs \<longrightarrow>
      (\<exists>ev. evs = [ev] \<and> ev_kind ev = EvError))
   \<and> (\<forall>code. jget payload ''error_code'' = JStr code \<and> code \<notin> {[], ''0''} \<longrightarrow>
      (\<exists>ev. payload_events emitted payload = ([ev], emitted) \<and> ev_kind ev = EvError))"
proof -
  have named: "ev_kind (name_model p ev) = ev_kind ev" for p ev by (simp add: name_model_def split: option.split)
  have "\<exists>ev. evs = [ev] \<and> ev_kind ev = EvError \<and> ev_error_code ev = Some (en_status e)
         \<and> (ev_error_kind ev = Some QUEUE \<and> ev_retry_after ev \<noteq> None \<longleftrightarrow>
              (\<exists>w. parse_queue_hint loads (codes (en_body e)) = Inr (Some w)))"
    if "decode_envelope loads dumps f = Inr (Some e)" "en_status e \<noteq> 200" "qoder_events loads dumps f = Inr evs" for e evs
    using that by (auto simp: qoder_events_def envelope_error_def mk_event_def split: sum.splits option.splits)
  moreover have "\<exists>ev. evs = [ev] \<and> ev_kind ev = EvError"
    if "strip_text (sf_event f) = codes ''error''" "sf_data f \<noteq> []" "trae_events loads f = Inr evs" for evs
    using that named
    by (auto simp: trae_events_def KNOWN_EVENT_NAMES_def codes_def try_simps solo_event_def solo_error_def Let_def mk_event_def)
  moreover have "\<exists>ev. payload_events emitted payload = ([ev], emitted) \<and> ev_kind ev = EvError"
    if "jget payload ''error_code'' = JStr code" "code \<notin> {[], ''0''}" for code
    using that by (simp add: payload_events_def payload_events_raw_def Let_def named) (simp add: mk_event_def)
  ultimately show ?thesis by blast
qed

theorem error_frames_give_one_error_witness:
  "\<exists>ev. payload_events ''so far'' [(''error_code'', JStr ''TM.1''), (''text'', JStr ''so far and on'')] = ([ev], ''so far'')
     \<and> ev_kind ev = EvError"
  using error_frames_give_one_error[of "\<lambda>_. Inl NotJson" "\<lambda>_. []" "\<lparr>sf_event = [], sf_data = []\<rparr>"
      "[(''error_code'', JStr ''TM.1''), (''text'', JStr ''so far and on'')]" "''so far''"]
  by (simp add: jget_def)

text \<open>
  A call without a name and with \<^verbatim>\<open>"{}"\<close> for its arguments is noise for the shared reader and for TRAE; Qoder
  delivers it, since the list of empty arguments names the empty text twice instead.
\<close>

theorem qoder_delivers_blank_call:
  "let call = [(''function'', JObj [(''arguments'', JStr ''{}'')])] in
   is_blank_tool_call call \<and> named_tool_calls (JList [JObj call]) = []
   \<and> qoder_calls [(''tool_calls'', JList [JObj call])] = [JObj call]"
  by (simp add: is_blank_tool_call_def named_tool_calls_def map_filter_simps normalize_solo_call_def is_blank_solo_call_def
      qoder_calls_def is_blank_function_call_def blank_name_def jget_def obj_of_def)

end
