(* ===== verification/ZenGate.thy ===== *)
theory ZenGate
  imports ChunkEvents Affinity "HOL-Library.Word"
begin

unbundle bit_operations_syntax

text \<open>
  \<^verbatim>\<open>src/provider/zen/client.py\<close>: Zen serves requests that declare certain tools. The client adds the missing ones to
  the request and takes their calls out of the answer, or renames them to a tool of the same meaning that the request
  declares. Also the session id, whose first digits encode the time.
\<close>

section \<open>Session ids\<close>

type_synonym word48 = "48 word"

definition session_value :: "int \<Rightarrow> word48" where
  "session_value now_ms = NOT (word_of_int (now_ms * 0x1000 + 1))"

text \<open>\<^verbatim>\<open>format(value, "012x")\<close>: a value of 48 bits has at most 12 digits.\<close>

fun hex_digits :: "nat \<Rightarrow> nat \<Rightarrow> string" where
  "hex_digits 0 n = []"
| "hex_digits (Suc k) n = hex_digits k (n div 16) @ [hex_digit (n mod 16)]"

definition session_time_prefix :: "int \<Rightarrow> string" where
  "session_time_prefix now_ms = hex_digits 12 (unat (session_value now_ms))"

section \<open>Tools of the request\<close>

definition REQUIRED_TOOLS :: "string list" where
  "REQUIRED_TOOLS = [''bash'', ''read'']"

definition TOOL_SYNONYMS :: "(string, string list) odict" where
  "TOOL_SYNONYMS = [(''bash'', [''shell'', ''execute'']), (''read'', [''read_file''])]"

definition synonyms :: "string \<Rightarrow> string list" where
  "synonyms name = (case od_get TOOL_SYNONYMS name of Some l \<Rightarrow> l | None \<Rightarrow> [])"

definition function_of :: "json \<Rightarrow> jobject option" where
  "function_of tool = (case tool of JObj d \<Rightarrow> (case jget d ''function'' of JObj f \<Rightarrow> Some f | _ \<Rightarrow> None) | _ \<Rightarrow> None)"

definition tool_name :: "json \<Rightarrow> string option" where
  "tool_name tool =
     (case function_of tool of Some f \<Rightarrow> (case jget f ''name'' of JStr n \<Rightarrow> Some n | _ \<Rightarrow> None) | None \<Rightarrow> None)"

definition tool_names :: "json list \<Rightarrow> string list" where
  "tool_names tools = List.map_filter tool_name tools"

definition empty_tool :: "string \<Rightarrow> jobject option \<Rightarrow> json" where
  "empty_tool name proto =
     (let f = [(''name'', JStr name)];
          p = (case proto of Some d \<Rightarrow> d | None \<Rightarrow> []);
          f = (case jget p ''description'' of JStr s \<Rightarrow> od_set ''description'' (JStr s) f | _ \<Rightarrow> f);
          f = (case jget p ''parameters'' of JObj d \<Rightarrow> od_set ''parameters'' (JObj d) f
               | _ \<Rightarrow> od_set ''parameters'' (JObj [(''type'', JStr ''object'')]) f)
      in JObj [(''type'', JStr ''function''), (''function'', JObj f)])"

text \<open>\<^verbatim>\<open>function.get("name") in wanted\<close> raises \<^verbatim>\<open>TypeError\<close> for a name that is a list or an object.\<close>

datatype gate_fault = UnhashableName

fun find_synonym :: "json list \<Rightarrow> string list \<Rightarrow> gate_fault + jobject option" where
  "find_synonym [] wanted = Inr None"
| "find_synonym (tool # tools) wanted =
     (case function_of tool of
        None \<Rightarrow> find_synonym tools wanted
      | Some f \<Rightarrow>
          (case jget f ''name'' of
             JStr n \<Rightarrow> if n \<in> set wanted then Inr (Some f) else find_synonym tools wanted
           | JList _ \<Rightarrow> Inl UnhashableName
           | JObj _ \<Rightarrow> Inl UnhashableName
           | _ \<Rightarrow> find_synonym tools wanted))"

fun add_required :: "string list \<Rightarrow> string list \<Rightarrow> json list \<Rightarrow> gate_fault + json list \<times> string list" where
  "add_required present [] tools = Inr (tools, [])"
| "add_required present (name # names) tools =
     (if name \<in> set present then add_required present names tools
      else try_bind (find_synonym tools (synonyms name)) (\<lambda>proto.
        try_bind (add_required present names (tools @ [empty_tool name proto])) (\<lambda>r.
          Inr (fst r, List.insert name (snd r)))))"

definition declared_tools :: "jobject \<Rightarrow> json list" where
  "declared_tools body = (case jget body ''tools'' of JList ts \<Rightarrow> ts | _ \<Rightarrow> [])"

definition ensure_gate_tools :: "jobject \<Rightarrow> string list \<Rightarrow> gate_fault + jobject \<times> string list" where
  "ensure_gate_tools body required =
     (let tools = declared_tools body in
      try_bind (add_required (tool_names tools) required tools) (\<lambda>r.
        Inr (od_set ''tools'' (JList (fst r)) body, snd r)))"

text \<open>The order of the injected names does not matter: every name has its own entry.\<close>

definition gate_aliases :: "json list \<Rightarrow> string list \<Rightarrow> (string, string) odict" where
  "gate_aliases tools injected =
     (let present = tool_names tools in
      List.map_filter (\<lambda>name. map_option (\<lambda>s. (name, s)) (find (\<lambda>s. s \<in> set present) (synonyms name))) injected)"

definition prepare_zen_body :: "jobject \<Rightarrow> string \<Rightarrow> string list \<Rightarrow> gate_fault + jobject \<times> string list" where
  "prepare_zen_body payload model required =
     ensure_gate_tools
       (od_set ''stream'' (JBool True) (od_set ''model'' (JStr model) (od_set ''messages'' (jget payload ''messages'') payload)))
       required"

section \<open>Calls in the answer\<close>

record call_filter =
  cf_injected :: "string list"
  cf_aliases :: "(string, string) odict"
  cf_dropped :: "int list"

definition keep_call :: "json \<Rightarrow> call_filter \<Rightarrow> json list \<times> call_filter" where
  "keep_call call st =
     (let d = obj_of call; index = j_int (jget d ''index'') in
      if (case index of Some i \<Rightarrow> i \<in> set (cf_dropped st) | None \<Rightarrow> False) then ([], st)
      else case jget d ''function'' of
        JObj f \<Rightarrow>
          (case jget f ''name'' of
             JStr n \<Rightarrow>
               if n \<in> set (cf_injected st) then
                 (case od_get (cf_aliases st) n of
                    None \<Rightarrow> ([], case index of Some i \<Rightarrow> st\<lparr>cf_dropped := List.insert i (cf_dropped st)\<rparr> | None \<Rightarrow> st)
                  | Some target \<Rightarrow> ([JObj (od_set ''function'' (JObj (od_set ''name'' (JStr target) f)) d)], st))
               else ([call], st)
           | _ \<Rightarrow> ([call], st))
      | _ \<Rightarrow> ([call], st))"

fun keep_calls :: "json list \<Rightarrow> call_filter \<Rightarrow> json list \<times> call_filter" where
  "keep_calls [] st = ([], st)"
| "keep_calls (c # cs) st =
     (let (k, st1) = keep_call c st; (ks, st2) = keep_calls cs st1 in (k @ ks, st2))"

text \<open>The flag tells whether a call was delivered; otherwise the end is no call of tools.\<close>

definition zen_event :: "event \<Rightarrow> call_filter \<times> bool \<Rightarrow> event list \<times> call_filter \<times> bool" where
  "zen_event ev st =
     (let (fl, some_kept) = st in
      if ev_kind ev = EvToolCalls \<and> ev_tool_calls ev \<notin> {None, Some []} then
        let (kept, fl1) = keep_calls (the (ev_tool_calls ev)) fl
        in if kept = [] then ([], fl1, some_kept) else ([calls_event kept], fl1, True)
      else if ev_kind ev = EvFinish \<and> ev_finish_reason ev = Some ''tool_calls'' \<and> \<not> some_kept then
        ([finish_ev ''stop''], st)
      else ([ev], st))"

fun zen_events :: "event list \<Rightarrow> call_filter \<times> bool \<Rightarrow> event list \<times> call_filter \<times> bool" where
  "zen_events [] st = ([], st)"
| "zen_events (ev # evs) st =
     (let (out, st1) = zen_event ev st; (outs, st2) = zen_events evs st1 in (out @ outs, st2))"

definition zen_step ::
    "(sse_frame \<Rightarrow> chunk_fault + event list) \<Rightarrow> call_filter \<times> bool \<Rightarrow> sse_frame \<Rightarrow> event list \<times> (stream_fault + call_filter \<times> bool)" where
  "zen_step parse st f =
     (case parse f of
        Inl e \<Rightarrow> ([], Inl (ChunkLost e))
      | Inr evs \<Rightarrow> (fst (zen_events evs st), Inr (snd (zen_events evs st))))"

text \<open>The answer to a request, for the tools that the prepared body declares and the names added to it.\<close>

definition zen_stream ::
    "(sse_frame \<Rightarrow> chunk_fault + event list) \<Rightarrow> jobject \<times> string list \<Rightarrow> utext list \<Rightarrow> event list \<times> (stream_fault + unit)" where
  "zen_stream parse prepared chunks =
     (let (body, injected) = prepared;
          fl = \<lparr>cf_injected = injected, cf_aliases = gate_aliases (declared_tools body) injected, cf_dropped = []\<rparr>;
          r = iter_frames chunks
      in then_yield (yield_all (zen_step parse) (fl, False) (fst r))
           (\<lambda>_. ([], case snd r of Inl e \<Rightarrow> Inl (FrameLost e) | Inr u \<Rightarrow> Inr u)))"

section \<open>The time in a session id\<close>

lemma hex_digits_inj: "m < 16 ^ k \<Longrightarrow> n < 16 ^ k \<Longrightarrow> hex_digits k m = hex_digits k n \<longleftrightarrow> m = n"
proof (induction k arbitrary: m n)
  case (Suc k)
  have "m div 16 < 16 ^ k" "n div 16 < 16 ^ k" using Suc.prems by (simp_all add: less_mult_imp_div_less mult.commute)
  then have "hex_digits k (m div 16) = hex_digits k (n div 16) \<longleftrightarrow> m div 16 = n div 16" by (rule Suc.IH)
  then show ?case by (auto simp: hex_digit_inj) (metis div_mult_mod_eq)
qed simp

lemma hex_digits_length: "length (hex_digits k n) = k"
  by (induction k arbitrary: n) simp_all

text \<open>The first digits of a session id are 12 and tell the time: two times have the same digits exactly when they
  are the same modulo \<open>2 ^ 36\<close> milliseconds, that is 795 days.\<close>

theorem session_prefix_tells_time:
  "length (session_time_prefix a) = 12 \<and> (session_time_prefix a = session_time_prefix b \<longleftrightarrow> a mod 2 ^ 36 = b mod 2 ^ 36)"
proof -
  have bound: "unat (session_value t) < 16 ^ 12" for t using unsigned_less[of "session_value t"] by simp
  have "session_time_prefix a = session_time_prefix b \<longleftrightarrow> session_value a = session_value b"
    by (simp add: session_time_prefix_def hex_digits_inj[OF bound bound] word_eq_iff_unsigned[where 'a = nat])
  also have "\<dots> \<longleftrightarrow> (word_of_int (a * 0x1000 + 1) :: word48) = word_of_int (b * 0x1000 + 1)"
    unfolding session_value_def by (metis bit.double_compl)
  also have "\<dots> \<longleftrightarrow> (a * 4096 + 1) mod 2 ^ 48 = (b * 4096 + 1) mod 2 ^ 48"
    unfolding word_of_int_eq_iff by (simp add: take_bit_eq_mod)
  also have "\<dots> \<longleftrightarrow> 2 ^ 48 dvd (a - b) * 4096" by (simp add: mod_eq_dvd_iff left_diff_distrib)
  also have "\<dots> \<longleftrightarrow> (2 ^ 36 :: int) * 4096 dvd (a - b) * 4096" by simp
  also have "\<dots> \<longleftrightarrow> 2 ^ 36 dvd a - b" by (subst dvd_times_right_cancel_iff) simp_all
  also have "\<dots> \<longleftrightarrow> a mod 2 ^ 36 = b mod 2 ^ 36" by (simp add: mod_eq_dvd_iff)
  finally show ?thesis by (simp add: session_time_prefix_def hex_digits_length)
qed

section \<open>Calls that are delivered\<close>

definition call_ok :: "string list \<Rightarrow> json \<Rightarrow> bool" where
  "call_ok injected call \<longleftrightarrow> (\<forall>n. tool_name call = Some n \<longrightarrow> n \<notin> set injected)"

definition filter_ok :: "call_filter \<Rightarrow> bool" where
  "filter_ok st \<longleftrightarrow> (\<forall>n t. od_get (cf_aliases st) n = Some t \<longrightarrow> t \<notin> set (cf_injected st))"

lemma keep_call_ok:
  assumes "filter_ok st" "keep_call call st = (kept, st')"
  shows "cf_injected st' = cf_injected st \<and> cf_aliases st' = cf_aliases st \<and> list_all (call_ok (cf_injected st)) kept"
proof -
  let ?d = "obj_of call"
  have same: "cf_injected st' = cf_injected st \<and> cf_aliases st' = cf_aliases st"
    using assms(2) by (auto simp: keep_call_def Let_def split: if_splits json.splits option.splits)
  have "call_ok (cf_injected st) c" if c: "c \<in> set kept" for c
  proof (cases "\<exists>f n t. jget ?d ''function'' = JObj f \<and> jget f ''name'' = JStr n \<and> n \<in> set (cf_injected st)
      \<and> od_get (cf_aliases st) n = Some t \<and> c = JObj (od_set ''function'' (JObj (od_set ''name'' (JStr t) f)) ?d)")
    case True
    then obtain t where "tool_name c = Some t" "t \<notin> set (cf_injected st)"
      using assms(1) by (auto simp: tool_name_def function_of_def jget_def filter_ok_def)
    then show ?thesis by (simp add: call_ok_def)
  next
    case False
    then have "c = call" and plain: "\<forall>f n. jget ?d ''function'' = JObj f \<longrightarrow> jget f ''name'' = JStr n \<longrightarrow> n \<notin> set (cf_injected st)"
      using assms(2) c by (auto simp: keep_call_def Let_def split: if_splits json.splits option.splits)
    then show ?thesis
      by (cases call) (auto simp: call_ok_def tool_name_def function_of_def obj_of_def split: json.splits)
  qed
  with same show ?thesis by (simp add: list_all_iff)
qed

lemma keep_calls_ok:
  "filter_ok st \<Longrightarrow> keep_calls cs st = (kept, st') \<Longrightarrow>
     cf_injected st' = cf_injected st \<and> cf_aliases st' = cf_aliases st \<and> list_all (call_ok (cf_injected st)) kept"
proof (induction cs arbitrary: st st' kept)
  case (Cons c cs)
  obtain k st1 where k: "keep_call c st = (k, st1)" by (cases "keep_call c st")
  obtain ks st2 where ks: "keep_calls cs st1 = (ks, st2)" by (cases "keep_calls cs st1")
  have a: "cf_injected st1 = cf_injected st" "cf_aliases st1 = cf_aliases st" "list_all (call_ok (cf_injected st)) k"
    using keep_call_ok[OF Cons.prems(1) k] by simp_all
  then have "filter_ok st1" using Cons.prems(1) by (simp add: filter_ok_def)
  from Cons.IH[OF this ks] a Cons.prems(2) k ks show ?case by auto
qed simp

text \<open>The stream of events never names an added tool, and says that it ends with calls only after a call.\<close>

fun ends_after_call :: "bool \<Rightarrow> event list \<Rightarrow> bool" where
  "ends_after_call seen [] = True"
| "ends_after_call seen (ev # evs) =
     ((ev_kind ev = EvFinish \<and> ev_finish_reason ev = Some ''tool_calls'' \<longrightarrow> seen)
        \<and> ends_after_call (seen \<or> ev_kind ev = EvToolCalls) evs)"

lemma ends_after_append:
  "ends_after_call seen (xs @ ys) = (ends_after_call seen xs \<and> ends_after_call (seen \<or> list_ex (\<lambda>ev. ev_kind ev = EvToolCalls) xs) ys)"
  by (induction xs arbitrary: seen) auto

definition event_ok :: "string list \<Rightarrow> event \<Rightarrow> bool" where
  "event_ok injected ev \<longleftrightarrow> (ev_kind ev = EvToolCalls \<longrightarrow> (\<forall>cs. ev_tool_calls ev = Some cs \<longrightarrow> list_all (call_ok injected) cs))"

definition run_ok :: "call_filter \<times> bool \<Rightarrow> event list \<Rightarrow> call_filter \<times> bool \<Rightarrow> bool" where
  "run_ok st out st' \<longleftrightarrow>
     cf_injected (fst st') = cf_injected (fst st) \<and> cf_aliases (fst st') = cf_aliases (fst st)
     \<and> list_all (event_ok (cf_injected (fst st))) out \<and> ends_after_call (snd st) out
     \<and> (snd st' \<longrightarrow> snd st \<or> list_ex (\<lambda>ev. ev_kind ev = EvToolCalls) out)"

lemma run_ok_refl: "run_ok st [] st"
  by (simp add: run_ok_def)

lemma ends_after_mono: "ends_after_call seen xs \<Longrightarrow> (seen \<longrightarrow> seen') \<Longrightarrow> ends_after_call seen' xs"
proof (induction xs arbitrary: seen seen')
  case (Cons ev xs)
  then show ?case using Cons.IH[of "seen \<or> ev_kind ev = EvToolCalls" "seen' \<or> ev_kind ev = EvToolCalls"] by auto
qed simp

lemma run_ok_trans:
  assumes "run_ok s a s1" "run_ok s1 b s2"
  shows "run_ok s (a @ b) s2"
proof -
  let ?h = "snd s \<or> list_ex (\<lambda>ev. ev_kind ev = EvToolCalls) a"
  have "ends_after_call ?h b" by (rule ends_after_mono[of "snd s1"]) (use assms in \<open>simp_all add: run_ok_def\<close>)
  moreover have "snd s2 \<longrightarrow> ?h \<or> list_ex (\<lambda>ev. ev_kind ev = EvToolCalls) b" using assms by (simp add: run_ok_def) blast
  ultimately show ?thesis using assms by (simp add: run_ok_def ends_after_append)
qed

lemma zen_event_ok: "filter_ok (fst st) \<Longrightarrow> zen_event ev st = (out, st') \<Longrightarrow> run_ok st out st'"
proof -
  assume f: "filter_ok (fst st)" and e: "zen_event ev st = (out, st')"
  obtain fl k where st: "st = (fl, k)" by (cases st)
  obtain kept fl1 where c: "keep_calls (the (ev_tool_calls ev)) fl = (kept, fl1)" by (cases "keep_calls (the (ev_tool_calls ev)) fl")
  have "cf_injected fl1 = cf_injected fl \<and> cf_aliases fl1 = cf_aliases fl \<and> list_all (call_ok (cf_injected fl)) kept"
    using keep_calls_ok[OF _ c] f st by simp
  with e c show ?thesis
    by (auto simp: zen_event_def st run_ok_def event_ok_def Let_def calls_event_def finish_ev_def mk_event_def split: if_splits)
qed

lemma zen_events_ok: "filter_ok (fst st) \<Longrightarrow> zen_events evs st = (out, st') \<Longrightarrow> run_ok st out st'"
proof (induction evs arbitrary: st st' out)
  case Nil
  then show ?case by (simp add: run_ok_refl)
next
  case (Cons ev evs)
  obtain a s1 where a: "zen_event ev st = (a, s1)" by (cases "zen_event ev st")
  obtain b s2 where b: "zen_events evs s1 = (b, s2)" by (cases "zen_events evs s1") auto
  have r: "run_ok st a s1" by (rule zen_event_ok[OF Cons.prems(1) a])
  then have "filter_ok (fst s1)" using Cons.prems(1) by (simp add: run_ok_def filter_ok_def)
  from run_ok_trans[OF r Cons.IH[OF this b]] a b Cons.prems(2) show ?case by auto
qed

lemma zen_frames_ok:
  "filter_ok (fst st) \<Longrightarrow> yield_all (zen_step parse) st fs = (out, r) \<Longrightarrow> \<exists>st'. run_ok st out st'"
proof (induction fs arbitrary: st out r)
  case Nil
  then show ?case using run_ok_refl[of st] by (auto simp del: split_paired_Ex)
next
  case (Cons f fs)
  show ?case
  proof (cases "parse f")
    case (Inl e)
    then show ?thesis using Cons.prems run_ok_refl[of st] by (auto simp: zen_step_def simp del: split_paired_Ex)
  next
    case (Inr evs)
    obtain a s1 where a: "zen_events evs st = (a, s1)" by (cases "zen_events evs st") auto
    obtain b r1 where b: "yield_all (zen_step parse) s1 fs = (b, r1)" by (cases "yield_all (zen_step parse) s1 fs")
    have r: "run_ok st a s1" by (rule zen_events_ok[OF Cons.prems(1) a])
    then have "filter_ok (fst s1)" using Cons.prems(1) by (simp add: run_ok_def filter_ok_def)
    from Cons.IH[OF this b] obtain s2 where "run_ok s1 b s2" by blast
    then have "run_ok st (a @ b) s2" by (rule run_ok_trans[OF r])
    moreover have "zen_step parse st f = (a, Inr s1)" using Inr a by (simp add: zen_step_def)
    ultimately show ?thesis using b Cons.prems(2) by (auto simp del: split_paired_Ex)
  qed
qed

text \<open>What is added to the request, and what the added names stand for.\<close>

lemma tool_names_simps [simp]:
  "tool_names [] = []" "tool_names (ts @ us) = tool_names ts @ tool_names us"
  "tool_names [empty_tool name proto] = [name]"
  by (simp_all add: tool_names_def map_filter_def empty_tool_def tool_name_def function_of_def jget_def Let_def split: json.split)

lemma add_required_names:
  "add_required present names tools = Inr (ts, injected) \<Longrightarrow>
     set injected = set names - set present \<and> set (tool_names ts) = set (tool_names tools) \<union> set injected"
proof (induction names arbitrary: tools injected)
  case (Cons name names)
  show ?case
  proof (cases "name \<in> set present")
    case True
    with Cons show ?thesis by auto
  next
    case False
    then obtain proto injected' where r: "add_required present names (tools @ [empty_tool name proto]) = Inr (ts, injected')"
        and i: "injected = List.insert name injected'"
      using Cons.prems by (auto simp: try_simps)
    from Cons.IH[OF r] i False show ?thesis by auto
  qed
qed simp

lemma alias_present:
  "od_get (gate_aliases tools injected) n = Some t \<Longrightarrow> n \<in> set injected \<and> t \<in> set (synonyms n) \<and> t \<in> set (tool_names tools)"
  by (induction injected)
    (auto simp: gate_aliases_def Let_def map_filter_simps find_Some_iff split: option.splits if_splits)

lemma prepared_names:
  assumes "prepare_zen_body payload model required = Inr (body, injected)"
  shows "set injected = set required - set (tool_names (declared_tools payload))"
    and "set (tool_names (declared_tools body)) = set (tool_names (declared_tools payload)) \<union> set injected"
proof -
  let ?p = "od_set ''stream'' (JBool True) (od_set ''model'' (JStr model) (od_set ''messages'' (jget payload ''messages'') payload))"
  have p: "declared_tools ?p = declared_tools payload" by (simp add: declared_tools_def jget_def)
  obtain ts where r: "add_required (tool_names (declared_tools payload)) required (declared_tools payload) = Inr (ts, injected)"
      and b: "body = od_set ''tools'' (JList ts) ?p"
    using assms by (auto simp: prepare_zen_body_def ensure_gate_tools_def Let_def p try_simps)
  have "declared_tools body = ts" by (simp add: b declared_tools_def jget_def)
  with add_required_names[OF r] show "set injected = set required - set (tool_names (declared_tools payload))"
    "set (tool_names (declared_tools body)) = set (tool_names (declared_tools payload)) \<union> set injected" by simp_all
qed


lemma synonyms_apart: "\<forall>n\<in>set REQUIRED_TOOLS. set (synonyms n) \<inter> set REQUIRED_TOOLS = {}"
  by (simp add: REQUIRED_TOOLS_def synonyms_def TOOL_SYNONYMS_def)

definition fake_call :: event where
  "fake_call = calls_event [JObj [(''index'', JInt 0), (''function'', JObj [(''name'', JStr ''bash''), (''arguments'', JStr ''x'')])]]"

definition declaring :: "string list \<Rightarrow> jobject" where
  "declaring names = [(''tools'', JList (map (\<lambda>n. JObj [(''function'', JObj [(''name'', JStr n)])]) names))]"


text \<open>
  The tool that gives its parameters to the added one is the first synonym the client declares, the tool that the calls
  are renamed to is the first in the table: the model sees the parameters of one tool and the client receives the call
  for another.
\<close>

theorem synonym_of_other_tool:
  "let execute = JObj [(''function'', JObj [(''name'', JStr ''execute''), (''parameters'', JObj [(''required'', JStr ''command'')])])];
       shell = JObj [(''function'', JObj [(''name'', JStr ''shell'')])]
   in find_synonym [execute, shell] (synonyms ''bash'') = Inr (Some [(''name'', JStr ''execute''), (''parameters'', JObj [(''required'', JStr ''command'')])])
      \<and> od_get (gate_aliases [execute, shell] [''bash'']) ''bash'' = Some ''shell''"
  by (simp add: function_of_def jget_def synonyms_def TOOL_SYNONYMS_def gate_aliases_def tool_names_def map_filter_simps tool_name_def)

text \<open>
  With a configured list that requires a tool and its synonym, the calls of one added tool are renamed to another added
  one, which the client never declared.
\<close>

theorem gate_alias_undeclared:
  "\<exists>body. prepare_zen_body (declaring []) ''m'' [''bash'', ''shell''] = Inr (body, [''bash'', ''shell''])
     \<and> od_get (gate_aliases (declared_tools body) [''bash'', ''shell'']) ''bash'' = Some ''shell''"
  by (simp add: prepare_zen_body_def ensure_gate_tools_def declaring_def declared_tools_def jget_def
      tool_names_def map_filter_simps tool_name_def function_of_def synonyms_def TOOL_SYNONYMS_def empty_tool_def Let_def gate_aliases_def)

text \<open>A declared tool whose name is a list makes the preparation raise an error that is no refusal of the request.\<close>

theorem unhashable_name_raises:
  "prepare_zen_body [(''tools'', JList [JObj [(''function'', JObj [(''name'', JList [])])]])] ''m'' REQUIRED_TOOLS = Inl UnhashableName"
  by (simp add: prepare_zen_body_def ensure_gate_tools_def declared_tools_def jget_def REQUIRED_TOOLS_def
      tool_names_def map_filter_simps tool_name_def function_of_def)

end
