(* ===== verification/ContextWiring.thy ===== *)
theory ContextWiring
  imports StickyTrim UpstreamErrors
begin

text \<open>
  \<^verbatim>\<open>src/engine/tool_output.py\<close>, which shortens the results of tools, and \<^verbatim>\<open>src/api/context.py\<close>, which puts it
  before the trimming of the conversation and finds the input limit of the model. A payload is its list of messages;
  the settings are the ones of the moment.
\<close>

section \<open>Lines\<close>

text \<open>\<^verbatim>\<open>\x1b\[[0-9;?]*[ -/]*[@-~]\<close>; the three classes have no character in common.\<close>

definition match_ansi :: "utext \<Rightarrow> utext option" where
  "match_ansi t =
     (if take 2 t \<noteq> [27, 91] then None
      else case dropWhile (\<lambda>c. 32 \<le> c \<and> c \<le> 47) (dropWhile (\<lambda>c. (48 \<le> c \<and> c \<le> 57) \<or> c = 59 \<or> c = 63) (drop 2 t)) of
             c # rest \<Rightarrow> if 64 \<le> c \<and> c \<le> 126 then Some rest else None
           | [] \<Rightarrow> None)"

text \<open>\<^verbatim>\<open>sub("", text)\<close>; the fuel is the length of the text.\<close>

fun strip_ansi :: "nat \<Rightarrow> utext \<Rightarrow> utext" where
  "strip_ansi 0 t = []"
| "strip_ansi (Suc n) t =
     (case t of
        [] \<Rightarrow> []
      | c # r \<Rightarrow> (case match_ansi t of Some rest \<Rightarrow> strip_ansi n rest | None \<Rightarrow> c # strip_ansi n r))"

definition is_break :: "nat \<Rightarrow> bool" where
  "is_break c \<longleftrightarrow> (10 \<le> c \<and> c \<le> 13) \<or> (28 \<le> c \<and> c \<le> 30) \<or> c = 133 \<or> c = 8232 \<or> c = 8233"

fun split_lines_at :: "utext \<Rightarrow> utext list" where
  "split_lines_at [] = []"
| "split_lines_at (c # r) =
     (if c = 13 \<and> r \<noteq> [] \<and> hd r = 10 then [] # split_lines_at (tl r)
      else if is_break c then [] # split_lines_at r
      else case split_lines_at r of [] \<Rightarrow> [[c]] | l # ls \<Rightarrow> (c # l) # ls)"

section \<open>Results of tools\<close>

definition DEFAULT_HEAD_LINES :: nat where "DEFAULT_HEAD_LINES = 40"
definition DEFAULT_TAIL_LINES :: nat where "DEFAULT_TAIL_LINES = 40"

definition ERROR_MARKERS :: "utext list" where
  "ERROR_MARKERS = map codes [''error'', ''fail'', ''fatal'', ''exception'', ''traceback'', ''panic'', ''denied'', ''timeout'', ''timed out'']
     @ [[38169, 35823], [22833, 36133], [24322, 24120], [36229, 26102], [25298, 32477]]"

definition is_error_line :: "utext \<Rightarrow> bool" where
  "is_error_line line = any_in ERROR_MARKERS (low line)"

function collapse_runs :: "utext list \<Rightarrow> utext list" where
  "collapse_runs [] = []"
| "collapse_runs (l # ls) =
     (let again = length (takeWhile (\<lambda>x. x = l) ls)
      in (if again = 0 then l else l @ [32, 40, 215] @ codes (dec_nat (again + 1)) @ [41])
           # collapse_runs (dropWhile (\<lambda>x. x = l) ls))"
  by pat_completeness auto

termination by (relation "measure length") (simp_all add: le_imp_less_Suc length_dropWhile_le)

definition TRIM_MARKER :: utext where
  "TRIM_MARKER = [10, 91, 46, 46, 46, 32, 30465, 30053, 32, 46, 46, 46, 93, 10]"

definition hard_trim :: "utext \<Rightarrow> nat \<Rightarrow> utext" where
  "hard_trim t limit =
     (if limit \<le> length TRIM_MARKER then take limit t
      else let keep = limit - length TRIM_MARKER; head = keep div 2
           in take head t @ TRIM_MARKER @ drop (length t - (keep - head)) t)"

definition omitted_line :: "nat \<Rightarrow> utext" where
  "omitted_line n = [91, 46, 46, 46, 32, 30465, 30053, 32] @ codes (dec_nat n) @ [32, 34892, 32, 46, 46, 46, 93]"

definition folded_text :: "nat \<Rightarrow> nat \<Rightarrow> utext list \<Rightarrow> utext" where
  "folded_text head_lines tail_lines collapsed =
     (if length collapsed > head_lines + tail_lines then
        let middle = drop head_lines (take (length collapsed - tail_lines) collapsed);
            kept = filter is_error_line middle
        in join_sep 10 (take head_lines collapsed @ [omitted_line (length middle - length kept)] @ kept
             @ drop (length collapsed - tail_lines) collapsed)
      else join_sep 10 collapsed)"

definition compress_tool_text :: "int \<Rightarrow> utext \<Rightarrow> utext" where
  "compress_tool_text max_chars t =
     (if max_chars \<le> 0 \<or> int (length t) \<le> max_chars then t
      else let text = folded_text DEFAULT_HEAD_LINES DEFAULT_TAIL_LINES (collapse_runs (split_lines_at (strip_ansi (length t) t)))
           in if int (length text) > max_chars then hard_trim text (nat max_chars) else text)"

definition compress_tool_message :: "int \<Rightarrow> message \<Rightarrow> message" where
  "compress_tool_message max_chars m =
     (case m_content m of
        CText t \<Rightarrow> if is_tool m then m\<lparr>m_content := CText (compress_tool_text max_chars t)\<rparr> else m
      | _ \<Rightarrow> m)"

definition compress_tool_outputs :: "int \<Rightarrow> message list \<Rightarrow> message list" where
  "compress_tool_outputs max_chars messages = map (compress_tool_message max_chars) messages"

section \<open>The input limit of a model\<close>

definition CHANNEL_WINDOW_FLOOR :: "(string, int) odict" where
  "CHANNEL_WINDOW_FLOOR = [(''trae'', 1048576)]"

text \<open>\<open>order\<close> is the order in which Python iterates the set of the two names, which differs from process to process.\<close>

definition context_window_for ::
    "(string list \<Rightarrow> string list) \<Rightarrow> (string, (string, json) odict) odict \<Rightarrow> (string, (string, string) odict) odict
      \<Rightarrow> string \<Rightarrow> string \<Rightarrow> int option" where
  "context_window_for order cache aliases provider model =
     (let name = py_strip model;
          name = (if CHR ''@'' \<in> set name then py_strip (fst (py_rpartition CHR ''@'' name)) else name);
          key = py_lower name
      in if key = [] then None
         else
           (let table = (case od_get cache provider of Some t \<Rightarrow> t | None \<Rightarrow> []);
                raw = (case Option.bind (od_get aliases provider) (\<lambda>a. od_get a key) of Some r \<Rightarrow> py_lower r | None \<Rightarrow> []);
                candidates = order (if raw = [] then [key] else remdups [key, raw]);
                size_of = (\<lambda>c. case od_get table c of Some (JInt n) \<Rightarrow> if n > 0 then Some n else None | _ \<Rightarrow> None)
            in case List.map_filter size_of candidates of
                 [] \<Rightarrow> None
               | n # _ \<Rightarrow> Some (max n (case od_get CHANNEL_WINDOW_FLOOR provider of Some f \<Rightarrow> f | None \<Rightarrow> 0))))"

section \<open>The compressor\<close>

record context_settings =
  cs_tools :: bool
  cs_tool_chars :: int
  cs_enabled :: bool
  cs_reserve :: rat
  cs_min_keep :: nat
  cs_safety :: rat
  cs_sticky :: bool

definition context_compress ::
    "(message \<Rightarrow> string) \<Rightarrow> context_settings \<Rightarrow> int option \<Rightarrow> string \<Rightarrow> message list \<Rightarrow> trimmer \<Rightarrow> message list \<times> trimmer" where
  "context_compress dig cs window key messages s =
     (let ms = (if cs_tools cs then compress_tool_outputs (cs_tool_chars cs) messages else messages)
      in if \<not> cs_enabled cs then (ms, s)
         else case window of
           None \<Rightarrow> (ms, s)
         | Some w \<Rightarrow>
             if cs_sticky cs then
               let (outcome, s1) = sticky_compress dig key ms w (cs_reserve cs) (cs_min_keep cs) (cs_safety cs) s
               in (to_messages outcome, s1)
             else (compress_messages ms w (cs_reserve cs) (cs_min_keep cs) (cs_safety cs), s))"

section \<open>Results of tools are shortened once\<close>

lemma hard_trim_length: "limit < length t \<Longrightarrow> length (hard_trim t limit) = limit"
  by (auto simp: hard_trim_def Let_def)

lemma compress_tool_text_length:
  "0 < limit \<Longrightarrow> int (length (compress_tool_text limit t)) \<le> limit"
proof -
  assume l: "0 < limit"
  have "int (length (hard_trim x (nat limit))) \<le> limit" if "limit < int (length x)" for x :: utext
    using hard_trim_length[of "nat limit" x] that l by simp
  with l show ?thesis by (simp add: compress_tool_text_def Let_def)
qed

lemma compress_tool_text_again: "compress_tool_text limit (compress_tool_text limit t) = compress_tool_text limit t"
proof (cases "0 < limit")
  case True
  then show ?thesis using compress_tool_text_length[OF True, of t] by (simp add: compress_tool_text_def[of limit "compress_tool_text limit t"])
qed (simp add: compress_tool_text_def)

lemma compress_tool_message_frame:
  "compress_tool_message limit m = m
   \<or> (\<exists>t. is_tool m \<and> m_content m = CText t \<and> compress_tool_message limit m = m\<lparr>m_content := CText (compress_tool_text limit t)\<rparr>)"
  by (cases "m_content m") (auto simp: compress_tool_message_def)


text \<open>What fits, and what belongs to a model of unknown size, is passed on with all its messages.\<close>

lemma fitting_conversation_passes:
  assumes "ms = (if cs_tools cs then compress_tool_outputs (cs_tool_chars cs) messages else messages)"
    and "\<not> cs_enabled cs \<or> window = None
      \<or> (\<exists>w. window = Some w \<and> (w \<le> 0 \<or> estimate_messages ms \<le> of_int w * cs_safety cs - cs_reserve cs))"
  shows "fst (context_compress dig cs window key messages s) = ms"
  using assms by (auto simp: context_compress_def sticky_compress_def compress_messages_def Let_def)

text \<open>A line that names an error is lost when the text is cut at its limit.\<close>

lemma plain_text_lines:
  "t \<noteq> [] \<Longrightarrow> list_all (\<lambda>c. \<not> is_break c \<and> c \<noteq> 27) t \<Longrightarrow> split_lines_at (strip_ansi (length t) t) = [t]"
proof -
  assume t: "t \<noteq> []" "list_all (\<lambda>c. \<not> is_break c \<and> c \<noteq> 27) t"
  have a: "strip_ansi (length x) x = x" if "list_all (\<lambda>c. \<not> is_break c \<and> c \<noteq> 27) x" for x
    using that by (induction x) (simp_all add: match_ansi_def)
  have "split_lines_at x = (if x = [] then [] else [x])" if "list_all (\<lambda>c. \<not> is_break c \<and> c \<noteq> 27) x" for x
    using that
  proof (induction x)
    case (Cons c x)
    then have "c \<noteq> 13" by (auto simp: is_break_def)
    with Cons show ?case by simp
  qed simp
  with a t show ?thesis by simp
qed

theorem error_line_lost:
  "is_error_line (codes ''aaaaaaerroraaaaaa'')
   \<and> compress_tool_text 16 (codes ''aaaaaaerroraaaaaa'') = [97] @ TRIM_MARKER @ [97]
   \<and> \<not> is_error_line ([97] @ TRIM_MARKER @ [97])"
proof (intro conjI)
  show "is_error_line (codes ''aaaaaaerroraaaaaa'')"
    by (simp add: is_error_line_def any_in_def ERROR_MARKERS_def low_def lower_code_def codes_def)
  have "split_lines_at (strip_ansi (length (codes ''aaaaaaerroraaaaaa'')) (codes ''aaaaaaerroraaaaaa'')) = [codes ''aaaaaaerroraaaaaa'']"
    by (rule plain_text_lines) (simp_all add: codes_def is_break_def)
  then show "compress_tool_text 16 (codes ''aaaaaaerroraaaaaa'') = [97] @ TRIM_MARKER @ [97]"
    by (simp add: compress_tool_text_def folded_text_def DEFAULT_HEAD_LINES_def hard_trim_def TRIM_MARKER_def) (simp add: codes_def)
  show "\<not> is_error_line ([97] @ TRIM_MARKER @ [97])"
    by (simp add: is_error_line_def any_in_def ERROR_MARKERS_def low_def lower_code_def codes_def TRIM_MARKER_def)
qed

text \<open>The limit depends on the order in which a set of two names is iterated.\<close>

theorem window_depends_on_order:
  "let cache = [(''qoder'', [(''glm'', JInt 1000), (''glm-pro'', JInt 200)])]; aliases = [(''qoder'', [(''glm'', ''GLM-Pro'')])]
   in context_window_for (\<lambda>l. l) cache aliases ''qoder'' ''glm'' = Some 1000
      \<and> context_window_for rev cache aliases ''qoder'' ''glm'' = Some 200"
  by code_simp

end
