(* ===== verification/UpstreamBody.thy ===== *)
theory UpstreamBody
  imports ChunkEvents ChatRequest Affinity "HOL-Library.Sublist"
begin

text \<open>
  The bodies and the names of conversations the clients send: \<^verbatim>\<open>build_chat_body\<close> of \<^verbatim>\<open>src/provider/qoder/client.py\<close>, \<^verbatim>\<open>prepare_body\<close> of
  \<^verbatim>\<open>src/provider/trae/client.py\<close>, the preparation in \<^verbatim>\<open>stream_chat\<close> of \<^verbatim>\<open>src/provider/codebuddy/client.py\<close>, and the plain
  ones of Kilo, Raccoon and CodeArts. Each works on a copy, so the changes in place are results here. \<open>repr\<close> is
  \<^verbatim>\<open>str()\<close> of a double, a list or a dictionary, \<open>dumps\<close> is \<^verbatim>\<open>json.dumps\<close>.
\<close>

section \<open>Messages\<close>

definition has_role :: "string \<Rightarrow> json \<Rightarrow> bool" where
  "has_role r m = (case m of JObj d \<Rightarrow> jget d ''role'' = JStr r | _ \<Rightarrow> False)"

definition message_list_of :: "jobject \<Rightarrow> json list option" where
  "message_list_of body = (case jget body ''messages'' of JList ms \<Rightarrow> Some ms | _ \<Rightarrow> None)"

text \<open>\<^verbatim>\<open>message["role"] = "system"\<close> for OpenAI's developer role, which no upstream knows.\<close>

definition developer_to_system :: "json \<Rightarrow> json" where
  "developer_to_system m =
     (case m of JObj d \<Rightarrow> if jget d ''role'' = JStr ''developer'' then JObj (od_set ''role'' (JStr ''system'') d) else m | _ \<Rightarrow> m)"

definition blank_call_name :: "jobject \<Rightarrow> bool" where
  "blank_call_name fn = blank_name (jget fn ''name'')"

section \<open>Plain bodies\<close>

definition plain_body :: "jobject \<Rightarrow> string \<Rightarrow> jobject" where
  "plain_body payload model =
     od_set ''stream'' (JBool True) (od_set ''model'' (JStr model) (od_set ''messages'' (jget payload ''messages'') payload))"

definition CODEARTS_MAX_OUTPUT :: int where "CODEARTS_MAX_OUTPUT = 65536"

definition capped_member :: "int \<Rightarrow> string \<Rightarrow> jobject \<Rightarrow> jobject" where
  "capped_member limit k body = (case jget body k of JInt n \<Rightarrow> od_set k (JInt (min n limit)) body | _ \<Rightarrow> body)"

definition codearts_body :: "jobject \<Rightarrow> string \<Rightarrow> string \<Rightarrow> jobject" where
  "codearts_body payload model chat_id =
     (let kept = filter (\<lambda>p. fst p \<notin> {''model'', ''stream'', ''messages'', ''chat_id'', ''prompt_cache_key'', ''tool_stream''}) payload;
          body = kept @ [(''model'', JStr model), (''stream'', JBool True), (''messages'', jget payload ''messages''),
                         (''chat_id'', JStr chat_id), (''prompt_cache_key'', JStr chat_id), (''tool_stream'', JBool True)]
      in capped_member CODEARTS_MAX_OUTPUT ''max_completion_tokens'' (capped_member CODEARTS_MAX_OUTPUT ''max_tokens'' body))"

text \<open>The older interface of CodeArts: one text per message.\<close>

definition flatten_content :: "json \<Rightarrow> string" where
  "flatten_content c =
     (case c of
        JStr t \<Rightarrow> t
      | JList bs \<Rightarrow> concat (map (\<lambda>b. case b of JObj d \<Rightarrow> (case jget d ''text'' of JStr t \<Rightarrow> t | _ \<Rightarrow> []) | _ \<Rightarrow> []) bs)
      | _ \<Rightarrow> [])"

definition legacy_block :: "json \<Rightarrow> json option" where
  "legacy_block m =
     (case m of
        JObj d \<Rightarrow>
          (let t = flatten_content (jget d ''content'');
               labelled = (case jget d ''role'' of JStr r \<Rightarrow> if r \<noteq> [] \<and> r \<noteq> ''user'' then r @ '': '' @ t else t | _ \<Rightarrow> t)
           in if t = [] then None else Some (JObj [(''type'', JStr ''text''), (''text'', JStr labelled)]))
      | _ \<Rightarrow> None)"

definition codearts_legacy_body :: "jobject \<Rightarrow> string \<Rightarrow> string \<Rightarrow> string \<Rightarrow> jobject" where
  "codearts_legacy_body payload model chat_id user_id =
     [(''chat_id'', JStr chat_id), (''client'', JStr ''IDE''), (''task'', JStr ''chat''),
      (''messages'', JList (case jget payload ''messages'' of JList ms \<Rightarrow> List.map_filter legacy_block ms | _ \<Rightarrow> [])),
      (''task_parameters'', JObj [(''ide'', JStr ''CodeArts Agent'')]), (''batch_task_parameters'', JList []), (''attempt'', JInt 1),
      (''not_allow_external_model'', JBool True), (''stream'', JBool True), (''model'', JStr model)] @
     (if user_id = [] then [] else [(''user_id'', JStr user_id)])"

section \<open>The name of a conversation\<close>

text \<open>\<open>sha\<close> is the SHA-256 of bytes in hexadecimal, \<open>dumps_sorted\<close> the \<^verbatim>\<open>json.dumps\<close> with sorted keys.\<close>

definition derive_chat_id :: "(string \<Rightarrow> string) \<Rightarrow> (json \<Rightarrow> string) \<Rightarrow> jobject \<Rightarrow> string" where
  "derive_chat_id sha dumps_sorted payload = take 32 (sha (utf8 (dumps_sorted (jget payload ''messages''))))"

definition conversation_seed :: "(string \<Rightarrow> string) \<Rightarrow> (json \<Rightarrow> string) \<Rightarrow> jobject \<Rightarrow> string option \<Rightarrow> string option" where
  "conversation_seed sha dumps_sorted payload sid =
     (case resolve_explicit payload sid of
        Some k \<Rightarrow> Some k
      | None \<Rightarrow>
          (case jget payload ''messages'' of
             JList ms \<Rightarrow>
               (case filter (\<lambda>m. case m of JObj d \<Rightarrow> jget d ''role'' \<noteq> JStr ''system'' \<and> jget d ''role'' \<noteq> JStr ''developer'' | _ \<Rightarrow> False) ms of
                  [] \<Rightarrow> None
                | m # _ \<Rightarrow> Some (''first:'' @ take 32 (sha (utf8 (dumps_sorted m)))))
           | _ \<Rightarrow> None))"

definition say_more :: "json list \<Rightarrow> jobject \<Rightarrow> jobject" where
  "say_more new payload = (case jget payload ''messages'' of JList ms \<Rightarrow> od_set ''messages'' (JList (ms @ new)) payload | _ \<Rightarrow> payload)"

text \<open>CodeBuddy's name of a conversation stays as it grows; CodeArts' changes with every message, though it is meant to stay.\<close>

lemma seed_of_longer:
  assumes "conversation_seed sha dumps payload sid = Some s"
  shows "conversation_seed sha dumps (say_more new payload) sid = Some s"
proof (cases "jget payload ''messages''")
  case (JList ms)
  have "explicit_key (od_set ''messages'' v payload) = explicit_key payload" for v
    by (cases "jget payload ''metadata''") (simp_all add: explicit_key_def EXPLICIT_KEYS_def containers_def)
  then show ?thesis
    using assms JList by (auto simp: conversation_seed_def say_more_def resolve_explicit_def split: option.splits list.splits)
qed (use assms in \<open>simp_all add: say_more_def\<close>)

lemma chat_id_of_longer:
  assumes "inj (\<lambda>v. take 32 (sha (utf8 (dumps v))))" "message_list_of payload = Some ms" "new \<noteq> []"
  shows "derive_chat_id sha dumps (say_more new payload) \<noteq> derive_chat_id sha dumps payload"
proof -
  have list: "jget payload ''messages'' = JList ms" using assms(2) by (simp add: message_list_of_def split: json.splits)
  have "JList (ms @ new) \<noteq> JList ms" using assms(3) by simp
  then show ?thesis using injD [OF assms(1)] list by (auto simp: derive_chat_id_def say_more_def)
qed

section \<open>Qoder\<close>

text \<open>\<^verbatim>\<open>message.get("content", "") is None\<close>: the member is there and null.\<close>

definition normalize_null_content :: "json \<Rightarrow> json" where
  "normalize_null_content m =
     (case m of
        JObj d \<Rightarrow>
          if (has_role ''assistant'' m \<or> has_role ''tool'' m) \<and> od_get d ''content'' = Some JNull
          then JObj (od_set ''content'' (JStr []) d) else m
      | _ \<Rightarrow> m)"

text \<open>\<^verbatim>\<open>for call in message.get("tool_calls") or []\<close> raises for a number or a truth value; of a text or an object
  the loop sees no dictionaries.\<close>

datatype body_fault = NotIterable | Unhashable

definition iter_objects :: "json \<Rightarrow> body_fault + jobject list" where
  "iter_objects v =
     (case v of
        JList xs \<Rightarrow> Inr (List.map_filter (\<lambda>x. case x of JObj d \<Rightarrow> Some d | _ \<Rightarrow> None) xs)
      | JInt n \<Rightarrow> if n = 0 then Inr [] else Inl NotIterable
      | JFloat r \<Rightarrow> if r = 0 then Inr [] else Inl NotIterable
      | JNonFinite \<Rightarrow> Inl NotIterable
      | JBool b \<Rightarrow> if b then Inl NotIterable else Inr []
      | _ \<Rightarrow> Inr [])"

definition call_ids :: "jobject \<Rightarrow> body_fault + string list" where
  "call_ids d =
     try_bind (iter_objects (jget d ''tool_calls'')) (\<lambda>calls.
       Inr (List.map_filter (\<lambda>c. j_text (jget c ''id'')) calls))"

text \<open>The ids declared, and the role of the message kept last.\<close>

fun drop_orphans :: "string list \<Rightarrow> json option \<Rightarrow> json list \<Rightarrow> body_fault + json list" where
  "drop_orphans declared previous [] = Inr []"
| "drop_orphans declared previous (m # ms) =
     (let role = (case m of JObj d \<Rightarrow> jget d ''role'' | _ \<Rightarrow> JNull) in
      if role = JStr ''tool'' then
        (case jget (obj_of m) ''tool_call_id'' of
           JStr i \<Rightarrow>
             if i \<in> set declared then try_bind (drop_orphans declared (Some role) ms) (\<lambda>r. Inr (m # r))
             else drop_orphans declared previous ms
         | _ \<Rightarrow> drop_orphans declared previous ms)
      else if role = JStr ''assistant'' then
        try_bind (call_ids (obj_of m)) (\<lambda>ids.
          try_bind (drop_orphans (if previous = Some (JStr ''assistant'') \<and> ids \<noteq> [] then declared @ ids else ids) (Some role) ms)
            (\<lambda>r. Inr (m # r)))
      else try_bind (drop_orphans [] (Some role) ms) (\<lambda>r. Inr (m # r)))"

definition QODER_KEYS :: "string list" where
  "QODER_KEYS = [''tools'', ''tool_choice'', ''temperature'', ''top_p'', ''stop'', ''presence_penalty'', ''frequency_penalty'', ''response_format'']"

definition qoder_parameters :: "(json \<Rightarrow> string) \<Rightarrow> jobject \<Rightarrow> jobject" where
  "qoder_parameters repr payload =
     (let max_tokens = (if jget payload ''max_tokens'' = JNull then jget payload ''max_completion_tokens'' else jget payload ''max_tokens'');
          own = jget payload ''reasoning_effort'';
          effort = (if j_truthy own then own else case jget payload ''reasoning'' of JObj d \<Rightarrow> jget d ''effort'' | _ \<Rightarrow> own)
      in (case max_tokens of JInt n \<Rightarrow> if n > 0 then [(''max_tokens'', JInt n)] else [] | _ \<Rightarrow> [])
         @ (if j_truthy effort then [(''reasoning_effort'', JStr (py_text repr effort))] else []))"

definition build_chat_body :: "(json \<Rightarrow> string) \<Rightarrow> jobject \<Rightarrow> string \<Rightarrow> body_fault + jobject" where
  "build_chat_body repr payload model =
     try_bind (case jget payload ''messages'' of
                 JList ms \<Rightarrow> try_bind (drop_orphans [] None (map normalize_null_content ms)) (\<lambda>r. Inr (JList r))
               | JNull \<Rightarrow> Inr (JList [])
               | v \<Rightarrow> Inr v) (\<lambda>messages.
       let body = [(''messages'', messages), (''model'', JStr model), (''stream'', JBool True), (''agent_id'', JStr ''agent_common'')];
           extra = List.map_filter (\<lambda>k. if jget payload k = JNull then None else Some (k, jget payload k)) QODER_KEYS;
           parameters = qoder_parameters repr payload
       in Inr (body @ extra @ (if parameters = [] then [] else [(''parameters'', JObj parameters)])))"

section \<open>TRAE\<close>

definition FUNCTION :: string where "FUNCTION = ''solo_work_lite''"

definition solo_call :: "json \<Rightarrow> json option" where
  "solo_call tc =
     (case tc of
        JObj d \<Rightarrow>
          (case jget d ''function'' of
             JObj fn \<Rightarrow>
               if blank_call_name fn then None
               else Some (JObj (od_del ''function'' (od_set ''function_call'' (JObj fn) d)))
           | _ \<Rightarrow> None)
      | _ \<Rightarrow> None)"

definition text_block :: "string \<Rightarrow> json" where
  "text_block t = JObj [(''type'', JStr ''text''), (''text'', JStr t)]"

text \<open>A message whose calls were all dropped goes with them when it says nothing else.\<close>

definition solo_message :: "json \<Rightarrow> json option" where
  "solo_message m =
     (case m of
        JObj d0 \<Rightarrow>
          (let d = (case jget d0 ''content'' of JStr t \<Rightarrow> od_set ''content'' (JList [text_block t]) d0 | _ \<Rightarrow> d0)
           in case jget d ''tool_calls'' of
                JList tcs \<Rightarrow>
                  (let kept = List.map_filter solo_call tcs
                   in if kept \<noteq> [] then Some (JObj (od_set ''tool_calls'' (JList kept) d))
                      else if jget d ''content'' = JNull then None
                      else Some (JObj (od_del ''tool_calls'' d)))
              | _ \<Rightarrow> Some (JObj d))
      | _ \<Rightarrow> Some m)"

definition solo_tool :: "(json \<Rightarrow> string) \<Rightarrow> json \<Rightarrow> json option" where
  "solo_tool dumps tool =
     (case tool of
        JObj d \<Rightarrow>
          (case jget d ''function'' of
             JObj fn \<Rightarrow>
               (let params = jget fn ''parameters'';
                    fn1 = (case params of
                             JObj _ \<Rightarrow> od_set ''parameters'' (JStr (dumps params)) fn
                           | JList _ \<Rightarrow> od_set ''parameters'' (JStr (dumps params)) fn
                           | JNull \<Rightarrow> od_set ''parameters'' (JStr ''{}'') fn
                           | _ \<Rightarrow> fn)
                in Some (JObj (od_set ''function'' (JObj fn1) d)))
           | _ \<Rightarrow> Some tool)
      | _ \<Rightarrow> None)"

definition normalize_tools :: "(json \<Rightarrow> string) \<Rightarrow> jobject \<Rightarrow> jobject" where
  "normalize_tools dumps body =
     (let choice = jget body ''tool_choice''; kind = jget (obj_of choice) ''type'' in
      if choice = JStr ''none'' \<or> kind = JStr ''none'' then
        od_del ''functions'' (od_del ''tools'' (od_del ''tool_choice'' body))
      else
        let b1 = (case choice of
                    JObj c \<Rightarrow>
                      (case (kind, j_text (jget (obj_of (jget c ''function'')) ''name'')) of
                         (JStr k, Some name) \<Rightarrow> if k = ''function'' then od_set ''tool_choice'' (JStr name) body else od_del ''tool_choice'' body
                       | _ \<Rightarrow> od_del ''tool_choice'' body)
                  | _ \<Rightarrow> body)
        in case jget b1 ''tools'' of
             JNull \<Rightarrow> od_del ''tools'' b1
           | JList ts \<Rightarrow> od_set ''tools'' (JList (List.map_filter (solo_tool dumps) ts)) b1
           | _ \<Rightarrow> b1)"

text \<open>What a Python set takes for the same key: a number and the truth value that equals it.\<close>

definition hash_key :: "json \<Rightarrow> body_fault + json" where
  "hash_key v =
     (case v of
        JList _ \<Rightarrow> Inl Unhashable
      | JObj _ \<Rightarrow> Inl Unhashable
      | JBool b \<Rightarrow> Inr (JInt (if b then 1 else 0))
      | JFloat r \<Rightarrow> Inr (if r = of_int \<lfloor>r\<rfloor> then JInt \<lfloor>r\<rfloor> else v)
      | _ \<Rightarrow> Inr v)"

definition known_call_ids :: "json list \<Rightarrow> body_fault + json list" where
  "known_call_ids ms =
     try_bind (try_map (\<lambda>m. if has_role ''assistant'' m
         then try_bind (iter_objects (jget (obj_of m) ''tool_calls'')) (try_map (\<lambda>tc. hash_key (jget tc ''id'')))
         else Inr []) ms) (\<lambda>ids. Inr (concat ids))"

definition drop_orphan_results :: "json list \<Rightarrow> body_fault + json list" where
  "drop_orphan_results ms =
     try_bind (known_call_ids ms) (\<lambda>known.
       try_bind (try_map (\<lambda>m. if has_role ''tool'' m
           then try_bind (hash_key (jget (obj_of m) ''tool_call_id'')) (\<lambda>i. Inr (if i \<in> set known then [m] else []))
           else Inr [m]) ms) (\<lambda>kept. Inr (concat kept)))"

definition trae_body :: "(json \<Rightarrow> string) \<Rightarrow> jobject \<Rightarrow> string \<Rightarrow> body_fault + jobject" where
  "trae_body dumps payload model =
     (let body = od_set ''model'' (JStr model) (od_set ''config_name'' (JStr model) (od_set ''function'' (JStr FUNCTION)
                   (od_set ''stream'' (JBool True) (od_set ''messages'' (jget payload ''messages'') payload))))
      in case message_list_of body of
           None \<Rightarrow> Inr (normalize_tools dumps body)
         | Some ms \<Rightarrow>
             try_bind (drop_orphan_results (List.map_filter solo_message (map developer_to_system ms))) (\<lambda>kept.
               Inr (od_set ''messages'' (JList kept) (normalize_tools dumps body))))"

section \<open>CodeBuddy\<close>

definition named_call :: "json \<Rightarrow> bool" where
  "named_call tc = (case tc of JObj d \<Rightarrow> (case jget d ''function'' of JObj fn \<Rightarrow> \<not> blank_call_name fn | _ \<Rightarrow> False) | _ \<Rightarrow> False)"

definition calls_in :: "json \<Rightarrow> json list" where
  "calls_in m = (case jget (obj_of m) ''tool_calls'' of JList tcs \<Rightarrow> tcs | _ \<Rightarrow> [])"

text \<open>The ids of dropped calls as texts; an entry that is no object has none.\<close>

definition dirty_ids :: "(json \<Rightarrow> string) \<Rightarrow> json \<Rightarrow> string list" where
  "dirty_ids repr m =
     List.map_filter (\<lambda>tc. case tc of JObj d \<Rightarrow> if named_call tc then None else Some (py_text repr (jget d ''id'')) | _ \<Rightarrow> None) (calls_in m)"

definition clean_message :: "json \<Rightarrow> json option" where
  "clean_message m =
     (case m of
        JObj d \<Rightarrow>
          (case jget d ''tool_calls'' of
             JList tcs \<Rightarrow>
               (let kept = filter named_call tcs
                in if kept \<noteq> [] then Some (JObj (od_set ''tool_calls'' (JList kept) d))
                   else if jget d ''content'' = JNull then None
                   else Some (JObj (od_del ''tool_calls'' d)))
           | _ \<Rightarrow> Some m)
      | _ \<Rightarrow> Some m)"

definition clean_history :: "(json \<Rightarrow> string) \<Rightarrow> json list \<Rightarrow> json list" where
  "clean_history repr ms =
     (let orphans = concat (map (dirty_ids repr) ms)
      in filter (\<lambda>m. \<not> (has_role ''tool'' m \<and> py_text repr (jget (obj_of m) ''tool_call_id'') \<in> set orphans))
           (List.map_filter clean_message ms))"

definition DEFAULT_LEADING_SYSTEM :: string where "DEFAULT_LEADING_SYSTEM = ''You are a helpful assistant.''"

definition ensure_leading_system :: "json list \<Rightarrow> json list" where
  "ensure_leading_system ms =
     (case ms of
        JObj d # _ \<Rightarrow>
          if jget d ''role'' = JStr ''system'' then ms
          else JObj [(''role'', JStr ''system''), (''content'', JStr DEFAULT_LEADING_SYSTEM)] # ms
      | _ \<Rightarrow> ms)"

definition CHANNEL_MARKERS :: "string list" where
  "CHANNEL_MARKERS =
     [''You are Claude Code, Anthropic'' @ [char_of (39 :: nat)] @ ''s official CLI for Claude.'', ''x-anthropic-billing-header'',
      ''Main branch (you will usually use this for PRs):'']"

definition CHANNEL_MARKER_STANDIN :: string where "CHANNEL_MARKER_STANDIN = ''[external-client-identity]''"

definition neutralize_text :: "string \<Rightarrow> string" where
  "neutralize_text t = fold (\<lambda>m. py_replace m CHANNEL_MARKER_STANDIN) CHANNEL_MARKERS t"

definition neutral_member :: "string \<Rightarrow> jobject \<Rightarrow> jobject" where
  "neutral_member k d = (case jget d k of JStr t \<Rightarrow> od_set k (JStr (neutralize_text t)) d | _ \<Rightarrow> d)"

definition neutral_block :: "json \<Rightarrow> json" where
  "neutral_block b = (case b of JObj d \<Rightarrow> if jget d ''type'' = JStr ''text'' then JObj (neutral_member ''text'' d) else b | _ \<Rightarrow> b)"

definition neutral_message :: "json \<Rightarrow> json" where
  "neutral_message m =
     (case m of
        JObj d \<Rightarrow>
          if has_role ''system'' m \<or> has_role ''assistant'' m then
            (case jget d ''content'' of
               JList bs \<Rightarrow> JObj (od_set ''content'' (JList (map neutral_block bs)) d)
             | _ \<Rightarrow> JObj (neutral_member ''content'' d))
          else m
      | _ \<Rightarrow> m)"

definition neutral_tool :: "json \<Rightarrow> json" where
  "neutral_tool tool =
     (case tool of
        JObj d \<Rightarrow> (case jget d ''function'' of JObj fn \<Rightarrow> JObj (od_set ''function'' (JObj (neutral_member ''description'' fn)) d) | _ \<Rightarrow> tool)
      | _ \<Rightarrow> tool)"

definition sanitize_channel_markers :: "jobject \<Rightarrow> jobject" where
  "sanitize_channel_markers body =
     (let b1 = (case jget body ''tools'' of JList ts \<Rightarrow> od_set ''tools'' (JList (map neutral_tool ts)) body | _ \<Rightarrow> body)
      in case message_list_of b1 of Some ms \<Rightarrow> od_set ''messages'' (JList (map neutral_message ms)) b1 | None \<Rightarrow> b1)"

definition set_default :: "string \<Rightarrow> json \<Rightarrow> jobject \<Rightarrow> jobject" where
  "set_default k v d = (if od_get d k = None then od_set k v d else d)"

definition codebuddy_body :: "(json \<Rightarrow> string) \<Rightarrow> bool \<Rightarrow> bool \<Rightarrow> jobject \<Rightarrow> string \<Rightarrow> jobject" where
  "codebuddy_body repr require_leading sanitize payload model =
     (let b0 = plain_body payload model;
          b1 = (case message_list_of b0 of
                  Some ms \<Rightarrow>
                    (let cleaned = map developer_to_system (clean_history repr ms)
                     in od_set ''messages'' (JList (if require_leading then ensure_leading_system cleaned else cleaned)) b0)
                | None \<Rightarrow> b0);
          b2 = (if sanitize then sanitize_channel_markers b1 else b1);
          b3 = set_default ''reasoning_effort'' (JStr ''medium'') (set_default ''enable_thinking'' (JBool True) b2);
          options = (case jget b3 ''stream_options'' of JObj o1 \<Rightarrow> o1 | _ \<Rightarrow> [])
      in od_set ''stream_options'' (JObj (od_set ''include_usage'' (JBool True) options)) b3)"

section \<open>Markers do not survive\<close>

lemma jget_od_del [simp]: "jget (od_del k d) k' = (if k = k' then JNull else jget d k')"
  by (simp add: jget_def)

definition marker_free :: "string \<Rightarrow> bool" where
  "marker_free t = list_all (\<lambda>m. \<not> py_contains m t) CHANNEL_MARKERS"

lemma neutral_text_free: "marker_free (neutralize_text t)"
proof -
  define r where "r = tl (butlast CHANNEL_MARKER_STANDIN)"
  have stand: "CHANNEL_MARKER_STANDIN = CHR ''['' # r @ '']''" unfolding r_def CHANNEL_MARKER_STANDIN_def by simp
  have apart: "list_all (\<lambda>n. CHR ''['' \<notin> set n \<and> CHR '']'' \<notin> set n \<and> n \<noteq> [] \<and> \<not> py_contains n (CHR ''['' # r)) CHANNEL_MARKERS"
    unfolding r_def by code_simp
  have step: "\<not> py_contains n (py_replace m CHANNEL_MARKER_STANDIN u)"
    if "n \<in> set CHANNEL_MARKERS" "n = m \<or> \<not> py_contains n u" for n m u
    unfolding stand using that apart by (intro replaced_free) (auto simp: list_all_iff stand)
  define a b c where "a = CHANNEL_MARKERS ! 0" and "b = CHANNEL_MARKERS ! 1" and "c = CHANNEL_MARKERS ! 2"
  have abc: "CHANNEL_MARKERS = [a, b, c]" unfolding a_def b_def c_def CHANNEL_MARKERS_def by simp
  show ?thesis unfolding marker_free_def neutralize_text_def using step by (simp add: abc)
qed


section \<open>What CodeBuddy is sent\<close>

definition content_texts :: "json \<Rightarrow> string list" where
  "content_texts m =
     (case jget (obj_of m) ''content'' of
        JStr t \<Rightarrow> [t]
      | JList bs \<Rightarrow> List.map_filter (\<lambda>b. if jget (obj_of b) ''type'' = JStr ''text''
                                       then (case jget (obj_of b) ''text'' of JStr t \<Rightarrow> Some t | _ \<Rightarrow> None) else None) bs
      | _ \<Rightarrow> [])"

definition privileged :: "json \<Rightarrow> bool" where
  "privileged m \<longleftrightarrow> has_role ''system'' m \<or> has_role ''assistant'' m"

lemma has_role_neutral [simp]: "has_role r (neutral_message m) = has_role r m"
  by (auto simp: neutral_message_def has_role_def neutral_member_def split: json.splits)

lemma calls_in_neutral [simp]: "calls_in (neutral_message m) = calls_in m"
  by (auto simp: neutral_message_def calls_in_def neutral_member_def obj_of_def split: json.splits)

lemma block_free: "jget (obj_of (neutral_block b)) ''type'' = JStr ''text'' \<Longrightarrow> jget (obj_of (neutral_block b)) ''text'' = JStr t \<Longrightarrow> marker_free t"
  by (auto simp: neutral_block_def neutral_member_def neutral_text_free obj_of_def split: json.splits if_splits)

lemma neutral_message_free:
  assumes "privileged m" "t \<in> set (content_texts (neutral_message m))"
  shows "marker_free t"
proof (cases m)
  case (JObj d)
  show ?thesis
  proof (cases "jget d ''content''")
    case (JList bs)
    with JObj assms obtain b where "b \<in> set bs" "jget (obj_of (neutral_block b)) ''type'' = JStr ''text''"
      "jget (obj_of (neutral_block b)) ''text'' = JStr t"
      by (auto simp: neutral_message_def privileged_def content_texts_def obj_of_def [of "JObj d" for d] map_filter_def
          split: json.splits if_splits)
    then show ?thesis using block_free by blast
  qed (use JObj assms in \<open>auto simp: neutral_message_def neutral_member_def privileged_def content_texts_def obj_of_def neutral_text_free\<close>)
qed (use assms in \<open>auto simp: privileged_def has_role_def\<close>)

lemma cleaned_named: "clean_message m = Some m' \<Longrightarrow> c \<in> set (calls_in m') \<Longrightarrow> named_call c"
  by (auto simp: clean_message_def calls_in_def obj_of_def Let_def split: json.splits if_splits)

lemma history_named: "m \<in> set (clean_history repr ms) \<Longrightarrow> c \<in> set (calls_in m) \<Longrightarrow> named_call c"
  by (auto simp: clean_history_def map_filter_def intro: cleaned_named)

lemma calls_in_developer [simp]: "calls_in (developer_to_system m) = calls_in m"
  by (auto simp: developer_to_system_def calls_in_def obj_of_def split: json.splits)

lemma no_developer [simp]: "\<not> has_role ''developer'' (developer_to_system m)"
  by (auto simp: developer_to_system_def has_role_def split: json.splits)

definition led_by_system :: "json list \<Rightarrow> bool" where
  "led_by_system ms = (case ms of JObj d # _ \<Rightarrow> has_role ''system'' (JObj d) | _ \<Rightarrow> True)"

lemma ensured: "led_by_system (ensure_leading_system ms)"
  by (auto simp: led_by_system_def ensure_leading_system_def has_role_def split: list.splits json.splits)

lemma ensured_cases: "m \<in> set (ensure_leading_system ms) \<Longrightarrow> m \<in> set ms \<or>
    m = JObj [(''role'', JStr ''system''), (''content'', JStr DEFAULT_LEADING_SYSTEM)]"
  by (auto simp: ensure_leading_system_def split: list.splits json.splits if_splits)

lemma led_neutral: "led_by_system ms \<Longrightarrow> led_by_system (map neutral_message ms)"
  by (cases ms) (auto simp: led_by_system_def neutral_message_def has_role_def neutral_member_def split: json.splits)

definition bodied :: "json list \<Rightarrow> (json \<Rightarrow> string) \<Rightarrow> bool \<Rightarrow> bool \<Rightarrow> json list" where
  "bodied ms repr require_leading sanitize =
     (let cleaned = map developer_to_system (clean_history repr ms);
          led = (if require_leading then ensure_leading_system cleaned else cleaned)
      in if sanitize then map neutral_message led else led)"

lemma list_of_set [simp]: "message_list_of (od_set k v d) = (if k = ''messages'' then (case v of JList ms \<Rightarrow> Some ms | _ \<Rightarrow> None) else message_list_of d)"
  by (simp add: message_list_of_def)

lemma list_of_default [simp]: "k \<noteq> ''messages'' \<Longrightarrow> message_list_of (set_default k v d) = message_list_of d"
  by (simp add: set_default_def)

lemma list_of_sanitized [simp]: "message_list_of (sanitize_channel_markers b) = map_option (map neutral_message) (message_list_of b)"
proof -
  have "message_list_of (case jget b ''tools'' of JList ts \<Rightarrow> od_set ''tools'' (JList (map neutral_tool ts)) b | _ \<Rightarrow> b) = message_list_of b"
    by (simp split: json.split)
  then show ?thesis by (simp add: sanitize_channel_markers_def Let_def split: option.split)
qed

lemma list_of_plain [simp]: "message_list_of (plain_body payload model) = message_list_of payload"
  by (simp add: plain_body_def) (simp add: message_list_of_def)

lemma codebuddy_messages:
  "message_list_of payload = Some ms \<Longrightarrow>
   message_list_of (codebuddy_body repr lead clean payload model) = Some (bodied ms repr lead clean)"
  by (simp add: codebuddy_body_def bodied_def Let_def)



text \<open>
  The ids of dropped calls count for the whole history: a result whose call is there and has a name is lost when an unnamed
  call elsewhere has the same id.
\<close>

definition call_with :: "string \<Rightarrow> string \<Rightarrow> json" where
  "call_with i name = JObj [(''id'', JStr i), (''function'', JObj [(''name'', JStr name), (''arguments'', JStr ''{}'')])]"

definition assistant_calling :: "json list \<Rightarrow> json" where
  "assistant_calling calls = JObj [(''role'', JStr ''assistant''), (''content'', JNull), (''tool_calls'', JList calls)]"

definition result_for :: "string \<Rightarrow> json" where
  "result_for i = JObj [(''role'', JStr ''tool''), (''tool_call_id'', JStr i), (''content'', JStr ''done'')]"

lemma answered_call_loses_result:
  "clean_history (\<lambda>_. []) [assistant_calling [call_with ''c1'' []], assistant_calling [call_with ''c1'' ''ls''], result_for ''c1''] =
     [assistant_calling [call_with ''c1'' ''ls'']]"
  by code_simp

section \<open>What Qoder is sent\<close>

definition ids_of :: "json \<Rightarrow> string list" where
  "ids_of m = (case call_ids (obj_of m) of Inr ids \<Rightarrow> ids | Inl _ \<Rightarrow> [])"

definition calling :: "json \<Rightarrow> bool" where
  "calling m \<longleftrightarrow> has_role ''assistant'' m \<and> ids_of m \<noteq> []"

text \<open>The calls a result may answer after the messages \<open>seen\<close>, the last first: those of the run of calling assistants just
  before, with only results in between.\<close>

definition open_ids :: "json list \<Rightarrow> string list" where
  "open_ids seen = concat (map ids_of (takeWhile calling (dropWhile (has_role ''tool'') seen)))"

definition answers_one_of :: "string list \<Rightarrow> json \<Rightarrow> bool" where
  "answers_one_of ids m = (case jget (obj_of m) ''tool_call_id'' of JStr i \<Rightarrow> i \<in> set ids | _ \<Rightarrow> False)"

lemma answers_set: "set ids = set ids' \<Longrightarrow> answers_one_of ids m = answers_one_of ids' m"
  by (simp add: answers_one_of_def split: json.split)

fun paired :: "json list \<Rightarrow> json list \<Rightarrow> bool" where
  "paired seen [] = True"
| "paired seen (m # ms) \<longleftrightarrow> (has_role ''tool'' m \<longrightarrow> answers_one_of (open_ids seen) m) \<and> paired (m # seen) ms"

definition role_of :: "json \<Rightarrow> json" where
  "role_of m = (case m of JObj d \<Rightarrow> jget d ''role'' | _ \<Rightarrow> JNull)"

lemma has_role_of: "has_role r m \<longleftrightarrow> role_of m = JStr r"
  by (simp add: has_role_def role_of_def split: json.split)

definition follows :: "json list \<Rightarrow> string list \<Rightarrow> json option \<Rightarrow> bool" where
  "follows seen declared previous \<longleftrightarrow>
     set declared = set (open_ids seen) \<and> previous = (case seen of [] \<Rightarrow> None | m # _ \<Rightarrow> Some (role_of m))"

lemma follows_tool: "follows seen declared previous \<Longrightarrow> has_role ''tool'' m \<Longrightarrow> follows (m # seen) declared (Some (role_of m))"
  by (simp add: follows_def open_ids_def)

lemma follows_other:
  "\<not> has_role ''tool'' m \<Longrightarrow> \<not> has_role ''assistant'' m \<Longrightarrow> follows (m # seen) [] (Some (role_of m))"
  by (simp add: follows_def open_ids_def calling_def)

lemma follows_assistant:
  assumes "follows seen declared previous" "has_role ''assistant'' m" "call_ids (obj_of m) = Inr ids"
  shows "follows (m # seen) (if previous = Some (JStr ''assistant'') \<and> ids \<noteq> [] then declared @ ids else ids) (Some (role_of m))"
  using assms
  by (cases seen) (auto simp: follows_def open_ids_def calling_def ids_of_def has_role_of)

lemma orphans_dropped:
  "drop_orphans declared previous ms = Inr sent \<Longrightarrow> follows seen declared previous \<Longrightarrow>
     paired seen sent \<and> subseq sent ms \<and> filter (\<lambda>m. \<not> has_role ''tool'' m) sent = filter (\<lambda>m. \<not> has_role ''tool'' m) ms \<and>
     (paired seen ms \<longrightarrow> sent = ms)"
proof (induction ms arbitrary: declared previous seen sent)
  case (Cons m ms)
  have role: "(case m of JObj d \<Rightarrow> jget d ''role'' | _ \<Rightarrow> JNull) = role_of m" by (simp add: role_of_def)
  have ids: "set declared = set (open_ids seen)" using Cons.prems(2) by (simp add: follows_def)
  consider (tool) "has_role ''tool'' m" | (assistant) "has_role ''assistant'' m" | (other) "\<not> has_role ''tool'' m" "\<not> has_role ''assistant'' m"
    by blast
  then show ?case
  proof cases
    case tool
    show ?thesis
    proof (cases "answers_one_of declared m")
      case True
      with tool Cons.prems(1) role obtain r where "drop_orphans declared (Some (role_of m)) ms = Inr r" "sent = m # r"
        by (auto simp: has_role_of answers_one_of_def try_bind_Inr split: json.splits)
      moreover note Cons.IH [OF this(1) follows_tool [OF Cons.prems(2) tool]]
      ultimately show ?thesis using tool True answers_set [OF ids] by auto
    next
      case False
      with tool Cons.prems(1) role have "drop_orphans declared previous ms = Inr sent"
        by (auto simp: has_role_of answers_one_of_def split: json.splits if_splits)
      from Cons.IH [OF this Cons.prems(2)] tool False answers_set [OF ids] show ?thesis by auto
    qed
  next
    case assistant
    with Cons.prems(1) role obtain ids r where ids: "call_ids (obj_of m) = Inr ids"
      and r: "drop_orphans (if previous = Some (JStr ''assistant'') \<and> ids \<noteq> [] then declared @ ids else ids) (Some (role_of m)) ms = Inr r"
      "sent = m # r"
      by (auto simp: has_role_of try_bind_Inr Let_def)
    from Cons.IH [OF r(1) follows_assistant [OF Cons.prems(2) assistant ids]] assistant r(2) show ?thesis
      by (auto simp: has_role_of)
  next
    case other
    with Cons.prems(1) role obtain r where r: "drop_orphans [] (Some (role_of m)) ms = Inr r" "sent = m # r"
      by (auto simp: has_role_of try_bind_Inr Let_def)
    from Cons.IH [OF r(1) follows_other [OF other]] other r(2) show ?thesis by auto
  qed
qed auto





section \<open>What TRAE is sent\<close>

definition solo_named :: "json \<Rightarrow> bool" where
  "solo_named c = (case c of JObj d \<Rightarrow> (case jget d ''function_call'' of JObj fn \<Rightarrow> \<not> blank_call_name fn \<and> jget d ''function'' = JNull | _ \<Rightarrow> False)
                         | _ \<Rightarrow> False)"

definition answers_some :: "json list \<Rightarrow> json \<Rightarrow> bool" where
  "answers_some ms m =
     list_ex (\<lambda>a. has_role ''assistant'' a \<and>
       list_ex (\<lambda>c. hash_key (jget (obj_of c) ''id'') = hash_key (jget (obj_of m) ''tool_call_id'')) (calls_in a)) ms"

lemma solo_call_named: "solo_call tc = Some c \<Longrightarrow> solo_named c"
  by (auto simp: solo_call_def solo_named_def split: json.splits if_splits)

lemma solo_message_shape:
  assumes "solo_message m = Some m'"
  shows "list_all solo_named (calls_in m')" "has_role r m' = has_role r m" "jget (obj_of m') ''content'' \<noteq> JStr t"
proof -
  show "list_all solo_named (calls_in m')"
    using assms
    by (auto simp: solo_message_def calls_in_def obj_of_def Let_def list_all_iff map_filter_def solo_call_named split: json.splits if_splits)
  show "has_role r m' = has_role r m"
    using assms by (auto simp: solo_message_def has_role_def Let_def split: json.splits if_splits)
  show "jget (obj_of m') ''content'' \<noteq> JStr t"
    using assms by (auto simp: solo_message_def obj_of_def Let_def split: json.splits if_splits)
qed

lemma list_all2_source: "list_all2 P xs ys \<Longrightarrow> y \<in> set ys \<Longrightarrow> \<exists>x \<in> set xs. P x y"
  by (induction rule: list_all2_induct) auto

lemma known_declared:
  assumes "known_call_ids ms = Inr known" "i \<in> set known"
  shows "\<exists>a \<in> set ms. has_role ''assistant'' a \<and> (\<exists>c \<in> set (calls_in a). hash_key (jget (obj_of c) ''id'') = Inr i)"
proof -
  from assms obtain idss where
    idss: "list_all2 (\<lambda>m ids. (if has_role ''assistant'' m
        then try_bind (iter_objects (jget (obj_of m) ''tool_calls'')) (try_map (\<lambda>tc. hash_key (jget tc ''id''))) else Inr []) = Inr ids) ms idss"
    and known: "known = concat idss"
    by (auto simp: known_call_ids_def try_bind_Inr try_map_Inr)
  from assms(2) known obtain ids where mem: "ids \<in> set idss" "i \<in> set ids" by auto
  from list_all2_source [OF idss mem(1)] obtain a where a: "a \<in> set ms"
    and eq: "(if has_role ''assistant'' a
        then try_bind (iter_objects (jget (obj_of a) ''tool_calls'')) (try_map (\<lambda>tc. hash_key (jget tc ''id''))) else Inr []) = Inr ids"
    by blast
  from eq mem(2) obtain objs where role: "has_role ''assistant'' a" and objs: "iter_objects (jget (obj_of a) ''tool_calls'') = Inr objs"
    and ids: "list_all2 (\<lambda>c i. hash_key (jget c ''id'') = Inr i) objs ids"
    by (auto simp: try_bind_Inr try_map_Inr split: if_splits)
  from list_all2_source [OF ids mem(2)] obtain c where c: "c \<in> set objs" "hash_key (jget c ''id'') = Inr i" by blast
  from objs c(1) have "JObj c \<in> set (calls_in a)"
    by (auto simp: iter_objects_def calls_in_def map_filter_def split: json.splits if_splits)
  with role c(2) a show ?thesis by (intro bexI [of _ a]) (auto simp: obj_of_def intro!: bexI [of _ "JObj c"])
qed

lemma results_kept:
  assumes "drop_orphan_results ms = Inr sent"
  shows "set sent \<subseteq> set ms" "filter (\<lambda>m. \<not> has_role ''tool'' m) sent = filter (\<lambda>m. \<not> has_role ''tool'' m) ms"
    "\<And>m. m \<in> set sent \<Longrightarrow> has_role ''tool'' m \<Longrightarrow> answers_some sent m"
proof -
  obtain known keptss where known: "known_call_ids ms = Inr known"
    and kept: "list_all2 (\<lambda>m kept. (if has_role ''tool'' m
           then try_bind (hash_key (jget (obj_of m) ''tool_call_id'')) (\<lambda>i. Inr (if i \<in> set known then [m] else []))
           else Inr [m]) = Inr kept) ms keptss"
    and sent: "sent = concat keptss"
    using assms by (auto simp: drop_orphan_results_def try_bind_Inr try_map_Inr)
  have one: "kept = (if has_role ''tool'' m \<and> kept = [] then [] else [m])"
    "has_role ''tool'' m \<Longrightarrow> kept \<noteq> [] \<Longrightarrow> \<exists>i \<in> set known. hash_key (jget (obj_of m) ''tool_call_id'') = Inr i"
    if "(if has_role ''tool'' m
           then try_bind (hash_key (jget (obj_of m) ''tool_call_id'')) (\<lambda>i. Inr (if i \<in> set known then [m] else []))
           else Inr [m]) = Inr kept" for m kept
    using that by (auto simp: try_bind_Inr split: if_splits)
  show sub: "set sent \<subseteq> set ms"
  proof
    fix m
    assume "m \<in> set sent"
    then obtain k where k: "m \<in> set k" "k \<in> set keptss" using sent by auto
    from list_all2_source [OF kept k(2)] obtain m' where "m' \<in> set ms" and eq: "(if has_role ''tool'' m'
           then try_bind (hash_key (jget (obj_of m') ''tool_call_id'')) (\<lambda>i. Inr (if i \<in> set known then [m'] else []))
           else Inr [m']) = Inr k" by blast
    then show "m \<in> set ms" using k(1) one(1) [OF eq] by (auto split: if_splits)
  qed
  show others: "filter (\<lambda>m. \<not> has_role ''tool'' m) sent = filter (\<lambda>m. \<not> has_role ''tool'' m) ms"
    unfolding sent using kept
  proof induction
    case (Cons m ms k ks)
    then show ?case using one(1) [OF Cons(1)] by (cases "has_role ''tool'' m \<and> k = []") auto
  qed simp
  show "answers_some sent m" if "m \<in> set sent" "has_role ''tool'' m" for m
  proof -
    from that(1) sent obtain k where k: "m \<in> set k" "k \<in> set keptss" by auto
    from list_all2_source [OF kept k(2)] obtain m' where eq: "(if has_role ''tool'' m'
           then try_bind (hash_key (jget (obj_of m') ''tool_call_id'')) (\<lambda>i. Inr (if i \<in> set known then [m'] else []))
           else Inr [m']) = Inr k" by blast
    from k(1) have "m' = m" "k \<noteq> []" using one(1) [OF eq] by (auto split: if_splits)
    with one(2) [OF eq] that(2) obtain i where i: "i \<in> set known" "hash_key (jget (obj_of m) ''tool_call_id'') = Inr i" by auto
    from known_declared [OF known i(1)] obtain a c where a: "a \<in> set ms" "has_role ''assistant'' a" "c \<in> set (calls_in a)"
      "hash_key (jget (obj_of c) ''id'') = Inr i" by blast
    then have "a \<in> set (filter (\<lambda>m. \<not> has_role ''tool'' m) sent)" unfolding others by (auto simp: has_role_of)
    with a i(2) show ?thesis by (auto simp: answers_some_def list_ex_iff)
  qed
qed

lemma list_of_tools [simp]: "message_list_of (normalize_tools dumps body) = message_list_of body"
proof -
  have del: "k \<noteq> ''messages'' \<Longrightarrow> message_list_of (od_del k d) = message_list_of d" for k d by (simp add: message_list_of_def)
  show ?thesis by (simp add: normalize_tools_def Let_def del split: json.split option.split)
qed

text \<open>
  C0. The conversation TRAE is sent has no developer role and no plain text for a content, its calls all have a name in the
  shape the upstream reads, and each result answers a call that is sent.
\<close>

theorem trae_conversation_acceptable:
  assumes "message_list_of payload = Some ms" and "trae_body dumps payload model = Inr body"
  shows "\<exists>sent. message_list_of body = Some sent \<and>
     (\<forall>m \<in> set sent. \<not> has_role ''developer'' m \<and> (\<forall>t. jget (obj_of m) ''content'' \<noteq> JStr t) \<and> list_all solo_named (calls_in m) \<and>
        (has_role ''tool'' m \<longrightarrow> answers_some sent m))"
proof -
  have list: "jget payload ''messages'' = JList ms" using assms(1) by (simp add: message_list_of_def split: json.splits)
  let ?ms = "List.map_filter solo_message (map developer_to_system ms)"
  from assms(2) list obtain sent where sent: "drop_orphan_results ?ms = Inr sent"
    and body: "message_list_of body = Some sent"
    by (auto simp: trae_body_def Let_def try_bind_Inr)
  have "\<not> has_role ''developer'' m \<and> jget (obj_of m) ''content'' \<noteq> JStr t \<and> list_all solo_named (calls_in m)"
    if "m \<in> set sent" for m t
  proof -
    from results_kept(1) [OF sent] that obtain m0 where "solo_message (developer_to_system m0) = Some m" by (auto simp: map_filter_def)
    from solo_message_shape [OF this] show ?thesis by simp
  qed
  with body results_kept(3) [OF sent] show ?thesis by auto
qed

theorem trae_conversation_acceptable_witness:
  "\<exists>sent. message_list_of (case trae_body (\<lambda>_. []) [(''messages'', JList [assistant_calling [call_with ''c1'' ''ls'', call_with ''c2'' []],
       result_for ''c1'', result_for ''c2''])] ''m'' of Inr body \<Rightarrow> body | Inl _ \<Rightarrow> []) = Some sent \<and> length sent = 2 \<and>
     answers_some sent (sent ! 1)"
proof -
  let ?ms = "[assistant_calling [call_with ''c1'' ''ls'', call_with ''c2'' []], result_for ''c1'', result_for ''c2'']"
  let ?payload = "[(''messages'', JList ?ms)]"
  have list: "message_list_of ?payload = Some ?ms" by code_simp
  define body where "body = (case trae_body (\<lambda>_. []) ?payload ''m'' of Inr body \<Rightarrow> body | Inl _ \<Rightarrow> [])"
  have ok: "\<not> isl (trae_body (\<lambda>_. []) ?payload ''m'')" by code_simp
  then have body: "trae_body (\<lambda>_. []) ?payload ''m'' = Inr body" unfolding body_def by (cases "trae_body (\<lambda>_. []) ?payload ''m''") auto
  have two: "map_option (\<lambda>s. (length s, has_role ''tool'' (s ! 1))) (message_list_of body) = Some (2, True)" unfolding body_def by code_simp
  from trae_conversation_acceptable [OF list body] obtain sent where sent: "message_list_of body = Some sent"
    and all: "\<forall>m \<in> set sent. has_role ''tool'' m \<longrightarrow> answers_some sent m" by blast
  from two sent have "length sent = 2" "has_role ''tool'' (sent ! 1)" by auto
  with all sent body_def show ?thesis by (metis nth_mem one_less_numeral_iff semiring_norm(76))
qed

end
