(* ===== verification/Spec2Isabelle.thy ===== *)
theory Spec2Isabelle
  imports Prelude Inflight HalfOpen LimitGuard ProviderBase Scheduler CredStore Affinity ModelResolver Compress StickyTrim Reasoning ExecPolicy ExecLoop ExecPick ExecReact ExecRun ExecOutcome ExecCorners Dsml ChatStream ChatExec Continuation AnthropicStream ResponsesStream RateWindow PyNum KeyQuota LoginThrottle Accounts ChatRequest AnthropicRequest ResponsesRequest Conversations Pacer UpstreamErrors UpstreamReact Sse ChunkEvents VendorEvents ZenGate ContextWiring UpstreamBody
begin

text \<open>
  A verification development for the core of Coding2API, a gateway that offers several accounts of
  coding assistants (the upstreams) behind one HTTP interface.

  \<^bold>\<open>The program.\<close> A request enters in one of three protocols (chat completions, Anthropic messages,
  responses). Its body is checked and mapped to a chat request (\<^verbatim>\<open>src/compat/*/request.py\<close>). It is
  admitted by session or key (\<^verbatim>\<open>src/auth\<close>, \<^verbatim>\<open>src/api\<close>) and by the quota of the key
  (\<^verbatim>\<open>src/key_quota.py\<close>). The executor (\<^verbatim>\<open>src/engine/executor.py\<close>) resolves the model name, builds
  the chain of fallback models, and per model runs a loop of attempts: it picks a credential
  (scheduler, daily limits, in-flight leases, half-open probes, conversation affinity), trims the
  conversation to the input limit, calls the upstream, passes the events to the translator of the
  client's protocol (\<^verbatim>\<open>src/compat/*/response.py\<close>), and reacts to errors by cooldowns, rotation to
  another credential, waiting in the upstream's queue, a lower reasoning effort, or the next model.
  Every outcome is written to the credential table (\<^verbatim>\<open>src/db/repo.py\<close>) and to the usage rows.

  \<^bold>\<open>Theories and code.\<close>

  \<^item> \<open>Prelude\<close>: strings, insertion-ordered dictionaries as association lists, Python's string
    operations, and the interfaces \<open>sliding_window\<close> and \<open>bounded_cache\<close>. \<open>ProviderBase\<close>: JSON values,
    error kinds, events and usage of \<^verbatim>\<open>src/provider/base.py\<close>. \<open>PyNum\<close>: the conversion of an integer to a
    double, and results that are an error or a value. \<open>RateWindow\<close>: the interface \<open>rate_limiter\<close>.
  \<^item> \<open>Inflight\<close>, \<open>HalfOpen\<close>, \<open>LimitGuard\<close>, \<open>Scheduler\<close>: the modules of \<^verbatim>\<open>src/engine\<close> with the same
    names (\<open>LimitGuard\<close> is \<^verbatim>\<open>limits.py\<close>): leases per credential, one probe per cooled scope, the caps of a
    day, the choice among the candidates and the cooldowns an error leads to.
  \<^item> \<open>CredStore\<close>: \<^verbatim>\<open>CredentialRepository\<close> of \<^verbatim>\<open>src/db/repo.py\<close>; a table is a list of records, an
    \<^verbatim>\<open>UPDATE\<close> a map over it. The interface \<open>credential_pool\<close> says what an error does to the pool the
    scheduler sees.
  \<^item> \<open>ModelResolver\<close>, \<open>Affinity\<close>, \<open>Compress\<close>, \<open>StickyTrim\<close>, \<open>Reasoning\<close>: model names and fallback
    groups, the stickiness of a conversation to a credential, trimming to a budget, the memory of the
    last cut, and the reasoning effort.
  \<^item> \<open>ExecPolicy\<close> and \<open>ExecLoop\<close> are \<^verbatim>\<open>src/engine/executor.py\<close>: classification, choice of a credential and
    reactions in the first, the streaming and the collecting loop in the second. \<open>ExecPick\<close>, \<open>ExecReact\<close>,
    \<open>ExecRun\<close>, \<open>ExecOutcome\<close> and \<open>ExecCorners\<close> hold what is proved of them; the loops are instances of
    the interface \<open>retry_loop\<close>, the operations they call of \<open>reaction_frame\<close>.
  \<^item> \<open>Dsml\<close>, \<open>ChatStream\<close>, \<open>AnthropicStream\<close>, \<open>ResponsesStream\<close>: the translators of the events to
    the frames of the three protocols. \<open>ChatExec\<close> plugs the chat translator into the executor,
    \<open>Continuation\<close> is \<^verbatim>\<open>src/engine/continuation.py\<close>.
  \<^item> \<open>ChatRequest\<close>, \<open>AnthropicRequest\<close>, \<open>ResponsesRequest\<close>: the request modules of the three
    protocols. \<open>Conversations\<close> composes them with the affinity.
  \<^item> \<open>KeyQuota\<close>, \<open>LoginThrottle\<close>, \<open>Accounts\<close>: the quota guard with the admission of
    \<^verbatim>\<open>src/api/endpoints.py\<close>, the failure windows of the login, and users, sessions, roles,
    activation and bootstrap.
  \<^item> \<open>Pacer\<close>: \<^verbatim>\<open>src/tasks/pacer.py\<close>, as atomic sections between the suspensions of \<^verbatim>\<open>wait_turn\<close>, with
    the tasks that wait or hold places in the state.
  \<^item> \<open>UpstreamErrors\<close>: what the refusal of an upstream means (business codes and queue hints of
    \<^verbatim>\<open>src/provider/base.py\<close>, \<^verbatim>\<open>classify_status\<close> and \<^verbatim>\<open>classify_error_code\<close> of the eight
    \<^verbatim>\<open>events.py\<close>); \<open>UpstreamReact\<close> composes it with the reactions of the executor.
  \<^item> \<open>Sse\<close>, \<open>ChunkEvents\<close>, \<open>VendorEvents\<close>: the way from the chunks of an answer to events: frames
    (\<^verbatim>\<open>src/engine/sse.py\<close>), the reader of OpenAI chunks (\<^verbatim>\<open>src/provider/openai_chunk.py\<close>) and the upstreams that
    share it, and CodeArts, Qoder and TRAE with formats of their own. A generator is what it yielded
    and an error or its state. \<open>ZenGate\<close>: the tools that \<^verbatim>\<open>src/provider/zen/client.py\<close> adds to a request
    and takes out of the answer again. \<open>UpstreamBody\<close>: the bodies of requests and the names of conversations in
    the other \<^verbatim>\<open>client.py\<close>.
  \<^item> \<open>ContextWiring\<close>: \<^verbatim>\<open>src/engine/tool_output.py\<close> and the compressor of \<^verbatim>\<open>src/api/context.py\<close>, over
    \<open>Compress\<close> and \<open>StickyTrim\<close>.

  \<^bold>\<open>What is shown.\<close> Invariants: leases are given back, at most one pinned credential, at least one
  active administrator, bounded tables. Safety: a response comes from one credential, an unusable
  credential is never chosen, a key bound to a channel stays there, a revoked session stays out.
  Refinement and equivalence: the store implements the abstract pool, the sticky trimmer the plain
  one, streaming and aggregated answers agree, request mappings produce bodies the chat parser
  accepts unchanged and keep the conversation; a stream gives the same events however it is cut. Termination and liveness: the loops end, a usable
  credential is found, a continued conversation finds its credential. Where the code does something
  other than its comments say, a theorem states what it does.

  \<^bold>\<open>Bounds.\<close> \<open>pick\<close> runs one round per row of the table and one more, since each round that does not
  end excludes a credential. The loops take a list of inputs, one per round (what the upstream
  does in it); \<open>retry_loops_end\<close> shows that \<open>max_rotate + 9\<close> inputs suffice, since rotations, queue
  rounds and lowered efforts are each bounded, so no result rests on running out of inputs. \<open>choose_cred\<close> recurs on the candidates that are left,
  \<open>strip_invokes\<close> on the text, the continuation on its limit.

  \<^bold>\<open>Parameters.\<close> What the code calls and does not define is an argument: the stream of an upstream and
  its clock, \<^verbatim>\<open>json.dumps\<close> and \<^verbatim>\<open>json.loads\<close> on texts, SHA-256, HMAC, PBKDF2 and base64, the usage
  queries of the limits. Time is a rational number of seconds. Numbers of JSON are exact rationals;
  \<open>py_float\<close> rounds the integers the code converts. The strings of \<open>json\<close> are character lists of
  8 bits; where code points matter (\<open>utext\<close>) a text is a list of numbers.

  \<^bold>\<open>Not modelled.\<close> The HTTP clients and sign-in flows of the upstreams (\<^verbatim>\<open>src/provider/*/\<close>): network
  I/O, vendor encryption and signatures. The SQL aggregation of the statistics and the
  rendering of the administration pages, logging, migrations, backups, start-up and scripts: queries and
  glue without logic of their own. Asynchronous code is modelled as the sequence of its atomic
  sections between two suspensions, with the environment acting in between where the executor awaits.
\<close>

end
